(* ===== verification/Rust_Prelude.thy ===== *)
theory Rust_Prelude
  imports Main "HOL-Library.Word" "HOL-Library.List_Lexorder" "HOL-Library.Char_ord" "HOL-Library.Multiset"
begin

unbundle bit_operations_syntax

text \<open>
  What every component of the development shares: the machine integers and byte strings of the
  Rust sources, \<open>RusticResult\<close> as a sum type whose left summand also records panics, the bind and
  traversal combinators that stand for the \<open>?\<close> operator and for \<open>collect::<Result<_, _>>()\<close>,
  checked integer conversions, the little-endian layout of \<open>u32\<close> values, and generic lemmas on
  lists and sums. Arithmetic on \<open>u32\<close> and \<open>u64\<close> is word arithmetic, which wraps around as the
  release profile of the crate does (\<open>overflow-checks\<close> is off there).
\<close>

section \<open>Machine integers, byte strings\<close>

type_synonym u8 = "8 word"
type_synonym u32 = "32 word"
type_synonym u64 = "64 word"
type_synonym bytes = "u8 list"

named_theorems result_simps \<open>rewrite rules for the result combinators\<close>
named_theorems bytes_simps \<open>lengths and inverses of byte encodings\<close>

section \<open>Errors as values\<close>

datatype ErrorKind =
  EAppendOnly | EBackend | EConfiguration | ECryptography | EExternalCommand | EInternal
| EInvalidInput | EInputOutput | EKey | EMissingInput | EOther | ECredentials | ERepository
| EUnsupported | EVerification | EVfs

datatype rustic_error =
  RusticError ErrorKind string
| Panic string

type_synonym 'a rustic_result = "rustic_error + 'a"

definition bindR :: "'e + 'a \<Rightarrow> ('a \<Rightarrow> 'e + 'b) \<Rightarrow> 'e + 'b" where
  "bindR m f = (case m of Inl e \<Rightarrow> Inl e | Inr x \<Rightarrow> f x)"

definition ok_or :: "rustic_error \<Rightarrow> 'a option \<Rightarrow> 'a rustic_result" where
  "ok_or e m = (case m of None \<Rightarrow> Inl e | Some x \<Rightarrow> Inr x)"

definition map_err :: "('e \<Rightarrow> 'f) \<Rightarrow> 'e + 'a \<Rightarrow> 'f + 'a" where
  "map_err f m = (case m of Inl e \<Rightarrow> Inl (f e) | Inr x \<Rightarrow> Inr x)"

fun traverseR :: "('a \<Rightarrow> 'e + 'b) \<Rightarrow> 'a list \<Rightarrow> 'e + 'b list" where
  "traverseR f [] = Inr []"
| "traverseR f (x # xs) = bindR (f x) (\<lambda>y. bindR (traverseR f xs) (\<lambda>ys. Inr (y # ys)))"

fun foldR :: "('a \<Rightarrow> 's \<Rightarrow> 'e + 's) \<Rightarrow> 'a list \<Rightarrow> 's \<Rightarrow> 'e + 's" where
  "foldR f [] s = Inr s"
| "foldR f (x # xs) s = bindR (f x s) (\<lambda>s'. foldR f xs s')"

definition is_ok :: "'e + 'a \<Rightarrow> bool" where
  "is_ok m = (case m of Inl _ \<Rightarrow> False | Inr _ \<Rightarrow> True)"

lemma bindR_simps [simp, result_simps]:
  "bindR (Inl e) f = Inl e"
  "bindR (Inr x) f = f x"
  by (simp_all add: bindR_def)

lemma bindR_eq_Inr_iff [result_simps]:
  "bindR m f = Inr y \<longleftrightarrow> (\<exists>x. m = Inr x \<and> f x = Inr y)"
  by (cases m) simp_all

lemma bindR_eq_Inl_iff [result_simps]:
  "bindR m f = Inl e \<longleftrightarrow> m = Inl e \<or> (\<exists>x. m = Inr x \<and> f x = Inl e)"
  by (cases m) simp_all

lemma bindR_assoc: "bindR (bindR m f) g = bindR m (\<lambda>x. bindR (f x) g)"
  by (cases m) simp_all

lemma ok_or_simps [simp, result_simps]:
  "ok_or e None = Inl e"
  "ok_or e (Some x) = Inr x"
  by (simp_all add: ok_or_def)

lemma ok_or_eq_Inr_iff [result_simps]: "ok_or e m = Inr y \<longleftrightarrow> m = Some y"
  by (cases m) simp_all

lemma map_err_simps [simp, result_simps]:
  "map_err f (Inl e) = Inl (f e)"
  "map_err f (Inr x) = Inr x"
  by (simp_all add: map_err_def)

lemma map_err_eq_Inr_iff [result_simps]: "map_err f m = Inr y \<longleftrightarrow> m = Inr y"
  by (cases m) simp_all

lemma is_ok_simps [simp, result_simps]:
  "\<not> is_ok (Inl e)"
  "is_ok (Inr x)"
  by (simp_all add: is_ok_def)

lemma is_ok_iff: "is_ok m \<longleftrightarrow> (\<exists>x. m = Inr x)"
  by (cases m) simp_all

lemma traverseR_eq_Inr_iff:
  "traverseR f xs = Inr ys \<longleftrightarrow> list_all2 (\<lambda>x y. f x = Inr y) xs ys"
  by (induction xs arbitrary: ys) (auto simp: result_simps list_all2_Cons1)

lemma traverseR_ok: "(\<And>x. x \<in> set xs \<Longrightarrow> f x = Inr (g x)) \<Longrightarrow> traverseR f xs = Inr (map g xs)"
  by (induction xs) auto

lemma foldR_append: "foldR f (xs @ ys) s = bindR (foldR f xs s) (foldR f ys)"
proof (induction xs arbitrary: s)
  case (Cons x xs)
  then show ?case by (cases "f x s") auto
qed simp

lemma foldR_invariant:
  assumes "foldR f xs s = Inr s'" and "P s"
    and "\<And>x s s'. x \<in> set xs \<Longrightarrow> P s \<Longrightarrow> f x s = Inr s' \<Longrightarrow> P s'"
  shows "P s'"
  using assms by (induction xs arbitrary: s) (auto simp: result_simps)

lemma foldR_ok_fold:
  assumes "\<And>x s. x \<in> set xs \<Longrightarrow> f x s = Inr (g x s)"
  shows "foldR f xs s = Inr (fold g xs s)"
  using assms by (induction xs arbitrary: s) auto

lemma foldR_cong:
  assumes "\<And>x s. x \<in> set xs \<Longrightarrow> f x s = g x s"
  shows "foldR f xs s = foldR g xs s"
  using assms
proof (induction xs arbitrary: s)
  case (Cons x xs)
  then show ?case by (cases "g x s") simp_all
qed simp

section \<open>Checked conversions\<close>

definition u32_try_from :: "nat \<Rightarrow> u32 option" where
  "u32_try_from n = (if n < 2 ^ 32 then Some (of_nat n) else None)"

definition u64_try_from :: "nat \<Rightarrow> u64 option" where
  "u64_try_from n = (if n < 2 ^ 64 then Some (of_nat n) else None)"

text \<open>\<open>NonZeroU32::new\<close>: the wrapped value, or \<open>None\<close> for zero.\<close>

definition NonZeroU32_new :: "u32 \<Rightarrow> u32 option" where
  "NonZeroU32_new n = (if n = 0 then None else Some n)"

text \<open>\<open>usize\<close> subtraction without overflow checks.\<close>

definition usize_sub :: "nat \<Rightarrow> nat \<Rightarrow> nat" where
  "usize_sub a b = (if b \<le> a then a - b else 2 ^ 64 - (b - a))"

lemma u32_try_from_Some: "u32_try_from n = Some w \<Longrightarrow> unat w = n"
  by (auto simp: u32_try_from_def unat_of_nat split: if_splits)

lemma u32_try_from_ok: "n < 2 ^ 32 \<Longrightarrow> u32_try_from n = Some (of_nat n)"
  by (simp add: u32_try_from_def)

lemma u32_try_from_unat [simp]: "u32_try_from (unat w) = Some w"
  by (simp add: u32_try_from_def unsigned_less [of w, simplified])

lemma usize_sub_ge [simp]: "b \<le> a \<Longrightarrow> usize_sub a b = a - b"
  by (simp add: usize_sub_def)

lemma unat_u32_of_nat: "n < 2 ^ 32 \<Longrightarrow> unat (of_nat n :: u32) = n"
  by (simp add: unat_of_nat)

lemma unat_ucast_u32_u64: "unat (ucast (a :: u32) :: u64) = unat a"
proof -
  have "unat a < 2 ^ 32" using unsigned_less [of a] by simp
  then show ?thesis by (simp add: unsigned_ucast_eq take_bit_eq_mod)
qed

lemma unat_u64_of_nat: "n < 2 ^ 64 \<Longrightarrow> unat (of_nat n :: u64) = n"
  by (simp add: unat_of_nat)

lemma unat_u32_add: "unat (a :: u32) + unat b < 2 ^ 32 \<Longrightarrow> unat (a + b) = unat a + unat b"
  by (simp add: unat_word_ariths)

lemma unat_u32_diff: "b \<le> (a :: u32) \<Longrightarrow> unat (a - b) = unat a - unat b"
  by (rule unat_sub)

section \<open>Little-endian layout\<close>

definition u32_to_le_bytes :: "u32 \<Rightarrow> bytes" where
  "u32_to_le_bytes w = [ucast w, ucast (drop_bit 8 w), ucast (drop_bit 16 w), ucast (drop_bit 24 w)]"

definition u32_from_le_bytes :: "u8 \<Rightarrow> u8 \<Rightarrow> u8 \<Rightarrow> u8 \<Rightarrow> u32" where
  "u32_from_le_bytes a b c d =
     ucast a OR push_bit 8 (ucast b) OR push_bit 16 (ucast c) OR push_bit 24 (ucast d)"

lemma length_u32_to_le_bytes [simp, bytes_simps]: "length (u32_to_le_bytes w) = 4"
  by (simp add: u32_to_le_bytes_def)

lemma u32_le_roundtrip [simp, bytes_simps]:
  "u32_from_le_bytes (ucast w) (ucast (drop_bit 8 w)) (ucast (drop_bit 16 w)) (ucast (drop_bit 24 w)) = w"
  unfolding u32_from_le_bytes_def
proof (rule bit_word_eqI)
  fix n assume n: "n < LENGTH(32)"
  consider "n < 8" | "8 \<le> n" "n < 16" | "16 \<le> n" "n < 24" | "24 \<le> n" by linarith
  then show "bit (ucast (ucast w :: u8) OR push_bit 8 (ucast (ucast (drop_bit 8 w) :: u8)) OR
      push_bit 16 (ucast (ucast (drop_bit 16 w) :: u8)) OR
      push_bit 24 (ucast (ucast (drop_bit 24 w) :: u8)) :: u32) n = bit w n"
    using n by cases (auto simp: bit_simps)
qed

lemma u8_bit_high [simp]: "8 \<le> n \<Longrightarrow> \<not> bit (a :: u8) n"
  using bit_imp_le_length [of a n] by auto

lemma u32_le_roundtrip2 [bytes_simps]:
  "u32_to_le_bytes (u32_from_le_bytes a b c d) = [a, b, c, d]"
  unfolding u32_from_le_bytes_def u32_to_le_bytes_def
  by (auto simp: bit_simps intro!: bit_word_eqI)

section \<open>Lists\<close>

text \<open>The slice \<open>xs[a..b]\<close>.\<close>

definition subslice :: "nat \<Rightarrow> nat \<Rightarrow> 'a list \<Rightarrow> 'a list" where
  "subslice a b xs = take (b - a) (drop a xs)"

lemma length_subslice [simp]: "b \<le> length xs \<Longrightarrow> length (subslice a b xs) = b - a"
  by (simp add: subslice_def)

lemma subslice_append_mid:
  "subslice (length xs) (length xs + length ys) (xs @ ys @ zs) = ys"
  by (simp add: subslice_def)

lemma subslice_append_left: "b \<le> length xs \<Longrightarrow> subslice a b (xs @ ys) = subslice a b xs"
  by (simp add: subslice_def)

lemma subslice_append_mid':
  "a = length xs \<Longrightarrow> b = a + length ys \<Longrightarrow> subslice a b (xs @ ys @ zs) = ys"
  by (simp add: subslice_def)

lemma sorted_key_mset_unique:
  assumes "mset xs = mset ys" and "sorted (map f xs)" and "sorted (map f ys)"
    and "inj_on f (set xs)"
  shows "xs = ys"
proof -
  have "set ys = set xs" using assms(1) by (metis set_mset_mset)
  moreover have "map f xs = map f ys"
    using assms(1-3) by (metis mset_map properties_for_sort sorted_sort_id)
  ultimately show ?thesis using assms(4) by (metis map_inj_on sup.idem)
qed

lemma list_all2_right: "list_all2 P xs ys \<Longrightarrow> y \<in> set ys \<Longrightarrow> \<exists>x \<in> set xs. P x y"
  by (induction rule: list_all2_induct) auto

lemma list_all2_left: "list_all2 P xs ys \<Longrightarrow> x \<in> set xs \<Longrightarrow> \<exists>y \<in> set ys. P x y"
  by (induction rule: list_all2_induct) auto

section \<open>Orderings and decimal numbers\<close>

text \<open>\<^verbatim>\<open>std::cmp::Ordering\<close> with \<^verbatim>\<open>cmp\<close> on a linear order and \<^verbatim>\<open>then\<close>.\<close>

datatype Ordering = Less | Equal | Greater

definition ord_cmp :: "'a::linorder \<Rightarrow> 'a \<Rightarrow> Ordering" where
  "ord_cmp x y = (if x < y then Less else if x = y then Equal else Greater)"

fun then_cmp :: "Ordering \<Rightarrow> Ordering \<Rightarrow> Ordering" where
  "then_cmp Equal o' = o'"
| "then_cmp o' _ = o'"

lemma ord_cmp_simps [simp]:
  "ord_cmp x y = Less \<longleftrightarrow> x < y" "ord_cmp x y = Equal \<longleftrightarrow> x = y" "ord_cmp x y = Greater \<longleftrightarrow> y < x"
  by (auto simp: ord_cmp_def)

lemma then_cmp_simps [simp]:
  "then_cmp a b = Less \<longleftrightarrow> a = Less \<or> (a = Equal \<and> b = Less)"
  "then_cmp a b = Equal \<longleftrightarrow> a = Equal \<and> b = Equal"
  "then_cmp a b = Greater \<longleftrightarrow> a = Greater \<or> (a = Equal \<and> b = Greater)"
  by (cases a; simp)+

text \<open>\<^verbatim>\<open>str::parse::<u64>\<close>: an optional plus sign and at least one digit, in range.\<close>

definition digit_of :: "char \<Rightarrow> nat option" where
  "digit_of ch = (if CHR ''0'' \<le> ch \<and> ch \<le> CHR ''9'' then Some (of_char ch - 48) else None)"

fun dec_value :: "nat \<Rightarrow> string \<Rightarrow> nat option" where
  "dec_value acc [] = Some acc"
| "dec_value acc (ch # s) = (case digit_of ch of None \<Rightarrow> None | Some d \<Rightarrow> dec_value (10 * acc + d) s)"

definition parse_u64 :: "string \<Rightarrow> u64 option" where
  "parse_u64 s =
     (let ds = (case s of ch # r \<Rightarrow> if ch = CHR ''+'' then r else s | [] \<Rightarrow> []) in
      if ds = [] then None
      else case dec_value 0 ds of
        None \<Rightarrow> None
      | Some n \<Rightarrow> if n < 2 ^ 64 then Some (of_nat n) else None)"

section \<open>Splitting and joining\<close>

text \<open>\<^verbatim>\<open>split\<close> at a separator and \<^verbatim>\<open>join\<close>.\<close>

fun split_char :: "'a \<Rightarrow> 'a list \<Rightarrow> 'a list list" where
  "split_char c [] = [[]]"
| "split_char c (x # xs) =
    (if x = c then [] # split_char c xs else (x # hd (split_char c xs)) # tl (split_char c xs))"

fun join_char :: "'a \<Rightarrow> 'a list list \<Rightarrow> 'a list" where
  "join_char c [] = []"
| "join_char c [s] = s"
| "join_char c (s # ss) = s @ c # join_char c ss"

lemma split_char_not_Nil [simp]: "split_char c s \<noteq> []"
  by (cases s) auto

lemma split_char_append: "c \<notin> set s \<Longrightarrow> split_char c (s @ c # t) = s # split_char c t"
  by (induction s) auto

lemma split_char_single: "c \<notin> set s \<Longrightarrow> split_char c s = [s]"
  by (induction s) auto

lemma split_join: "ss \<noteq> [] \<Longrightarrow> \<forall>s \<in> set ss. c \<notin> set s \<Longrightarrow> split_char c (join_char c ss) = ss"
  by (induction c ss rule: join_char.induct) (simp_all add: split_char_append split_char_single)

end
