(* ===== verification/Ids.thy ===== *)
theory Ids
  imports Rust_Prelude
begin

text \<open>
  Object identifiers (\<open>crates/core/src/id.rs\<close>): an \<open>Id\<close> is an array of 32 bytes, ordered
  lexicographically; the search for the identifiers that start with given prefixes keeps one
  \<open>FindResult\<close> per request and refuses requests that match no item or several. The hexadecimal
  form (crate \<open>hex\<close>) is a parameter of the search.
\<close>

section \<open>Identifiers\<close>

type_synonym Id = bytes

definition LEN :: nat where
  "LEN = 32"

definition Id_default :: Id where
  "Id_default = replicate LEN 0"

definition wf_id :: "Id \<Rightarrow> bool" where
  "wf_id i \<longleftrightarrow> length i = LEN"

definition is_null :: "Id \<Rightarrow> bool" where
  "is_null i \<longleftrightarrow> i = Id_default"

definition as_u32 :: "Id \<Rightarrow> u32" where
  "as_u32 i = u32_from_le_bytes (i ! 0) (i ! 1) (i ! 2) (i ! 3)"

lemma wf_Id_default [simp]: "wf_id Id_default"
  by (simp add: wf_id_def Id_default_def)

section \<open>Unique search\<close>

datatype 'a FindResult = NotFound | Found 'a | NonUnique

type_synonym 'a FindUniqueResults = "'a FindResult list"

definition FindUniqueResults_new :: "'s list \<Rightarrow> 'a FindUniqueResults" where
  "FindUniqueResults_new vec = replicate (length vec) NotFound"

text \<open>One item against every request: the loop of \<open>add_item\<close> visits the slots in order.\<close>

fun add_item :: "'a \<Rightarrow> ('a \<Rightarrow> 's \<Rightarrow> bool) \<Rightarrow> 's list \<Rightarrow> 'a FindUniqueResults \<Rightarrow> 'a FindUniqueResults" where
  "add_item item cmp (v # with) (r # rs) =
     (if cmp item v
      then (case r of NotFound \<Rightarrow> Found item | _ \<Rightarrow> NonUnique)
      else r) # add_item item cmp with rs"
| "add_item item cmp _ rs = rs"

definition find_unique_multiple ::
    "('a \<Rightarrow> 's \<Rightarrow> bool) \<Rightarrow> 's list \<Rightarrow> 'a list \<Rightarrow> 'a FindUniqueResults" where
  "find_unique_multiple cmp with items =
     fold (\<lambda>item rs. add_item item cmp with rs) items (FindUniqueResults_new with)"

definition assert_found_one :: "'a FindResult \<Rightarrow> 'a rustic_result" where
  "assert_found_one r =
     (case r of
        Found x \<Rightarrow> Inr x
      | NotFound \<Rightarrow> Inl (RusticError EBackend ''No suitable id found for `{id}`.'')
      | NonUnique \<Rightarrow> Inl (RusticError EBackend ''Id not unique: `{id}`.''))"

definition assert_found :: "'a FindUniqueResults \<Rightarrow> 'a list rustic_result" where
  "assert_found rs = traverseR assert_found_one rs"

definition find_starts_with_from_iter ::
    "(Id \<Rightarrow> string) \<Rightarrow> string list \<Rightarrow> Id list \<Rightarrow> Id list rustic_result" where
  "find_starts_with_from_iter to_hex vec iter =
     assert_found (find_unique_multiple (\<lambda>i v. take (length v) (to_hex i) = v) vec iter)"

section \<open>What the search returns\<close>

text \<open>The slot of a request after all items: by how many items of the stream match it.\<close>

definition find_spec :: "('a \<Rightarrow> bool) \<Rightarrow> 'a list \<Rightarrow> 'a FindResult" where
  "find_spec p items =
     (case filter p items of [] \<Rightarrow> NotFound | [x] \<Rightarrow> Found x | _ \<Rightarrow> NonUnique)"

lemma length_add_item [simp]: "length (add_item item cmp with rs) = length rs"
  by (induction item cmp "with" rs rule: add_item.induct) auto

lemma add_item_nth:
  "i < length with \<Longrightarrow> length with = length rs \<Longrightarrow>
   add_item item cmp with rs ! i =
     (if cmp item (with ! i)
      then (case rs ! i of NotFound \<Rightarrow> Found item | _ \<Rightarrow> NonUnique)
      else rs ! i)"
proof (induction item cmp "with" rs arbitrary: i rule: add_item.induct)
  case (1 item cmp v "with" r rs)
  then show ?case by (cases i) auto
qed auto

lemma find_spec_snoc:
  "find_spec p (items @ [x]) =
     (if p x
      then (case find_spec p items of NotFound \<Rightarrow> Found x | _ \<Rightarrow> NonUnique)
      else find_spec p items)"
  by (auto simp: find_spec_def split: list.splits)

lemma fold_add_item_spec:
  "fold (\<lambda>item rs. add_item item cmp with rs) items (FindUniqueResults_new with)
     = map (\<lambda>v. find_spec (\<lambda>x. cmp x v) items) with"
proof (induction items rule: rev_induct)
  case Nil
  then show ?case
    by (simp add: FindUniqueResults_new_def find_spec_def map_replicate_const)
next
  case (snoc x items)
  then show ?case
    by (auto intro!: nth_equalityI simp: add_item_nth find_spec_snoc split: if_splits)
qed

lemma find_unique_multiple_spec:
  "find_unique_multiple cmp with items = map (\<lambda>v. find_spec (\<lambda>x. cmp x v) items) with"
  by (simp add: find_unique_multiple_def fold_add_item_spec)

lemma assert_found_one_Inr: "assert_found_one r = Inr x \<longleftrightarrow> r = Found x"
  by (auto simp: assert_found_one_def split: FindResult.splits)

lemma find_spec_Found: "find_spec p items = Found x \<longleftrightarrow> filter p items = [x]"
  by (auto simp: find_spec_def split: list.splits)

lemma assert_found_iff:
  "assert_found (find_unique_multiple cmp with items) = Inr xs \<longleftrightarrow>
     list_all2 (\<lambda>v x. filter (\<lambda>y. cmp y v) items = [x]) with xs"
  by (simp add: assert_found_def find_unique_multiple_spec traverseR_eq_Inr_iff list_all2_map1
      assert_found_one_Inr find_spec_Found)

section \<open>Properties\<close>

text \<open>Searching ids by prefix succeeds exactly when every requested prefix is the prefix of
  exactly one id of the list, and then returns these ids in the order of the requests; a prefix of no
  id and an ambiguous prefix are errors.\<close>

theorem find_starts_with_correct:
  "find_starts_with_from_iter to_hex vec ids = Inr found \<longleftrightarrow>
     list_all2 (\<lambda>v i. filter (\<lambda>j. take (length v) (to_hex j) = v) ids = [i]) vec found"
  by (simp add: find_starts_with_from_iter_def assert_found_iff)

end
