(* ===== verification/Blob.thy ===== *)
theory Blob
  imports Ids
begin

text \<open>
  Blobs and their places inside packs (\<open>crates/core/src/blob.rs\<close>): the two blob types, per-type
  maps, \<open>BlobLocation\<close> with its order by offset, and \<open>BlobLocations\<close>, the runs of blobs that are
  fetched by one partial read. The lemmas show that coalescing two well-formed runs gives a
  well-formed run that covers exactly the blobs of both and stays below the read limit.
\<close>

section \<open>Constants and blob types\<close>

definition LIMIT_PACK_READ :: u32 where
  "LIMIT_PACK_READ = 40 * 1024 * 1024"

definition MAX_HOLESIZE :: u32 where
  "MAX_HOLESIZE = 256 * 1024"

datatype BlobType = Tree | Data

text \<open>The derived order: in the order of the variants.\<close>

instantiation BlobType :: linorder
begin

fun less_eq_BlobType :: "BlobType \<Rightarrow> BlobType \<Rightarrow> bool" where
  "less_eq_BlobType Data Tree = False"
| "less_eq_BlobType _ _ = True"

definition less_BlobType :: "BlobType \<Rightarrow> BlobType \<Rightarrow> bool" where
  "less_BlobType x y \<longleftrightarrow> x \<le> y \<and> \<not> y \<le> x"

instance
proof
  fix x y z :: BlobType
  show "x < y \<longleftrightarrow> x \<le> y \<and> \<not> y \<le> x" by (rule less_BlobType_def)
  show "x \<le> x" "x \<le> y \<or> y \<le> x" by (cases x; cases y; simp)+
  show "x \<le> y \<Longrightarrow> y \<le> z \<Longrightarrow> x \<le> z" by (cases x; cases y; cases z; simp)
  show "x \<le> y \<Longrightarrow> y \<le> x \<Longrightarrow> x = y" by (cases x; cases y; simp)
qed

end

definition ALL_BLOB_TYPES :: "BlobType list" where
  "ALL_BLOB_TYPES = [Tree, Data]"

fun is_cacheable :: "BlobType \<Rightarrow> bool" where
  "is_cacheable Tree = True"
| "is_cacheable Data = False"

type_synonym 'a BlobTypeMap = "BlobType \<Rightarrow> 'a"

text \<open>\<open>Initialize::init\<close>: the loop over the indices of the enum writes every slot once.\<close>

definition BlobTypeMap_init :: "'a \<Rightarrow> (BlobType \<Rightarrow> 'a) \<Rightarrow> 'a BlobTypeMap" where
  "BlobTypeMap_init dflt ini = fold (\<lambda>bt m. m(bt := ini bt)) ALL_BLOB_TYPES (\<lambda>_. dflt)"

lemma BlobTypeMap_init_eq: "BlobTypeMap_init dflt ini = ini"
proof
  fix bt
  show "BlobTypeMap_init dflt ini bt = ini bt"
    by (cases bt) (simp_all add: BlobTypeMap_init_def ALL_BLOB_TYPES_def)
qed

section \<open>Locations\<close>

type_synonym BlobId = Id

record BlobLocation =
  bl_offset :: u32
  bl_length :: u32
  bl_uncompressed_length :: "u32 option"

definition data_length :: "BlobLocation \<Rightarrow> u32" where
  "data_length l = (case bl_uncompressed_length l of None \<Rightarrow> bl_length l - 32 | Some n \<Rightarrow> n)"

text \<open>\<open>Option<NonZeroU32>\<close> holds no zero.\<close>

definition wf_location :: "BlobLocation \<Rightarrow> bool" where
  "wf_location l \<longleftrightarrow> bl_uncompressed_length l \<noteq> Some 0"

text \<open>\<open>impl Ord for BlobLocation\<close>: locations compare by offset only.\<close>

definition BlobLocation_le :: "BlobLocation \<Rightarrow> BlobLocation \<Rightarrow> bool" where
  "BlobLocation_le a b \<longleftrightarrow> bl_offset a \<le> bl_offset b"

record 'a BlobLocations =
  bls_offset :: u32
  bls_length :: u32
  bls_blobs :: "(BlobLocation \<times> 'a) list"

definition bls_total_length :: "'a BlobLocations \<Rightarrow> u32" where
  "bls_total_length b = sum_list (map (\<lambda>x. bl_length (fst x)) (bls_blobs b))"

definition from_blob_location :: "BlobLocation \<Rightarrow> 'a \<Rightarrow> 'a BlobLocations" where
  "from_blob_location loc target =
     \<lparr>bls_offset = bl_offset loc, bls_length = bl_length loc, bls_blobs = [(loc, target)]\<rparr>"

definition can_coalesce :: "'a BlobLocations \<Rightarrow> 'a BlobLocations \<Rightarrow> bool" where
  "can_coalesce x y \<longleftrightarrow>
     bls_offset y \<le> bls_offset x + bls_length x + MAX_HOLESIZE \<and>
     bls_offset y \<ge> bls_offset x + bls_length x \<and>
     bls_offset y + bls_length y - bls_offset x \<le> LIMIT_PACK_READ"

definition bls_append :: "'a BlobLocations \<Rightarrow> 'a BlobLocations \<Rightarrow> 'a BlobLocations" where
  "bls_append x y =
     x\<lparr>bls_length := bls_offset y + bls_length y - bls_offset x,
       bls_blobs := bls_blobs x @ bls_blobs y\<rparr>"

definition coalesce ::
    "'a BlobLocations \<Rightarrow> 'a BlobLocations
      \<Rightarrow> ('a BlobLocations \<times> 'a BlobLocations) + 'a BlobLocations" where
  "coalesce x y = (if can_coalesce x y then Inr (bls_append x y) else Inl (x, y))"

section \<open>Well-formed runs\<close>

text \<open>The blobs of a run lie inside its range, in order and without overlap, and the range ends
  below the \<open>u32\<close> limit even when a maximal hole follows it.\<close>

fun blobs_in_range :: "nat \<Rightarrow> nat \<Rightarrow> (BlobLocation \<times> 'a) list \<Rightarrow> bool" where
  "blobs_in_range lo hi [] \<longleftrightarrow> lo \<le> hi"
| "blobs_in_range lo hi ((l, _) # bs) \<longleftrightarrow>
     lo \<le> unat (bl_offset l) \<and>
     blobs_in_range (unat (bl_offset l) + unat (bl_length l)) hi bs"

definition bls_start :: "'a BlobLocations \<Rightarrow> nat" where
  "bls_start x = unat (bls_offset x)"

definition bls_end :: "'a BlobLocations \<Rightarrow> nat" where
  "bls_end x = unat (bls_offset x) + unat (bls_length x)"

definition wf_bls :: "'a BlobLocations \<Rightarrow> bool" where
  "wf_bls x \<longleftrightarrow>
     bls_end x + unat MAX_HOLESIZE < 2 ^ 32 \<and> blobs_in_range (bls_start x) (bls_end x) (bls_blobs x)"

lemma unat_MAX_HOLESIZE [simp]: "unat MAX_HOLESIZE = 262144"
  by (simp add: MAX_HOLESIZE_def)

lemma unat_LIMIT_PACK_READ [simp]: "unat LIMIT_PACK_READ = 41943040"
  by (simp add: LIMIT_PACK_READ_def)

lemma blobs_in_range_le: "blobs_in_range lo hi bs \<Longrightarrow> lo \<le> hi"
  by (induction lo hi bs rule: blobs_in_range.induct) auto

lemma blobs_in_range_mono: "blobs_in_range lo hi bs \<Longrightarrow> lo' \<le> lo \<Longrightarrow> hi \<le> hi' \<Longrightarrow> blobs_in_range lo' hi' bs"
  by (induction lo hi bs arbitrary: lo' rule: blobs_in_range.induct) auto

lemma blobs_in_range_append:
  "blobs_in_range lo mid xs \<Longrightarrow> blobs_in_range mid hi ys \<Longrightarrow> blobs_in_range lo hi (xs @ ys)"
proof (induction lo mid xs rule: blobs_in_range.induct)
  case (1 lo hi')
  then show ?case by (auto intro: blobs_in_range_mono)
qed auto

lemma blobs_in_range_member:
  "blobs_in_range lo hi bs \<Longrightarrow> (l, t) \<in> set bs \<Longrightarrow>
   lo \<le> unat (bl_offset l) \<and> unat (bl_offset l) + unat (bl_length l) \<le> hi"
  by (induction lo hi bs rule: blobs_in_range.induct) (fastforce dest: blobs_in_range_le)+

lemma wf_from_blob_location:
  "unat (bl_offset l) + unat (bl_length l) + 262144 < 2 ^ 32 \<Longrightarrow> wf_bls (from_blob_location l t)"
  by (simp add: wf_bls_def bls_end_def bls_start_def from_blob_location_def)

text \<open>Under well-formedness the wrapping comparisons of \<open>can_coalesce\<close> are comparisons of positions.\<close>

lemma can_coalesce_iff:
  assumes "wf_bls x" and "wf_bls y"
  shows "can_coalesce x y \<longleftrightarrow>
    bls_end x \<le> bls_start y \<and> bls_start y \<le> bls_end x + 262144 \<and> bls_end y - bls_start x \<le> 41943040"
proof -
  have x: "unat (bls_offset x) + unat (bls_length x) + 262144 < 2 ^ 32"
    and y: "unat (bls_offset y) + unat (bls_length y) + 262144 < 2 ^ 32"
    using assms by (simp_all add: wf_bls_def bls_end_def)
  have e1: "unat (bls_offset x + bls_length x) = bls_end x"
    using x by (simp add: bls_end_def unat_u32_add)
  have e2: "unat (bls_offset x + bls_length x + MAX_HOLESIZE) = bls_end x + 262144"
    using x e1 by (subst unat_u32_add) (auto simp: bls_end_def)
  have e3: "unat (bls_offset y + bls_length y) = bls_end y"
    using y by (simp add: bls_end_def unat_u32_add)
  have "bls_end x \<le> bls_start y \<Longrightarrow>
      unat (bls_offset y + bls_length y - bls_offset x) = bls_end y - bls_start x"
    using e3 by (subst unat_sub) (auto simp: word_le_nat_alt bls_start_def bls_end_def)
  then show ?thesis
    unfolding can_coalesce_def word_le_nat_alt e1 e2
    by (auto simp: bls_start_def)
qed

lemma bls_append_wf:
  assumes "wf_bls x" and "wf_bls y" and "can_coalesce x y"
  shows "wf_bls (bls_append x y)"
    and "bls_start (bls_append x y) = bls_start x"
    and "bls_end (bls_append x y) = bls_end y"
proof -
  have c: "bls_end x \<le> bls_start y"
    using assms by (simp add: can_coalesce_iff)
  have e3: "unat (bls_offset y + bls_length y) = bls_end y"
    using assms(2) by (subst unat_u32_add) (simp_all add: wf_bls_def bls_end_def)
  have l: "unat (bls_offset y + bls_length y - bls_offset x) = bls_end y - bls_start x"
    using e3 c by (subst unat_sub) (auto simp: word_le_nat_alt bls_start_def bls_end_def)
  show s: "bls_start (bls_append x y) = bls_start x"
    by (simp add: bls_start_def bls_append_def)
  have le: "bls_start x \<le> bls_end y"
    using c by (simp add: bls_start_def bls_end_def)
  then show e: "bls_end (bls_append x y) = bls_end y"
    using l by (simp add: bls_end_def bls_append_def bls_start_def)
  have "blobs_in_range (bls_start x) (bls_end y) (bls_blobs x @ bls_blobs y)"
    using assms c unfolding wf_bls_def
    by (meson blobs_in_range_append blobs_in_range_mono le_refl)
  then show "wf_bls (bls_append x y)"
    using assms(2) by (simp add: wf_bls_def s e) (simp add: bls_append_def)
qed

text \<open>A run that was put together from several stays below the read limit.\<close>

lemma coalesce_limit:
  assumes "coalesce x y = Inr z"
  shows "bls_length z \<le> LIMIT_PACK_READ"
  using assms by (auto simp: coalesce_def can_coalesce_def bls_append_def split: if_splits)

section \<open>Properties\<close>

text \<open>Joining two reads of a pack is safe: when \<open>coalesce\<close> accepts, the joined run starts where
  the first starts and ends where the second ends, its blobs are those of both in order and still lie
  disjoint inside its range, and it is not longer than the read limit; otherwise both runs come back
  unchanged.\<close>

theorem coalesce_correct:
  assumes "wf_bls x" "wf_bls y"
  shows "case coalesce x y of
      Inr z \<Rightarrow> wf_bls z \<and> bls_start z = bls_start x \<and> bls_end z = bls_end y \<and>
        bls_blobs z = bls_blobs x @ bls_blobs y \<and> bls_length z \<le> LIMIT_PACK_READ
    | Inl (x', y') \<Rightarrow> x' = x \<and> y' = y"
proof (cases "can_coalesce x y")
  case True
  then have z: "coalesce x y = Inr (bls_append x y)" by (simp add: coalesce_def)
  show ?thesis
    using bls_append_wf [OF assms True] coalesce_limit [OF z] by (simp add: z bls_append_def)
qed (simp add: coalesce_def)

theorem coalesce_correct_witness:
  "case coalesce (from_blob_location \<lparr>bl_offset = 0, bl_length = 10, bl_uncompressed_length = None\<rparr> ())
       (from_blob_location \<lparr>bl_offset = 20, bl_length = 5, bl_uncompressed_length = None\<rparr> ()) of
     Inr z \<Rightarrow> wf_bls z \<and> bls_start z = 0 \<and> bls_end z = 25
   | Inl _ \<Rightarrow> False"
proof -
  let ?x = "from_blob_location \<lparr>bl_offset = 0, bl_length = 10, bl_uncompressed_length = None\<rparr> ()"
  let ?y = "from_blob_location \<lparr>bl_offset = 20, bl_length = 5, bl_uncompressed_length = None\<rparr> ()"
  have wf: "wf_bls ?x" "wf_bls ?y" by (simp_all add: wf_from_blob_location)
  have c: "can_coalesce ?x ?y"
    by (simp add: can_coalesce_def from_blob_location_def LIMIT_PACK_READ_def MAX_HOLESIZE_def word_le_nat_alt)
  have e: "bls_start ?x = 0" "bls_end ?y = 25" by (simp_all add: from_blob_location_def bls_start_def bls_end_def)
  from coalesce_correct [OF wf] c e show ?thesis by (simp add: coalesce_def)
qed

end
