(* ===== verification/PackFile.thy ===== *)
theory PackFile
  imports Blob
begin

text \<open>
  Index files and pack headers (\<open>crates/core/src/repofile/indexfile.rs\<close>,
  \<open>crates/core/src/repofile/packfile.rs\<close>): the records of an index file, the binary header entries
  of a pack, their sizes, the writer and reader of a whole header, and \<open>PackHeader::from_file\<close>,
  which guesses the header size, reads the length field, reads again if the guess was too small,
  and cross-checks the sizes. The binary layout is the one the \<open>#[brw(..)]\<close> attributes prescribe.
  How the crate \<open>binrw\<close> classifies an entry that is cut off or has an unknown magic byte (an
  end-of-file error or another one) is the parameter \<open>eofp\<close> of the reader; the empty input is an
  end-of-file error for every variant.
\<close>

section \<open>File types\<close>

datatype FileType = FConfig | FIndex | FKey | FSnapshot | FPack

definition ALL_FILE_TYPES :: "FileType list" where
  "ALL_FILE_TYPES = [FKey, FSnapshot, FIndex, FPack]"

fun dirname :: "FileType \<Rightarrow> string" where
  "dirname FConfig = ''config''"
| "dirname FSnapshot = ''snapshots''"
| "dirname FIndex = ''index''"
| "dirname FKey = ''keys''"
| "dirname FPack = ''data''"

fun FileType_is_cacheable :: "FileType \<Rightarrow> bool" where
  "FileType_is_cacheable FConfig = False"
| "FileType_is_cacheable FKey = False"
| "FileType_is_cacheable FPack = False"
| "FileType_is_cacheable FSnapshot = True"
| "FileType_is_cacheable FIndex = True"

section \<open>Index records\<close>

type_synonym PackId = Id
type_synonym Timestamp = int

record IndexBlob =
  ib_id :: BlobId
  ib_tpe :: BlobType
  ib_location :: BlobLocation

text \<open>\<open>impl Ord for IndexBlob\<close>: blobs compare by their location.\<close>

definition IndexBlob_le :: "IndexBlob \<Rightarrow> IndexBlob \<Rightarrow> bool" where
  "IndexBlob_le a b \<longleftrightarrow> BlobLocation_le (ib_location a) (ib_location b)"

record IndexPack =
  ip_id :: PackId
  ip_blobs :: "IndexBlob list"
  ip_time :: "Timestamp option"
  ip_size :: "u32 option"

definition IndexPack_default :: IndexPack where
  "IndexPack_default = \<lparr>ip_id = Id_default, ip_blobs = [], ip_time = None, ip_size = None\<rparr>"

definition IndexPack_add ::
    "BlobId \<Rightarrow> BlobType \<Rightarrow> u32 \<Rightarrow> u32 \<Rightarrow> u32 option \<Rightarrow> IndexPack \<Rightarrow> IndexPack" where
  "IndexPack_add bid tpe offset len ulen p =
     p\<lparr>ip_blobs := ip_blobs p @
        [\<lparr>ib_id = bid, ib_tpe = tpe,
          ib_location = \<lparr>bl_offset = offset, bl_length = len, bl_uncompressed_length = ulen\<rparr>\<rparr>]\<rparr>"

text \<open>The type of a pack is the type of its first blob; a pack without blobs counts as data.\<close>

definition ip_blob_type :: "IndexPack \<Rightarrow> BlobType" where
  "ip_blob_type p = (case ip_blobs p of [] \<Rightarrow> Data | b # _ \<Rightarrow> ib_tpe b)"

record IndexFile =
  ifi_supersedes :: "Id list option"
  ifi_packs :: "IndexPack list"
  ifi_packs_to_delete :: "IndexPack list"

definition IndexFile_default :: IndexFile where
  "IndexFile_default = \<lparr>ifi_supersedes = None, ifi_packs = [], ifi_packs_to_delete = []\<rparr>"

definition IndexFile_add :: "IndexPack \<Rightarrow> bool \<Rightarrow> IndexFile \<Rightarrow> IndexFile" where
  "IndexFile_add p del f =
     (if del then f\<lparr>ifi_packs_to_delete := ifi_packs_to_delete f @ [p]\<rparr>
      else f\<lparr>ifi_packs := ifi_packs f @ [p]\<rparr>)"

definition all_packs :: "IndexFile \<Rightarrow> (IndexPack \<times> bool) list" where
  "all_packs f =
     map (\<lambda>p. (p, False)) (ifi_packs f) @ map (\<lambda>p. (p, True)) (ifi_packs_to_delete f)"

section \<open>Header entries\<close>

definition COMP_OVERHEAD :: u32 where
  "COMP_OVERHEAD = 32"

definition LENGTH_LEN :: u32 where
  "LENGTH_LEN = 4"

definition ENTRY_LEN :: u32 where
  "ENTRY_LEN = 37"

definition ENTRY_LEN_COMPRESSED :: u32 where
  "ENTRY_LEN_COMPRESSED = 41"

datatype HeaderEntry =
  HData u32 Id
| HTree u32 Id
| HCompData u32 u32 Id
| HCompTree u32 u32 Id

definition from_blob :: "IndexBlob \<Rightarrow> HeaderEntry" where
  "from_blob b =
     (let len = bl_length (ib_location b); i = ib_id b in
      case (bl_uncompressed_length (ib_location b), ib_tpe b) of
        (None, Data) \<Rightarrow> HData len i
      | (None, Tree) \<Rightarrow> HTree len i
      | (Some len_data, Data) \<Rightarrow> HCompData len len_data i
      | (Some len_data, Tree) \<Rightarrow> HCompTree len len_data i)"

fun entry_length :: "HeaderEntry \<Rightarrow> u32" where
  "entry_length (HData _ _) = ENTRY_LEN"
| "entry_length (HTree _ _) = ENTRY_LEN"
| "entry_length (HCompData _ _ _) = ENTRY_LEN_COMPRESSED"
| "entry_length (HCompTree _ _ _) = ENTRY_LEN_COMPRESSED"

fun into_location :: "HeaderEntry \<Rightarrow> u32 \<Rightarrow> BlobLocation" where
  "into_location (HData len _) offset =
     \<lparr>bl_offset = offset, bl_length = len, bl_uncompressed_length = None\<rparr>"
| "into_location (HTree len _) offset =
     \<lparr>bl_offset = offset, bl_length = len, bl_uncompressed_length = None\<rparr>"
| "into_location (HCompData len len_data _) offset =
     \<lparr>bl_offset = offset, bl_length = len, bl_uncompressed_length = NonZeroU32_new len_data\<rparr>"
| "into_location (HCompTree len len_data _) offset =
     \<lparr>bl_offset = offset, bl_length = len, bl_uncompressed_length = NonZeroU32_new len_data\<rparr>"

fun into_blob :: "HeaderEntry \<Rightarrow> u32 \<Rightarrow> IndexBlob" where
  "into_blob (HTree len i) offset =
     \<lparr>ib_id = i, ib_tpe = Tree, ib_location = into_location (HTree len i) offset\<rparr>"
| "into_blob (HCompTree len ld i) offset =
     \<lparr>ib_id = i, ib_tpe = Tree, ib_location = into_location (HCompTree len ld i) offset\<rparr>"
| "into_blob (HData len i) offset =
     \<lparr>ib_id = i, ib_tpe = Data, ib_location = into_location (HData len i) offset\<rparr>"
| "into_blob (HCompData len ld i) offset =
     \<lparr>ib_id = i, ib_tpe = Data, ib_location = into_location (HCompData len ld i) offset\<rparr>"

section \<open>Binary representation\<close>

fun HeaderEntry_write :: "HeaderEntry \<Rightarrow> bytes" where
  "HeaderEntry_write (HData len i) = 0 # u32_to_le_bytes len @ i"
| "HeaderEntry_write (HTree len i) = 1 # u32_to_le_bytes len @ i"
| "HeaderEntry_write (HCompData len ld i) = 2 # u32_to_le_bytes len @ u32_to_le_bytes ld @ i"
| "HeaderEntry_write (HCompTree len ld i) = 3 # u32_to_le_bytes len @ u32_to_le_bytes ld @ i"

definition read_u32 :: "bytes \<Rightarrow> u32" where
  "read_u32 bs = u32_from_le_bytes (bs ! 0) (bs ! 1) (bs ! 2) (bs ! 3)"

datatype 'a BinRead = BinOk 'a bytes | BinErr (is_eof: bool)

definition HeaderEntry_read :: "(bytes \<Rightarrow> bool) \<Rightarrow> bytes \<Rightarrow> HeaderEntry BinRead" where
  "HeaderEntry_read eofp data =
     (case data of
        [] \<Rightarrow> BinErr True
      | m # r \<Rightarrow>
          if m = 0 \<and> 36 \<le> length r
          then BinOk (HData (read_u32 r) (take 32 (drop 4 r))) (drop 36 r)
          else if m = 1 \<and> 36 \<le> length r
          then BinOk (HTree (read_u32 r) (take 32 (drop 4 r))) (drop 36 r)
          else if m = 2 \<and> 40 \<le> length r
          then BinOk (HCompData (read_u32 r) (read_u32 (drop 4 r)) (take 32 (drop 8 r))) (drop 40 r)
          else if m = 3 \<and> 40 \<le> length r
          then BinOk (HCompTree (read_u32 r) (read_u32 (drop 4 r)) (take 32 (drop 8 r))) (drop 40 r)
          else BinErr (eofp data))"

datatype PackFileErrorKind = ReadingBinaryRepresentationFailed | WritingBinaryRepresentationFailed

definition PackHeaderLength_from_binary :: "bytes \<Rightarrow> PackFileErrorKind + u32" where
  "PackHeaderLength_from_binary data =
     (if 4 \<le> length data then Inr (read_u32 data) else Inl ReadingBinaryRepresentationFailed)"

definition PackHeaderLength_to_binary :: "u32 \<Rightarrow> bytes" where
  "PackHeaderLength_to_binary len = u32_to_le_bytes len"

lemma HeaderEntry_read_shorter:
  "HeaderEntry_read eofp data = BinOk e rest \<Longrightarrow> length rest < length data"
  by (auto simp: HeaderEntry_read_def split: list.splits if_splits)

text \<open>The loop of \<open>PackHeader::from_binary\<close>; every entry consumes input.\<close>

function PackHeader_loop ::
    "(bytes \<Rightarrow> bool) \<Rightarrow> bytes \<Rightarrow> u32 \<Rightarrow> IndexBlob list \<Rightarrow> PackFileErrorKind + IndexBlob list" where
  "PackHeader_loop eofp reader offset blobs =
     (case HeaderEntry_read eofp reader of
        BinOk entry rest \<Rightarrow>
          (let blob = into_blob entry offset in
           PackHeader_loop eofp rest (offset + bl_length (ib_location blob)) (blobs @ [blob]))
      | BinErr eof \<Rightarrow> if eof then Inr blobs else Inl ReadingBinaryRepresentationFailed)"
  by pat_completeness auto
termination
  by (relation "measure (\<lambda>(_, r, _, _). length r)") (auto dest: HeaderEntry_read_shorter)

declare PackHeader_loop.simps [simp del]

definition PackHeader_from_binary :: "(bytes \<Rightarrow> bool) \<Rightarrow> bytes \<Rightarrow> PackFileErrorKind + IndexBlob list" where
  "PackHeader_from_binary eofp pack = PackHeader_loop eofp pack 0 []"

definition header_size :: "IndexBlob list \<Rightarrow> u32" where
  "header_size blobs = foldl (\<lambda>acc b. acc + entry_length (from_blob b)) COMP_OVERHEAD blobs"

definition header_pack_size :: "IndexBlob list \<Rightarrow> u32" where
  "header_pack_size blobs =
     foldl (\<lambda>acc b. acc + bl_length (ib_location b) + entry_length (from_blob b))
       (COMP_OVERHEAD + LENGTH_LEN) blobs"

definition PackHeader_to_binary :: "IndexBlob list \<Rightarrow> bytes" where
  "PackHeader_to_binary blobs = concat (map (\<lambda>b. HeaderEntry_write (from_blob b)) blobs)"

definition ip_pack_size :: "IndexPack \<Rightarrow> u32" where
  "ip_pack_size p = (case ip_size p of None \<Rightarrow> header_pack_size (ip_blobs p) | Some s \<Rightarrow> s)"

section \<open>Reading a header from a pack file\<close>

definition PackHeader_from_file ::
    "(bytes \<Rightarrow> bool)
     \<Rightarrow> (FileType \<Rightarrow> Id \<Rightarrow> bool \<Rightarrow> u32 \<Rightarrow> u32 \<Rightarrow> bytes rustic_result)
     \<Rightarrow> (bytes \<Rightarrow> bytes rustic_result)
     \<Rightarrow> PackId \<Rightarrow> u32 option \<Rightarrow> u32 \<Rightarrow> IndexBlob list rustic_result" where
  "PackHeader_from_file eofp read_partial decrypt pid size_hint pack_size =
     (let size_guess = (case size_hint of None \<Rightarrow> 0 | Some n \<Rightarrow> n);
          read_size = size_guess + LENGTH_LEN;
          offset = pack_size - read_size in
      bindR (read_partial FPack pid False offset read_size) (\<lambda>data.
      if length data < unat size_guess then Inl (Panic ''split_off'') else
      bindR (map_err (\<lambda>_. RusticError EInternal ''Reading pack header length failed'')
               (PackHeaderLength_from_binary (drop (unat size_guess) data))) (\<lambda>size_real.
      if size_real + LENGTH_LEN > pack_size
      then Inl (RusticError EInternal ''Read header length is larger than the pack'')
      else
      bindR (if size_real \<le> size_guess
             then Inr (drop (unat (size_guess - size_real)) (take (unat size_guess) data))
             else read_partial FPack pid False (pack_size - size_real - LENGTH_LEN) size_real) (\<lambda>hdata.
      bindR (decrypt hdata) (\<lambda>plain.
      bindR (map_err (\<lambda>_. RusticError EInternal ''Reading pack header failed.'')
               (PackHeader_from_binary eofp plain)) (\<lambda>header.
      if header_size header \<noteq> size_real
      then Inl (RusticError EInternal ''Read header length doesn't match header contents!'')
      else if header_pack_size header \<noteq> pack_size
      then Inl (RusticError EInternal ''pack size computed from header doesn't match real pack file size'')
      else Inr header))))))"

section \<open>Entries and blobs\<close>

fun entry_id :: "HeaderEntry \<Rightarrow> Id" where
  "entry_id (HData _ i) = i"
| "entry_id (HTree _ i) = i"
| "entry_id (HCompData _ _ i) = i"
| "entry_id (HCompTree _ _ i) = i"

lemma entry_consts [simp]:
  "unat COMP_OVERHEAD = 32" "unat LENGTH_LEN = 4" "unat ENTRY_LEN = 37" "unat ENTRY_LEN_COMPRESSED = 41"
  by (simp_all add: COMP_OVERHEAD_def LENGTH_LEN_def ENTRY_LEN_def ENTRY_LEN_COMPRESSED_def)

definition wf_blob :: "IndexBlob \<Rightarrow> bool" where
  "wf_blob b \<longleftrightarrow> wf_id (ib_id b) \<and> wf_location (ib_location b)"

lemma entry_id_from_blob [simp]: "entry_id (from_blob b) = ib_id b"
  by (auto simp: from_blob_def Let_def split: option.splits BlobType.splits)

lemma into_blob_from_blob:
  "wf_blob b \<Longrightarrow> into_blob (from_blob b) (bl_offset (ib_location b)) = b"
  by (auto simp: from_blob_def wf_blob_def wf_location_def NonZeroU32_new_def Let_def
      split: option.splits BlobType.splits)

lemma length_HeaderEntry_write [bytes_simps]:
  "wf_id (entry_id e) \<Longrightarrow> length (HeaderEntry_write e) = unat (entry_length e)"
  by (cases e) (simp_all add: wf_id_def LEN_def)

lemma read_u32_to_le [bytes_simps]: "read_u32 (u32_to_le_bytes w @ rest) = w"
  by (simp add: read_u32_def u32_to_le_bytes_def)

lemma HeaderEntry_read_write [bytes_simps]:
  "wf_id (entry_id e) \<Longrightarrow> HeaderEntry_read eofp (HeaderEntry_write e @ rest) = BinOk e rest"
  by (cases e) (simp_all add: HeaderEntry_read_def wf_id_def LEN_def read_u32_to_le)

section \<open>Sizes\<close>

definition entry_nat :: "IndexBlob \<Rightarrow> nat" where
  "entry_nat b = unat (entry_length (from_blob b))"

definition blob_nat :: "IndexBlob \<Rightarrow> nat" where
  "blob_nat b = unat (bl_length (ib_location b))"

lemma entry_nat_cases: "entry_nat b = 37 \<or> entry_nat b = 41"
  by (cases "from_blob b") (simp_all add: entry_nat_def)

lemma unat_foldl_add:
  "unat (a :: u32) + sum_list (map (\<lambda>x. unat (f x)) xs) < 2 ^ 32 \<Longrightarrow>
   unat (foldl (\<lambda>acc x. acc + f x) a xs) = unat a + sum_list (map (\<lambda>x. unat (f x)) xs)"
proof (induction xs arbitrary: a)
  case (Cons x xs)
  then have "unat (a + f x) = unat a + unat (f x)" by (intro unat_u32_add) simp
  with Cons show ?case by (simp add: add.assoc)
qed simp

lemma length_PackHeader_to_binary:
  "\<forall>b \<in> set blobs. wf_blob b \<Longrightarrow>
   length (PackHeader_to_binary blobs) = sum_list (map entry_nat blobs)"
  by (induction blobs)
    (auto simp: PackHeader_to_binary_def length_HeaderEntry_write wf_blob_def entry_nat_def)

lemma unat_header_size:
  assumes "32 + sum_list (map entry_nat blobs) < 2 ^ 32"
  shows "unat (header_size blobs) = 32 + sum_list (map entry_nat blobs)"
  using unat_foldl_add [of COMP_OVERHEAD "\<lambda>b. entry_length (from_blob b)" blobs] assms
  by (simp add: header_size_def entry_nat_def [abs_def])

lemma unat_header_pack_size:
  assumes "36 + sum_list (map blob_nat blobs) + sum_list (map entry_nat blobs) < 2 ^ 32"
  shows "unat (header_pack_size blobs) =
    36 + sum_list (map blob_nat blobs) + sum_list (map entry_nat blobs)"
proof -
  define f where "f b = bl_length (ib_location b) + entry_length (from_blob b)" for b
  have f: "unat (f b) = blob_nat b + entry_nat b" if "b \<in> set blobs" for b
  proof -
    have "blob_nat b \<le> sum_list (map blob_nat blobs)" "entry_nat b \<le> sum_list (map entry_nat blobs)"
      using that by (simp_all add: member_le_sum_list)
    with assms show ?thesis
      unfolding f_def blob_nat_def entry_nat_def by (intro unat_u32_add) simp
  qed
  have "sum_list (map (\<lambda>b. unat (f b)) blobs) = sum_list (map (\<lambda>b. blob_nat b + entry_nat b) blobs)"
    by (rule arg_cong [where f = sum_list]) (simp add: f)
  then have sum: "sum_list (map (\<lambda>b. unat (f b)) blobs)
      = sum_list (map blob_nat blobs) + sum_list (map entry_nat blobs)"
    by (simp add: sum_list_addf)
  have "header_pack_size blobs = foldl (\<lambda>acc b. acc + f b) (COMP_OVERHEAD + LENGTH_LEN) blobs"
    by (simp add: header_pack_size_def f_def add.assoc)
  moreover have "unat (COMP_OVERHEAD + LENGTH_LEN) = 36"
    by (simp add: COMP_OVERHEAD_def LENGTH_LEN_def)
  ultimately show ?thesis
    using unat_foldl_add [of "COMP_OVERHEAD + LENGTH_LEN" f blobs] assms sum by simp
qed

section \<open>Round trip of the header\<close>

text \<open>The blobs of a pack lie one after the other.\<close>

fun contiguous :: "u32 \<Rightarrow> IndexBlob list \<Rightarrow> bool" where
  "contiguous off [] \<longleftrightarrow> True"
| "contiguous off (b # bs) \<longleftrightarrow>
     bl_offset (ib_location b) = off \<and> contiguous (off + bl_length (ib_location b)) bs"

lemma contiguous_append:
  "contiguous off (xs @ ys) \<longleftrightarrow>
   contiguous off xs \<and> contiguous (off + sum_list (map (\<lambda>b. bl_length (ib_location b)) xs)) ys"
  by (induction off xs rule: contiguous.induct) (auto simp: add.assoc)

lemma PackHeader_loop_roundtrip:
  "\<forall>b \<in> set blobs. wf_blob b \<Longrightarrow> contiguous off blobs \<Longrightarrow>
   PackHeader_loop eofp (PackHeader_to_binary blobs) off acc = Inr (acc @ blobs)"
proof (induction blobs arbitrary: off acc)
  case Nil
  then show ?case
    by (simp add: PackHeader_to_binary_def PackHeader_loop.simps HeaderEntry_read_def)
next
  case (Cons b bs)
  have w: "wf_blob b" and o: "bl_offset (ib_location b) = off" using Cons.prems by simp_all
  have "HeaderEntry_read eofp (PackHeader_to_binary (b # bs))
      = BinOk (from_blob b) (PackHeader_to_binary bs)"
    using w by (simp add: PackHeader_to_binary_def HeaderEntry_read_write wf_blob_def)
  moreover have "into_blob (from_blob b) off = b"
    using into_blob_from_blob [OF w] o by simp
  ultimately show ?case
    using Cons by (subst PackHeader_loop.simps) simp
qed

lemma PackHeader_from_binary_roundtrip:
  "\<forall>b \<in> set blobs. wf_blob b \<Longrightarrow> contiguous 0 blobs \<Longrightarrow>
   PackHeader_from_binary eofp (PackHeader_to_binary blobs) = Inr blobs"
  by (simp add: PackHeader_from_binary_def PackHeader_loop_roundtrip)

text \<open>Whatever the bytes are, a header that was read describes blobs that lie one after the other
  and carry no zero uncompressed length.\<close>

lemma into_blob_facts:
  "bl_offset (ib_location (into_blob e off)) = off"
  "wf_location (ib_location (into_blob e off))"
  by (cases e; simp add: wf_location_def NonZeroU32_new_def)+

lemma HeaderEntry_read_wf:
  "HeaderEntry_read eofp data = BinOk e rest \<Longrightarrow> wf_id (entry_id e)"
  by (auto simp: HeaderEntry_read_def wf_id_def LEN_def split: list.splits if_splits)

lemma ib_id_into_blob: "ib_id (into_blob e off) = entry_id e"
  by (cases e) simp_all

lemma PackHeader_loop_sound:
  assumes "PackHeader_loop eofp data off acc = Inr blobs"
    and "contiguous 0 acc" and "\<forall>b \<in> set acc. wf_blob b"
    and "off = sum_list (map (\<lambda>b. bl_length (ib_location b)) acc)"
  shows "contiguous 0 blobs \<and> (\<forall>b \<in> set blobs. wf_blob b)"
  using assms
proof (induction eofp data off acc rule: PackHeader_loop.induct)
  case (1 eofp data off acc)
  show ?case
  proof (cases "HeaderEntry_read eofp data")
    case (BinOk e rest)
    have "wf_blob (into_blob e off)"
      using HeaderEntry_read_wf [OF BinOk] by (simp add: wf_blob_def into_blob_facts ib_id_into_blob)
    with "1.IH" [OF BinOk refl] "1.prems" BinOk show ?thesis
      by (simp add: PackHeader_loop.simps [of eofp data] Let_def contiguous_append into_blob_facts
          add.commute)
  next
    case (BinErr eof)
    with "1.prems" show ?thesis
      by (simp add: PackHeader_loop.simps [of eofp data] split: if_splits)
  qed
qed

lemma PackHeader_from_binary_sound:
  "PackHeader_from_binary eofp data = Inr blobs \<Longrightarrow>
   contiguous 0 blobs \<and> (\<forall>b \<in> set blobs. wf_blob b)"
  using PackHeader_loop_sound [of eofp data 0 "[]" blobs] by (simp add: PackHeader_from_binary_def)

section \<open>Round trip of a whole pack file\<close>

text \<open>A backend that holds the bytes \<open>file\<close> under the pack id \<open>pid\<close>: every read inside the file
  returns the bytes of that range.\<close>

definition reads_file ::
    "(FileType \<Rightarrow> Id \<Rightarrow> bool \<Rightarrow> u32 \<Rightarrow> u32 \<Rightarrow> bytes rustic_result) \<Rightarrow> Id \<Rightarrow> bytes \<Rightarrow> bool" where
  "reads_file rp pid file \<longleftrightarrow>
     (\<forall>c off len. unat off + unat len \<le> length file \<longrightarrow>
        rp FPack pid c off len = Inr (subslice (unat off) (unat off + unat len) file))"

text \<open>The layout of a pack: the blobs, the encrypted header, the length of the encrypted header.\<close>

definition pack_bytes :: "bytes \<Rightarrow> bytes \<Rightarrow> bytes" where
  "pack_bytes body hdr = body @ hdr @ PackHeaderLength_to_binary (of_nat (length hdr))"

lemma length_pack_bytes [bytes_simps]: "length (pack_bytes body hdr) = length body + length hdr + 4"
  by (simp add: pack_bytes_def PackHeaderLength_to_binary_def)

lemma reads_file_tail:
  assumes "reads_file rp pid file" and "length file < 2 ^ 32" and "unat len \<le> length file"
  shows "rp FPack pid c (of_nat (length file) - len) len = Inr (drop (length file - unat len) file)"
proof -
  have n: "unat (of_nat (length file) :: u32) = length file"
    using assms(2) by (simp add: unat_u32_of_nat)
  then have "unat (of_nat (length file) - len) = length file - unat len"
    using assms(3) by (subst unat_sub) (simp_all add: word_le_nat_alt)
  with assms show ?thesis
    by (simp add: reads_file_def subslice_def)
qed

lemma pack_bytes_tail:
  assumes "g \<le> length body + length hdr"
  defines "file \<equiv> pack_bytes body hdr"
  defines "data \<equiv> drop (length file - (g + 4)) file"
  shows "drop g data = PackHeaderLength_to_binary (of_nat (length hdr))"
    and "length hdr \<le> g \<Longrightarrow> drop (g - length hdr) (take g data) = hdr"
    and "length data = g + 4"
proof -
  let ?l = "PackHeaderLength_to_binary (of_nat (length hdr)) :: bytes"
  have l: "length ?l = 4" by (simp add: PackHeaderLength_to_binary_def)
  have d: "data = drop (length body + length hdr - g) (body @ hdr) @ ?l"
    using assms(1) by (simp add: data_def file_def length_pack_bytes) (simp add: pack_bytes_def)
  then show "drop g data = ?l" using assms(1) by simp
  show "length data = g + 4" using d l assms(1) by simp
  assume h: "length hdr \<le> g"
  have "take g data = drop (length body + length hdr - g) (body @ hdr)"
    using d assms(1) by simp
  then show "drop (g - length hdr) (take g data) = hdr"
    using h assms(1) by simp
qed

text \<open>Reading the header of a pack gives back the blobs its header was written from, whatever the
  size hint is, as long as the first read stays inside the file.\<close>

lemma PackHeader_from_file_roundtrip:
  assumes rp: "reads_file rp pid (pack_bytes body hdr)"
    and dec: "decrypt hdr = Inr (PackHeader_to_binary blobs)"
    and ovh: "length hdr = length (PackHeader_to_binary blobs) + 32"
    and wf: "\<forall>b \<in> set blobs. wf_blob b" and cont: "contiguous 0 blobs"
    and body: "length body = sum_list (map blob_nat blobs)"
    and small: "length (pack_bytes body hdr) < 2 ^ 32"
    and hint: "unat (case hint of None \<Rightarrow> 0 | Some n \<Rightarrow> n) + 4 \<le> length (pack_bytes body hdr)"
  shows "PackHeader_from_file eofp rp decrypt pid hint (of_nat (length (pack_bytes body hdr))) = Inr blobs"
proof -
  let ?file = "pack_bytes body hdr"
  define n where "n = (of_nat (length ?file) :: u32)"
  define g :: u32 where "g = (case hint of None \<Rightarrow> 0 | Some n \<Rightarrow> n)"
  define h where "h = (of_nat (length hdr) :: u32)"
  have hl: "length hdr = 32 + sum_list (map entry_nat blobs)"
    using ovh wf by (simp add: length_PackHeader_to_binary)
  note lf = length_pack_bytes [of body hdr]
  have n: "unat n = length ?file"
    unfolding n_def by (rule unat_u32_of_nat [OF small])
  have h: "unat h = length hdr"
    unfolding h_def using small lf by (intro unat_u32_of_nat) simp
  have g: "unat g + 4 \<le> length ?file" using hint by (simp add: g_def)
  have r: "unat (g + LENGTH_LEN) = unat g + 4"
    using g small by (subst unat_u32_add) auto
  define data where "data = drop (length ?file - (unat g + 4)) ?file"
  have read1: "rp FPack pid False (n - (g + LENGTH_LEN)) (g + LENGTH_LEN) = Inr data"
    using reads_file_tail [OF rp small] r g by (simp add: n_def data_def)
  have gle: "unat g \<le> length body + length hdr" using g lf by simp
  note tail = pack_bytes_tail [OF gle, folded data_def]
  have len: "PackHeaderLength_from_binary (drop (unat g) data) = Inr h"
    using tail(1) read_u32_to_le [of h "[]"]
    by (simp add: PackHeaderLength_from_binary_def PackHeaderLength_to_binary_def h_def)
  have h4: "unat (h + LENGTH_LEN) = length hdr + 4"
    using small h lf by (subst unat_u32_add) auto
  have le: "\<not> h + LENGTH_LEN > n"
    using h4 n lf by (simp add: word_less_nat_alt)
  have "(if h \<le> g then Inr (drop (unat (g - h)) (take (unat g) data))
         else rp FPack pid False (n - h - LENGTH_LEN) h) = Inr hdr"
  proof (cases "h \<le> g")
    case True
    then have "unat (g - h) = unat g - length hdr" and "length hdr \<le> unat g"
      using h by (simp_all add: unat_sub word_le_nat_alt)
    with True tail(2) show ?thesis by simp
  next
    case False
    have "unat (n - h - LENGTH_LEN) = length body"
      using le h4 n lf unat_sub [of "h + LENGTH_LEN" n] by (simp add: diff_diff_eq)
    with False rp h lf show ?thesis
      by (simp add: reads_file_def) (simp add: pack_bytes_def subslice_append_mid)
  qed
  moreover have "header_size blobs = h"
    by (rule word_unat_eq_iff [THEN iffD2]) (use small hl h lf in \<open>simp add: unat_header_size\<close>)
  moreover have "header_pack_size blobs = n"
    by (rule word_unat_eq_iff [THEN iffD2]) (use small hl body n lf in \<open>simp add: unat_header_pack_size\<close>)
  ultimately show ?thesis
    unfolding PackHeader_from_file_def Let_def g_def [symmetric] n_def [symmetric]
    using read1 len le tail(3) dec PackHeader_from_binary_roundtrip [OF wf cont] by simp
qed

text \<open>A hint beyond the file is not guarded against: the offset wraps to a position behind the end, and the read fails
  where the storage refuses such reads.\<close>

lemma PackHeader_from_file_large_hint:
  assumes "unat pack_size < unat g + 4" "unat g + 4 < 2 ^ 32"
    and "\<And>off len. unat pack_size < unat off + unat len \<Longrightarrow> \<exists>e. rp FPack pid False off len = Inl e"
  shows "\<exists>e. PackHeader_from_file eofp rp decrypt pid (Some g) pack_size = Inl e"
proof -
  have r: "unat (g + LENGTH_LEN) = unat g + 4" using assms(2) by (subst unat_u32_add) auto
  then have "pack_size < g + LENGTH_LEN" using assms(1) by (simp add: word_less_nat_alt)
  then have "unat (pack_size - (g + LENGTH_LEN)) = 2 ^ 32 + unat pack_size - unat (g + LENGTH_LEN)"
    by (simp add: unat_sub_if' word_less_nat_alt)
  then have "unat pack_size < unat (pack_size - (g + LENGTH_LEN)) + unat (g + LENGTH_LEN)" using r assms(1,2) by simp
  from assms(3) [OF this] show ?thesis by (auto simp: PackHeader_from_file_def Let_def)
qed

text \<open>A header that \<open>from_file\<close> accepts agrees with the size field and with the size of the file.\<close>

lemma PackHeader_from_file_sound:
  assumes "PackHeader_from_file eofp rp decrypt pid hint pack_size = Inr blobs"
  shows "header_pack_size blobs = pack_size" and "contiguous 0 blobs"
    and "\<forall>b \<in> set blobs. wf_blob b"
  using assms
  by (auto simp: PackHeader_from_file_def Let_def result_simps dest!: PackHeader_from_binary_sound
      split: if_splits)

section \<open>Properties\<close>

text \<open>C26. A header that \<open>from_file\<close> accepts is consistent: the sizes of its blobs and of the header
  add up to the size of the pack, the blobs follow one another without gap from offset 0, and every
  blob has a 32 byte id and no zero uncompressed length. A damaged length field or a truncated pack
  is therefore an error and never a wrong index.\<close>

theorem PackHeader_from_file_consistent:
  assumes "PackHeader_from_file eofp rp decrypt pid hint pack_size = Inr blobs"
  shows "header_pack_size blobs = pack_size \<and> contiguous 0 blobs \<and> (\<forall>b \<in> set blobs. wf_blob b)"
  using PackHeader_from_file_sound [OF assms] by blast

theorem PackHeader_from_file_consistent_witness:
  "header_pack_size [\<lparr>ib_id = replicate 32 7, ib_tpe = Data,
     ib_location = \<lparr>bl_offset = 0, bl_length = 2, bl_uncompressed_length = None\<rparr>\<rparr>] = 75"
proof -
  define b where "b = \<lparr>ib_id = replicate 32 7, ib_tpe = Data,
     ib_location = \<lparr>bl_offset = 0, bl_length = 2, bl_uncompressed_length = None\<rparr>\<rparr>"
  define hdr where "hdr = replicate 32 0 @ PackHeader_to_binary [b]"
  have wf: "wf_blob b" by (simp add: wf_blob_def b_def wf_id_def LEN_def wf_location_def)
  have l: "length (PackHeader_to_binary [b]) = 37"
    using length_PackHeader_to_binary [of "[b]"] wf by (simp add: entry_nat_def b_def from_blob_def)
  have "PackHeader_from_file (\<lambda>_. True)
      (\<lambda>_ _ _ off len. Inr (subslice (unat off) (unat off + unat len) (pack_bytes [1, 2] hdr)))
      (\<lambda>_. Inr (PackHeader_to_binary [b])) [] None (of_nat (length (pack_bytes [1, 2] hdr))) = Inr [b]"
    by (rule PackHeader_from_file_roundtrip)
      (use wf l in \<open>simp_all add: reads_file_def hdr_def length_pack_bytes blob_nat_def b_def\<close>)
  from PackHeader_from_file_consistent [OF this] show ?thesis
    using l by (simp add: length_pack_bytes hdr_def b_def)
qed

end
