(* ===== verification/Indexer.thy ===== *)
theory Indexer
  imports PackFile
begin

text \<open>
  The \<open>Indexer\<close> (\<open>crates/core/src/index/indexer.rs\<close>), which collects the packs that were written and
  saves an index file whenever enough blobs or enough time have accumulated. Saving is an operation
  of the backend and a parameter here: \<open>save_file\<close> takes the file and the backend state. The time
  elapsed since creation and the current time are arguments. The lemmas show that no pack is lost:
  what is in the saved files followed by what is still in memory is the sequence of packs added.
\<close>

definition INDEXER_MAX_COUNT :: nat where
  "INDEXER_MAX_COUNT = 50000"

definition INDEXER_MAX_AGE :: nat where
  "INDEXER_MAX_AGE = 300"

record Indexer =
  ix_file :: IndexFile
  ix_count :: nat
  ix_created :: Timestamp
  ix_indexed :: "BlobId set option"

definition Indexer_new :: "Timestamp \<Rightarrow> Indexer" where
  "Indexer_new now =
     \<lparr>ix_file = IndexFile_default, ix_count = 0, ix_created = now, ix_indexed = Some {}\<rparr>"

definition Indexer_new_unindexed :: "Timestamp \<Rightarrow> Indexer" where
  "Indexer_new_unindexed now =
     \<lparr>ix_file = IndexFile_default, ix_count = 0, ix_created = now, ix_indexed = None\<rparr>"

definition Indexer_reset :: "Timestamp \<Rightarrow> Indexer \<Rightarrow> Indexer" where
  "Indexer_reset now ix = ix\<lparr>ix_file := IndexFile_default, ix_count := 0, ix_created := now\<rparr>"

type_synonym 's save_file = "IndexFile \<Rightarrow> 's \<Rightarrow> (Id \<times> 's) rustic_result"

definition Indexer_save :: "'s save_file \<Rightarrow> Indexer \<Rightarrow> 's \<Rightarrow> 's rustic_result" where
  "Indexer_save save_file ix s =
     (if length (ifi_packs (ix_file ix)) + length (ifi_packs_to_delete (ix_file ix)) > 0
      then bindR (save_file (ix_file ix) s) (\<lambda>(_, s'). Inr s')
      else Inr s)"

definition Indexer_finalize :: "'s save_file \<Rightarrow> Indexer \<Rightarrow> 's \<Rightarrow> 's rustic_result" where
  "Indexer_finalize = Indexer_save"

definition Indexer_add_with ::
    "'s save_file \<Rightarrow> nat \<Rightarrow> Timestamp \<Rightarrow> IndexPack \<Rightarrow> bool \<Rightarrow> Indexer \<Rightarrow> 's \<Rightarrow> (Indexer \<times> 's) rustic_result" where
  "Indexer_add_with save_file elapsed now pack del ix s =
     (let ix = ix\<lparr>ix_count := ix_count ix + length (ip_blobs pack)\<rparr>;
          ix = ix\<lparr>ix_indexed := map_option (\<lambda>indexed. indexed \<union> ib_id ` set (ip_blobs pack)) (ix_indexed ix)\<rparr>;
          ix = ix\<lparr>ix_file := IndexFile_add pack del (ix_file ix)\<rparr>
      in if ix_count ix \<ge> INDEXER_MAX_COUNT \<or> elapsed \<ge> INDEXER_MAX_AGE
         then bindR (Indexer_save save_file ix s) (\<lambda>s'. Inr (Indexer_reset now ix, s'))
         else Inr (ix, s))"

definition Indexer_add ::
    "'s save_file \<Rightarrow> nat \<Rightarrow> Timestamp \<Rightarrow> IndexPack \<Rightarrow> Indexer \<Rightarrow> 's \<Rightarrow> (Indexer \<times> 's) rustic_result" where
  "Indexer_add save_file elapsed now pack ix s = Indexer_add_with save_file elapsed now pack False ix s"

definition Indexer_add_remove ::
    "'s save_file \<Rightarrow> nat \<Rightarrow> Timestamp \<Rightarrow> IndexPack \<Rightarrow> Indexer \<Rightarrow> 's \<Rightarrow> (Indexer \<times> 's) rustic_result" where
  "Indexer_add_remove save_file elapsed now pack ix s =
     Indexer_add_with save_file elapsed now pack True ix s"

definition Indexer_has :: "BlobId \<Rightarrow> Indexer \<Rightarrow> bool" where
  "Indexer_has bid ix = (case ix_indexed ix of None \<Rightarrow> False | Some indexed \<Rightarrow> bid \<in> indexed)"

section \<open>No pack is lost\<close>

text \<open>What a successful save does to the index files the backend holds.\<close>

definition save_file_ok :: "'s save_file \<Rightarrow> ('s \<Rightarrow> IndexFile list) \<Rightarrow> bool" where
  "save_file_ok save_file files \<longleftrightarrow>
     (\<forall>f s i s'. save_file f s = Inr (i, s') \<longrightarrow> files s' = files s @ [f])"

definition packs_of :: "bool \<Rightarrow> IndexFile list \<Rightarrow> IndexPack list" where
  "packs_of del fs = concat (map (\<lambda>f. if del then ifi_packs_to_delete f else ifi_packs f) fs)"

text \<open>A run of \<open>add_with\<close> calls, each with its pack, its delete flag and its clock readings.\<close>

definition Indexer_add_all ::
    "'s save_file \<Rightarrow> (IndexPack \<times> bool \<times> nat \<times> Timestamp) list \<Rightarrow> Indexer \<times> 's \<Rightarrow> (Indexer \<times> 's) rustic_result" where
  "Indexer_add_all save_file ps st =
     foldR (\<lambda>(pack, del, elapsed, now) (ix, s). Indexer_add_with save_file elapsed now pack del ix s) ps st"

lemma packs_of_append [simp]: "packs_of d (xs @ ys) = packs_of d xs @ packs_of d ys"
  by (simp add: packs_of_def)

lemma packs_of_default [simp]: "packs_of d [IndexFile_default] = []" "packs_of d [] = []"
  by (simp_all add: packs_of_def IndexFile_default_def)

lemma packs_of_add:
  "packs_of d [IndexFile_add p del f] = packs_of d [f] @ (if d = del then [p] else [])"
  by (simp add: packs_of_def IndexFile_add_def)

lemma Indexer_save_files:
  assumes "save_file_ok save_file files" and "Indexer_save save_file ix s = Inr s'"
  shows "packs_of d (files s') = packs_of d (files s) @ packs_of d [ix_file ix]"
  using assms
  by (auto simp: Indexer_save_def save_file_ok_def packs_of_def result_simps split: if_splits)

lemma Indexer_add_with_packs:
  assumes "save_file_ok save_file files"
    and "Indexer_add_with save_file elapsed now pack del ix s = Inr (ix', s')"
  shows "packs_of d (files s' @ [ix_file ix']) =
    packs_of d (files s @ [ix_file ix]) @ (if d = del then [pack] else [])"
  using assms
  by (auto simp: Indexer_add_with_def Let_def result_simps Indexer_reset_def packs_of_add
      dest!: Indexer_save_files [where d = d] split: if_splits)

lemma Indexer_add_with_has:
  assumes "Indexer_add_with save_file elapsed now pack del ix s = Inr (ix', s')"
  shows "Indexer_has bid ix' \<longleftrightarrow>
    Indexer_has bid ix \<or> ix_indexed ix \<noteq> None \<and> bid \<in> ib_id ` set (ip_blobs pack)"
  using assms
  by (auto simp: Indexer_add_with_def Let_def result_simps Indexer_reset_def Indexer_has_def
      split: if_splits option.splits)

lemma Indexer_add_with_bound:
  assumes "Indexer_add_with save_file elapsed now pack del ix s = Inr (ix', s')"
  shows "ix_count ix' < INDEXER_MAX_COUNT"
  using assms
  by (auto simp: Indexer_add_with_def Let_def result_simps Indexer_reset_def INDEXER_MAX_COUNT_def
      split: if_splits)

lemma Indexer_add_all_packs:
  assumes "save_file_ok save_file files" and "Indexer_add_all save_file ps (ix, s) = Inr (ix', s')"
  shows "packs_of d (files s' @ [ix_file ix']) =
    packs_of d (files s @ [ix_file ix]) @ map fst (filter (\<lambda>p. fst (snd p) = d) ps)"
  using assms(2)
proof (induction ps arbitrary: ix s)
  case (Cons x ps)
  obtain pack del elapsed now where x: "x = (pack, del, elapsed, now)" by (cases x)
  from Cons.prems obtain ix1 s1
    where 1: "Indexer_add_with save_file elapsed now pack del ix s = Inr (ix1, s1)"
      and 2: "Indexer_add_all save_file ps (ix1, s1) = Inr (ix', s')"
    by (auto simp: Indexer_add_all_def result_simps x)
  show ?case
    using Cons.IH [OF 2] Indexer_add_with_packs [OF assms(1) 1, of d] by (auto simp: x)
qed (auto simp: Indexer_add_all_def)

section \<open>Properties\<close>

text \<open>C24. The indexer loses no pack and invents none: after any sequence of additions, with automatic
  saves wherever the limits on count and age were reached, and the final \<open>finalize\<close>, the index files
  of the backend hold exactly the packs that were added, in order, those to delete apart from the
  others.\<close>

theorem Indexer_run_complete:
  assumes "save_file_ok save_file files" "Indexer_add_all save_file ps (Indexer_new now, s) = Inr (ix, s')"
    and "Indexer_finalize save_file ix s' = Inr s''"
  shows "packs_of d (files s'') = packs_of d (files s) @ map fst (filter (\<lambda>p. fst (snd p) = d) ps)"
  using Indexer_add_all_packs [OF assms(1,2), of d] Indexer_save_files [OF assms(1), of ix s' s'' d] assms(3)
  by (simp add: Indexer_finalize_def Indexer_new_def)

theorem Indexer_run_complete_witness:
  "\<exists>ix s' s''. Indexer_add_all (\<lambda>f s. Inr ([], s @ [f])) [(IndexPack_default, False, 1000, 0), (IndexPack_default, True, 0, 0)]
       (Indexer_new 0, []) = Inr (ix, s') \<and> Indexer_finalize (\<lambda>f s. Inr ([], s @ [f])) ix s' = Inr s'' \<and>
     packs_of True s'' = [IndexPack_default]"
proof -
  have sf: "save_file_ok (\<lambda>f s. Inr ([], s @ [f])) (\<lambda>s. s)" by (simp add: save_file_ok_def)
  have "\<exists>ix s' s''. Indexer_add_all (\<lambda>f s. Inr ([], s @ [f])) [(IndexPack_default, False, 1000, 0), (IndexPack_default, True, 0, 0)]
       (Indexer_new 0, []) = Inr (ix, s') \<and> Indexer_finalize (\<lambda>f s. Inr ([], s @ [f])) ix s' = Inr s''"
    by (simp add: Indexer_add_all_def Indexer_add_with_def Let_def Indexer_save_def Indexer_finalize_def
        INDEXER_MAX_COUNT_def INDEXER_MAX_AGE_def IndexFile_add_def IndexFile_default_def Indexer_reset_def
        Indexer_new_def IndexPack_default_def)
  then show ?thesis
    using Indexer_run_complete [OF sf, of "[(IndexPack_default, False, 1000, 0), (IndexPack_default, True, 0, 0)]"
        0 "[]" _ _ _ True] by fastforce
qed

end
