(* ===== verification/Config.thy ===== *)
theory Config
  imports Blob
begin

text \<open>
  The repository configuration (\<open>crates/core/src/repofile/configfile.rs\<close>) and the command that
  changes it (\<open>crates/core/src/commands/config.rs\<close>), with the parameter check of the Rabin chunker
  (\<open>check_rabin_params\<close> in \<open>crates/core/src/chunker/rabin.rs\<close>). The range of compression levels
  comes from the crate \<open>zstd\<close> and is a parameter. The lemmas give the invariant a configuration
  keeps under every accepted change, the errors of each guard, and what a change leaves alone.
\<close>

section \<open>The configuration file\<close>

datatype Chunker = Rabin | FixedSize

record ConfigFile =
  c_version :: u32
  c_id :: Id
  c_chunker :: "Chunker option"
  c_chunker_polynomial :: string
  c_chunk_size :: "u64 option"
  c_chunk_min_size :: "u64 option"
  c_chunk_max_size :: "u64 option"
  c_is_hot :: "bool option"
  c_append_only :: "bool option"
  c_compression :: "int option"
  c_treepack_size :: "u32 option"
  c_treepack_growfactor :: "u32 option"
  c_treepack_size_limit :: "u32 option"
  c_datapack_size :: "u32 option"
  c_datapack_growfactor :: "u32 option"
  c_datapack_size_limit :: "u32 option"
  c_min_packsize_tolerate_percent :: "u32 option"
  c_max_packsize_tolerate_percent :: "u32 option"
  c_extra_verify :: "bool option"

definition unwrap_or :: "'a \<Rightarrow> 'a option \<Rightarrow> 'a" where
  "unwrap_or d m = (case m of None \<Rightarrow> d | Some x \<Rightarrow> x)"

lemma unwrap_or_simps [simp]: "unwrap_or d None = d" "unwrap_or d (Some x) = x"
  by (simp_all add: unwrap_or_def)

definition DEFAULT_TREE_SIZE :: u32 where "DEFAULT_TREE_SIZE = 4 * (1024 * 1024)"
definition DEFAULT_DATA_SIZE :: u32 where "DEFAULT_DATA_SIZE = 32 * (1024 * 1024)"
definition DEFAULT_GROW_FACTOR :: u32 where "DEFAULT_GROW_FACTOR = 32"
definition DEFAULT_SIZE_LIMIT :: u32 where "DEFAULT_SIZE_LIMIT = 4294967295"
definition DEFAULT_MIN_PERCENTAGE :: u32 where "DEFAULT_MIN_PERCENTAGE = 30"
definition DEFAULT_CHUNK_SIZE :: u64 where "DEFAULT_CHUNK_SIZE = 1024 * 1024"
definition DEFAULT_CHUNK_MIN_SIZE :: u64 where "DEFAULT_CHUNK_MIN_SIZE = 512 * 1024"
definition DEFAULT_CHUNK_MAX_SIZE :: u64 where "DEFAULT_CHUNK_MAX_SIZE = 8 * 1024 * 1024"

text \<open>\<open>ConfigFile::new\<close>; \<open>hex_of\<close> formats the polynomial (\<open>format!("{poly:x}")\<close>).\<close>

definition ConfigFile_new :: "(u64 \<Rightarrow> string) \<Rightarrow> u32 \<Rightarrow> Id \<Rightarrow> u64 \<Rightarrow> ConfigFile" where
  "ConfigFile_new hex_of version i poly =
     \<lparr>c_version = version, c_id = i, c_chunker = None, c_chunker_polynomial = hex_of poly,
      c_chunk_size = None, c_chunk_min_size = None, c_chunk_max_size = None, c_is_hot = None,
      c_append_only = None, c_compression = None, c_treepack_size = None,
      c_treepack_growfactor = None, c_treepack_size_limit = None, c_datapack_size = None,
      c_datapack_growfactor = None, c_datapack_size_limit = None,
      c_min_packsize_tolerate_percent = None, c_max_packsize_tolerate_percent = None,
      c_extra_verify = None\<rparr>"

definition zstd :: "ConfigFile \<Rightarrow> int option rustic_result" where
  "zstd c =
     (if c_version c = 1 then Inr None
      else if c_version c = 2
      then (case c_compression c of
              None \<Rightarrow> Inr (Some 0)
            | Some l \<Rightarrow> if l = 0 then Inr None else Inr (Some l))
      else Inl (RusticError EUnsupported ''Config version `{version}` not supported.''))"

definition extra_verify :: "ConfigFile \<Rightarrow> bool" where
  "extra_verify c = unwrap_or True (c_extra_verify c)"

fun packsize :: "ConfigFile \<Rightarrow> BlobType \<Rightarrow> u32 \<times> u32 \<times> u32" where
  "packsize c Tree =
     (unwrap_or DEFAULT_TREE_SIZE (c_treepack_size c),
      unwrap_or DEFAULT_GROW_FACTOR (c_treepack_growfactor c),
      unwrap_or DEFAULT_SIZE_LIMIT (c_treepack_size_limit c))"
| "packsize c Data =
     (unwrap_or DEFAULT_DATA_SIZE (c_datapack_size c),
      unwrap_or DEFAULT_GROW_FACTOR (c_datapack_growfactor c),
      unwrap_or DEFAULT_SIZE_LIMIT (c_datapack_size_limit c))"

definition packsize_ok_percents :: "ConfigFile \<Rightarrow> u32 \<times> u32" where
  "packsize_ok_percents c =
     (unwrap_or DEFAULT_MIN_PERCENTAGE (c_min_packsize_tolerate_percent c),
      (case c_max_packsize_tolerate_percent c of
         None \<Rightarrow> 4294967295
       | Some percent \<Rightarrow> if percent = 0 then 4294967295 else percent))"

definition chunker :: "ConfigFile \<Rightarrow> Chunker" where
  "chunker c = unwrap_or Rabin (c_chunker c)"

definition chunk_size :: "ConfigFile \<Rightarrow> u64" where
  "chunk_size c = unwrap_or DEFAULT_CHUNK_SIZE (c_chunk_size c)"

definition chunk_min_size :: "ConfigFile \<Rightarrow> u64" where
  "chunk_min_size c = unwrap_or DEFAULT_CHUNK_MIN_SIZE (c_chunk_min_size c)"

definition chunk_max_size :: "ConfigFile \<Rightarrow> u64" where
  "chunk_max_size c = unwrap_or DEFAULT_CHUNK_MAX_SIZE (c_chunk_max_size c)"

definition has_same_chunker :: "ConfigFile \<Rightarrow> ConfigFile \<Rightarrow> bool" where
  "has_same_chunker a b =
     (if chunker a \<noteq> chunker b then False
      else case chunker a of
        Rabin \<Rightarrow> c_chunker_polynomial a = c_chunker_polynomial b \<and> chunk_size a = chunk_size b \<and>
                 chunk_min_size a = chunk_min_size b \<and> chunk_max_size a = chunk_max_size b
      | FixedSize \<Rightarrow> chunk_size a = chunk_size b)"

definition Chunker_from_str :: "string \<Rightarrow> Chunker rustic_result" where
  "Chunker_from_str s =
     (if s = ''rabin'' then Inr Rabin
      else if s = ''fixed_size'' then Inr FixedSize
      else Inl (RusticError EInvalidInput ''only ``rabin`` and ``fixed_size`` are valid chunkers''))"

section \<open>Rabin parameters\<close>

definition check_rabin_params :: "u64 \<Rightarrow> u64 \<Rightarrow> u64 \<Rightarrow> unit rustic_result" where
  "check_rabin_params sz min_sz max_sz =
     (if sz AND (sz - 1) \<noteq> 0
      then Inl (RusticError EUnsupported ''Chunk size must be a power of 2 for the rabin chunker.'')
      else if min_sz > sz
      then Inl (RusticError EUnsupported ''Chunk min size must be smaller or equal than the chunk size.'')
      else if max_sz < sz
      then Inl (RusticError EUnsupported ''Chunk max size must be larger or equal than the chunk size.'')
      else Inr ())"

section \<open>The config command\<close>

record ConfigOptions =
  set_version :: "u32 option"
  set_chunker :: "Chunker option"
  set_chunk_size :: "u64 option"
  set_chunk_min_size :: "u64 option"
  set_chunk_max_size :: "u64 option"
  set_compression :: "int option"
  set_append_only :: "bool option"
  set_treepack_size :: "u64 option"
  set_treepack_size_limit :: "u64 option"
  set_treepack_growfactor :: "u32 option"
  set_datapack_size :: "u64 option"
  set_datapack_growfactor :: "u32 option"
  set_datapack_size_limit :: "u64 option"
  set_min_packsize_tolerate_percent :: "u32 option"
  set_max_packsize_tolerate_percent :: "u32 option"
  set_extra_verify_opt :: "bool option"

definition construct_size_too_large_error :: rustic_error where
  "construct_size_too_large_error =
     RusticError EInternal ''Failed to convert ByteSize `{size}` to u64. Size is too large.''"

text \<open>The conversion of a \<open>ByteSize\<close> (a \<open>u64\<close>) to \<open>u32\<close>; the conversion to \<open>usize\<close> cannot fail.\<close>

definition size_to_u32 :: "u64 \<Rightarrow> u32 rustic_result" where
  "size_to_u32 s = ok_or construct_size_too_large_error (u32_try_from (unat s))"

definition apply_version :: "ConfigOptions \<Rightarrow> ConfigFile \<Rightarrow> ConfigFile rustic_result" where
  "apply_version o' c =
     (case set_version o' of
        None \<Rightarrow> Inr c
      | Some v \<Rightarrow>
          if \<not> (1 \<le> v \<and> v \<le> 2) then Inl (RusticError EUnsupported ''Config version unsupported.'')
          else if v < c_version c
          then Inl (RusticError EUnsupported ''Downgrading config version is unsupported.'')
          else Inr (c\<lparr>c_version := v\<rparr>))"

definition set_chunk_fields :: "ConfigOptions \<Rightarrow> ConfigFile \<Rightarrow> ConfigFile" where
  "set_chunk_fields o' c =
     (let c = (case set_chunker o' of None \<Rightarrow> c | Some k \<Rightarrow> c\<lparr>c_chunker := Some k\<rparr>);
          c = (case set_chunk_size o' of None \<Rightarrow> c | Some s \<Rightarrow> c\<lparr>c_chunk_size := Some s\<rparr>);
          c = (case set_chunk_min_size o' of None \<Rightarrow> c | Some s \<Rightarrow> c\<lparr>c_chunk_min_size := Some s\<rparr>)
      in (case set_chunk_max_size o' of None \<Rightarrow> c | Some s \<Rightarrow> c\<lparr>c_chunk_max_size := Some s\<rparr>))"

definition apply_chunker :: "ConfigOptions \<Rightarrow> ConfigFile \<Rightarrow> ConfigFile rustic_result" where
  "apply_chunker o' c =
     (let c = set_chunk_fields o' c in
      if chunker c = Rabin
      then bindR (check_rabin_params (chunk_size c) (chunk_min_size c) (chunk_max_size c)) (\<lambda>_. Inr c)
      else Inr c)"

definition apply_compression :: "int \<times> int \<Rightarrow> ConfigOptions \<Rightarrow> ConfigFile \<Rightarrow> ConfigFile rustic_result" where
  "apply_compression levels o' c =
     (case set_compression o' of
        None \<Rightarrow> Inr c
      | Some l \<Rightarrow>
          if c_version c = 1 \<and> l \<noteq> 0
          then Inl (RusticError EUnsupported ''Compression `{compression}` unsupported for v1 repos.'')
          else if \<not> (fst levels \<le> l \<and> l \<le> snd levels)
          then Inl (RusticError EUnsupported ''Compression level `{compression}` is unsupported.'')
          else Inr (c\<lparr>c_compression := Some l\<rparr>))"

definition apply_treepack :: "ConfigOptions \<Rightarrow> ConfigFile \<Rightarrow> ConfigFile rustic_result" where
  "apply_treepack o' c =
     bindR (case set_treepack_size o' of None \<Rightarrow> Inr c
            | Some s \<Rightarrow> bindR (size_to_u32 s) (\<lambda>n. Inr (c\<lparr>c_treepack_size := Some n\<rparr>))) (\<lambda>c.
     let c = (case set_treepack_growfactor o' of None \<Rightarrow> c | Some f \<Rightarrow> c\<lparr>c_treepack_growfactor := Some f\<rparr>) in
     (case set_treepack_size_limit o' of None \<Rightarrow> Inr c
      | Some s \<Rightarrow> bindR (size_to_u32 s) (\<lambda>n. Inr (c\<lparr>c_treepack_size_limit := Some n\<rparr>))))"

definition apply_datapack :: "ConfigOptions \<Rightarrow> ConfigFile \<Rightarrow> ConfigFile rustic_result" where
  "apply_datapack o' c =
     bindR (case set_datapack_size o' of None \<Rightarrow> Inr c
            | Some s \<Rightarrow> bindR (size_to_u32 s) (\<lambda>n. Inr (c\<lparr>c_datapack_size := Some n\<rparr>))) (\<lambda>c.
     let c = (case set_datapack_growfactor o' of None \<Rightarrow> c | Some f \<Rightarrow> c\<lparr>c_datapack_growfactor := Some f\<rparr>) in
     (case set_datapack_size_limit o' of None \<Rightarrow> Inr c
      | Some s \<Rightarrow> bindR (size_to_u32 s) (\<lambda>n. Inr (c\<lparr>c_datapack_size_limit := Some n\<rparr>))))"

definition apply_percents :: "ConfigOptions \<Rightarrow> ConfigFile \<Rightarrow> ConfigFile rustic_result" where
  "apply_percents o' c =
     bindR (case set_min_packsize_tolerate_percent o' of None \<Rightarrow> Inr c
            | Some percent \<Rightarrow>
                if percent > 100
                then Inl (RusticError EInvalidInput ''`min_packsize_tolerate_percent` must be <= 100.'')
                else Inr (c\<lparr>c_min_packsize_tolerate_percent := Some percent\<rparr>)) (\<lambda>c.
     (case set_max_packsize_tolerate_percent o' of None \<Rightarrow> Inr c
      | Some percent \<Rightarrow>
          if percent < 100 \<and> percent > 0
          then Inl (RusticError EInvalidInput ''`max_packsize_tolerate_percent` must be >= 100 or 0.'')
          else Inr (c\<lparr>c_max_packsize_tolerate_percent := Some percent\<rparr>)))"

text \<open>\<open>ConfigOptions::apply\<close>: the groups above in the order of the source.\<close>

definition ConfigOptions_apply ::
    "int \<times> int \<Rightarrow> ConfigOptions \<Rightarrow> ConfigFile \<Rightarrow> ConfigFile rustic_result" where
  "ConfigOptions_apply levels o' c =
     bindR (apply_version o' c) (\<lambda>c.
     bindR (apply_chunker o' c) (\<lambda>c.
     bindR (apply_compression levels o' c) (\<lambda>c.
     let c = (case set_append_only o' of None \<Rightarrow> c | Some a \<Rightarrow> c\<lparr>c_append_only := Some a\<rparr>) in
     bindR (apply_treepack o' c) (\<lambda>c.
     bindR (apply_datapack o' c) (\<lambda>c.
     bindR (apply_percents o' c) (\<lambda>c.
     Inr (c\<lparr>c_extra_verify := set_extra_verify_opt o'\<rparr>)))))))"

text \<open>\<open>apply_config\<close> on the pair of the configuration the repository holds and the list of
  configuration files it saved: \<open>set_config\<close> first, then \<open>save_config\<close>, which writes the file
  without the hot marker and, for a hot/cold repository, the file with the marker to the hot part.\<close>

record Repo =
  r_config :: ConfigFile
  r_has_hot :: bool
  r_saved :: "ConfigFile list"
  r_saved_hot :: "ConfigFile list"

definition save_config_hot :: "ConfigFile \<Rightarrow> Repo \<Rightarrow> Repo" where
  "save_config_hot new_config r =
     (if r_has_hot r
      then r\<lparr>r_saved_hot := r_saved_hot r @ [new_config\<lparr>c_is_hot := Some True\<rparr>]\<rparr>
      else r)"

definition save_config :: "ConfigFile \<Rightarrow> Repo \<Rightarrow> Repo" where
  "save_config new_config r =
     (let new_config = new_config\<lparr>c_is_hot := None\<rparr>;
          r = r\<lparr>r_saved := r_saved r @ [new_config]\<rparr>
      in save_config_hot new_config r)"

definition apply_config :: "int \<times> int \<Rightarrow> ConfigOptions \<Rightarrow> Repo \<Rightarrow> (bool \<times> Repo) rustic_result" where
  "apply_config levels o' r =
     (if c_append_only (r_config r) = Some True \<and> set_append_only o' \<noteq> Some False
      then Inl (RusticError EAppendOnly ''Changing config is not allowed in append-only repositories.'')
      else bindR (ConfigOptions_apply levels o' (r_config r)) (\<lambda>new_config.
             if new_config = r_config r then Inr (False, r)
             else Inr (True, save_config new_config (r\<lparr>r_config := new_config\<rparr>))))"

section \<open>The invariant of a configuration\<close>

definition rabin_ok :: "ConfigFile \<Rightarrow> bool" where
  "rabin_ok c \<longleftrightarrow> (chunker c = Rabin \<longrightarrow>
     check_rabin_params (chunk_size c) (chunk_min_size c) (chunk_max_size c) = Inr ())"

definition version_ok :: "ConfigFile \<Rightarrow> bool" where
  "version_ok c \<longleftrightarrow> (c_version c = 1 \<or> c_version c = 2) \<and>
     (c_version c = 1 \<longrightarrow> c_compression c = None \<or> c_compression c = Some 0)"

definition percents_ok :: "ConfigFile \<Rightarrow> bool" where
  "percents_ok c \<longleftrightarrow> fst (packsize_ok_percents c) \<le> 100 \<and> 100 \<le> snd (packsize_ok_percents c)"

definition valid_config :: "ConfigFile \<Rightarrow> bool" where
  "valid_config c \<longleftrightarrow> rabin_ok c \<and> version_ok c \<and> percents_ok c"

lemmas config_accessors = chunker_def chunk_size_def chunk_min_size_def chunk_max_size_def

lemmas config_invariants = valid_config_def rabin_ok_def version_ok_def percents_ok_def
  packsize_ok_percents_def config_accessors

lemma u32_range_1_2: "1 \<le> (v :: u32) \<Longrightarrow> v \<le> 2 \<Longrightarrow> v = 1 \<or> v = 2"
  by unat_arith

text \<open>Which fields each part of the invariant reads.\<close>

lemma rabin_ok_frame [simp]:
  "rabin_ok (c\<lparr>c_version := x_version\<rparr>) = rabin_ok c"
  "rabin_ok (c\<lparr>c_append_only := x_append_only\<rparr>) = rabin_ok c"
  "rabin_ok (c\<lparr>c_compression := x_compression\<rparr>) = rabin_ok c"
  "rabin_ok (c\<lparr>c_treepack_size := x_treepack_size\<rparr>) = rabin_ok c"
  "rabin_ok (c\<lparr>c_treepack_growfactor := x_treepack_growfactor\<rparr>) = rabin_ok c"
  "rabin_ok (c\<lparr>c_treepack_size_limit := x_treepack_size_limit\<rparr>) = rabin_ok c"
  "rabin_ok (c\<lparr>c_datapack_size := x_datapack_size\<rparr>) = rabin_ok c"
  "rabin_ok (c\<lparr>c_datapack_growfactor := x_datapack_growfactor\<rparr>) = rabin_ok c"
  "rabin_ok (c\<lparr>c_datapack_size_limit := x_datapack_size_limit\<rparr>) = rabin_ok c"
  "rabin_ok (c\<lparr>c_min_packsize_tolerate_percent := x_min_packsize_tolerate_percent\<rparr>) = rabin_ok c"
  "rabin_ok (c\<lparr>c_max_packsize_tolerate_percent := x_max_packsize_tolerate_percent\<rparr>) = rabin_ok c"
  "rabin_ok (c\<lparr>c_extra_verify := x_extra_verify\<rparr>) = rabin_ok c"
  "rabin_ok (c\<lparr>c_is_hot := x_is_hot\<rparr>) = rabin_ok c"
  by (simp_all add: rabin_ok_def config_accessors)

lemma version_ok_frame [simp]:
  "version_ok (c\<lparr>c_chunker := x_chunker\<rparr>) = version_ok c"
  "version_ok (c\<lparr>c_chunk_size := x_chunk_size\<rparr>) = version_ok c"
  "version_ok (c\<lparr>c_chunk_min_size := x_chunk_min_size\<rparr>) = version_ok c"
  "version_ok (c\<lparr>c_chunk_max_size := x_chunk_max_size\<rparr>) = version_ok c"
  "version_ok (c\<lparr>c_append_only := x_append_only\<rparr>) = version_ok c"
  "version_ok (c\<lparr>c_treepack_size := x_treepack_size\<rparr>) = version_ok c"
  "version_ok (c\<lparr>c_treepack_growfactor := x_treepack_growfactor\<rparr>) = version_ok c"
  "version_ok (c\<lparr>c_treepack_size_limit := x_treepack_size_limit\<rparr>) = version_ok c"
  "version_ok (c\<lparr>c_datapack_size := x_datapack_size\<rparr>) = version_ok c"
  "version_ok (c\<lparr>c_datapack_growfactor := x_datapack_growfactor\<rparr>) = version_ok c"
  "version_ok (c\<lparr>c_datapack_size_limit := x_datapack_size_limit\<rparr>) = version_ok c"
  "version_ok (c\<lparr>c_min_packsize_tolerate_percent := x_min_packsize_tolerate_percent\<rparr>) = version_ok c"
  "version_ok (c\<lparr>c_max_packsize_tolerate_percent := x_max_packsize_tolerate_percent\<rparr>) = version_ok c"
  "version_ok (c\<lparr>c_extra_verify := x_extra_verify\<rparr>) = version_ok c"
  "version_ok (c\<lparr>c_is_hot := x_is_hot\<rparr>) = version_ok c"
  by (simp_all add: version_ok_def)

lemma percents_ok_frame [simp]:
  "percents_ok (c\<lparr>c_version := x_version\<rparr>) = percents_ok c"
  "percents_ok (c\<lparr>c_chunker := x_chunker\<rparr>) = percents_ok c"
  "percents_ok (c\<lparr>c_chunk_size := x_chunk_size\<rparr>) = percents_ok c"
  "percents_ok (c\<lparr>c_chunk_min_size := x_chunk_min_size\<rparr>) = percents_ok c"
  "percents_ok (c\<lparr>c_chunk_max_size := x_chunk_max_size\<rparr>) = percents_ok c"
  "percents_ok (c\<lparr>c_append_only := x_append_only\<rparr>) = percents_ok c"
  "percents_ok (c\<lparr>c_compression := x_compression\<rparr>) = percents_ok c"
  "percents_ok (c\<lparr>c_treepack_size := x_treepack_size\<rparr>) = percents_ok c"
  "percents_ok (c\<lparr>c_treepack_growfactor := x_treepack_growfactor\<rparr>) = percents_ok c"
  "percents_ok (c\<lparr>c_treepack_size_limit := x_treepack_size_limit\<rparr>) = percents_ok c"
  "percents_ok (c\<lparr>c_datapack_size := x_datapack_size\<rparr>) = percents_ok c"
  "percents_ok (c\<lparr>c_datapack_growfactor := x_datapack_growfactor\<rparr>) = percents_ok c"
  "percents_ok (c\<lparr>c_datapack_size_limit := x_datapack_size_limit\<rparr>) = percents_ok c"
  "percents_ok (c\<lparr>c_extra_verify := x_extra_verify\<rparr>) = percents_ok c"
  "percents_ok (c\<lparr>c_is_hot := x_is_hot\<rparr>) = percents_ok c"
  by (simp_all add: percents_ok_def packsize_ok_percents_def)

lemma apply_version_inv:
  assumes "apply_version o' c = Inr c'" and "version_ok c"
  shows "version_ok c'" and "rabin_ok c' \<longleftrightarrow> rabin_ok c" and "percents_ok c' \<longleftrightarrow> percents_ok c"
proof -
  consider "c' = c" | v where "c' = c\<lparr>c_version := v\<rparr>" "v = 1 \<or> v = 2" "c_version c \<le> v"
    using assms(1) u32_range_1_2
    by (auto simp: apply_version_def not_less split: option.splits if_splits)
  then have "version_ok c' \<and> (rabin_ok c' \<longleftrightarrow> rabin_ok c) \<and> (percents_ok c' \<longleftrightarrow> percents_ok c)"
  proof cases
    case 1
    with assms(2) show ?thesis by simp
  next
    case (2 v)
    moreover have "\<not> 2 \<le> (1 :: u32)" by (simp add: word_le_nat_alt)
    ultimately show ?thesis using assms(2) by (auto simp: version_ok_def)
  qed
  then show "version_ok c'" "rabin_ok c' \<longleftrightarrow> rabin_ok c" "percents_ok c' \<longleftrightarrow> percents_ok c"
    by blast+
qed

lemma set_chunk_fields_frame [simp]:
  "version_ok (set_chunk_fields o' c) = version_ok c"
  "percents_ok (set_chunk_fields o' c) = percents_ok c"
  by (simp_all add: set_chunk_fields_def Let_def split: option.split)

lemma apply_chunker_inv:
  assumes "apply_chunker o' c = Inr c'"
  shows "rabin_ok c'" and "version_ok c' \<longleftrightarrow> version_ok c" and "percents_ok c' \<longleftrightarrow> percents_ok c"
proof -
  have c': "c' = set_chunk_fields o' c"
    using assms by (auto simp: apply_chunker_def Let_def result_simps split: if_splits)
  show "rabin_ok c'"
    using assms by (auto simp: apply_chunker_def Let_def rabin_ok_def result_simps split: if_splits)
  show "version_ok c' \<longleftrightarrow> version_ok c" "percents_ok c' \<longleftrightarrow> percents_ok c"
    by (simp_all add: c')
qed

lemma apply_compression_inv:
  assumes "apply_compression levels o' c = Inr c'"
  shows "version_ok c \<Longrightarrow> version_ok c'" and "rabin_ok c' \<longleftrightarrow> rabin_ok c"
    and "percents_ok c' \<longleftrightarrow> percents_ok c"
  using assms
  by (auto simp: apply_compression_def version_ok_def split: option.splits if_splits)

lemma apply_treepack_inv:
  assumes "apply_treepack o' c = Inr c'"
  shows "valid_config c' \<longleftrightarrow> valid_config c"
  using assms
  by (auto simp: apply_treepack_def valid_config_def result_simps Let_def split: option.splits)

lemma apply_datapack_inv:
  assumes "apply_datapack o' c = Inr c'"
  shows "valid_config c' \<longleftrightarrow> valid_config c"
  using assms
  by (auto simp: apply_datapack_def valid_config_def result_simps Let_def split: option.splits)

lemma apply_percents_inv:
  assumes "apply_percents o' c = Inr c'" and "percents_ok c"
  shows "percents_ok c'" and "version_ok c' \<longleftrightarrow> version_ok c" and "rabin_ok c' \<longleftrightarrow> rabin_ok c"
proof -
  obtain c1 where c1: "c1 = c \<or> (\<exists>x \<le> 100. c1 = c\<lparr>c_min_packsize_tolerate_percent := Some x\<rparr>)"
    and c': "c' = c1 \<or>
      (\<exists>x. (x = 0 \<or> 100 \<le> x) \<and> c' = c1\<lparr>c_max_packsize_tolerate_percent := Some x\<rparr>)"
    using assms(1)
    by (auto simp: apply_percents_def result_simps not_less word_neq_0_conv
        split: option.splits if_splits)
  from c1 c' show "version_ok c' \<longleftrightarrow> version_ok c" "rabin_ok c' \<longleftrightarrow> rabin_ok c" by auto
  from c1 assms(2) have "percents_ok c1"
    by (auto simp: percents_ok_def packsize_ok_percents_def)
  with c' show "percents_ok c'"
    by (auto simp: percents_ok_def packsize_ok_percents_def)
qed

text \<open>Every accepted change keeps a valid configuration valid.\<close>

lemma ConfigOptions_apply_valid:
  assumes "ConfigOptions_apply levels o' c = Inr c'" and "valid_config c"
  shows "valid_config c'"
proof -
  obtain c1 c2 c3 c4 c5 c6 c7 where
    1: "apply_version o' c = Inr c1" and 2: "apply_chunker o' c1 = Inr c2" and
    3: "apply_compression levels o' c2 = Inr c3" and
    4: "c4 = (case set_append_only o' of None \<Rightarrow> c3 | Some a \<Rightarrow> c3\<lparr>c_append_only := Some a\<rparr>)" and
    5: "apply_treepack o' c4 = Inr c5" and 6: "apply_datapack o' c5 = Inr c6" and
    7: "apply_percents o' c6 = Inr c7 \<and> c' = c7\<lparr>c_extra_verify := set_extra_verify_opt o'\<rparr>"
    using assms(1) by (auto simp: ConfigOptions_apply_def result_simps Let_def)
  have "valid_config c3"
    using assms(2) apply_version_inv [OF 1] apply_chunker_inv [OF 2] apply_compression_inv [OF 3]
    by (simp add: valid_config_def)
  then have "valid_config c4" using 4 by (auto simp: valid_config_def split: option.splits)
  then have "valid_config c6" using apply_treepack_inv [OF 5] apply_datapack_inv [OF 6] by simp
  then show ?thesis using 7 apply_percents_inv by (auto simp: valid_config_def)
qed

text \<open>No option at all, and the configuration of a new repository.\<close>

definition no_options :: ConfigOptions where
  "no_options = \<lparr>set_version = None, set_chunker = None, set_chunk_size = None, set_chunk_min_size = None,
     set_chunk_max_size = None, set_compression = None, set_append_only = None, set_treepack_size = None,
     set_treepack_size_limit = None, set_treepack_growfactor = None, set_datapack_size = None,
     set_datapack_growfactor = None, set_datapack_size_limit = None, set_min_packsize_tolerate_percent = None,
     set_max_packsize_tolerate_percent = None, set_extra_verify_opt = None\<rparr>"

abbreviation new_config :: ConfigFile where
  "new_config \<equiv> ConfigFile_new (\<lambda>_. ''3'') 2 Id_default 3"

lemmas apply_defs = ConfigOptions_apply_def apply_version_def apply_chunker_def set_chunk_fields_def
  apply_compression_def apply_treepack_def apply_datapack_def apply_percents_def

lemma new_config_rabin:
  "check_rabin_params DEFAULT_CHUNK_SIZE DEFAULT_CHUNK_MIN_SIZE DEFAULT_CHUNK_MAX_SIZE = Inr ()"
  by (simp add: check_rabin_params_def DEFAULT_CHUNK_SIZE_def DEFAULT_CHUNK_MIN_SIZE_def
      DEFAULT_CHUNK_MAX_SIZE_def word_le_nat_alt word_less_nat_alt)

lemma new_config_valid: "valid_config new_config"
  using new_config_rabin
  by (simp add: config_invariants ConfigFile_new_def unwrap_or_def DEFAULT_MIN_PERCENTAGE_def word_le_nat_alt)

lemma new_config_compression:
  "ConfigOptions_apply (-7, 22) (no_options\<lparr>set_compression := Some 5\<rparr>) (new_config\<lparr>c_extra_verify := Some False\<rparr>) =
     Inr (new_config\<lparr>c_compression := Some 5\<rparr>)"
  using new_config_rabin
  by (simp add: apply_defs no_options_def ConfigFile_new_def config_accessors unwrap_or_def)

section \<open>Properties\<close>

lemma apply_keeps_chunk_fields:
  "apply_version o' c = Inr c' \<Longrightarrow> c_chunker c' = c_chunker c \<and> c_chunk_size c' = c_chunk_size c"
  "apply_compression levels o' c = Inr c' \<Longrightarrow> c_chunker c' = c_chunker c \<and> c_chunk_size c' = c_chunk_size c"
  "apply_treepack o' c = Inr c' \<Longrightarrow> c_chunker c' = c_chunker c \<and> c_chunk_size c' = c_chunk_size c"
  "apply_datapack o' c = Inr c' \<Longrightarrow> c_chunker c' = c_chunker c \<and> c_chunk_size c' = c_chunk_size c"
  "apply_percents o' c = Inr c' \<Longrightarrow> c_chunker c' = c_chunker c \<and> c_chunk_size c' = c_chunk_size c"
proof -
  show "apply_version o' c = Inr c' \<Longrightarrow> c_chunker c' = c_chunker c \<and> c_chunk_size c' = c_chunk_size c"
    by (auto simp: apply_version_def split: option.splits if_splits)
  show "apply_compression levels o' c = Inr c' \<Longrightarrow> c_chunker c' = c_chunker c \<and> c_chunk_size c' = c_chunk_size c"
    by (auto simp: apply_compression_def split: option.splits if_splits)
  show "apply_treepack o' c = Inr c' \<Longrightarrow> c_chunker c' = c_chunker c \<and> c_chunk_size c' = c_chunk_size c"
    by (auto simp: apply_treepack_def result_simps Let_def split: option.splits)
  show "apply_datapack o' c = Inr c' \<Longrightarrow> c_chunker c' = c_chunker c \<and> c_chunk_size c' = c_chunk_size c"
    by (auto simp: apply_datapack_def result_simps Let_def split: option.splits)
  show "apply_percents o' c = Inr c' \<Longrightarrow> c_chunker c' = c_chunker c \<and> c_chunk_size c' = c_chunk_size c"
    by (auto simp: apply_percents_def result_simps split: option.splits if_splits)
qed

text \<open>The chunk size of the options reaches the new configuration, and the chunker stays unless it is
  set.\<close>

lemma ConfigOptions_apply_chunk_size:
  assumes "ConfigOptions_apply levels o' c = Inr c'" "set_chunker o' = None" "set_chunk_size o' = Some n"
  shows "c_chunker c' = c_chunker c \<and> c_chunk_size c' = Some n"
proof -
  obtain c1 c2 c3 c4 c5 c6 c7 where
    1: "apply_version o' c = Inr c1" and 2: "apply_chunker o' c1 = Inr c2" and
    3: "apply_compression levels o' c2 = Inr c3" and
    4: "c4 = (case set_append_only o' of None \<Rightarrow> c3 | Some a \<Rightarrow> c3\<lparr>c_append_only := Some a\<rparr>)" and
    5: "apply_treepack o' c4 = Inr c5" and 6: "apply_datapack o' c5 = Inr c6" and
    7: "apply_percents o' c6 = Inr c7" "c' = c7\<lparr>c_extra_verify := set_extra_verify_opt o'\<rparr>"
    using assms(1) by (auto simp: ConfigOptions_apply_def result_simps Let_def)
  have "c2 = set_chunk_fields o' c1"
    using 2 by (auto simp: apply_chunker_def Let_def result_simps split: if_splits)
  then have "c_chunker c2 = c_chunker c1 \<and> c_chunk_size c2 = Some n"
    using assms(2,3) by (simp add: set_chunk_fields_def Let_def split: option.split)
  moreover have "c_chunker c4 = c_chunker c3 \<and> c_chunk_size c4 = c_chunk_size c3"
    using 4 by (simp split: option.splits)
  ultimately show ?thesis
    using apply_keeps_chunk_fields(1) [OF 1] apply_keeps_chunk_fields(2) [OF 3] apply_keeps_chunk_fields(3) [OF 5]
      apply_keeps_chunk_fields(4) [OF 6] apply_keeps_chunk_fields(5) [OF 7(1)] 7(2) by simp
qed

lemma apply_keeps_version:
  "apply_chunker o' c = Inr c' \<Longrightarrow> c_version c' = c_version c"
  "apply_compression levels o' c = Inr c' \<Longrightarrow> c_version c' = c_version c"
  "apply_treepack o' c = Inr c' \<Longrightarrow> c_version c' = c_version c"
  "apply_datapack o' c = Inr c' \<Longrightarrow> c_version c' = c_version c"
  "apply_percents o' c = Inr c' \<Longrightarrow> c_version c' = c_version c"
proof -
  have "c_version (set_chunk_fields o' c) = c_version c"
    by (simp add: set_chunk_fields_def Let_def split: option.split)
  then show "apply_chunker o' c = Inr c' \<Longrightarrow> c_version c' = c_version c"
    by (auto simp: apply_chunker_def Let_def result_simps split: if_splits)
  show "apply_compression levels o' c = Inr c' \<Longrightarrow> c_version c' = c_version c"
    by (auto simp: apply_compression_def split: option.splits if_splits)
  show "apply_treepack o' c = Inr c' \<Longrightarrow> c_version c' = c_version c"
    by (auto simp: apply_treepack_def result_simps Let_def split: option.splits)
  show "apply_datapack o' c = Inr c' \<Longrightarrow> c_version c' = c_version c"
    by (auto simp: apply_datapack_def result_simps Let_def split: option.splits)
  show "apply_percents o' c = Inr c' \<Longrightarrow> c_version c' = c_version c"
    by (auto simp: apply_percents_def result_simps split: option.splits if_splits)
qed

text \<open>Every change of the configuration that is accepted keeps a valid configuration valid: a
  version that is supported and never downgraded, no compression in version 1 repositories, Rabin
  parameters that satisfy \<open>check_rabin_params\<close>, and tolerance percentages at most and at least 100.\<close>

theorem config_stays_valid:
  assumes "ConfigOptions_apply levels o' c = Inr c'" and "valid_config c"
  shows "valid_config c' \<and> c_version c \<le> c_version c'"
proof -
  obtain c1 c2 c3 c4 c5 c6 c7 where
    1: "apply_version o' c = Inr c1" and 2: "apply_chunker o' c1 = Inr c2" and
    3: "apply_compression levels o' c2 = Inr c3" and
    4: "c4 = (case set_append_only o' of None \<Rightarrow> c3 | Some a \<Rightarrow> c3\<lparr>c_append_only := Some a\<rparr>)" and
    5: "apply_treepack o' c4 = Inr c5" and 6: "apply_datapack o' c5 = Inr c6" and
    7: "apply_percents o' c6 = Inr c7 \<and> c' = c7\<lparr>c_extra_verify := set_extra_verify_opt o'\<rparr>"
    using assms(1) by (auto simp: ConfigOptions_apply_def result_simps Let_def)
  have "c_version c4 = c_version c3" using 4 by (simp split: option.splits)
  then have "c_version c' = c_version c1"
    using apply_keeps_version(1) [OF 2] apply_keeps_version(2) [OF 3] apply_keeps_version(3) [OF 5]
      apply_keeps_version(4) [OF 6] 7 apply_keeps_version(5) [of o' c6 c7] by simp
  moreover have "c_version c \<le> c_version c1"
    using 1 by (auto simp: apply_version_def not_less split: option.splits if_splits)
  ultimately show ?thesis using ConfigOptions_apply_valid [OF assms] by simp
qed

theorem config_stays_valid_witness:
  "valid_config (new_config\<lparr>c_compression := Some 5\<rparr>)"
proof -
  have "valid_config (new_config\<lparr>c_extra_verify := Some False\<rparr>)"
    using new_config_valid by (simp add: valid_config_def)
  from config_stays_valid [OF new_config_compression this] show ?thesis ..
qed

text \<open>Applying options that do not mention \<open>extra_verify\<close> resets it: a repository whose
  configuration switched the extra verification off has it on again after any other change, because
  \<open>apply\<close> overwrites the field even when the option is absent.\<close>

theorem config_change_resets_extra_verify:
  assumes "ConfigOptions_apply levels o' c = Inr c'" and "set_extra_verify_opt o' = None"
  shows "c_extra_verify c' = None \<and> extra_verify c'"
  using assms by (auto simp: ConfigOptions_apply_def result_simps extra_verify_def unwrap_or_def Let_def)

theorem config_change_resets_extra_verify_witness:
  "\<not> extra_verify (new_config\<lparr>c_extra_verify := Some False\<rparr>) \<and> extra_verify (new_config\<lparr>c_compression := Some 5\<rparr>)"
  using config_change_resets_extra_verify [OF new_config_compression]
  by (simp add: no_options_def extra_verify_def unwrap_or_def)

end
