(* ===== verification/Chunker.thy ===== *)
theory Chunker
  imports Config
begin

text \<open>
  The chunkers: chunker.rs, chunker/rabin.rs and chunker/fixed_size.rs under
  src/crates/core/src.  A file is read through a std::io::Read; the model of such a reader is the
  list of what its successive reads can deliver: a block of bytes, an interrupted call or an I/O
  error.  The rolling hash Rabin64 belongs to the crate rustic_cdc and is a parameter.

  The theory shows that both chunkers return a partition of the bytes of the reader, that the
  Rabin chunker cuts where a reference definition on the plain bytes cuts (so chunks depend on the
  content and never on how the reader splits its blocks), and the bounds on the chunk sizes.
\<close>

section \<open>Readers\<close>

datatype read_event = RData bytes | RInterrupted | RError

type_synonym Reader = "read_event list"

datatype read_outcome = ROk bytes | RIntr | RErr

text \<open>One call of \<^verbatim>\<open>read\<close> with a buffer of n bytes.\<close>

fun read_buf :: "nat \<Rightarrow> Reader \<Rightarrow> read_outcome \<times> Reader" where
  "read_buf n [] = (ROk [], [])"
| "read_buf n (RData bs # r) =
    (if length bs \<le> n then (ROk bs, r) else (ROk (take n bs), RData (drop n bs) # r))"
| "read_buf n (RInterrupted # r) = (RIntr, r)"
| "read_buf n (RError # r) = (RErr, r)"

text \<open>\<^verbatim>\<open>reader.take(n).read_to_end(..)\<close>: the bytes appended, None on an I/O error.\<close>

fun take_read_to_end :: "nat \<Rightarrow> Reader \<Rightarrow> bytes option \<times> Reader" where
  "take_read_to_end n [] = (Some [], [])"
| "take_read_to_end n (e # r) =
    (if n = 0 then (Some [], e # r) else
     case e of
       RError \<Rightarrow> (None, r)
     | RInterrupted \<Rightarrow> take_read_to_end n r
     | RData bs \<Rightarrow>
         if bs = [] then (Some [], r)
         else if n < length bs then (Some (take n bs), RData (drop n bs) # r)
         else (case take_read_to_end (n - length bs) r of (x, r') \<Rightarrow> (map_option ((@) bs) x, r')))"

fun event_bytes :: "read_event \<Rightarrow> bytes" where
  "event_bytes (RData bs) = bs"
| "event_bytes _ = []"

definition reader_bytes :: "Reader \<Rightarrow> bytes" where
  "reader_bytes r = concat (map event_bytes r)"

text \<open>A reader without I/O errors and without an early end of file.\<close>

definition reader_ok :: "Reader \<Rightarrow> bool" where
  "reader_ok r \<longleftrightarrow> list_all (\<lambda>e. e \<noteq> RError \<and> e \<noteq> RData []) r"

definition reader_measure :: "Reader \<Rightarrow> nat" where
  "reader_measure r = length r + length (reader_bytes r)"

lemma reader_bytes_simps [simp]:
  "reader_bytes [] = []" "reader_bytes (e # r) = event_bytes e @ reader_bytes r"
  by (simp_all add: reader_bytes_def)

lemma reader_ok_simps [simp]:
  "reader_ok []" "reader_ok (e # r) \<longleftrightarrow> e \<noteq> RError \<and> e \<noteq> RData [] \<and> reader_ok r"
  by (simp_all add: reader_ok_def)

lemma take_read_to_end_ok:
  "reader_ok r \<Longrightarrow> \<exists>r'. take_read_to_end n r = (Some (take n (reader_bytes r)), r') \<and> reader_ok r' \<and>
     reader_bytes r' = drop n (reader_bytes r)"
proof (induction n r rule: take_read_to_end.induct)
  case (2 n e r)
  show ?case
  proof (cases e)
    case (RData bs)
    with 2 show ?thesis
      by (cases "n = 0"; cases "n < length bs") (auto simp: neq_Nil_conv Suc_le_eq)
  next
    case RInterrupted
    with 2 show ?thesis by (cases "n = 0") auto
  qed (use 2 in auto)
qed simp

lemma read_buf_ok:
  assumes "reader_ok r" "read_buf n r = (oc, r')" "0 < n"
  shows "(oc = ROk [] \<and> reader_bytes r = [] \<and> r' = []) \<or>
    (\<exists>bs. oc = ROk bs \<and> bs \<noteq> [] \<and> length bs \<le> n \<and> reader_bytes r = bs @ reader_bytes r' \<and> reader_ok r') \<or>
    (oc = RIntr \<and> reader_bytes r' = reader_bytes r \<and> reader_ok r')"
  using assms by (cases "(n, r)" rule: read_buf.cases) (auto split: if_splits)

lemma read_buf_measure:
  assumes "read_buf n r = (oc, r')"
  shows "oc = ROk bs \<Longrightarrow> bs \<noteq> [] \<Longrightarrow> length bs + reader_measure r' \<le> reader_measure r"
    and "oc = RIntr \<Longrightarrow> reader_measure r' < reader_measure r"
  using assms
  by (cases "(n, r)" rule: read_buf.cases; auto simp: reader_measure_def split: if_splits)+

section \<open>The two chunk iterators\<close>

text \<open>The rolling hash of rustic_cdc: \<open>prefill\<close> is
  \<^verbatim>\<open>reset_and_prefill_window\<close>, \<open>slide\<close> and \<open>rhash\<close> are the method and the field of these names.\<close>

record 'h rolling =
  prefill :: "bytes \<Rightarrow> 'h \<Rightarrow> 'h"
  slide :: "u8 \<Rightarrow> 'h \<Rightarrow> 'h"
  rhash :: "'h \<Rightarrow> u64"

text \<open>Resetting forgets the previous window.\<close>

definition prefill_ok :: "'h rolling \<Rightarrow> bool" where
  "prefill_ok H \<longleftrightarrow> (\<forall>w h h'. prefill H w h = prefill H w h')"

definition BUF_SIZE :: nat where
  "BUF_SIZE = 4 * 1024"

record FixedChunkIter =
  fc_reader :: Reader
  fc_size_hint :: nat
  fc_size :: nat
  fc_finished :: bool

record 'h RabinChunkIter =
  ci_buf :: bytes
  ci_pos :: nat
  ci_reader :: Reader
  ci_split_mask :: u64
  ci_rabin :: 'h
  ci_size_hint :: nat
  ci_min_size :: nat
  ci_max_size :: nat
  ci_finished :: bool

abbreviation read_error :: rustic_error where
  "read_error \<equiv> RusticError EInputOutput ''Failed to read from reader in iterator''"

definition FixedChunkIter_new :: "nat \<Rightarrow> Reader \<Rightarrow> nat \<Rightarrow> FixedChunkIter" where
  "FixedChunkIter_new sz reader hint =
     \<lparr>fc_reader = reader, fc_size_hint = hint, fc_size = sz, fc_finished = False\<rparr>"

definition fixed_next :: "FixedChunkIter \<Rightarrow> bytes rustic_result option \<times> FixedChunkIter" where
  "fixed_next it =
    (if fc_finished it then (None, it)
     else case take_read_to_end (fc_size it) (fc_reader it) of
       (None, r) \<Rightarrow> (Some (Inl read_error), it\<lparr>fc_reader := r\<rparr>)
     | (Some vec, r) \<Rightarrow>
         (if vec = [] then None else Some (Inr vec),
          it\<lparr>fc_reader := r, fc_finished := (length vec < fc_size it),
             fc_size_hint := fc_size_hint it - length vec\<rparr>))"

definition RabinChunkIter_new ::
    "'h \<Rightarrow> u64 \<Rightarrow> u64 \<Rightarrow> u64 \<Rightarrow> Reader \<Rightarrow> nat \<Rightarrow> 'h RabinChunkIter rustic_result" where
  "RabinChunkIter_new rabin sz mn mx reader hint =
     bindR (check_rabin_params sz mn mx) (\<lambda>_.
       Inr \<lparr>ci_buf = replicate BUF_SIZE 0, ci_pos = BUF_SIZE, ci_reader = reader, ci_split_mask = sz - 1,
         ci_rabin = rabin, ci_size_hint = hint, ci_min_size = unat mn, ci_max_size = unat mx,
         ci_finished = False\<rparr>)"

text \<open>The byte-wise loop of \<^verbatim>\<open>next\<close>: stop at the maximal size or at a hash with no bit
  of the split mask, refill the buffer when it is used up, take one byte.\<close>

definition push_byte :: "'h rolling \<Rightarrow> 'h RabinChunkIter \<Rightarrow> 'h RabinChunkIter" where
  "push_byte H it = it\<lparr>ci_pos := ci_pos it + 1, ci_rabin := slide H (ci_buf it ! ci_pos it) (ci_rabin it)\<rparr>"

function rabin_loop ::
    "'h rolling \<Rightarrow> 'h RabinChunkIter \<Rightarrow> bytes \<Rightarrow> bytes rustic_result \<times> 'h RabinChunkIter" where
  "rabin_loop H it vec =
    (if ci_max_size it \<le> length vec then (Inr vec, it)
     else if and (rhash H (ci_rabin it)) (ci_split_mask it) = 0 then (Inr vec, it)
     else if length (ci_buf it) = ci_pos it then
       (case read_buf (length (ci_buf it)) (ci_reader it) of
          (ROk bs, r) \<Rightarrow>
            if bs = [] then (Inr vec, it\<lparr>ci_reader := r, ci_finished := True\<rparr>)
            else rabin_loop H (push_byte H (it\<lparr>ci_reader := r, ci_buf := bs, ci_pos := 0\<rparr>)) (vec @ [bs ! 0])
        | (RIntr, r) \<Rightarrow> rabin_loop H (it\<lparr>ci_reader := r\<rparr>) vec
        | (RErr, r) \<Rightarrow> (Inl read_error, it\<lparr>ci_reader := r\<rparr>))
     else if ci_pos it < length (ci_buf it) then
       rabin_loop H (push_byte H it) (vec @ [ci_buf it ! ci_pos it])
     else (Inl (Panic ''index out of bounds''), it))"
  by pat_completeness auto

definition it_measure :: "'h RabinChunkIter \<Rightarrow> nat" where
  "it_measure it = (length (ci_buf it) - ci_pos it) + reader_measure (ci_reader it)"

lemma push_byte_simps [simp]:
  "ci_buf (push_byte H it) = ci_buf it" "ci_reader (push_byte H it) = ci_reader it"
  "ci_pos (push_byte H it) = ci_pos it + 1" "ci_min_size (push_byte H it) = ci_min_size it"
  "ci_max_size (push_byte H it) = ci_max_size it" "ci_split_mask (push_byte H it) = ci_split_mask it"
  "ci_finished (push_byte H it) = ci_finished it" "ci_size_hint (push_byte H it) = ci_size_hint it"
  "ci_rabin (push_byte H it) = slide H (ci_buf it ! ci_pos it) (ci_rabin it)"
  by (simp_all add: push_byte_def)

lemma refill_measure:
  assumes "(ROk bs, y) = read_buf n r" "bs \<noteq> []"
  shows "length bs - Suc 0 + reader_measure y < reader_measure r"
  using read_buf_measure(1) [OF assms(1) [symmetric] refl assms(2)] assms(2) by (cases bs) auto

termination rabin_loop
  by (relation "measure (\<lambda>(H, it, vec). it_measure it)")
    (auto simp: it_measure_def refill_measure dest: read_buf_measure(2) [OF sym])

declare rabin_loop.simps [simp del]

text \<open>\<^verbatim>\<open>next\<close> of the Rabin chunker: use what is left in the buffer, read up to the
  minimal size, then search the boundary.\<close>

definition rabin_read ::
    "'h rolling \<Rightarrow> nat \<Rightarrow> bytes \<Rightarrow> 'h RabinChunkIter \<Rightarrow> bytes rustic_result option \<times> 'h RabinChunkIter" where
  "rabin_read H min_size vec it =
    (case take_read_to_end min_size (ci_reader it) of
       (None, r) \<Rightarrow> (Some (Inl read_error), it\<lparr>ci_reader := r\<rparr>)
     | (Some bs, r) \<Rightarrow>
         let it = it\<lparr>ci_reader := r\<rparr>; vec = vec @ bs
         in if length bs < min_size
            then (if vec = [] then None else Some (Inr vec), it\<lparr>ci_finished := True\<rparr>)
            else if length vec < 64
            then (Some (Inl (Panic ''range start index out of range'')), it)
            else case rabin_loop H
                (it\<lparr>ci_rabin := prefill H (drop (length vec - 64) vec) (ci_rabin it)\<rparr>) vec of
              (Inl e, it) \<Rightarrow> (Some (Inl e), it)
            | (Inr vec, it) \<Rightarrow>
                (Some (Inr vec), it\<lparr>ci_size_hint := ci_size_hint it - length vec\<rparr>))"

definition rabin_next :: "'h rolling \<Rightarrow> 'h RabinChunkIter \<Rightarrow> bytes rustic_result option \<times> 'h RabinChunkIter" where
  "rabin_next H it =
    (if ci_finished it then (None, it)
     else
       let open_buf_len = length (ci_buf it) - ci_pos it;
           min_size = (if 0 < open_buf_len then usize_sub (ci_min_size it) open_buf_len else ci_min_size it)
       in rabin_read H min_size (drop (ci_pos it) (ci_buf it)) (it\<lparr>ci_pos := length (ci_buf it)\<rparr>))"

datatype 'h ChunkIter = CI_Rabin "'h RabinChunkIter" | CI_FixedSize FixedChunkIter

fun ChunkIter_next :: "'h rolling \<Rightarrow> 'h ChunkIter \<Rightarrow> bytes rustic_result option \<times> 'h ChunkIter" where
  "ChunkIter_next H (CI_Rabin it) = (case rabin_next H it of (x, it') \<Rightarrow> (x, CI_Rabin it'))"
| "ChunkIter_next H (CI_FixedSize it) = (case fixed_next it of (x, it') \<Rightarrow> (x, CI_FixedSize it'))"

text \<open>The polynomial comes from \<^verbatim>\<open>ConfigFile::poly\<close>, whose result is an argument, as is the
  rolling hash that \<^verbatim>\<open>Rabin64::new_with_polynom\<close> makes of it.\<close>

definition ChunkIter_from_config ::
    "(u64 \<Rightarrow> 'h) \<Rightarrow> u64 rustic_result \<Rightarrow> ConfigFile \<Rightarrow> Reader \<Rightarrow> nat \<Rightarrow> 'h ChunkIter rustic_result" where
  "ChunkIter_from_config new_with_polynom config_poly config reader hint =
    (case chunker config of
       Rabin \<Rightarrow> bindR config_poly (\<lambda>p.
         bindR (RabinChunkIter_new (new_with_polynom p) (chunk_size config) (chunk_min_size config)
             (chunk_max_size config) reader hint) (\<lambda>it. Inr (CI_Rabin it)))
     | FixedSize \<Rightarrow> Inr (CI_FixedSize (FixedChunkIter_new (unat (chunk_size config)) reader hint)))"

section \<open>Collecting the chunks of an iterator\<close>

text \<open>The consumer's loop: all chunks up to the end of the iterator, or its first error.  Not
  returning is None.\<close>

partial_function (option) collect_chunks ::
    "('s \<Rightarrow> bytes rustic_result option \<times> 's) \<Rightarrow> 's \<Rightarrow> bytes list rustic_result option" where
  "collect_chunks next s =
    (case next s of
       (None, s') \<Rightarrow> Some (Inr [])
     | (Some (Inl e), s') \<Rightarrow> Some (Inl e)
     | (Some (Inr v), s') \<Rightarrow> Option.bind (collect_chunks next s') (\<lambda>x.
         Some (case x of Inl e \<Rightarrow> Inl e | Inr vs \<Rightarrow> Inr (v # vs))))"

text \<open>The reference: cut the bytes after \<open>bnd\<close> bytes, again and again.\<close>

function split_by :: "(bytes \<Rightarrow> nat) \<Rightarrow> bytes \<Rightarrow> bytes list" where
  "split_by bnd d = (if d = [] then [] else
     take (max 1 (bnd d)) d # split_by bnd (drop (max 1 (bnd d)) d))"
  by pat_completeness auto
termination by (relation "measure (\<lambda>(bnd, d). length d)") auto

declare split_by.simps [simp del]

lemma split_by_concat: "concat (split_by bnd d) = d"
proof (induction bnd d rule: split_by.induct)
  case (1 bnd d)
  then show ?case by (cases "d = []") (subst split_by.simps, simp)+
qed

lemma split_by_nonempty: "c \<in> set (split_by bnd d) \<Longrightarrow> c \<noteq> []"
proof (induction bnd d rule: split_by.induct)
  case (1 bnd d)
  show ?case
  proof (cases "d = []")
    case True
    with 1 show ?thesis by (simp add: split_by.simps)
  next
    case False
    with "1.prems" have "c = take (max 1 (bnd d)) d \<or> c \<in> set (split_by bnd (drop (max 1 (bnd d)) d))"
      by (subst (asm) split_by.simps) simp
    with 1 False show ?thesis by fastforce
  qed
qed

text \<open>The contract of a chunk iterator towards its consumers: with \<open>good\<close> states it cuts the
  remaining bytes as \<open>bnd\<close> says.\<close>

locale chunk_iter =
  fixes nxt :: "'s \<Rightarrow> bytes rustic_result option \<times> 's"
    and good :: "'s \<Rightarrow> bool"
    and rest :: "'s \<Rightarrow> bytes"
    and bnd :: "bytes \<Rightarrow> nat"
  assumes next_done: "good s \<Longrightarrow> rest s = [] \<Longrightarrow> \<exists>s'. nxt s = (None, s')"
    and next_cut: "good s \<Longrightarrow> rest s \<noteq> [] \<Longrightarrow> \<exists>s'. nxt s = (Some (Inr (take (bnd (rest s)) (rest s))), s') \<and>
      good s' \<and> rest s' = drop (bnd (rest s)) (rest s) \<and> 0 < bnd (rest s)"
begin

lemma collect_split: "good s \<Longrightarrow> collect_chunks nxt s = Some (Inr (split_by bnd (rest s)))"
proof (induction "length (rest s)" arbitrary: s rule: less_induct)
  case less
  show ?case
  proof (cases "rest s = []")
    case True
    with next_done [OF less.prems] show ?thesis
      by (auto simp: collect_chunks.simps split_by.simps)
  next
    case False
    from next_cut [OF less.prems False] obtain s' where
      s': "nxt s = (Some (Inr (take (bnd (rest s)) (rest s))), s')" "good s'"
        "rest s' = drop (bnd (rest s)) (rest s)" "0 < bnd (rest s)" by blast
    have "length (rest s') < length (rest s)" using s' False by simp
    from less.hyps [OF this s'(2)] s' False show ?thesis
      by (subst collect_chunks.simps, subst split_by.simps) (simp add: max_def)
  qed
qed

lemma collect_partition:
  assumes "good s"
  shows "\<exists>cs. collect_chunks nxt s = Some (Inr cs) \<and> concat cs = rest s \<and> (\<forall>c \<in> set cs. c \<noteq> [])"
  using collect_split [OF assms] split_by_concat split_by_nonempty by blast

end

subsection \<open>The fixed-size chunker\<close>

definition fixed_good :: "nat \<Rightarrow> FixedChunkIter \<Rightarrow> bool" where
  "fixed_good sz it \<longleftrightarrow> fc_size it = sz \<and> 0 < sz \<and> reader_ok (fc_reader it) \<and>
     (fc_finished it \<longrightarrow> reader_bytes (fc_reader it) = [])"

interpretation fx: chunk_iter fixed_next "fixed_good sz" "\<lambda>it. reader_bytes (fc_reader it)" "\<lambda>_. sz" for sz
proof
  fix it assume "fixed_good sz it" "reader_bytes (fc_reader it) = []"
  then show "\<exists>s'. fixed_next it = (None, s')"
    using take_read_to_end_ok [of "fc_reader it" sz] by (auto simp: fixed_good_def fixed_next_def)
next
  fix it assume g: "fixed_good sz it" and ne: "reader_bytes (fc_reader it) \<noteq> []"
  then obtain r where r: "take_read_to_end sz (fc_reader it) = (Some (take sz (reader_bytes (fc_reader it))), r)"
    "reader_ok r" "reader_bytes r = drop sz (reader_bytes (fc_reader it))"
    using take_read_to_end_ok [of "fc_reader it" sz] by (auto simp: fixed_good_def)
  with g ne show "\<exists>s'. fixed_next it = (Some (Inr (take sz (reader_bytes (fc_reader it)))), s') \<and>
      fixed_good sz s' \<and> reader_bytes (fc_reader s') = drop sz (reader_bytes (fc_reader it)) \<and> 0 < sz"
    by (auto simp: fixed_good_def fixed_next_def)
qed

subsection \<open>The Rabin chunker\<close>

text \<open>The reference cut: after the minimal size, the first position whose window hash has no bit
  of the mask, at most the maximal size.\<close>

fun cut_extra :: "'h rolling \<Rightarrow> u64 \<Rightarrow> nat \<Rightarrow> 'h \<Rightarrow> nat \<Rightarrow> bytes \<Rightarrow> nat" where
  "cut_extra H msk mx h n [] = 0"
| "cut_extra H msk mx h n (b # bs) =
    (if mx \<le> n \<or> and (rhash H h) msk = 0 then 0 else Suc (cut_extra H msk mx (slide H b h) (Suc n) bs))"

definition rabin_cut :: "'h rolling \<Rightarrow> 'h \<Rightarrow> u64 \<Rightarrow> nat \<Rightarrow> nat \<Rightarrow> bytes \<Rightarrow> nat" where
  "rabin_cut H h0 msk mn mx d =
    (if length d < mn then length d
     else mn + cut_extra H msk mx (prefill H (drop (mn - 64) (take mn d)) h0) mn (drop mn d))"

definition ci_rest :: "'h RabinChunkIter \<Rightarrow> bytes" where
  "ci_rest it = drop (ci_pos it) (ci_buf it) @ reader_bytes (ci_reader it)"

definition ci_ok :: "'h RabinChunkIter \<Rightarrow> bool" where
  "ci_ok it \<longleftrightarrow> reader_ok (ci_reader it) \<and> ci_pos it \<le> length (ci_buf it) \<and> ci_buf it \<noteq> []"

definition same_params :: "'h RabinChunkIter \<Rightarrow> 'h RabinChunkIter \<Rightarrow> bool" where
  "same_params it it' \<longleftrightarrow> ci_min_size it' = ci_min_size it \<and> ci_max_size it' = ci_max_size it \<and>
     ci_split_mask it' = ci_split_mask it \<and> length (ci_buf it') \<le> length (ci_buf it)"

text \<open>What the loop must return from \<open>it\<close> and \<open>vec\<close>.\<close>

definition loop_cuts :: "'h rolling \<Rightarrow> 'h RabinChunkIter \<Rightarrow> bytes \<Rightarrow> bytes rustic_result \<times> 'h RabinChunkIter \<Rightarrow> bool" where
  "loop_cuts H it vec res \<longleftrightarrow>
    (let n = cut_extra H (ci_split_mask it) (ci_max_size it) (ci_rabin it) (length vec) (ci_rest it)
     in fst res = Inr (vec @ take n (ci_rest it)) \<and> ci_ok (snd res) \<and> same_params it (snd res) \<and>
        ci_rest (snd res) = drop n (ci_rest it) \<and>
        (ci_finished (snd res) \<longrightarrow> ci_finished it \<or> ci_rest (snd res) = []))"

lemma loop_cuts_stop:
  assumes "ci_ok it" "ci_max_size it \<le> length vec \<or> and (rhash H (ci_rabin it)) (ci_split_mask it) = 0"
  shows "loop_cuts H it vec (Inr vec, it)"
  using assms by (cases "ci_rest it") (auto simp: loop_cuts_def same_params_def)

lemma loop_cuts_step:
  assumes "loop_cuts H it1 (vec @ [b]) res" "ci_rest it = b # ci_rest it1" "same_params it it1"
    and "ci_rabin it1 = slide H b (ci_rabin it)" "ci_finished it1 = ci_finished it"
    and "\<not> (ci_max_size it \<le> length vec \<or> and (rhash H (ci_rabin it)) (ci_split_mask it) = 0)"
  shows "loop_cuts H it vec res"
  using assms by (auto simp: loop_cuts_def same_params_def Let_def)

lemma loop_cuts_retry:
  assumes "loop_cuts H it1 vec res" "ci_rest it = ci_rest it1" "same_params it it1"
    and "ci_rabin it1 = ci_rabin it" "ci_finished it1 = ci_finished it"
  shows "loop_cuts H it vec res"
  using assms by (auto simp: loop_cuts_def same_params_def Let_def)

lemma rabin_loop_cut: "ci_ok it \<Longrightarrow> loop_cuts H it vec (rabin_loop H it vec)"
proof (induction H it vec rule: rabin_loop.induct)
  case (1 H it vec)
  note ok = "1.prems"
  show ?case
  proof (cases "ci_max_size it \<le> length vec \<or> and (rhash H (ci_rabin it)) (ci_split_mask it) = 0")
    case True
    then show ?thesis using loop_cuts_stop [OF ok True] by (subst rabin_loop.simps) auto
  next
    case go: False
    show ?thesis
    proof (cases "length (ci_buf it) = ci_pos it")
      case False
      then have lt: "ci_pos it < length (ci_buf it)" using ok by (simp add: ci_ok_def)
      have "loop_cuts H (push_byte H it) (vec @ [ci_buf it ! ci_pos it])
          (rabin_loop H (push_byte H it) (vec @ [ci_buf it ! ci_pos it]))"
        by (rule "1.IH"(3)) (use go False lt ok in \<open>auto simp: ci_ok_def\<close>)
      moreover have "ci_rest it = ci_buf it ! ci_pos it # ci_rest (push_byte H it)"
        using lt by (simp add: ci_rest_def Cons_nth_drop_Suc)
      ultimately have "loop_cuts H it vec (rabin_loop H (push_byte H it) (vec @ [ci_buf it ! ci_pos it]))"
        by (rule loop_cuts_step) (use go in \<open>auto simp: same_params_def\<close>)
      then show ?thesis using go False lt by (subst rabin_loop.simps) auto
    next
      case True
      obtain oc r where rd: "read_buf (length (ci_buf it)) (ci_reader it) = (oc, r)" by fastforce
      have buf: "0 < length (ci_buf it)" using ok by (simp add: ci_ok_def)
      have rok: "reader_ok (ci_reader it)" using ok by (simp add: ci_ok_def)
      consider (eof) "oc = ROk []" "reader_bytes (ci_reader it) = []" "r = []"
        | (more) bs where "oc = ROk bs" "bs \<noteq> []" "length bs \<le> length (ci_buf it)"
            "reader_bytes (ci_reader it) = bs @ reader_bytes r" "reader_ok r"
        | (intr) "oc = RIntr" "reader_bytes r = reader_bytes (ci_reader it)" "reader_ok r"
        using read_buf_ok [OF rok rd buf] by blast
      then show ?thesis
      proof cases
        case eof
        with go True rd ok show ?thesis
          by (subst rabin_loop.simps) (auto simp: loop_cuts_def ci_rest_def ci_ok_def same_params_def)
      next
        case more
        let ?it = "it\<lparr>ci_reader := r, ci_buf := bs, ci_pos := 0\<rparr>"
        have "loop_cuts H (push_byte H ?it) (vec @ [bs ! 0]) (rabin_loop H (push_byte H ?it) (vec @ [bs ! 0]))"
          by (rule "1.IH"(1) [OF _ _ True rd [symmetric] more(1)])
            (use go more in \<open>auto simp: ci_ok_def Suc_le_eq\<close>)
        moreover have "ci_rest it = bs ! 0 # ci_rest (push_byte H ?it)"
          using more True by (cases bs) (auto simp: ci_rest_def)
        ultimately have "loop_cuts H it vec (rabin_loop H (push_byte H ?it) (vec @ [bs ! 0]))"
          by (rule loop_cuts_step) (use go more in \<open>auto simp: same_params_def\<close>)
        then show ?thesis using go True rd more by (subst rabin_loop.simps) simp
      next
        case intr
        have "loop_cuts H (it\<lparr>ci_reader := r\<rparr>) vec (rabin_loop H (it\<lparr>ci_reader := r\<rparr>) vec)"
          by (rule "1.IH"(2) [OF _ _ True rd [symmetric] intr(1)])
            (use go intr ok in \<open>auto simp: ci_ok_def\<close>)
        then have "loop_cuts H it vec (rabin_loop H (it\<lparr>ci_reader := r\<rparr>) vec)"
          by (rule loop_cuts_retry) (use intr in \<open>auto simp: ci_rest_def same_params_def\<close>)
        then show ?thesis using go True rd intr by (subst rabin_loop.simps) simp
      qed
    qed
  qed
qed

definition rabin_good :: "'h rolling \<Rightarrow> u64 \<Rightarrow> nat \<Rightarrow> nat \<Rightarrow> 'h RabinChunkIter \<Rightarrow> bool" where
  "rabin_good H msk mn mx it \<longleftrightarrow> prefill_ok H \<and> ci_ok it \<and> length (ci_buf it) \<le> mn \<and> 64 \<le> mn \<and> mn < 2 ^ 64 \<and>
     ci_min_size it = mn \<and> ci_max_size it = mx \<and> ci_split_mask it = msk \<and>
     (ci_finished it \<longrightarrow> ci_rest it = [])"

lemma usize_sub_le: "b \<le> a \<Longrightarrow> a < 2 ^ 64 \<Longrightarrow> usize_sub a b = a - b"
  by (auto simp: usize_sub_def)

text \<open>Below the minimal size one read ends the file; from it on the boundary search decides.\<close>

lemma rabin_read_short:
  assumes "reader_ok (ci_reader it)" "ci_pos it = length (ci_buf it)" "length (reader_bytes (ci_reader it)) < m"
  shows "\<exists>it'. rabin_read H m vec it =
      (if vec @ reader_bytes (ci_reader it) = [] then None else Some (Inr (vec @ reader_bytes (ci_reader it))), it') \<and>
    ci_ok it' = (ci_buf it \<noteq> []) \<and> same_params it it' \<and> ci_rest it' = []"
  using take_read_to_end_ok [OF assms(1), of m] assms(2,3)
  by (auto simp: rabin_read_def Let_def ci_ok_def same_params_def ci_rest_def)

lemma rabin_read_cut:
  fixes H :: "'h rolling" and it :: "'h RabinChunkIter"
  assumes it: "ci_ok it" "ci_pos it = length (ci_buf it)" "\<not> ci_finished it"
    and m: "m \<le> length (reader_bytes (ci_reader it))" "length vec + m = mn" "64 \<le> mn"
  defines "d \<equiv> vec @ reader_bytes (ci_reader it)"
  defines "n \<equiv> rabin_cut H (ci_rabin it) (ci_split_mask it) mn (ci_max_size it) d"
  shows "\<exists>it'. rabin_read H m vec it = (Some (Inr (take n d)), it') \<and> ci_ok it' \<and> same_params it it' \<and>
    ci_rest it' = drop n d \<and> (ci_finished it' \<longrightarrow> ci_rest it' = [])"
proof -
  obtain r where r: "take_read_to_end m (ci_reader it) = (Some (take m (reader_bytes (ci_reader it))), r)"
      "reader_ok r" "reader_bytes r = drop m (reader_bytes (ci_reader it))"
    using take_read_to_end_ok it(1) by (meson ci_ok_def)
  define v where "v = take mn d"
  define it1 where "it1 = it\<lparr>ci_reader := r, ci_rabin := prefill H (drop (mn - 64) v) (ci_rabin it)\<rparr>"
  have v: "vec @ take m (reader_bytes (ci_reader it)) = v" "length v = mn" "\<not> length d < mn"
    using m by (auto simp: v_def d_def)
  have it1: "ci_ok it1" "ci_rest it1 = drop mn d" "same_params it it1" "\<not> ci_finished it1"
      "ci_split_mask it1 = ci_split_mask it" "ci_max_size it1 = ci_max_size it"
      "ci_rabin it1 = prefill H (drop (mn - 64) v) (ci_rabin it)"
    using it r m by (auto simp: it1_def ci_ok_def ci_rest_def same_params_def d_def)
  obtain x it2 where x: "rabin_loop H it1 v = (x, it2)" by fastforce
  have "loop_cuts H it1 v (x, it2)" using rabin_loop_cut [OF it1(1), of H v] x by simp
  then have c: "x = Inr (take n d)" "ci_ok it2" "same_params it it2" "ci_rest it2 = drop n d"
      "ci_finished it2 \<longrightarrow> ci_rest it2 = []"
    using it1 v(2,3)
    by (auto simp: loop_cuts_def Let_def n_def rabin_cut_def same_params_def v_def take_add add.commute)
  have "rabin_read H m vec it = (Some (Inr (take n d)), it2\<lparr>ci_size_hint := ci_size_hint it2 - length (take n d)\<rparr>)"
    using m x c(1) v(2) by (simp add: rabin_read_def Let_def r(1) v(1) flip: it1_def)
  with c show ?thesis by (auto simp: ci_ok_def same_params_def ci_rest_def)
qed

interpretation rb: chunk_iter "rabin_next H" "rabin_good H msk mn mx" ci_rest "rabin_cut H h0 msk mn mx"
  for H h0 msk mn mx
proof
  have fresh: "rabin_next H it = rabin_read H (mn - (length (ci_buf it) - ci_pos it))
      (drop (ci_pos it) (ci_buf it)) (it\<lparr>ci_pos := length (ci_buf it)\<rparr>)"
    if "rabin_good H msk mn mx it" "\<not> ci_finished it" for it
    using that usize_sub_le [of "length (ci_buf it) - ci_pos it" mn]
    by (auto simp: rabin_next_def rabin_good_def)
  {
    fix it assume g: "rabin_good H msk mn mx it" and e: "ci_rest it = []"
    show "\<exists>s'. rabin_next H it = (None, s')"
    proof (cases "ci_finished it")
      case True
      then show ?thesis by (simp add: rabin_next_def)
    next
      case False
      have *: "reader_bytes (ci_reader it) = []" "drop (ci_pos it) (ci_buf it) = []"
          "reader_ok (ci_reader it)" "0 < mn - (length (ci_buf it) - ci_pos it)"
        using g e by (auto simp: ci_rest_def rabin_good_def ci_ok_def)
      then show ?thesis
        using rabin_read_short [of "it\<lparr>ci_pos := length (ci_buf it)\<rparr>"
            "mn - (length (ci_buf it) - ci_pos it)" H "[]"] fresh [OF g False]
        by auto
    qed
  }
  fix it assume g: "rabin_good H msk mn mx it" and ne: "ci_rest it \<noteq> []"
  let ?it = "it\<lparr>ci_pos := length (ci_buf it)\<rparr>" and ?o = "length (ci_buf it) - ci_pos it"
  have fin: "\<not> ci_finished it" using g ne by (auto simp: rabin_good_def)
  note f = fresh [OF g fin]
  have it: "ci_ok ?it" "reader_ok (ci_reader ?it)" "?o \<le> mn" "64 \<le> mn" "prefill_ok H"
      "ci_rest it = drop (ci_pos it) (ci_buf it) @ reader_bytes (ci_reader ?it)"
    using g by (auto simp: rabin_good_def ci_ok_def ci_rest_def)
  have pf: "prefill H w (ci_rabin it) = prefill H w h0" for w
    using it(5) unfolding prefill_ok_def by blast
  have cut: "rabin_cut H (ci_rabin ?it) (ci_split_mask ?it) mn (ci_max_size ?it) (ci_rest it) =
      rabin_cut H h0 msk mn mx (ci_rest it)"
    using g by (simp add: rabin_cut_def rabin_good_def pf)
  show "\<exists>s'. rabin_next H it = (Some (Inr (take (rabin_cut H h0 msk mn mx (ci_rest it)) (ci_rest it))), s') \<and>
      rabin_good H msk mn mx s' \<and> ci_rest s' = drop (rabin_cut H h0 msk mn mx (ci_rest it)) (ci_rest it) \<and>
      0 < rabin_cut H h0 msk mn mx (ci_rest it)"
  proof (cases "length (ci_rest it) < mn")
    case True
    then have "length (reader_bytes (ci_reader ?it)) < mn - ?o" using it by simp
    from rabin_read_short [OF it(2) _ this, of H "drop (ci_pos it) (ci_buf it)"]
    obtain it' where it': "rabin_next H it = (Some (Inr (ci_rest it)), it')" "ci_ok it'" "same_params ?it it'"
        "ci_rest it' = []" using f it(1,6) ne by (auto simp: ci_ok_def)
    have "rabin_cut H h0 msk mn mx (ci_rest it) = length (ci_rest it)" using True by (simp add: rabin_cut_def)
    then show ?thesis using it' g ne by (auto simp: rabin_good_def same_params_def)
  next
    case False
    then have m: "mn - ?o \<le> length (reader_bytes (ci_reader ?it))"
      "length (drop (ci_pos it) (ci_buf it)) + (mn - ?o) = mn" using it by auto
    let ?n = "rabin_cut H h0 msk mn mx (ci_rest it)"
    obtain it' where it': "rabin_next H it = (Some (Inr (take ?n (ci_rest it))), it')" "ci_ok it'"
        "same_params ?it it'" "ci_rest it' = drop ?n (ci_rest it)" "ci_finished it' \<longrightarrow> ci_rest it' = []"
      using rabin_read_cut [OF it(1) _ _ m it(4), of H] fin unfolding f it(6) [symmetric] cut by auto
    have "0 < ?n" using False it(4) by (simp add: rabin_cut_def)
    then show ?thesis using it' g by (auto simp: rabin_good_def same_params_def)
  qed
qed

subsection \<open>Bounds on the chunk sizes\<close>

lemma split_by_upper:
  assumes "\<And>d. d \<noteq> [] \<Longrightarrow> 0 < bnd d \<and> bnd d \<le> mx" "c \<in> set (split_by bnd d)"
  shows "length c \<le> mx"
  using assms
proof (induction bnd d rule: split_by.induct)
  case (1 bnd d)
  show ?case
  proof (cases "d = []")
    case True
    with "1.prems" show ?thesis by (simp add: split_by.simps)
  next
    case False
    have d: "max 1 (bnd d) = bnd d" "bnd d \<le> mx" using "1.prems"(1) [OF False] by auto
    from "1.prems"(2) False consider "c = take (max 1 (bnd d)) d" | "c \<in> set (split_by bnd (drop (max 1 (bnd d)) d))"
      by (subst (asm) split_by.simps) auto
    then show ?thesis
      by cases (use d in simp, rule "1.IH" [OF False "1.prems"(1)])
  qed
qed

lemma split_by_lower:
  assumes "\<And>d. d \<noteq> [] \<Longrightarrow> 0 < bnd d" "\<And>d. bnd d < length d \<Longrightarrow> mn \<le> bnd d"
    and "c \<in> set (butlast (split_by bnd d))"
  shows "mn \<le> length c"
  using assms
proof (induction bnd d rule: split_by.induct)
  case (1 bnd d)
  show ?case
  proof (cases "d = []")
    case True
    with "1.prems" show ?thesis by (simp add: split_by.simps)
  next
    case False
    define d' where "d' = drop (max 1 (bnd d)) d"
    have d: "max 1 (bnd d) = bnd d" using "1.prems"(1) [OF False] by simp
    have eq: "split_by bnd d = take (bnd d) d # split_by bnd d'"
      using False d by (subst split_by.simps) (simp add: d'_def)
    with "1.prems"(3) have ne: "split_by bnd d' \<noteq> []" by (auto split: if_splits)
    then have "d' \<noteq> []" by (auto simp: split_by.simps)
    then have "bnd d < length d" by (auto simp: d'_def d)
    with "1.prems"(2) have "mn \<le> length (take (bnd d) d)" by fastforce
    moreover have "c = take (bnd d) d \<or> c \<in> set (butlast (split_by bnd d'))"
      using "1.prems"(3) eq ne by simp
    ultimately show ?thesis using 1 False by (auto simp: d'_def)
  qed
qed

lemma cut_extra_le: "n \<le> mx \<Longrightarrow> n + cut_extra H msk mx h n bs \<le> mx"
proof (induction bs arbitrary: h n)
  case (Cons b bs)
  then show ?case using Cons.IH [of "Suc n" "slide H b h"] by auto
qed simp

lemma rabin_cut_bounds:
  assumes "0 < mn" "mn \<le> mx"
  shows "d \<noteq> [] \<Longrightarrow> 0 < rabin_cut H h0 msk mn mx d" "rabin_cut H h0 msk mn mx d \<le> mx"
    and "rabin_cut H h0 msk mn mx d < length d \<Longrightarrow> mn \<le> rabin_cut H h0 msk mn mx d"
  using assms cut_extra_le [OF assms(2)] by (auto simp: rabin_cut_def split: if_splits)

section \<open>The iterator of a configuration\<close>

definition config_cut :: "'h rolling \<Rightarrow> 'h \<Rightarrow> ConfigFile \<Rightarrow> bytes \<Rightarrow> nat" where
  "config_cut H h0 config = (case chunker config of
     Rabin \<Rightarrow> rabin_cut H h0 (chunk_size config - 1) (unat (chunk_min_size config)) (unat (chunk_max_size config))
   | FixedSize \<Rightarrow> (\<lambda>_. unat (chunk_size config)))"

fun iter_rest :: "'h ChunkIter \<Rightarrow> bytes" where
  "iter_rest (CI_Rabin it) = ci_rest it"
| "iter_rest (CI_FixedSize it) = reader_bytes (fc_reader it)"

fun iter_good :: "'h rolling \<Rightarrow> ConfigFile \<Rightarrow> 'h ChunkIter \<Rightarrow> bool" where
  "iter_good H config (CI_Rabin it) \<longleftrightarrow> chunker config = Rabin \<and>
     rabin_good H (chunk_size config - 1) (unat (chunk_min_size config)) (unat (chunk_max_size config)) it"
| "iter_good H config (CI_FixedSize it) \<longleftrightarrow> chunker config = FixedSize \<and> fixed_good (unat (chunk_size config)) it"

interpretation cfg: chunk_iter "ChunkIter_next H" "iter_good H config" iter_rest "config_cut H h0 config"
  for H h0 config
proof
  fix s :: "'a ChunkIter" assume "iter_good H config s" "iter_rest s = []"
  then show "\<exists>s'. ChunkIter_next H s = (None, s')"
    by (cases s) (auto dest!: rb.next_done fx.next_done)
next
  fix s :: "'a ChunkIter" assume *: "iter_good H config s" "iter_rest s \<noteq> []"
  show "\<exists>s'. ChunkIter_next H s = (Some (Inr (take (config_cut H h0 config (iter_rest s)) (iter_rest s))), s') \<and>
      iter_good H config s' \<and> iter_rest s' = drop (config_cut H h0 config (iter_rest s)) (iter_rest s) \<and>
      0 < config_cut H h0 config (iter_rest s)"
  proof (cases s)
    case (CI_Rabin it)
    with * rb.next_cut [of H "chunk_size config - 1" "unat (chunk_min_size config)"
        "unat (chunk_max_size config)" it h0]
    show ?thesis by (auto simp: config_cut_def)
  next
    case (CI_FixedSize it)
    with * fx.next_cut [of "unat (chunk_size config)" it] show ?thesis by (auto simp: config_cut_def)
  qed
qed

text \<open>Chunking parameters for which the buffer arithmetic of the Rabin chunker is exact, and a
  fixed size that makes progress.\<close>

definition chunkable :: "ConfigFile \<Rightarrow> bool" where
  "chunkable config \<longleftrightarrow> (case chunker config of
     Rabin \<Rightarrow> BUF_SIZE \<le> unat (chunk_min_size config)
   | FixedSize \<Rightarrow> chunk_size config \<noteq> 0)"

lemma from_config_good:
  assumes "ChunkIter_from_config newp p config reader hint = Inr it"
    and "chunkable config" "prefill_ok H" "reader_ok reader"
  shows "iter_good H config it" "iter_rest it = reader_bytes reader"
  using assms unsigned_less [of "chunk_min_size config", where ?'a = nat]
  by (auto simp: ChunkIter_from_config_def RabinChunkIter_new_def FixedChunkIter_new_def rabin_good_def
      fixed_good_def ci_ok_def ci_rest_def chunkable_def BUF_SIZE_def unat_gt_0 result_simps
      split: Config.Chunker.splits)

lemma from_config_chunks:
  assumes "ChunkIter_from_config newp p config reader hint = Inr it"
    and "chunkable config" "prefill_ok H" "reader_ok reader"
  shows "collect_chunks (ChunkIter_next H) it = Some (Inr (split_by (config_cut H h0 config) (reader_bytes reader)))"
  using cfg.collect_split from_config_good [OF assms] by metis

text \<open>A fixed chunk size of 0 ends the iteration at once, whatever the reader holds.\<close>

lemma fixed_zero_no_chunks:
  assumes "ChunkIter_from_config newp p config reader hint = Inr it"
    and "chunker config = FixedSize" "chunk_size config = 0"
  shows "collect_chunks (ChunkIter_next H) it = Some (Inr [])"
  using assms
  by (subst collect_chunks.simps)
    (cases reader; auto simp: ChunkIter_from_config_def FixedChunkIter_new_def fixed_next_def)

section \<open>Properties\<close>

text \<open>C10. Chunking is defined by the content: for every reader without I/O errors and every configuration that is
  \<open>chunkable\<close> (a fixed size other than 0, or a minimal Rabin chunk of at least \<open>BUF_SIZE\<close>, 4096 bytes), the chunk
  iterator terminates and returns exactly the cuts of the reference definition on the plain
  bytes (for Rabin: the first position from the minimal size on whose window hash has no bit of the
  split mask, at most the maximal size; for fixed size: every \<open>chunk_size\<close> bytes). How the reader
  splits its blocks, short reads, interrupted calls and, for these configurations, the internal buffer have no
  influence, so equal content gives equal chunks. The program also accepts configurations that are not
  \<open>chunkable\<close>, and for those it does not hold (\<open>fixed_zero_no_chunks\<close> for the size 0).\<close>

theorem chunks_are_content_defined:
  assumes "ChunkIter_from_config newp poly config reader hint = Inr it"
    and "chunkable config" "prefill_ok H" "reader_ok reader"
  shows "collect_chunks (ChunkIter_next H) it = Some (Inr (split_by (config_cut H h0 config) (reader_bytes reader)))"
  by (rule from_config_chunks [OF assms])

definition demo_rolling :: "u64 rolling" where
  "demo_rolling = \<lparr>prefill = (\<lambda>w _. ucast (last w)), slide = (\<lambda>b _. ucast b), rhash = (\<lambda>h. h)\<rparr>"

lemma demo_rolling_ok: "prefill_ok demo_rolling"
  by (simp add: demo_rolling_def prefill_ok_def)

definition demo_config :: ConfigFile where
  "demo_config = new_config\<lparr>c_chunker := Some Rabin\<rparr>"

lemma demo_config_defaults:
  "chunker demo_config = Rabin" "chunk_size demo_config = 1048576" "chunk_min_size demo_config = 524288"
  "chunk_max_size demo_config = 8388608"
  by (simp_all add: demo_config_def ConfigFile_new_def config_accessors unwrap_or_def DEFAULT_CHUNK_SIZE_def
      DEFAULT_CHUNK_MIN_SIZE_def DEFAULT_CHUNK_MAX_SIZE_def)

lemma demo_config_ok: "chunkable demo_config"
  "\<exists>it. ChunkIter_from_config (\<lambda>_. 0 :: u64) (Inr 3) demo_config reader 0 = Inr it"
  by (simp_all add: chunkable_def demo_config_defaults BUF_SIZE_def ChunkIter_from_config_def
      RabinChunkIter_new_def check_rabin_params_def word_le_nat_alt word_less_nat_alt)

theorem chunks_are_content_defined_witness:
  "\<exists>it. ChunkIter_from_config (\<lambda>_. 0 :: u64) (Inr 3) demo_config [RData [1, 2], RInterrupted, RData [3]] 0 = Inr it \<and>
     collect_chunks (ChunkIter_next demo_rolling) it = Some (Inr [[1, 2, 3]])"
proof -
  obtain it where it: "ChunkIter_from_config (\<lambda>_. 0 :: u64) (Inr 3) demo_config [RData [1, 2], RInterrupted, RData [3]] 0 = Inr it"
    using demo_config_ok(2) by blast
  have "split_by (config_cut demo_rolling 0 demo_config) [1, 2, 3] = [[1, 2, 3]]"
    by (simp add: split_by.simps config_cut_def demo_config_defaults rabin_cut_def)
  with chunks_are_content_defined [OF it demo_config_ok(1) demo_rolling_ok, of 0] it show ?thesis by simp
qed

text \<open>C28. The chunks are a partition of the file: for every reader without I/O errors and every \<open>chunkable\<close>
  configuration (a fixed size other than 0, or a minimal Rabin chunk of at least \<open>BUF_SIZE\<close>), the iterator returns
  (never an error, never endless), no chunk is empty, and the chunks put together are the bytes of the
  reader. A fixed size of 0 is excluded: it gives no chunks at all (\<open>fixed_zero_no_chunks\<close>).\<close>

theorem chunks_partition:
  assumes "ChunkIter_from_config newp poly config reader hint = Inr it"
    and "chunkable config" "prefill_ok H" "reader_ok reader"
  shows "\<exists>cs. collect_chunks (ChunkIter_next H) it = Some (Inr cs) \<and> concat cs = reader_bytes reader \<and>
    [] \<notin> set cs"
  using cfg.collect_partition [OF from_config_good(1) [OF assms]] from_config_good(2) [OF assms] by metis

theorem chunks_partition_witness:
  "\<exists>it cs. ChunkIter_from_config (\<lambda>_. 0 :: u64) (Inr 3) demo_config [RData [1, 2], RInterrupted, RData [3]] 0 = Inr it \<and>
     collect_chunks (ChunkIter_next demo_rolling) it = Some (Inr cs) \<and> concat cs = [1, 2, 3]"
proof -
  obtain it where it: "ChunkIter_from_config (\<lambda>_. 0 :: u64) (Inr 3) demo_config [RData [1, 2], RInterrupted, RData [3]] 0 = Inr it"
    using demo_config_ok(2) by blast
  from chunks_partition [OF it demo_config_ok(1) demo_rolling_ok] it show ?thesis by fastforce
qed

text \<open>C29. With the Rabin chunker and a minimal size of at least \<open>BUF_SIZE\<close> (4096 bytes), every chunk has at most the
  maximal size of the configuration, and every chunk but the last has at least the minimal size. Accepted smaller
  minimal sizes are excluded: there the arithmetic on the bytes left in the buffer wraps.\<close>

theorem rabin_chunk_sizes:
  assumes "ChunkIter_from_config newp poly config reader hint = Inr it" "chunker config = Rabin"
    and "chunkable config" "prefill_ok H" "reader_ok reader"
    and "collect_chunks (ChunkIter_next H) it = Some (Inr cs)"
  shows "(\<forall>c \<in> set cs. length c \<le> unat (chunk_max_size config)) \<and>
    (\<forall>c \<in> set (butlast cs). unat (chunk_min_size config) \<le> length c)"
proof -
  let ?mn = "unat (chunk_min_size config)" and ?mx = "unat (chunk_max_size config)"
  have "0 < ?mn" using assms(2,3) by (simp add: chunkable_def BUF_SIZE_def)
  moreover have "?mn \<le> ?mx"
    using assms(1,2) by (auto simp: ChunkIter_from_config_def RabinChunkIter_new_def check_rabin_params_def
        result_simps word_le_nat_alt word_less_nat_alt split: if_splits)
  ultimately have mm: "0 < ?mn" "?mn \<le> ?mx" by simp_all
  have cs: "cs = split_by (config_cut H undefined config) (reader_bytes reader)"
    using from_config_chunks [OF assms(1,3,4,5), of undefined] assms(6) by simp
  note b = rabin_cut_bounds [OF mm]
  have u: "0 < rabin_cut H undefined (chunk_size config - 1) ?mn ?mx d \<and>
      rabin_cut H undefined (chunk_size config - 1) ?mn ?mx d \<le> ?mx" if "d \<noteq> []" for d
    by (rule conjI [OF b(1) [OF that] b(2)])
  show ?thesis
    unfolding cs config_cut_def assms(2) Config.Chunker.case
  proof (intro conjI ballI)
    fix c assume "c \<in> set (split_by (rabin_cut H undefined (chunk_size config - 1) ?mn ?mx) (reader_bytes reader))"
    then show "length c \<le> ?mx" 
      by (intro split_by_upper [where bnd = "rabin_cut H undefined (chunk_size config - 1) ?mn ?mx" and mx = ?mx] u)
  next
    fix c assume "c \<in> set (butlast (split_by (rabin_cut H undefined (chunk_size config - 1) ?mn ?mx) (reader_bytes reader)))"
    then show "?mn \<le> length c" 
      by (intro split_by_lower [where bnd = "rabin_cut H undefined (chunk_size config - 1) ?mn ?mx"] b(1) b(3))
  qed
qed

theorem rabin_chunk_sizes_witness:
  "\<exists>it. ChunkIter_from_config (\<lambda>_. 0 :: u64) (Inr 3) demo_config [RData [1, 2, 3]] 0 = Inr it \<and>
     (\<forall>cs. collect_chunks (ChunkIter_next demo_rolling) it = Some (Inr cs) \<longrightarrow>
       (\<forall>c \<in> set cs. length c \<le> 8388608))"
proof -
  obtain it where it: "ChunkIter_from_config (\<lambda>_. 0 :: u64) (Inr 3) demo_config [RData [1, 2, 3]] 0 = Inr it"
    using demo_config_ok(2) by blast
  from rabin_chunk_sizes [OF it demo_config_defaults(1) demo_config_ok(1) demo_rolling_ok] it show ?thesis
    by (auto simp: demo_config_defaults)
qed

text \<open>A repository with the fixed-size chunker accepts the chunk size 0, and then every file has
  no chunks at all, whatever its content: the iterator ends at once and the data is silently not saved.\<close>

theorem fixed_size_zero_loses_data:
  assumes "chunker c = FixedSize" "set_chunker o' = None" "set_chunk_size o' = Some 0"
    and "ConfigOptions_apply levels o' c = Inr c'"
    and "ChunkIter_from_config newp poly c' reader hint = Inr it"
  shows "collect_chunks (ChunkIter_next H) it = Some (Inr [])"
  using ConfigOptions_apply_chunk_size [OF assms(4,2,3)] assms(1)
  by (intro fixed_zero_no_chunks [OF assms(5)]) (simp_all add: config_accessors unwrap_or_def)

theorem fixed_size_zero_loses_data_witness:
  "\<exists>c' it. ConfigOptions_apply (-7, 22) (no_options\<lparr>set_chunk_size := Some 0\<rparr>)
       (new_config\<lparr>c_chunker := Some FixedSize\<rparr>) = Inr c' \<and>
     ChunkIter_from_config (\<lambda>_. 0 :: u64) (Inr 3) c' [RData [1, 2, 3]] 3 = Inr it \<and>
     collect_chunks (ChunkIter_next demo_rolling) it = Some (Inr [])"
proof -
  obtain c' where c: "ConfigOptions_apply (-7, 22) (no_options\<lparr>set_chunk_size := Some 0\<rparr>)
      (new_config\<lparr>c_chunker := Some FixedSize\<rparr>) = Inr c'" and k: "chunker c' = FixedSize"
    by (simp add: apply_defs no_options_def ConfigFile_new_def chunker_def unwrap_or_def)
  obtain it where it: "ChunkIter_from_config (\<lambda>_. 0 :: u64) (Inr 3) c' [RData [1, 2, 3]] 3 = Inr it"
    using k by (simp add: ChunkIter_from_config_def)
  from fixed_size_zero_loses_data [OF _ _ _ c it] c it show ?thesis
    by (auto simp: no_options_def chunker_def unwrap_or_def)
qed

end
