(* ===== verification/Crypto.thy ===== *)
theory Crypto
  imports PackFile
begin

text \<open>
  Encryption, compression and verification of what goes into a repository
  (\<open>crates/core/src/crypto/aespoly1305.rs\<close>, \<open>crates/core/src/backend/decrypt.rs\<close>). The cipher, the
  compressor and the hash are crates of their own and stay parameters, collected in the record
  \<open>prims\<close>; \<open>prims_ok\<close> states their documented behaviour. Random nonces are arguments of the writing
  operations. The lemmas show that what \<open>process_data\<close> and \<open>encrypt_file\<close> write is read back
  unchanged, and that with \<open>extra_verify\<close> this holds without any assumption about the primitives.
\<close>

section \<open>Parameters\<close>

record prims =
  p_seal :: "bytes \<Rightarrow> bytes \<Rightarrow> bytes \<Rightarrow> (bytes \<times> bytes) option"
  p_open :: "bytes \<Rightarrow> bytes \<Rightarrow> bytes \<Rightarrow> bytes option"
  p_encode :: "bytes \<Rightarrow> int \<Rightarrow> bytes option"
  p_decode :: "bytes \<Rightarrow> bytes option"
  p_sha256 :: "bytes \<Rightarrow> Id"

text \<open>The authenticated cipher keeps the length, appends a 16 byte tag and opens what it sealed;
  decompression inverts compression; a digest has 32 bytes.\<close>

definition seal_ok :: "prims \<Rightarrow> bool" where
  "seal_ok p \<longleftrightarrow>
     (\<forall>k n d c t. p_seal p k n d = Some (c, t) \<longrightarrow>
        length c = length d \<and> length t = 16 \<and> p_open p k n (c @ t) = Some d)"

definition zstd_ok :: "prims \<Rightarrow> bool" where
  "zstd_ok p \<longleftrightarrow> (\<forall>d l c. p_encode p d l = Some c \<longrightarrow> p_decode p c = Some d)"

definition sha256_ok :: "prims \<Rightarrow> bool" where
  "sha256_ok p \<longleftrightarrow> (\<forall>d. wf_id (p_sha256 p d))"

section \<open>The key\<close>

type_synonym Key = bytes

definition Key_decrypt_data :: "prims \<Rightarrow> Key \<Rightarrow> bytes \<Rightarrow> bytes rustic_result" where
  "Key_decrypt_data p k data =
     (if length data < 16
      then Inl (RusticError ECryptography ''Data is too short (less than 16 bytes), cannot decrypt.'')
      else ok_or (RusticError ECryptography ''Data decryption failed, MAC check failed.'')
             (p_open p k (take 16 data) (drop 16 data)))"

definition Key_encrypt_data :: "prims \<Rightarrow> Key \<Rightarrow> bytes \<Rightarrow> bytes \<Rightarrow> bytes rustic_result" where
  "Key_encrypt_data p k nonce data =
     bindR (ok_or (RusticError ECryptography ''Data encryption failed.'') (p_seal p k nonce data))
       (\<lambda>(c, tag). Inr (nonce @ c @ tag))"

lemma Key_encrypt_length:
  assumes "seal_ok p" and "length nonce = 16" and "Key_encrypt_data p k nonce data = Inr enc"
  shows "length enc = length data + 32"
  using assms by (auto simp: Key_encrypt_data_def seal_ok_def result_simps)

lemma Key_roundtrip:
  assumes "seal_ok p" and "length nonce = 16" and "Key_encrypt_data p k nonce data = Inr enc"
  shows "Key_decrypt_data p k enc = Inr data"
  using assms by (auto simp: Key_encrypt_data_def Key_decrypt_data_def seal_ok_def result_simps)

section \<open>The decrypting backend\<close>

record DecryptBackend =
  db_key :: Key
  db_zstd :: "int option"
  db_extra_verify :: bool

definition DecryptBackend_new :: "Key \<Rightarrow> DecryptBackend" where
  "DecryptBackend_new k = \<lparr>db_key = k, db_zstd = None, db_extra_verify = False\<rparr>"

definition set_zstd :: "int option \<Rightarrow> DecryptBackend \<Rightarrow> DecryptBackend" where
  "set_zstd z b = b\<lparr>db_zstd := z\<rparr>"

definition set_extra_verify :: "bool \<Rightarrow> DecryptBackend \<Rightarrow> DecryptBackend" where
  "set_extra_verify v b = b\<lparr>db_extra_verify := v\<rparr>"

abbreviation decode_error :: rustic_error where
  "decode_error \<equiv>
     RusticError EInternal ''Failed to decode zstd compressed data. The data may be corrupted.''"

definition decrypt_file :: "prims \<Rightarrow> DecryptBackend \<Rightarrow> bytes \<Rightarrow> bytes rustic_result" where
  "decrypt_file p b data =
     bindR (Key_decrypt_data p (db_key b) data) (\<lambda>decrypted.
       case decrypted of
         [] \<Rightarrow> Inl (RusticError EUnsupported ''Decryption not supported. The data is not in a supported format.'')
       | x # rest \<Rightarrow>
           if x = 123 \<or> x = 91 then Inr decrypted
           else if x = 2 then ok_or decode_error (p_decode p rest)
           else Inl (RusticError EUnsupported ''Decryption not supported. The data is not in a supported format.''))"

definition encrypt_file :: "prims \<Rightarrow> DecryptBackend \<Rightarrow> bytes \<Rightarrow> bytes \<Rightarrow> bytes rustic_result" where
  "encrypt_file p b nonce data =
     (case db_zstd b of
        Some level \<Rightarrow>
          bindR (ok_or (RusticError EInternal ''Compressing and appending data failed. The data may be corrupted.'')
                   (p_encode p data level))
            (\<lambda>out. Key_encrypt_data p (db_key b) nonce (2 # out))
      | None \<Rightarrow> Key_encrypt_data p (db_key b) nonce data)"

definition very_file :: "prims \<Rightarrow> DecryptBackend \<Rightarrow> bytes \<Rightarrow> bytes \<Rightarrow> unit rustic_result" where
  "very_file p b data_encrypted data =
     (if db_extra_verify b
      then bindR (decrypt_file p b data_encrypted) (\<lambda>check_data.
             if data \<noteq> check_data
             then Inl (RusticError EVerification ''Verification failed: After decrypting and decompressing the data changed!'')
             else Inr ())
      else Inr ())"

definition db_encrypt_data ::
    "prims \<Rightarrow> DecryptBackend \<Rightarrow> bytes \<Rightarrow> bytes \<Rightarrow> (bytes \<times> u32 \<times> u32 option) rustic_result" where
  "db_encrypt_data p b nonce data =
     bindR (ok_or (RusticError EInternal ''Failed to convert data length to u32.'')
              (u32_try_from (length data))) (\<lambda>data_len.
     bindR (case db_zstd b of
              None \<Rightarrow> bindR (Key_encrypt_data p (db_key b) nonce data) (\<lambda>e. Inr (e, None))
            | Some level \<Rightarrow>
                bindR (ok_or (RusticError EInternal ''Failed to encode zstd compressed data. The data may be corrupted.'')
                         (p_encode p data level)) (\<lambda>c.
                bindR (Key_encrypt_data p (db_key b) nonce c) (\<lambda>e. Inr (e, NonZeroU32_new data_len))))
       (\<lambda>(e, ul). Inr (e, data_len, ul)))"

definition read_encrypted_from_partial ::
    "prims \<Rightarrow> DecryptBackend \<Rightarrow> bytes \<Rightarrow> u32 option \<Rightarrow> bytes rustic_result" where
  "read_encrypted_from_partial p b data ulen =
     bindR (Key_decrypt_data p (db_key b) data) (\<lambda>d.
       case ulen of
         None \<Rightarrow> Inr d
       | Some len \<Rightarrow>
           bindR (ok_or decode_error (p_decode p d)) (\<lambda>d'.
             if length d' \<noteq> unat len
             then Inl (RusticError EInternal ''Length of uncompressed data does not match the given length.'')
             else Inr d'))"

definition very_data ::
    "prims \<Rightarrow> DecryptBackend \<Rightarrow> bytes \<Rightarrow> u32 option \<Rightarrow> bytes \<Rightarrow> unit rustic_result" where
  "very_data p b data_encrypted ulen data =
     (if db_extra_verify b
      then bindR (read_encrypted_from_partial p b data_encrypted ulen) (\<lambda>data_check.
             if data \<noteq> data_check
             then Inl (RusticError EVerification ''Verification failed: After decrypting and decompressing the data changed!'')
             else Inr ())
      else Inr ())"

definition process_data ::
    "prims \<Rightarrow> DecryptBackend \<Rightarrow> bytes \<Rightarrow> bytes \<Rightarrow> (bytes \<times> u32 \<times> u32 option) rustic_result" where
  "process_data p b nonce data =
     bindR (db_encrypt_data p b nonce data) (\<lambda>(e, data_len, ul).
     bindR (very_data p b e ul data) (\<lambda>_. Inr (e, data_len, ul)))"

definition read_encrypted_partial ::
    "prims \<Rightarrow> DecryptBackend \<Rightarrow> (FileType \<Rightarrow> Id \<Rightarrow> bool \<Rightarrow> u32 \<Rightarrow> u32 \<Rightarrow> bytes rustic_result)
     \<Rightarrow> FileType \<Rightarrow> Id \<Rightarrow> bool \<Rightarrow> BlobLocation \<Rightarrow> bytes rustic_result" where
  "read_encrypted_partial p b read_partial tpe i cacheable loc =
     bindR (read_partial tpe i cacheable (bl_offset loc) (bl_length loc)) (\<lambda>data.
       map_err (\<lambda>_. RusticError ECryptography ''error processing {tpe}:{id} at {location}'')
         (read_encrypted_from_partial p b data (bl_uncompressed_length loc)))"

section \<open>Round trips\<close>

lemma NonZeroU32_new_length:
  "u32_try_from (length data) = Some n \<Longrightarrow> NonZeroU32_new n = None \<longleftrightarrow> data = []"
  by (auto simp: NonZeroU32_new_def u32_try_from_def split: if_splits
      dest: arg_cong [where f = unat] simp: unat_of_nat)

lemma process_data_encrypt:
  "process_data p b nonce data = Inr (e, n, ul) \<Longrightarrow> db_encrypt_data p b nonce data = Inr (e, n, ul)"
  by (auto simp: process_data_def result_simps split: prod.splits)

text \<open>Data that was compressed is stored with its length, except that the length zero is stored as
  \<open>None\<close> and so reads as \<open>not compressed\<close>.\<close>

lemma db_encrypt_data_roundtrip:
  assumes ok: "seal_ok p" "zstd_ok p" and nonce: "length nonce = 16"
    and enc: "db_encrypt_data p b nonce data = Inr (e, n, ul)"
    and ne: "data \<noteq> [] \<or> db_zstd b = None"
  shows "read_encrypted_from_partial p b e ul = Inr data"
proof (cases "db_zstd b")
  case None
  with enc have "Key_encrypt_data p (db_key b) nonce data = Inr e" "ul = None"
    by (auto simp: db_encrypt_data_def result_simps)
  then show ?thesis
    using Key_roundtrip [OF ok(1) nonce] by (simp add: read_encrypted_from_partial_def)
next
  case (Some level)
  with enc obtain c where len: "u32_try_from (length data) = Some n"
    and c: "p_encode p data level = Some c"
    and k: "Key_encrypt_data p (db_key b) nonce c = Inr e" and ul: "ul = NonZeroU32_new n"
    by (auto simp: db_encrypt_data_def result_simps)
  have "ul = Some n"
    using NonZeroU32_new_length [OF len] ne Some ul by (auto simp: NonZeroU32_new_def split: if_splits)
  moreover have "p_decode p c = Some data"
    using ok(2) c by (simp add: zstd_ok_def)
  moreover have "Key_decrypt_data p (db_key b) e = Inr c"
    using Key_roundtrip [OF ok(1) nonce k] .
  ultimately show ?thesis
    using u32_try_from_Some [OF len] by (simp add: read_encrypted_from_partial_def)
qed

lemma process_data_verified:
  assumes "db_extra_verify b" and "process_data p b nonce data = Inr (e, n, ul)"
  shows "read_encrypted_from_partial p b e ul = Inr data"
  using assms by (auto simp: process_data_def very_data_def result_simps split: if_splits)

lemma db_encrypt_data_lengths:
  assumes "db_encrypt_data p b nonce data = Inr (e, n, ul)"
  shows "unat n = length data" and "ul \<noteq> Some 0"
  using assms by (auto simp: db_encrypt_data_def result_simps NonZeroU32_new_def u32_try_from_Some
      split: option.splits if_splits)

lemma encrypt_file_roundtrip:
  assumes ok: "seal_ok p" "zstd_ok p" and nonce: "length nonce = 16"
    and enc: "encrypt_file p b nonce data = Inr e"
    and json: "db_zstd b = None \<Longrightarrow> \<exists>x r. data = x # r \<and> (x = 123 \<or> x = 91)"
  shows "decrypt_file p b e = Inr data"
proof (cases "db_zstd b")
  case None
  with enc have "Key_encrypt_data p (db_key b) nonce data = Inr e"
    by (simp add: encrypt_file_def)
  with json [OF None] show ?thesis
    using Key_roundtrip [OF ok(1) nonce] by (auto simp: decrypt_file_def)
next
  case (Some level)
  with enc obtain c where c: "p_encode p data level = Some c"
    and k: "Key_encrypt_data p (db_key b) nonce (2 # c) = Inr e"
    by (auto simp: encrypt_file_def result_simps)
  have "p_decode p c = Some data"
    using ok(2) c by (simp add: zstd_ok_def)
  with Key_roundtrip [OF ok(1) nonce k] show ?thesis
    by (simp add: decrypt_file_def)
qed

lemma very_file_verified:
  assumes "db_extra_verify b" and "very_file p b e data = Inr ()"
  shows "decrypt_file p b e = Inr data"
  using assms by (auto simp: very_file_def result_simps split: if_splits)

section \<open>An instance of the parameters\<close>

text \<open>Primitives that leave the text in clear; they satisfy every law above and make the operations
  computable on examples.\<close>

definition clear_prims :: prims where
  "clear_prims = \<lparr>p_seal = (\<lambda>k n d. Some (d, replicate 16 0)),
     p_open = (\<lambda>k n c. if length c < 16 then None else Some (take (length c - 16) c)),
     p_encode = (\<lambda>d l. Some (0 # d)),
     p_decode = (\<lambda>c. case c of [] \<Rightarrow> None | _ # d \<Rightarrow> Some d),
     p_sha256 = (\<lambda>d. take 32 (d @ replicate 32 0))\<rparr>"

lemma clear_prims_ok: "seal_ok clear_prims" "zstd_ok clear_prims" "sha256_ok clear_prims"
  by (auto simp: clear_prims_def seal_ok_def zstd_ok_def sha256_ok_def wf_id_def LEN_def min_def)

section \<open>Properties\<close>

text \<open>C23. Data processed for a pack is read back unchanged by \<open>read_encrypted_partial\<close> at its
  location. With \<open>extra_verify\<close> this needs no assumption on the cipher and the compressor at all;
  without it, it needs that they invert themselves and that an empty blob is not compressed.\<close>

theorem process_data_read_back:
  assumes "process_data p b nonce data = Inr (e, n, ul)"
    and "db_extra_verify b \<or>
      seal_ok p \<and> zstd_ok p \<and> length nonce = 16 \<and> (data \<noteq> [] \<or> db_zstd b = None)"
    and "rp tpe i c (bl_offset loc) (bl_length loc) = Inr e" "bl_uncompressed_length loc = ul"
  shows "read_encrypted_partial p b rp tpe i c loc = Inr data"
  using assms process_data_verified [OF _ assms(1)]
    db_encrypt_data_roundtrip [OF _ _ _ process_data_encrypt [OF assms(1)]]
  by (auto simp: read_encrypted_partial_def)

theorem process_data_read_back_witness:
  "read_encrypted_partial clear_prims \<lparr>db_key = [], db_zstd = Some 3, db_extra_verify = False\<rparr>
     (\<lambda>_ _ _ _ _. Inr (replicate 16 1 @ [0, 5, 6] @ replicate 16 0)) FPack [] False
     \<lparr>bl_offset = 0, bl_length = 35, bl_uncompressed_length = Some 2\<rparr> = Inr [5, 6]"
  by (rule process_data_read_back [where nonce = "replicate 16 1" and n = 2 and ul = "Some 2"
        and e = "replicate 16 1 @ [0, 5, 6] @ replicate 16 0"])
    (simp_all add: clear_prims_ok, simp add: process_data_def db_encrypt_data_def very_data_def
      clear_prims_def Key_encrypt_data_def u32_try_from_def NonZeroU32_new_def ok_or_def)

text \<open>C30. A file of the repository (index, snapshot, key) that was encrypted by \<open>encrypt_file\<close> is
  returned unchanged by \<open>decrypt_file\<close>: with compression for every content, without it for the JSON
  texts that start with a brace or a bracket.\<close>

theorem repo_file_roundtrip:
  assumes "seal_ok p" "zstd_ok p" "length nonce = 16" "encrypt_file p b nonce data = Inr e"
    and "db_zstd b \<noteq> None \<or> (\<exists>x r. data = x # r \<and> (x = 123 \<or> x = 91))"
  shows "decrypt_file p b e = Inr data"
  using assms by (intro encrypt_file_roundtrip) auto

theorem repo_file_roundtrip_witness:
  "decrypt_file clear_prims \<lparr>db_key = [], db_zstd = None, db_extra_verify = True\<rparr>
     (replicate 16 1 @ [123, 125] @ replicate 16 0) = Inr [123, 125]"
  by (rule repo_file_roundtrip [OF clear_prims_ok(1,2), where nonce = "replicate 16 1"])
    (simp_all add: encrypt_file_def clear_prims_def Key_encrypt_data_def ok_or_def)

end
