(* ===== verification/Backend.thy ===== *)
theory Backend
  imports PackFile
begin

text \<open>
  Storage backends (\<open>crates/core/src/backend.rs\<close>, \<open>backend/hotcold.rs\<close>, \<open>backend/dry_run.rs\<close> and the
  in-memory backend of \<open>crates/testing/src/backend.rs\<close>). The traits \<open>ReadBackend\<close> and
  \<open>WriteBackend\<close> are a record of operations on an explicit state; an operation returns its result
  together with the state it leaves behind, also when it fails. The contract of the traits is the
  locale \<open>backend_spec\<close>; it is interpreted on the in-memory backend, and a hot/cold pair of two
  backends that meet it meets it again.
\<close>

section \<open>The traits\<close>

type_synonym ('s, 'a) io = "'s \<Rightarrow> 'a rustic_result \<times> 's"

record 's Backend =
  be_list_with_size :: "FileType \<Rightarrow> ('s, (Id \<times> u32) list) io"
  be_read_full :: "FileType \<Rightarrow> Id \<Rightarrow> ('s, bytes) io"
  be_read_partial :: "FileType \<Rightarrow> Id \<Rightarrow> bool \<Rightarrow> u32 \<Rightarrow> u32 \<Rightarrow> ('s, bytes) io"
  be_create :: "('s, unit) io"
  be_write_bytes :: "FileType \<Rightarrow> Id \<Rightarrow> bool \<Rightarrow> bytes list \<Rightarrow> ('s, unit) io"
  be_remove :: "FileType \<Rightarrow> Id \<Rightarrow> bool \<Rightarrow> ('s, unit) io"

definition io_bind :: "('s, 'a) io \<Rightarrow> ('a \<Rightarrow> ('s, 'b) io) \<Rightarrow> ('s, 'b) io" where
  "io_bind m f s = (case m s of (Inl e, s') \<Rightarrow> (Inl e, s') | (Inr x, s') \<Rightarrow> f x s')"

definition io_return :: "'a \<Rightarrow> ('s, 'a) io" where
  "io_return x s = (Inr x, s)"

lemma io_bind_eq_Inr:
  "io_bind m f s = (Inr y, s'') \<longleftrightarrow> (\<exists>x s'. m s = (Inr x, s') \<and> f x s' = (Inr y, s''))"
  by (auto simp: io_bind_def split: prod.splits sum.splits)

lemma io_return_eq [simp]: "io_return x s = (r, s') \<longleftrightarrow> r = Inr x \<and> s' = s"
  by (auto simp: io_return_def)

definition be_list :: "'s Backend \<Rightarrow> FileType \<Rightarrow> ('s, Id list) io" where
  "be_list be tpe = io_bind (be_list_with_size be tpe) (\<lambda>l. io_return (map fst l))"

text \<open>\<open>BytesList\<close>: a list of byte strings; its reader yields their concatenation.\<close>

type_synonym BytesList = "bytes list"

definition BytesList_size :: "BytesList \<Rightarrow> nat" where
  "BytesList_size bl = sum_list (map length bl)"

definition BytesList_add :: "bytes \<Rightarrow> BytesList \<Rightarrow> BytesList" where
  "BytesList_add b bl = bl @ [b]"

text \<open>One \<open>read\<close> into a buffer of the given length: the rest of the current chunk, skipping chunks
  that are exhausted.\<close>

fun BytesListReader_read :: "nat \<Rightarrow> bytes \<times> bytes list \<Rightarrow> bytes \<times> (bytes \<times> bytes list)" where
  "BytesListReader_read n (cur, []) = (take n cur, (drop n cur, []))"
| "BytesListReader_read n (cur, b # bs) =
     (if take n cur = [] then BytesListReader_read n (b, bs)
      else (take n cur, (drop n cur, b # bs)))"

lemma BytesList_size_concat: "BytesList_size bl = length (concat bl)"
  by (simp add: BytesList_size_def length_concat)

lemma BytesListReader_read_spec:
  assumes "0 < n" and "BytesListReader_read n (cur, bs) = (out, cur', bs')"
  shows "cur @ concat bs = out @ cur' @ concat bs'"
    and "out = [] \<longleftrightarrow> cur @ concat bs = []"
  using assms
  by (induction n "(cur, bs)" arbitrary: cur bs rule: BytesListReader_read.induct)
    (auto simp del: concat_eq_Nil_conv split: if_splits)

section \<open>The contract\<close>

text \<open>\<open>content s t c i\<close> is what a partial read with the \<open>cacheable\<close> flag \<open>c\<close> sees of file \<open>i\<close>; \<open>full\<close>
  says for which files \<open>read_full\<close> sees the same, and \<open>vis\<close> for which types a written file is the
  one that reads see.\<close>

locale backend_spec =
  fixes be :: "'s Backend"
    and content :: "'s \<Rightarrow> FileType \<Rightarrow> bool \<Rightarrow> Id \<Rightarrow> bytes option"
    and inv :: "'s \<Rightarrow> bool"
    and full :: "FileType \<Rightarrow> bool \<Rightarrow> bool"
    and vis :: "FileType \<Rightarrow> bool"
  assumes write_inv: "inv s \<Longrightarrow> be_write_bytes be t i c b s = (Inr (), s') \<Longrightarrow> inv s'"
    and write_content: "inv s \<Longrightarrow> vis t \<Longrightarrow> be_write_bytes be t i c b s = (Inr (), s') \<Longrightarrow>
          content s' t c i = Some (concat b)"
    and write_frame: "inv s \<Longrightarrow> be_write_bytes be t i c b s = (Inr (), s') \<Longrightarrow> (t', i') \<noteq> (t, i) \<Longrightarrow>
          content s' t' c' i' = content s t' c' i'"
    and remove_inv: "inv s \<Longrightarrow> be_remove be t i c s = (Inr (), s') \<Longrightarrow> inv s'"
    and remove_content: "inv s \<Longrightarrow> vis t \<Longrightarrow> be_remove be t i c s = (Inr (), s') \<Longrightarrow>
          content s' t c i = None"
    and remove_frame: "inv s \<Longrightarrow> be_remove be t i c s = (Inr (), s') \<Longrightarrow> (t', i') \<noteq> (t, i) \<Longrightarrow>
          content s' t' c' i' = content s t' c' i'"
    and read_full_content: "inv s \<Longrightarrow> full t c \<Longrightarrow> content s t c i = Some d \<Longrightarrow>
          be_read_full be t i s = (Inr d, s)"
    and read_partial_content: "inv s \<Longrightarrow> content s t c i = Some d \<Longrightarrow>
          unat off + unat len \<le> length d \<Longrightarrow> length d < 2 ^ 32 \<Longrightarrow>
          be_read_partial be t i c off len s = (Inr (subslice (unat off) (unat off + unat len) d), s)"
begin

lemma write_read_full:
  assumes "inv s" and "vis t" and "full t c" and "be_write_bytes be t i c b s = (Inr (), s')"
  shows "be_read_full be t i s' = (Inr (concat b), s')"
  using assms write_inv write_content read_full_content by metis

text \<open>A file survives later writes and removals of other files.\<close>

lemma kept_by_write:
  assumes "inv s" and "content s t c i = Some d" and "be_write_bytes be t' i' c' b s = (Inr (), s')"
    and "(t, i) \<noteq> (t', i')"
  shows "content s' t c i = Some d"
  using assms write_frame by metis

lemma kept_by_remove:
  assumes "inv s" and "content s t c i = Some d" and "be_remove be t' i' c' s = (Inr (), s')"
    and "(t, i) \<noteq> (t', i')"
  shows "content s' t c i = Some d"
  using assms remove_frame by metis

text \<open>The read functions of a state, as the pack reader takes them.\<close>

lemma reads_file_content:
  assumes "inv s" and "\<And>c. content s FPack c i = Some d" and "length d < 2 ^ 32"
  shows "reads_file (\<lambda>t i c off len. fst (be_read_partial be t i c off len s)) i d"
  using assms read_partial_content by (simp add: reads_file_def)

end

section \<open>The in-memory backend\<close>

text \<open>A \<open>BTreeMap\<close> is an association list in key order.\<close>

fun bt_insert :: "'k :: linorder \<Rightarrow> 'v \<Rightarrow> ('k \<times> 'v) list \<Rightarrow> ('k \<times> 'v) list" where
  "bt_insert k v [] = [(k, v)]"
| "bt_insert k v ((k', v') # m) =
     (if k < k' then (k, v) # (k', v') # m
      else if k = k' then (k, v) # m
      else (k', v') # bt_insert k v m)"

definition bt_remove :: "'k \<Rightarrow> ('k \<times> 'v) list \<Rightarrow> ('k \<times> 'v) list" where
  "bt_remove k m = filter (\<lambda>kv. fst kv \<noteq> k) m"

lemma map_of_bt_insert [simp]: "map_of (bt_insert k v m) = (map_of m)(k \<mapsto> v)"
  by (induction k v m rule: bt_insert.induct) auto

lemma map_of_bt_remove [simp]: "map_of (bt_remove k m) = (map_of m)(k := None)"
proof
  fix k'
  show "map_of (bt_remove k m) k' = ((map_of m)(k := None)) k'"
    by (induction m) (auto simp: bt_remove_def)
qed

record InMemoryBackend =
  im_map :: "FileType \<Rightarrow> (Id \<times> bytes) list"
  im_is_cold :: bool
  im_warm :: "FileType \<Rightarrow> Id set"

definition InMemory_new :: InMemoryBackend where
  "InMemory_new = \<lparr>im_map = \<lambda>_. [], im_is_cold = False, im_warm = \<lambda>_. {}\<rparr>"

definition InMemory_new_cold :: InMemoryBackend where
  "InMemory_new_cold = \<lparr>im_map = \<lambda>_. [], im_is_cold = True, im_warm = \<lambda>_. {}\<rparr>"

definition im_list_with_size :: "FileType \<Rightarrow> (InMemoryBackend, (Id \<times> u32) list) io" where
  "im_list_with_size tpe s =
     (traverseR (\<lambda>(i, d). bindR (ok_or (Panic ''byte length is too large'') (u32_try_from (length d)))
        (\<lambda>n. Inr (i, n))) (im_map s tpe), s)"

abbreviation not_warm :: "FileType \<Rightarrow> Id \<Rightarrow> InMemoryBackend \<Rightarrow> bool" where
  "not_warm tpe i s \<equiv> im_is_cold s \<and> i \<notin> im_warm s tpe"

definition im_read_full :: "FileType \<Rightarrow> Id \<Rightarrow> (InMemoryBackend, bytes) io" where
  "im_read_full tpe i s =
     (if not_warm tpe i s
      then (Inl (RusticError EBackend ''tpe {tpe} id `{id}` is not warmed-up''), s)
      else (ok_or (RusticError EBackend ''Element tpe: {tpe}, id: {id} does not exist in backend'')
              (map_of (im_map s tpe) i), s))"

definition im_read_partial :: "FileType \<Rightarrow> Id \<Rightarrow> bool \<Rightarrow> u32 \<Rightarrow> u32 \<Rightarrow> (InMemoryBackend, bytes) io" where
  "im_read_partial tpe i c off len s =
     (if not_warm tpe i s
      then (Inl (RusticError EBackend ''tpe {tpe} id `{id}` is not warmed-up''), s)
      else (case map_of (im_map s tpe) i of
              None \<Rightarrow> (Inl (Panic ''no entry found for key''), s)
            | Some d \<Rightarrow>
                if off \<le> off + len \<and> unat (off + len) \<le> length d
                then (Inr (subslice (unat off) (unat (off + len)) d), s)
                else (Inl (Panic ''range out of bounds''), s)))"

definition im_warm_up :: "FileType \<Rightarrow> Id \<Rightarrow> (InMemoryBackend, unit) io" where
  "im_warm_up tpe i s =
     (Inr (), if im_is_cold s then s\<lparr>im_warm := (im_warm s)(tpe := insert i (im_warm s tpe))\<rparr> else s)"

text \<open>\<open>BTreeMap::insert\<close> replaces the value of an existing key before the error is returned.\<close>

definition im_write_bytes :: "FileType \<Rightarrow> Id \<Rightarrow> bool \<Rightarrow> BytesList \<Rightarrow> (InMemoryBackend, unit) io" where
  "im_write_bytes tpe i c content s =
     (let s' = s\<lparr>im_map := (im_map s)(tpe := bt_insert i (concat content) (im_map s tpe))\<rparr> in
      if map_of (im_map s tpe) i \<noteq> None
      then (Inl (RusticError EBackend ''ID `{id}` already exists.''), s')
      else (Inr (), s'))"

definition im_remove :: "FileType \<Rightarrow> Id \<Rightarrow> bool \<Rightarrow> (InMemoryBackend, unit) io" where
  "im_remove tpe i c s =
     (let s' = s\<lparr>im_map := (im_map s)(tpe := bt_remove i (im_map s tpe))\<rparr> in
      if map_of (im_map s tpe) i = None
      then (Inl (RusticError EBackend ''ID `{id}` does not exist.''), s')
      else (Inr (), s'))"

definition in_memory_backend :: "InMemoryBackend Backend" where
  "in_memory_backend =
     \<lparr>be_list_with_size = im_list_with_size, be_read_full = im_read_full,
      be_read_partial = im_read_partial, be_create = io_return (), be_write_bytes = im_write_bytes,
      be_remove = im_remove\<rparr>"

definition im_content :: "InMemoryBackend \<Rightarrow> FileType \<Rightarrow> bool \<Rightarrow> Id \<Rightarrow> bytes option" where
  "im_content s t c i = map_of (im_map s t) i"

definition im_inv :: "InMemoryBackend \<Rightarrow> bool" where
  "im_inv s \<longleftrightarrow> \<not> im_is_cold s"

interpretation im: backend_spec in_memory_backend im_content im_inv "\<lambda>_ _. True" "\<lambda>_. True"
proof unfold_locales
  fix s t c i d and off len :: u32
  assume inv: "im_inv s" and d: "im_content s t c i = Some d"
    and r: "unat off + unat len \<le> length d" "length d < 2 ^ 32"
  then have "unat (off + len) = unat off + unat len" by (intro unat_u32_add) simp
  with inv d r show "be_read_partial in_memory_backend t i c off len s =
      (Inr (subslice (unat off) (unat off + unat len) d), s)"
    by (simp add: in_memory_backend_def im_read_partial_def im_inv_def im_content_def word_le_nat_alt)
qed (auto simp: in_memory_backend_def im_write_bytes_def im_remove_def im_read_full_def im_inv_def
    im_content_def Let_def split: if_splits)

section \<open>Hot/cold backends\<close>

definition hc_read_full :: "'a Backend \<Rightarrow> 'b Backend \<Rightarrow> FileType \<Rightarrow> Id \<Rightarrow> ('a \<times> 'b, bytes) io" where
  "hc_read_full be hot tpe i s =
     (case be_read_full hot tpe i (snd s) of (r, h) \<Rightarrow> (r, (fst s, h)))"

definition hc_read_partial ::
    "'a Backend \<Rightarrow> 'b Backend \<Rightarrow> FileType \<Rightarrow> Id \<Rightarrow> bool \<Rightarrow> u32 \<Rightarrow> u32 \<Rightarrow> ('a \<times> 'b, bytes) io" where
  "hc_read_partial be hot tpe i c off len s =
     (if c \<or> tpe \<noteq> FPack
      then (case be_read_partial hot tpe i c off len (snd s) of (r, h) \<Rightarrow> (r, (fst s, h)))
      else (case be_read_partial be tpe i c off len (fst s) of (r, a) \<Rightarrow> (r, (a, snd s))))"

definition on_cold :: "('a, 'r) io \<Rightarrow> ('a \<times> 'b, 'r) io" where
  "on_cold m s = (case m (fst s) of (r, a) \<Rightarrow> (r, (a, snd s)))"

definition on_hot :: "('b, 'r) io \<Rightarrow> ('a \<times> 'b, 'r) io" where
  "on_hot m s = (case m (snd s) of (r, h) \<Rightarrow> (r, (fst s, h)))"

lemma on_cold_eq: "on_cold m s = (r, s') \<longleftrightarrow> m (fst s) = (r, fst s') \<and> snd s' = snd s"
  by (cases s') (auto simp: on_cold_def split: prod.splits)

lemma on_hot_eq: "on_hot m s = (r, s') \<longleftrightarrow> m (snd s) = (r, snd s') \<and> fst s' = fst s"
  by (cases s') (auto simp: on_hot_def split: prod.splits)

definition hc_create :: "'a Backend \<Rightarrow> 'b Backend \<Rightarrow> ('a \<times> 'b, unit) io" where
  "hc_create be hot = io_bind (on_cold (be_create be)) (\<lambda>_. on_hot (be_create hot))"

definition hc_write_bytes ::
    "'a Backend \<Rightarrow> 'b Backend \<Rightarrow> FileType \<Rightarrow> Id \<Rightarrow> bool \<Rightarrow> BytesList \<Rightarrow> ('a \<times> 'b, unit) io" where
  "hc_write_bytes be hot tpe i c buf =
     io_bind (if tpe \<noteq> FConfig \<and> (c \<or> tpe \<noteq> FPack)
              then on_hot (be_write_bytes hot tpe i c buf) else io_return ())
       (\<lambda>_. on_cold (be_write_bytes be tpe i c buf))"

definition hc_remove ::
    "'a Backend \<Rightarrow> 'b Backend \<Rightarrow> FileType \<Rightarrow> Id \<Rightarrow> bool \<Rightarrow> ('a \<times> 'b, unit) io" where
  "hc_remove be hot tpe i c =
     io_bind (on_cold (be_remove be tpe i c)) (\<lambda>_.
       if c \<or> tpe \<noteq> FPack then on_hot (be_remove hot tpe i c) else io_return ())"

definition hot_cold_backend :: "'a Backend \<Rightarrow> 'b Backend \<Rightarrow> ('a \<times> 'b) Backend" where
  "hot_cold_backend be hot =
     \<lparr>be_list_with_size = (\<lambda>tpe. on_cold (be_list_with_size be tpe)),
      be_read_full = hc_read_full be hot, be_read_partial = hc_read_partial be hot,
      be_create = hc_create be hot, be_write_bytes = hc_write_bytes be hot,
      be_remove = hc_remove be hot\<rparr>"

text \<open>Data packs live in the cold part only; everything else is read from the hot part. A
  configuration file is written to the cold part and read from the hot part, where
  \<open>save_config_hot\<close> puts its own copy, so the contract does not cover its content.\<close>

definition hc_content ::
    "('a \<Rightarrow> FileType \<Rightarrow> bool \<Rightarrow> Id \<Rightarrow> bytes option) \<Rightarrow> ('b \<Rightarrow> FileType \<Rightarrow> bool \<Rightarrow> Id \<Rightarrow> bytes option)
     \<Rightarrow> 'a \<times> 'b \<Rightarrow> FileType \<Rightarrow> bool \<Rightarrow> Id \<Rightarrow> bytes option" where
  "hc_content cc hc s t c i = (if t = FPack \<and> \<not> c then cc (fst s) t c i else hc (snd s) t c i)"

locale hot_cold =
  cold: backend_spec be ccontent cinv cfull cvis + hot: backend_spec be_hot hcontent hinv hfull hvis
  for be :: "'a Backend" and ccontent cinv cfull cvis
    and be_hot :: "'b Backend" and hcontent hinv hfull hvis
begin

lemmas hc_defs = hot_cold_backend_def hc_write_bytes_def hc_remove_def hc_read_full_def
  hc_read_partial_def on_cold_eq on_hot_eq io_bind_eq_Inr

sublocale hc: backend_spec "hot_cold_backend be be_hot" "hc_content ccontent hcontent"
  "\<lambda>s. cinv (fst s) \<and> hinv (snd s)" "\<lambda>t c. hfull t c \<and> (t = FPack \<longrightarrow> c)"
  "\<lambda>t. cvis t \<and> hvis t \<and> t \<noteq> FConfig"
proof unfold_locales
  fix s s' :: "'a \<times> 'b" and t t' :: FileType and i i' :: Id and c c' :: bool and b :: BytesList
  assume w: "be_write_bytes (hot_cold_backend be be_hot) t i c b s = (Inr (), s')"
    and inv: "cinv (fst s) \<and> hinv (snd s)"
  from w obtain h where cw: "be_write_bytes be t i c b (fst s) = (Inr (), fst s')"
    and hs: "snd s' = h"
    and hw: "if t \<noteq> FConfig \<and> (c \<or> t \<noteq> FPack)
             then be_write_bytes be_hot t i c b (snd s) = (Inr (), h) else h = snd s"
    by (auto simp: hc_defs split: if_splits)
  show "cinv (fst s') \<and> hinv (snd s')"
    using inv cw hw hs cold.write_inv hot.write_inv by (metis (full_types))
  show "cvis t \<and> hvis t \<and> t \<noteq> FConfig \<Longrightarrow> hc_content ccontent hcontent s' t c i = Some (concat b)"
    using inv cw hw hs cold.write_content hot.write_content by (auto simp: hc_content_def)
  assume "(t', i') \<noteq> (t, i)"
  then show "hc_content ccontent hcontent s' t' c' i' = hc_content ccontent hcontent s t' c' i'"
    using inv cw hw hs cold.write_frame hot.write_frame unfolding hc_content_def
    by (metis (full_types))
next
  fix s s' :: "'a \<times> 'b" and t t' :: FileType and i i' :: Id and c c' :: bool
  assume w: "be_remove (hot_cold_backend be be_hot) t i c s = (Inr (), s')"
    and inv: "cinv (fst s) \<and> hinv (snd s)"
  from w obtain h where cw: "be_remove be t i c (fst s) = (Inr (), fst s')"
    and hs: "snd s' = h"
    and hw: "if c \<or> t \<noteq> FPack then be_remove be_hot t i c (snd s) = (Inr (), h) else h = snd s"
    by (auto simp: hc_defs split: if_splits)
  show "cinv (fst s') \<and> hinv (snd s')"
    using inv cw hw hs cold.remove_inv hot.remove_inv by (metis (full_types))
  show "cvis t \<and> hvis t \<and> t \<noteq> FConfig \<Longrightarrow> hc_content ccontent hcontent s' t c i = None"
    using inv cw hw hs cold.remove_content hot.remove_content by (auto simp: hc_content_def)
  assume "(t', i') \<noteq> (t, i)"
  then show "hc_content ccontent hcontent s' t' c' i' = hc_content ccontent hcontent s t' c' i'"
    using inv cw hw hs cold.remove_frame hot.remove_frame unfolding hc_content_def
    by (metis (full_types))
qed (auto simp: hc_defs hc_content_def cold.read_partial_content hot.read_partial_content
    hot.read_full_content split: if_splits)

end

interpretation im_hc: hot_cold in_memory_backend im_content im_inv "\<lambda>_ _. True" "\<lambda>_. True"
  in_memory_backend im_content im_inv "\<lambda>_ _. True" "\<lambda>_. True"
  by unfold_locales

section \<open>Dry runs\<close>

definition dry_run_backend :: "'s Backend \<Rightarrow> bool \<Rightarrow> 's Backend" where
  "dry_run_backend be dry_run =
     \<lparr>be_list_with_size = be_list_with_size be, be_read_full = be_read_full be,
      be_read_partial = be_read_partial be,
      be_create = (if dry_run then io_return () else be_create be),
      be_write_bytes = (\<lambda>tpe i c content. if dry_run then io_return () else be_write_bytes be tpe i c content),
      be_remove = (\<lambda>tpe i c. if dry_run then io_return () else be_remove be tpe i c)\<rparr>"

lemma dry_run_off: "dry_run_backend be False = be"
  by (simp add: dry_run_backend_def)

lemma dry_run_keeps_state:
  "be_create (dry_run_backend be True) s = (Inr (), s)"
  "be_write_bytes (dry_run_backend be True) tpe i c b s = (Inr (), s)"
  "be_remove (dry_run_backend be True) tpe i c s = (Inr (), s)"
  by (simp_all add: dry_run_backend_def)

section \<open>Properties\<close>

text \<open>C25. A hot/cold repository behaves as one store: after a successful write of a file that is not
  the configuration, reading any range of it with the same \<open>cacheable\<close> flag returns the bytes
  written, and what partial reads see of every other file is unchanged. In particular data packs are
  read from the cold part and all others from the hot part, consistently.\<close>

theorem hot_cold_write_read:
  assumes "\<not> im_is_cold cold" "\<not> im_is_cold hot" "tpe \<noteq> FConfig"
    and "be_write_bytes (hot_cold_backend in_memory_backend in_memory_backend) tpe i c b (cold, hot) = (Inr (), s')"
    and "unat off + unat len \<le> length (concat b)" "length (concat b) < 2 ^ 32"
  shows "be_read_partial (hot_cold_backend in_memory_backend in_memory_backend) tpe i c off len s' =
      (Inr (subslice (unat off) (unat off + unat len) (concat b)), s') \<and>
    ((tpe', i') \<noteq> (tpe, i) \<longrightarrow>
      hc_content im_content im_content s' tpe' c' i' = hc_content im_content im_content (cold, hot) tpe' c' i')"
proof -
  have inv: "im_inv (fst (cold, hot)) \<and> im_inv (snd (cold, hot))" using assms(1,2) by (simp add: im_inv_def)
  show ?thesis
    using im_hc.hc.read_partial_content [OF im_hc.hc.write_inv [OF inv assms(4)]
        im_hc.hc.write_content [OF inv _ assms(4)] assms(5,6)]
      im_hc.hc.write_frame [OF inv assms(4)] assms(3) by blast
qed

theorem hot_cold_write_read_witness:
  "\<exists>s'. be_write_bytes (hot_cold_backend in_memory_backend in_memory_backend) FPack [1] False [[4, 5], [6]]
       (InMemory_new, InMemory_new) = (Inr (), s') \<and>
     be_read_partial (hot_cold_backend in_memory_backend in_memory_backend) FPack [1] False 1 2 s' = (Inr [5, 6], s')"
proof -
  obtain s' where w: "be_write_bytes (hot_cold_backend in_memory_backend in_memory_backend) FPack [1] False
      [[4, 5], [6]] (InMemory_new, InMemory_new) = (Inr (), s')"
    by (simp add: hot_cold_backend_def hc_write_bytes_def on_cold_def io_bind_def io_return_def
        in_memory_backend_def im_write_bytes_def InMemory_new_def Let_def)
  have "\<not> im_is_cold InMemory_new" by (simp add: InMemory_new_def)
  from hot_cold_write_read [OF this this _ w, of 1 2] w show ?thesis by (auto simp: subslice_def)
qed

end
