(* ===== verification/Packer.thy ===== *)
theory Packer
  imports Crypto Config Indexer Backend
begin

text \<open>
  Packing (\<open>crates/core/src/blob/packer.rs\<close>): the pack sizer, the packer without I/O
  (\<open>BasicPacker\<close>), the packer that encrypts headers and hands finished packs to the file writer
  (\<open>RawPacker\<close>), the file writer (\<open>FileWriterHandle\<close>, \<open>Actor\<close>), the filters in front of the raw
  packer (\<open>Packer\<close>) and the copier (\<open>BlobCopier\<close>). Clock readings, nonces and the integer square
  root of the crate \<open>integer_sqrt\<close> are arguments. The main invariant \<open>bp_inv\<close> ties the bytes in
  memory to the index entries; a pack that is saved from such a state is read back by
  \<open>PackHeader::from_file\<close> with exactly these entries.
\<close>

section \<open>Pack sizes\<close>

definition PACKER_MAX_SIZE :: u32 where
  "PACKER_MAX_SIZE = 4076 * (1024 * 1024)"

definition PACKER_MAX_COUNT :: u32 where
  "PACKER_MAX_COUNT = 10000"

definition PACKER_MAX_AGE :: nat where
  "PACKER_MAX_AGE = 300"

record PackSizer =
  ps_default_size :: u32
  ps_grow_factor :: u32
  ps_size_limit :: u32
  ps_current_size :: u64
  ps_min_percent :: u32
  ps_max_percent :: u32

definition PackSizer_from_config :: "ConfigFile \<Rightarrow> BlobType \<Rightarrow> u64 \<Rightarrow> PackSizer" where
  "PackSizer_from_config config blob_type current_size =
     (let (default_size, grow_factor, size_limit) = packsize config blob_type;
          (min_percent, max_percent) = packsize_ok_percents config
      in \<lparr>ps_default_size = default_size, ps_grow_factor = grow_factor, ps_size_limit = size_limit,
          ps_current_size = current_size, ps_min_percent = min_percent, ps_max_percent = max_percent\<rparr>)"

definition PackSizer_fixed :: "u32 \<Rightarrow> PackSizer" where
  "PackSizer_fixed sz =
     \<lparr>ps_default_size = sz, ps_grow_factor = 0, ps_size_limit = sz, ps_current_size = 0,
      ps_min_percent = 100, ps_max_percent = 100\<rparr>"

definition ps_pack_size :: "(u64 \<Rightarrow> u64) \<Rightarrow> PackSizer \<Rightarrow> u32" where
  "ps_pack_size isqrt ps =
     (let sz = (if ps_grow_factor ps = 0 then ps_default_size ps
                else ucast (isqrt (ps_current_size ps)) * ps_grow_factor ps + ps_default_size ps)
      in min (min sz (ps_size_limit ps)) PACKER_MAX_SIZE)"

definition is_too_small :: "(u64 \<Rightarrow> u64) \<Rightarrow> PackSizer \<Rightarrow> u32 \<Rightarrow> bool" where
  "is_too_small isqrt ps sz \<longleftrightarrow>
     (ucast sz :: u64) * 100 < ucast (ps_pack_size isqrt ps) * ucast (ps_min_percent ps)"

definition is_too_large :: "(u64 \<Rightarrow> u64) \<Rightarrow> PackSizer \<Rightarrow> u32 \<Rightarrow> bool" where
  "is_too_large isqrt ps sz \<longleftrightarrow>
     (ucast sz :: u64) * 100 > ucast (ps_pack_size isqrt ps) * ucast (ps_max_percent ps)"

definition size_ok :: "(u64 \<Rightarrow> u64) \<Rightarrow> PackSizer \<Rightarrow> u32 \<Rightarrow> bool" where
  "size_ok isqrt ps sz \<longleftrightarrow> \<not> is_too_small isqrt ps sz \<and> \<not> is_too_large isqrt ps sz"

definition ps_add_size :: "u32 \<Rightarrow> PackSizer \<Rightarrow> PackSizer" where
  "ps_add_size added ps = ps\<lparr>ps_current_size := ps_current_size ps + ucast added\<rparr>"

section \<open>Statistics\<close>

record PackerStats =
  pst_blobs :: u64
  pst_data :: u64
  pst_data_packed :: u64

definition PackerStats_default :: PackerStats where
  "PackerStats_default = \<lparr>pst_blobs = 0, pst_data = 0, pst_data_packed = 0\<rparr>"

section \<open>The basic packer\<close>

record BasicPacker =
  bp_blob_type :: BlobType
  bp_file :: BytesList
  bp_size :: u32
  bp_count :: u32
  bp_created :: Timestamp
  bp_index :: IndexPack
  bp_pack_sizer :: PackSizer
  bp_stats :: PackerStats

definition BasicPacker_new :: "Timestamp \<Rightarrow> BlobType \<Rightarrow> PackSizer \<Rightarrow> BasicPacker" where
  "BasicPacker_new now blob_type sizer =
     \<lparr>bp_blob_type = blob_type, bp_file = [], bp_size = 0, bp_count = 0, bp_created = now,
      bp_index = IndexPack_default, bp_pack_sizer = sizer, bp_stats = PackerStats_default\<rparr>"

definition bp_is_empty :: "BasicPacker \<Rightarrow> bool" where
  "bp_is_empty bp \<longleftrightarrow> bp_count bp = 0"

definition bp_has :: "BlobId \<Rightarrow> BasicPacker \<Rightarrow> bool" where
  "bp_has bid bp \<longleftrightarrow> (\<exists>b \<in> set (ip_blobs (bp_index bp)). ib_id b = bid)"

definition bp_write_data :: "bytes \<Rightarrow> BasicPacker \<Rightarrow> (u32 \<times> BasicPacker) rustic_result" where
  "bp_write_data data bp =
     bindR (ok_or (RusticError EInternal ''Conversion from usize to u32 failed'')
              (u32_try_from (length data))) (\<lambda>len.
       Inr (len, bp\<lparr>bp_file := BytesList_add data (bp_file bp), bp_size := bp_size bp + len\<rparr>))"

definition bp_add_raw ::
    "bytes \<Rightarrow> BlobId \<Rightarrow> u64 \<Rightarrow> u32 option \<Rightarrow> BasicPacker \<Rightarrow> BasicPacker rustic_result" where
  "bp_add_raw data bid data_len ulen bp =
     (if bp_has bid bp then Inr bp
      else
        let st = bp_stats bp;
            st = st\<lparr>pst_blobs := pst_blobs st + 1\<rparr>;
            st = st\<lparr>pst_data := pst_data st + data_len\<rparr>
        in bindR (ok_or (RusticError EInternal ''Failed to convert data length `{length}` to u64.'')
                   (u64_try_from (length data))) (\<lambda>data_len_packed.
           let st = st\<lparr>pst_data_packed := pst_data_packed st + data_len_packed\<rparr>;
               offset = bp_size bp
           in bindR (bp_write_data data (bp\<lparr>bp_stats := st\<rparr>)) (\<lambda>(len, bp).
              Inr (bp\<lparr>bp_index := IndexPack_add bid (bp_blob_type bp) offset len ulen (bp_index bp),
                      bp_count := bp_count bp + 1\<rparr>))))"

definition bp_should_save :: "(u64 \<Rightarrow> u64) \<Rightarrow> nat \<Rightarrow> BasicPacker \<Rightarrow> bool" where
  "bp_should_save isqrt elapsed bp \<longleftrightarrow>
     bp_count bp \<ge> PACKER_MAX_COUNT \<or> bp_size bp \<ge> ps_pack_size isqrt (bp_pack_sizer bp) \<or>
     elapsed \<ge> PACKER_MAX_AGE"

definition bp_header_bytes :: "BasicPacker \<Rightarrow> bytes" where
  "bp_header_bytes bp = PackHeader_to_binary (ip_blobs (bp_index bp))"

definition bp_write_header :: "bytes \<Rightarrow> BasicPacker \<Rightarrow> BasicPacker rustic_result" where
  "bp_write_header header bp =
     bindR (ok_or (RusticError EInternal ''Failed to convert header length `{length}` to u32.'')
              (u32_try_from (length header))) (\<lambda>headerlen.
     bindR (bp_write_data header bp) (\<lambda>(_, bp).
     bindR (bp_write_data (PackHeaderLength_to_binary headerlen) bp) (\<lambda>(_, bp).
     Inr bp)))"

definition bp_take_data :: "Timestamp \<Rightarrow> BasicPacker \<Rightarrow> (BytesList \<times> IndexPack) \<times> BasicPacker" where
  "bp_take_data now bp =
     ((bp_file bp, bp_index bp),
      bp\<lparr>bp_size := 0, bp_pack_sizer := ps_add_size (ip_pack_size (bp_index bp)) (bp_pack_sizer bp),
         bp_count := 0, bp_created := now, bp_file := [], bp_index := IndexPack_default\<rparr>)"

definition bp_take_stats :: "BasicPacker \<Rightarrow> PackerStats \<times> BasicPacker" where
  "bp_take_stats bp = (bp_stats bp, bp\<lparr>bp_stats := PackerStats_default\<rparr>)"

section \<open>The raw packer\<close>

text \<open>\<open>rp_sent\<close> holds the packs sent to the file writer, oldest first; it is \<open>None\<close> once the writer
  was taken.\<close>

record RawPacker =
  rp_basic :: BasicPacker
  rp_key :: Key
  rp_sent :: "(BytesList \<times> IndexPack) list option"

definition RawPacker_new :: "Timestamp \<Rightarrow> Key \<Rightarrow> BlobType \<Rightarrow> PackSizer \<Rightarrow> RawPacker" where
  "RawPacker_new now key blob_type sizer =
     \<lparr>rp_basic = BasicPacker_new now blob_type sizer, rp_key = key, rp_sent = Some []\<rparr>"

definition rp_save :: "prims \<Rightarrow> bytes \<Rightarrow> Timestamp \<Rightarrow> RawPacker \<Rightarrow> RawPacker rustic_result" where
  "rp_save p nonce now rp =
     bindR (Key_encrypt_data p (rp_key rp) nonce (bp_header_bytes (rp_basic rp))) (\<lambda>data.
     bindR (bp_write_header data (rp_basic rp)) (\<lambda>bp.
     let (load, bp) = bp_take_data now bp in
     case rp_sent rp of
       None \<Rightarrow> Inl (Panic ''called `Option::unwrap()` on a `None` value'')
     | Some sent \<Rightarrow> Inr (rp\<lparr>rp_basic := bp, rp_sent := Some (sent @ [load])\<rparr>)))"

definition rp_add_raw ::
    "prims \<Rightarrow> (u64 \<Rightarrow> u64) \<Rightarrow> bytes \<Rightarrow> nat \<Rightarrow> Timestamp
     \<Rightarrow> bytes \<Rightarrow> BlobId \<Rightarrow> u64 \<Rightarrow> u32 option \<Rightarrow> RawPacker \<Rightarrow> RawPacker rustic_result" where
  "rp_add_raw p isqrt nonce elapsed now data bid data_len ulen rp =
     bindR (bp_add_raw data bid data_len ulen (rp_basic rp)) (\<lambda>bp.
     let rp = rp\<lparr>rp_basic := bp\<rparr> in
     if bp_should_save isqrt elapsed bp then rp_save p nonce now rp else Inr rp)"

text \<open>\<open>finalize\<close> returns the loads the writer received, the statistics and the packer.\<close>

definition rp_finalize ::
    "prims \<Rightarrow> bytes \<Rightarrow> Timestamp \<Rightarrow> RawPacker
     \<Rightarrow> ((BytesList \<times> IndexPack) list \<times> PackerStats \<times> RawPacker) rustic_result" where
  "rp_finalize p nonce now rp =
     bindR (if \<not> bp_is_empty (rp_basic rp) then rp_save p nonce now rp else Inr rp) (\<lambda>rp.
     case rp_sent rp of
       None \<Rightarrow> Inl (Panic ''called `Option::unwrap()` on a `None` value'')
     | Some sent \<Rightarrow>
         let (stats, bp) = bp_take_stats (rp_basic rp) in
         Inr (sent, stats, rp\<lparr>rp_sent := None, rp_basic := bp\<rparr>))"

definition rp_has :: "BlobId \<Rightarrow> RawPacker \<Rightarrow> bool" where
  "rp_has bid rp = bp_has bid (rp_basic rp)"

section \<open>The file writer\<close>

definition fwh_process ::
    "'s Backend \<Rightarrow> bool \<Rightarrow> Timestamp \<Rightarrow> BytesList \<times> PackId \<times> IndexPack \<Rightarrow> ('s, IndexPack) io" where
  "fwh_process be cacheable now load =
     (case load of (file, pid, index) \<Rightarrow>
        io_bind (be_write_bytes be FPack pid cacheable file) (\<lambda>_.
          io_return (index\<lparr>ip_id := pid, ip_time := Some now\<rparr>)))"

text \<open>One load through the actor's pipeline: hash, write, index. \<open>save_file\<close> saves index files to the
  same backend.\<close>

definition actor_load ::
    "prims \<Rightarrow> 's Backend \<Rightarrow> bool \<Rightarrow> (IndexFile \<Rightarrow> ('s, Id) io) \<Rightarrow> nat \<times> Timestamp
     \<Rightarrow> BytesList \<times> IndexPack \<Rightarrow> Indexer \<Rightarrow> ('s, Indexer) io" where
  "actor_load p be cacheable save_file clock load ix =
     (case (clock, load) of ((elapsed, now), (file, index)) \<Rightarrow>
        io_bind (fwh_process be cacheable now (file, p_sha256 p (concat file), index)) (\<lambda>index s.
          case Indexer_add (\<lambda>f s. case save_file f s of (Inl e, _) \<Rightarrow> Inl e | (Inr i, s') \<Rightarrow> Inr (i, s'))
                 elapsed now index ix s of
            Inl e \<Rightarrow> (Inl e, s)
          | Inr (ix', s') \<Rightarrow> (Inr ix', s')))"

section \<open>The filters in front of the raw packer\<close>

text \<open>One blob through the pipeline of \<open>Packer::new\<close>. Other threads move the indexer and the raw
  packer on between the stages, so each check reads its own snapshot.\<close>

definition packer_filter ::
    "prims \<Rightarrow> DecryptBackend \<Rightarrow> bytes \<Rightarrow> (BlobId \<Rightarrow> bool) \<Rightarrow> (BlobId \<Rightarrow> bool) \<Rightarrow> (BlobId \<Rightarrow> bool)
     \<Rightarrow> bytes \<times> BlobId \<Rightarrow> (bytes \<times> BlobId \<times> u64 \<times> u32 option) option rustic_result" where
  "packer_filter p b nonce indexed1 packed indexed2 item =
     (case item of (data, bid) \<Rightarrow>
        if indexed1 bid then Inr None
        else if packed bid then Inr None
        else bindR (process_data p b nonce data) (\<lambda>(e, data_len, ul).
               if indexed2 bid then Inr None else Inr (Some (e, bid, ucast data_len, ul))))"

definition Packer_add_raw ::
    "prims \<Rightarrow> (u64 \<Rightarrow> u64) \<Rightarrow> bytes \<Rightarrow> nat \<Rightarrow> Timestamp \<Rightarrow> (BlobId \<Rightarrow> bool)
     \<Rightarrow> bytes \<Rightarrow> BlobId \<Rightarrow> u64 \<Rightarrow> u32 option \<Rightarrow> RawPacker \<Rightarrow> RawPacker rustic_result" where
  "Packer_add_raw p isqrt nonce elapsed now indexed data bid data_len ulen rp =
     (if indexed bid then Inr rp
      else rp_add_raw p isqrt nonce elapsed now data bid data_len ulen rp)"

section \<open>Copying blobs\<close>

record CopyPackBlobs =
  cpb_pack_id :: PackId
  cpb_locations :: "BlobId BlobLocations"

definition CopyPackBlobs_coalesce ::
    "CopyPackBlobs \<Rightarrow> CopyPackBlobs \<Rightarrow> (CopyPackBlobs \<times> CopyPackBlobs) + CopyPackBlobs" where
  "CopyPackBlobs_coalesce x y =
     (if cpb_pack_id x = cpb_pack_id y \<and> can_coalesce (cpb_locations x) (cpb_locations y)
      then Inr \<lparr>cpb_pack_id = cpb_pack_id x, cpb_locations = bls_append (cpb_locations x) (cpb_locations y)\<rparr>
      else Inl (x, y))"

text \<open>The slice \<open>data[start..end]\<close> of a blob inside the bytes of its run; an index out of range panics.\<close>

definition copy_slice :: "u32 \<Rightarrow> bytes \<Rightarrow> BlobLocation \<Rightarrow> bytes rustic_result" where
  "copy_slice offset data blob =
     (let start = unat (bl_offset blob - offset);
          stop = unat (bl_offset blob + bl_length blob - offset)
      in if start \<le> stop \<and> stop \<le> length data then Inr (subslice start stop data)
         else Inl (Panic ''range out of bounds''))"

definition copy_fast ::
    "(FileType \<Rightarrow> Id \<Rightarrow> bool \<Rightarrow> u32 \<Rightarrow> u32 \<Rightarrow> bytes rustic_result)
     \<Rightarrow> BlobType \<Rightarrow> (bytes \<Rightarrow> BlobId \<Rightarrow> u64 \<Rightarrow> u32 option \<Rightarrow> 'r \<Rightarrow> 'r rustic_result)
     \<Rightarrow> CopyPackBlobs \<Rightarrow> 'r \<Rightarrow> 'r rustic_result" where
  "copy_fast read_partial tpe add_raw pb rp =
     (let offset = bls_offset (cpb_locations pb) in
      bindR (read_partial FPack (cpb_pack_id pb) (is_cacheable tpe) offset (bls_length (cpb_locations pb)))
        (\<lambda>data.
          foldR (\<lambda>(blob, bid) rp.
            bindR (copy_slice offset data blob) (\<lambda>d.
              map_err (\<lambda>_. RusticError EInternal ''Failed to fast-add (unchecked) blob `{blob_id}` to packfile.'')
                (add_raw d bid (ucast (bl_length blob)) (bl_uncompressed_length blob) rp)))
          (bls_blobs (cpb_locations pb)) rp))"

definition copy_blobs ::
    "prims \<Rightarrow> DecryptBackend \<Rightarrow> (FileType \<Rightarrow> Id \<Rightarrow> bool \<Rightarrow> u32 \<Rightarrow> u32 \<Rightarrow> bytes rustic_result)
     \<Rightarrow> BlobType \<Rightarrow> (bytes \<Rightarrow> BlobId \<Rightarrow> 'r \<Rightarrow> 'r rustic_result)
     \<Rightarrow> CopyPackBlobs \<Rightarrow> 'r \<Rightarrow> 'r rustic_result" where
  "copy_blobs p b read_partial tpe add pb rp =
     (let offset = bls_offset (cpb_locations pb) in
      bindR (read_partial FPack (cpb_pack_id pb) (is_cacheable tpe) offset (bls_length (cpb_locations pb)))
        (\<lambda>read_data.
          foldR (\<lambda>(blob, bid) rp.
            bindR (copy_slice offset read_data blob) (\<lambda>d.
            bindR (read_encrypted_from_partial p b d (bl_uncompressed_length blob)) (\<lambda>data.
              map_err (\<lambda>_. RusticError EInternal ''Failed to add blob to packfile.'') (add data bid rp))))
          (bls_blobs (cpb_locations pb)) rp))"

section \<open>The invariant of the basic packer\<close>

abbreviation bp_blobs :: "BasicPacker \<Rightarrow> IndexBlob list" where
  "bp_blobs bp \<equiv> ip_blobs (bp_index bp)"

definition bp_inv :: "BasicPacker \<Rightarrow> bool" where
  "bp_inv bp \<longleftrightarrow>
     unat (bp_size bp) = length (concat (bp_file bp)) \<and>
     length (concat (bp_file bp)) = sum_list (map blob_nat (bp_blobs bp)) \<and>
     contiguous 0 (bp_blobs bp) \<and>
     (\<forall>b \<in> set (bp_blobs bp). wf_blob b \<and> ib_tpe b = bp_blob_type bp) \<and>
     distinct (map ib_id (bp_blobs bp)) \<and> ip_size (bp_index bp) = None \<and>
     unat (bp_count bp) = length (bp_blobs bp)"

lemma bp_inv_new: "bp_inv (BasicPacker_new now t sizer)"
  by (simp add: bp_inv_def BasicPacker_new_def IndexPack_default_def)

definition new_blob :: "BasicPacker \<Rightarrow> bytes \<Rightarrow> BlobId \<Rightarrow> u32 option \<Rightarrow> IndexBlob" where
  "new_blob bp data bid ulen =
     \<lparr>ib_id = bid, ib_tpe = bp_blob_type bp,
      ib_location = \<lparr>bl_offset = bp_size bp, bl_length = of_nat (length data),
                     bl_uncompressed_length = ulen\<rparr>\<rparr>"

text \<open>What an accepted blob changes.\<close>

lemma bp_add_raw_new:
  assumes "bp_add_raw data bid data_len ulen bp = Inr bp'" and "\<not> bp_has bid bp"
  shows "length data < 2 ^ 32" and "bp_file bp' = bp_file bp @ [data]"
    and "bp_size bp' = bp_size bp + of_nat (length data)"
    and "bp_index bp' = (bp_index bp)\<lparr>ip_blobs := bp_blobs bp @ [new_blob bp data bid ulen]\<rparr>"
    and "bp_count bp' = bp_count bp + 1" and "bp_blob_type bp' = bp_blob_type bp"
  using assms
  by (auto simp: bp_add_raw_def bp_write_data_def result_simps Let_def IndexPack_add_def new_blob_def
      BytesList_add_def u32_try_from_def split: if_splits)

lemma bp_add_raw_old:
  assumes "bp_add_raw data bid data_len ulen bp = Inr bp'" and "bp_has bid bp"
  shows "bp' = bp"
  using assms by (simp add: bp_add_raw_def)

lemma sum_list_blob_length:
  "sum_list (map (\<lambda>b. bl_length (ib_location b)) bs) = of_nat (sum_list (map blob_nat bs))"
  by (induction bs) (simp_all add: blob_nat_def)

lemma bp_add_raw_inv:
  assumes inv: "bp_inv bp" and add: "bp_add_raw data bid data_len ulen bp = Inr bp'"
    and bid: "wf_id bid" and ul: "ulen \<noteq> Some 0"
    and room: "length (concat (bp_file bp)) + length data < 2 ^ 32" "Suc (length (bp_blobs bp)) < 2 ^ 32"
  shows "bp_inv bp'"
proof (cases "bp_has bid bp")
  case True
  then show ?thesis using bp_add_raw_old [OF add] inv by simp
next
  case False
  note n = bp_add_raw_new [OF add False]
  have len: "unat (of_nat (length data) :: u32) = length data"
    using n(1) by (rule unat_u32_of_nat)
  have sz: "unat (bp_size bp) = length (concat (bp_file bp))"
    and sum: "length (concat (bp_file bp)) = sum_list (map blob_nat (bp_blobs bp))"
    and cont: "contiguous 0 (bp_blobs bp)"
    using inv by (simp_all add: bp_inv_def)
  have bn: "blob_nat (new_blob bp data bid ulen) = length data"
    by (simp add: blob_nat_def new_blob_def len)
  have "bp_size bp = sum_list (map (\<lambda>b. bl_length (ib_location b)) (bp_blobs bp))"
    unfolding sum_list_blob_length sum [symmetric] sz [symmetric] by simp
  then have "contiguous 0 (bp_blobs bp @ [new_blob bp data bid ulen])"
    using cont by (simp add: contiguous_append new_blob_def)
  moreover have "unat (bp_size bp') = length (concat (bp_file bp'))"
    using n(2,3) sz len room by (simp add: unat_u32_add)
  moreover have "wf_blob (new_blob bp data bid ulen)"
    using bid ul by (simp add: wf_blob_def new_blob_def wf_location_def)
  moreover have "distinct (map ib_id (bp_blobs bp @ [new_blob bp data bid ulen]))"
    using inv False by (auto simp: bp_inv_def bp_has_def new_blob_def)
  moreover have "unat (bp_count bp') = length (bp_blobs bp')"
    using inv n(4,5) room(2) unat_u32_add [of "bp_count bp" 1] by (simp add: bp_inv_def)
  ultimately show ?thesis
    using inv n bn sum unfolding bp_inv_def by (simp add: new_blob_def)
qed


text \<open>A blob is stored under an id when the bytes at its location are the given ones.\<close>

definition stored_at :: "bytes \<Rightarrow> IndexBlob list \<Rightarrow> BlobId \<Rightarrow> bytes \<Rightarrow> u32 option \<Rightarrow> bool" where
  "stored_at file blobs bid data ulen \<longleftrightarrow>
     (\<exists>b \<in> set blobs. ib_id b = bid \<and> bl_uncompressed_length (ib_location b) = ulen \<and>
        unat (bl_offset (ib_location b)) + blob_nat b \<le> length file \<and>
        subslice (unat (bl_offset (ib_location b)))
          (unat (bl_offset (ib_location b)) + blob_nat b) file = data)"

lemma stored_at_mono:
  "stored_at file blobs bid data ulen \<Longrightarrow> set blobs \<subseteq> set blobs' \<Longrightarrow>
   stored_at (file @ tail) blobs' bid data ulen"
  by (fastforce simp: stored_at_def subslice_append_left)

lemma bp_add_raw_stored:
  assumes "bp_inv bp" and "bp_add_raw data bid data_len ulen bp = Inr bp'" and "\<not> bp_has bid bp"
  shows "stored_at (concat (bp_file bp')) (bp_blobs bp') bid data ulen"
proof -
  note n = bp_add_raw_new [OF assms(2,3)]
  have "unat (bp_size bp) = length (concat (bp_file bp))" using assms(1) by (simp add: bp_inv_def)
  moreover have "blob_nat (new_blob bp data bid ulen) = length data"
    using n(1) by (simp add: blob_nat_def new_blob_def unat_u32_of_nat)
  ultimately show ?thesis
    using n(2,4) by (auto simp: stored_at_def new_blob_def subslice_def)
qed

lemma bp_add_raw_keeps_stored:
  assumes "bp_add_raw data bid data_len ulen bp = Inr bp'"
    and "stored_at (concat (bp_file bp)) (bp_blobs bp) i d u"
  shows "stored_at (concat (bp_file bp')) (bp_blobs bp') i d u"
proof (cases "bp_has bid bp")
  case False
  note n = bp_add_raw_new [OF assms(1) False]
  show ?thesis using stored_at_mono [OF assms(2), of "bp_blobs bp'" data] n(2,4) by auto
qed (use bp_add_raw_old [OF assms(1)] assms(2) in simp)

lemma bp_has_stored:
  "stored_at file (bp_blobs bp) bid d u \<Longrightarrow> bp_has bid bp"
  by (auto simp: stored_at_def bp_has_def)

section \<open>Finished packs\<close>

text \<open>A load for the file writer whose bytes are the blobs, the encrypted header and its length.\<close>

definition good_pack :: "prims \<Rightarrow> Key \<Rightarrow> BytesList \<times> IndexPack \<Rightarrow> bool" where
  "good_pack p k load \<longleftrightarrow>
     (\<exists>body hdr. concat (fst load) = pack_bytes body hdr \<and>
        length (concat (fst load)) < 2 ^ 32 \<and>
        Key_decrypt_data p k hdr = Inr (PackHeader_to_binary (ip_blobs (snd load))) \<and>
        length hdr = length (PackHeader_to_binary (ip_blobs (snd load))) + 32 \<and>
        (\<forall>b \<in> set (ip_blobs (snd load)). wf_blob b) \<and> contiguous 0 (ip_blobs (snd load)) \<and>
        length body = sum_list (map blob_nat (ip_blobs (snd load))) \<and> ip_size (snd load) = None)"

lemma good_pack_size:
  assumes "good_pack p k load"
  shows "unat (ip_pack_size (snd load)) = length (concat (fst load))"
proof -
  obtain body hdr where c: "concat (fst load) = pack_bytes body hdr"
    and l: "length (concat (fst load)) < 2 ^ 32"
    and h: "length hdr = length (PackHeader_to_binary (ip_blobs (snd load))) + 32"
    and w: "\<forall>b \<in> set (ip_blobs (snd load)). wf_blob b"
    and b: "length body = sum_list (map blob_nat (ip_blobs (snd load)))"
    and s: "ip_size (snd load) = None"
    using assms by (auto simp: good_pack_def)
  have len: "length (concat (fst load)) = 36 + sum_list (map blob_nat (ip_blobs (snd load)))
      + sum_list (map entry_nat (ip_blobs (snd load)))"
    using c h b length_PackHeader_to_binary [OF w] by (simp add: length_pack_bytes)
  with l show ?thesis by (simp add: ip_pack_size_def s unat_header_pack_size)
qed

lemma good_pack_from_file:
  assumes "good_pack p k load" and "reads_file rp pid (concat (fst load))"
    and "unat (case hint of None \<Rightarrow> 0 | Some n \<Rightarrow> n) + 4 \<le> length (concat (fst load))"
  shows "PackHeader_from_file eofp rp (Key_decrypt_data p k) pid hint (ip_pack_size (snd load))
    = Inr (ip_blobs (snd load))"
proof -
  obtain body hdr where c: "concat (fst load) = pack_bytes body hdr"
    and l: "length (concat (fst load)) < 2 ^ 32"
    and d: "Key_decrypt_data p k hdr = Inr (PackHeader_to_binary (ip_blobs (snd load)))"
    and h: "length hdr = length (PackHeader_to_binary (ip_blobs (snd load))) + 32"
    and w: "\<forall>b \<in> set (ip_blobs (snd load)). wf_blob b" "contiguous 0 (ip_blobs (snd load))"
    and b: "length body = sum_list (map blob_nat (ip_blobs (snd load)))"
    using assms(1) by (auto simp: good_pack_def)
  have "ip_pack_size (snd load) = of_nat (length (pack_bytes body hdr))"
    using good_pack_size [OF assms(1)] c l by (simp add: word_unat_eq_iff unat_u32_of_nat)
  then show ?thesis
    using PackHeader_from_file_roundtrip [where decrypt = "Key_decrypt_data p k", OF _ d h w b] assms(2,3) l c by simp
qed

lemma bp_write_data_ok:
  assumes "bp_write_data data bp = Inr (n, bp')"
  shows "bp_file bp' = bp_file bp @ [data]" and "bp_index bp' = bp_index bp"
    and "bp_pack_sizer bp' = bp_pack_sizer bp" and "bp_blob_type bp' = bp_blob_type bp"
    and "n = of_nat (length data)" and "length data < 2 ^ 32"
  using assms by (auto simp: bp_write_data_def result_simps BytesList_add_def u32_try_from_def
      split: if_splits)

lemma bp_write_header_ok:
  assumes "bp_write_header header bp = Inr bp'"
  shows "concat (bp_file bp') = pack_bytes (concat (bp_file bp)) header"
    and "bp_index bp' = bp_index bp" and "bp_blob_type bp' = bp_blob_type bp"
proof -
  obtain m n k bp1 where m: "u32_try_from (length header) = Some m"
    and 1: "bp_write_data header bp = Inr (n, bp1)"
    and 2: "bp_write_data (PackHeaderLength_to_binary m) bp1 = Inr (k, bp')"
    using assms by (auto simp: bp_write_header_def result_simps)
  have "m = of_nat (length header)"
    using m by (simp add: u32_try_from_def split: if_splits)
  with bp_write_data_ok [OF 1] bp_write_data_ok [OF 2] show
    "concat (bp_file bp') = pack_bytes (concat (bp_file bp)) header"
    "bp_index bp' = bp_index bp" "bp_blob_type bp' = bp_blob_type bp"
    by (simp_all add: pack_bytes_def)
qed

lemma sum_list_entry_nat_le: "sum_list (map entry_nat bs) \<le> 41 * length bs"
proof (induction bs)
  case (Cons b bs)
  then show ?case using entry_nat_cases [of b] by auto
qed simp

lemma rp_save_ok:
  assumes inv: "bp_inv (rp_basic rp)" and ok: "seal_ok p" and nonce: "length nonce = 16"
    and sent: "rp_sent rp = Some sent" and save: "rp_save p nonce now rp = Inr rp'"
    and room: "length (concat (bp_file (rp_basic rp))) + 36 + 41 * length (bp_blobs (rp_basic rp)) < 2 ^ 32"
  shows "\<exists>load. rp_sent rp' = Some (sent @ [load]) \<and> good_pack p (rp_key rp) load \<and>
      snd load = bp_index (rp_basic rp) \<and> (\<exists>rest. concat (fst load) = concat (bp_file (rp_basic rp)) @ rest)"
    and "bp_inv (rp_basic rp')" and "bp_is_empty (rp_basic rp')" and "rp_key rp' = rp_key rp"
    and "bp_blob_type (rp_basic rp') = bp_blob_type (rp_basic rp)"
proof -
  let ?bp = "rp_basic rp"
  obtain hdr bp1 where hdr: "Key_encrypt_data p (rp_key rp) nonce (bp_header_bytes ?bp) = Inr hdr"
    and w: "bp_write_header hdr ?bp = Inr bp1"
    and rp': "rp' = rp\<lparr>rp_basic := snd (bp_take_data now bp1),
                       rp_sent := Some (sent @ [fst (bp_take_data now bp1)])\<rparr>"
    using save sent by (auto simp: rp_save_def result_simps case_prod_beta Let_def)
  note w1 = bp_write_header_ok [OF w]
  have wf: "\<forall>b \<in> set (bp_blobs ?bp). wf_blob b" using inv by (auto simp: bp_inv_def)
  have lh: "length hdr = length (bp_header_bytes ?bp) + 32"
    using Key_encrypt_length [OF ok nonce hdr] .
  have "length (bp_header_bytes ?bp) \<le> 41 * length (bp_blobs ?bp)"
    using length_PackHeader_to_binary [OF wf] sum_list_entry_nat_le by (simp add: bp_header_bytes_def)
  then have "length (pack_bytes (concat (bp_file ?bp)) hdr) < 2 ^ 32"
    using room lh by (simp add: length_pack_bytes)
  then have "good_pack p (rp_key rp) (bp_file bp1, bp_index ?bp)"
    using w1 Key_roundtrip [OF ok nonce hdr] lh wf inv
    unfolding good_pack_def bp_inv_def bp_header_bytes_def by auto
  then show "\<exists>load. rp_sent rp' = Some (sent @ [load]) \<and> good_pack p (rp_key rp) load \<and>
      snd load = bp_index ?bp \<and> (\<exists>rest. concat (fst load) = concat (bp_file ?bp) @ rest)"
    using w1 by (auto simp: rp' bp_take_data_def pack_bytes_def)
  show "bp_inv (rp_basic rp')" "bp_is_empty (rp_basic rp')" "rp_key rp' = rp_key rp"
    "bp_blob_type (rp_basic rp') = bp_blob_type (rp_basic rp)"
    using w1 by (simp_all add: rp' bp_take_data_def bp_inv_def bp_is_empty_def IndexPack_default_def)
qed


section \<open>The invariant of the raw packer\<close>

text \<open>Between two calls fewer than \<open>MAX_COUNT\<close> blobs and fewer than \<open>MAX_SIZE\<close> bytes are open, and
  every pack sent to the writer is good.\<close>

definition rp_inv :: "prims \<Rightarrow> RawPacker \<Rightarrow> bool" where
  "rp_inv p rp \<longleftrightarrow>
     bp_inv (rp_basic rp) \<and> length (bp_blobs (rp_basic rp)) < 10000 \<and>
     length (concat (bp_file (rp_basic rp))) < 4076 * 1024 * 1024 \<and>
     (\<exists>sent. rp_sent rp = Some sent \<and> (\<forall>load \<in> set sent. good_pack p (rp_key rp) load))"

lemma rp_inv_new: "rp_inv p (RawPacker_new now key t sizer)"
  using bp_inv_new [of now t sizer]
  by (simp add: rp_inv_def RawPacker_new_def) (simp add: BasicPacker_new_def IndexPack_default_def)

lemma ps_pack_size_le: "unat (ps_pack_size isqrt ps) \<le> 4076 * 1024 * 1024"
proof -
  have "ps_pack_size isqrt ps \<le> PACKER_MAX_SIZE"
    by (simp add: ps_pack_size_def Let_def)
  then show ?thesis by (simp add: word_le_nat_alt PACKER_MAX_SIZE_def)
qed

lemma bp_should_saveD:
  assumes "bp_inv bp" and "\<not> bp_should_save isqrt elapsed bp"
  shows "length (bp_blobs bp) < 10000" and "length (concat (bp_file bp)) < 4076 * 1024 * 1024"
proof -
  have "unat (bp_count bp) < 10000" "unat (bp_size bp) < unat (ps_pack_size isqrt (bp_pack_sizer bp))"
    using assms(2) by (simp_all add: bp_should_save_def word_le_nat_alt not_le PACKER_MAX_COUNT_def)
  then show "length (bp_blobs bp) < 10000" "length (concat (bp_file bp)) < 4076 * 1024 * 1024"
    using assms(1) ps_pack_size_le [of isqrt "bp_pack_sizer bp"] unfolding bp_inv_def by linarith+
qed

lemma bp_add_raw_bounds:
  assumes "bp_add_raw data bid data_len ulen bp = Inr bp'"
  shows "length (concat (bp_file bp')) \<le> length (concat (bp_file bp)) + length data"
    and "length (bp_blobs bp') \<le> Suc (length (bp_blobs bp))"
  using bp_add_raw_new [OF assms] bp_add_raw_old [OF assms] by (cases "bp_has bid bp"; simp)+

lemma rp_inv_rp_save:
  assumes "bp_inv (rp_basic rp)" and "length (bp_blobs (rp_basic rp)) \<le> 10000"
    and "length (concat (bp_file (rp_basic rp))) < 4076 * 1024 * 1024 + 19 * 1024 * 1024"
    and "rp_sent rp = Some sent" and "\<forall>load \<in> set sent. good_pack p (rp_key rp) load"
    and "seal_ok p" and "length nonce = 16" and "rp_save p nonce now rp = Inr rp'"
  shows "rp_inv p rp'"
proof -
  have "length (concat (bp_file (rp_basic rp))) + 36 + 41 * length (bp_blobs (rp_basic rp)) < 2 ^ 32"
    using assms(2,3) by simp
  note s = rp_save_ok [OF assms(1,6,7,4,8) this]
  have "length (bp_blobs (rp_basic rp')) < 10000"
    "length (concat (bp_file (rp_basic rp'))) < 4076 * 1024 * 1024"
    using s(2,3) by (simp_all add: bp_inv_def bp_is_empty_def)
  with s assms(5) show ?thesis unfolding rp_inv_def by auto
qed

lemma rp_add_raw_inv:
  assumes inv: "rp_inv p rp" and ok: "seal_ok p" and nonce: "length nonce = 16"
    and add: "rp_add_raw p isqrt nonce elapsed now data bid data_len ulen rp = Inr rp'"
    and bid: "wf_id bid" and ul: "ulen \<noteq> Some 0" and len: "length data \<le> 19 * 1024 * 1024"
  shows "rp_inv p rp'"
proof -
  obtain sent where i: "bp_inv (rp_basic rp)" "length (bp_blobs (rp_basic rp)) < 10000"
    "length (concat (bp_file (rp_basic rp))) < 4076 * 1024 * 1024"
    "rp_sent rp = Some sent" "\<forall>load \<in> set sent. good_pack p (rp_key rp) load"
    using inv by (auto simp: rp_inv_def)
  obtain bp where bp: "bp_add_raw data bid data_len ulen (rp_basic rp) = Inr bp"
    and rest: "(if bp_should_save isqrt elapsed bp then rp_save p nonce now (rp\<lparr>rp_basic := bp\<rparr>)
                else Inr (rp\<lparr>rp_basic := bp\<rparr>)) = Inr rp'"
    using add by (auto simp: rp_add_raw_def result_simps Let_def)
  have binv: "bp_inv bp"
    using i by (intro bp_add_raw_inv [OF i(1) bp bid ul]) (use len in simp_all)
  note bb = bp_add_raw_bounds [OF bp]
  show ?thesis
  proof (cases "bp_should_save isqrt elapsed bp")
    case True
    with rest have save: "rp_save p nonce now (rp\<lparr>rp_basic := bp\<rparr>) = Inr rp'" by simp
    show ?thesis
      by (rule rp_inv_rp_save [OF _ _ _ _ _ ok nonce save]) (use binv bb i len in simp_all)
  next
    case False
    with rest i binv bp_should_saveD [OF binv False] show ?thesis by (auto simp: rp_inv_def)
  qed
qed

lemma rp_finalize_good:
  assumes inv: "rp_inv p rp" and ok: "seal_ok p" and nonce: "length nonce = 16"
    and fin: "rp_finalize p nonce now rp = Inr (loads, stats, rp')"
  shows "\<forall>load \<in> set loads. good_pack p (rp_key rp) load"
proof (cases "bp_is_empty (rp_basic rp)")
  case True
  with inv fin show ?thesis by (auto simp: rp_finalize_def rp_inv_def bp_take_stats_def)
next
  case False
  with fin obtain rp1 where save: "rp_save p nonce now rp = Inr rp1" and sent: "rp_sent rp1 = Some loads"
    by (auto simp: rp_finalize_def result_simps bp_take_stats_def split: option.splits)
  have key: "rp_key rp1 = rp_key rp"
    using save by (auto simp: rp_save_def result_simps case_prod_beta Let_def split: option.splits)
  obtain sent where i: "bp_inv (rp_basic rp)" "length (bp_blobs (rp_basic rp)) < 10000"
    "length (concat (bp_file (rp_basic rp))) < 4076 * 1024 * 1024"
    "rp_sent rp = Some sent" "\<forall>load \<in> set sent. good_pack p (rp_key rp) load"
    using inv by (auto simp: rp_inv_def)
  have "rp_inv p rp1"
    by (rule rp_inv_rp_save [OF i(1) _ _ i(4,5) ok nonce save]) (use i in simp_all)
  with key sent show ?thesis by (auto simp: rp_inv_def)
qed

section \<open>Pack sizes stay in range\<close>

text \<open>The documented behaviour of the integer square root.\<close>

definition isqrt_ok :: "(u64 \<Rightarrow> u64) \<Rightarrow> bool" where
  "isqrt_ok isqrt \<longleftrightarrow>
     (\<forall>x. unat (isqrt x) * unat (isqrt x) \<le> unat x \<and> unat x < Suc (unat (isqrt x)) * Suc (unat (isqrt x)))"

lemma isqrt_lt: "isqrt_ok isqrt \<Longrightarrow> unat (isqrt x) < 2 ^ 32"
proof (rule ccontr)
  assume ok: "isqrt_ok isqrt" and "\<not> unat (isqrt x) < 2 ^ 32"
  then have "2 ^ 32 * 2 ^ 32 \<le> unat (isqrt x) * unat (isqrt x)" by (intro mult_le_mono) simp_all
  moreover have "unat (isqrt x) * unat (isqrt x) \<le> unat x" using ok by (simp add: isqrt_ok_def)
  moreover have "unat x < 2 ^ 64" using unsigned_less [of x] by simp
  ultimately show False by simp
qed

lemma isqrt_mono:
  assumes "isqrt_ok isqrt" and "unat x \<le> unat y"
  shows "unat (isqrt x) \<le> unat (isqrt y)"
proof (rule ccontr)
  assume "\<not> unat (isqrt x) \<le> unat (isqrt y)"
  then have "Suc (unat (isqrt y)) * Suc (unat (isqrt y)) \<le> unat (isqrt x) * unat (isqrt x)"
    by (intro mult_le_mono) simp_all
  moreover have "unat (isqrt x) * unat (isqrt x) \<le> unat x"
    "unat y < Suc (unat (isqrt y)) * Suc (unat (isqrt y))"
    using assms(1) unfolding isqrt_ok_def by blast+
  ultimately show False using assms(2) by linarith
qed

text \<open>The size the grown value would have without the 32 bit arithmetic.\<close>

definition ps_grown :: "(u64 \<Rightarrow> u64) \<Rightarrow> PackSizer \<Rightarrow> nat" where
  "ps_grown isqrt ps =
     unat (isqrt (ps_current_size ps)) * unat (ps_grow_factor ps) + unat (ps_default_size ps)"

lemma ps_pack_size_exact:
  assumes "isqrt_ok isqrt" and "ps_grown isqrt ps < 2 ^ 32"
  shows "unat (ps_pack_size isqrt ps) =
    min (min (ps_grown isqrt ps) (unat (ps_size_limit ps))) (4076 * 1024 * 1024)"
proof -
  let ?r = "ucast (isqrt (ps_current_size ps)) :: u32"
  have r: "unat ?r = unat (isqrt (ps_current_size ps))"
    using isqrt_lt [OF assms(1), of "ps_current_size ps"] by (simp add: unsigned_ucast_eq take_bit_eq_mod)
  have "unat (?r * ps_grow_factor ps) = unat ?r * unat (ps_grow_factor ps)"
    using assms(2) r by (simp add: unat_word_ariths ps_grown_def)
  then have "unat (?r * ps_grow_factor ps + ps_default_size ps) = ps_grown isqrt ps"
    using assms(2) r by (subst unat_u32_add) (simp_all add: ps_grown_def)
  moreover have "unat (ps_default_size ps) = ps_grown isqrt ps" if "ps_grow_factor ps = 0"
    using that by (simp add: ps_grown_def)
  moreover have m: "unat (min a b) = min (unat a) (unat b)" for a b :: u32
    by (simp add: min_def word_le_nat_alt)
  ultimately show ?thesis
    unfolding ps_pack_size_def Let_def m by (simp add: PACKER_MAX_SIZE_def)
qed

lemma ucast_mult_u64: "unat ((ucast (a :: u32) :: u64) * ucast (b :: u32)) = unat a * unat b"
proof -
  have "unat a < 2 ^ 32" "unat b < 2 ^ 32"
    using unsigned_less [of a] unsigned_less [of b] by simp_all
  then have "unat a * unat b < 2 ^ 32 * 2 ^ 32" by (intro mult_strict_mono) simp_all
  then show ?thesis by (simp add: unat_word_ariths unat_ucast_u32_u64)
qed

text \<open>The tolerance checks compute in 64 bits, where the products cannot overflow.\<close>

lemma tolerance_exact:
  "is_too_small isqrt ps sz \<longleftrightarrow> unat sz * 100 < unat (ps_pack_size isqrt ps) * unat (ps_min_percent ps)"
  "is_too_large isqrt ps sz \<longleftrightarrow> unat sz * 100 > unat (ps_pack_size isqrt ps) * unat (ps_max_percent ps)"
proof -
  have "(100 :: u64) = ucast (100 :: u32)" by simp
  then have h: "unat ((ucast sz :: u64) * 100) = unat sz * 100"
    using ucast_mult_u64 [of sz 100] by simp
  show
    "is_too_small isqrt ps sz \<longleftrightarrow> unat sz * 100 < unat (ps_pack_size isqrt ps) * unat (ps_min_percent ps)"
    "is_too_large isqrt ps sz \<longleftrightarrow> unat sz * 100 > unat (ps_pack_size isqrt ps) * unat (ps_max_percent ps)"
    unfolding is_too_small_def is_too_large_def word_less_nat_alt h ucast_mult_u64 by simp_all
qed

section \<open>Copying\<close>

text \<open>The slice of a blob inside a run is the slice of the blob inside its pack.\<close>

lemma copy_slice_pack:
  assumes wf: "wf_bls x" and mem: "(l, t) \<in> set (bls_blobs x)" and fl: "bls_end x \<le> length file"
  shows "copy_slice (bls_offset x) (subslice (bls_start x) (bls_end x) file) l =
    Inr (subslice (unat (bl_offset l)) (unat (bl_offset l) + unat (bl_length l)) file)"
proof -
  have r: "bls_start x \<le> unat (bl_offset l)" "unat (bl_offset l) + unat (bl_length l) \<le> bls_end x"
    using blobs_in_range_member [OF _ mem] wf by (auto simp: wf_bls_def)
  have big: "bls_end x < 2 ^ 32" using wf by (simp add: wf_bls_def)
  have a: "unat (bl_offset l + bl_length l) = unat (bl_offset l) + unat (bl_length l)"
    using r(2) big by (intro unat_u32_add) simp
  have o: "unat (bl_offset l - bls_offset x) = unat (bl_offset l) - bls_start x"
    using r(1) by (simp add: unat_sub word_le_nat_alt bls_start_def)
  have e: "unat (bl_offset l + bl_length l - bls_offset x)
      = unat (bl_offset l) + unat (bl_length l) - bls_start x"
    using r(1) a by (subst unat_sub) (simp_all add: word_le_nat_alt bls_start_def)
  show ?thesis
    unfolding copy_slice_def Let_def o e
    using r fl by (auto simp: subslice_def drop_take min_def)
qed

text \<open>\<open>copy_fast\<close> hands every blob of the run to the packer with exactly the bytes it has in the
  source pack, in the order of the run.\<close>

lemma copy_fast_exact:
  fixes pb
  defines "x \<equiv> cpb_locations pb"
  assumes "reads_file rp (cpb_pack_id pb) file" and "wf_bls x" and "bls_end x \<le> length file"
  shows "copy_fast rp tpe add pb st =
    foldR (\<lambda>(l, bid) st. map_err (\<lambda>_. RusticError EInternal
             ''Failed to fast-add (unchecked) blob `{blob_id}` to packfile.'')
          (add (subslice (unat (bl_offset l)) (unat (bl_offset l) + unat (bl_length l)) file) bid
             (ucast (bl_length l)) (bl_uncompressed_length l) st)) (bls_blobs x) st"
proof -
  have read: "rp FPack (cpb_pack_id pb) (is_cacheable tpe) (bls_offset x) (bls_length x)
      = Inr (subslice (bls_start x) (bls_end x) file)"
    using assms(2,4) by (simp add: reads_file_def bls_start_def bls_end_def)
  show ?thesis
    unfolding copy_fast_def Let_def x_def [symmetric] read bindR_simps
    by (rule foldR_cong) (auto simp: copy_slice_pack [OF assms(3) _ assms(4)])
qed

section \<open>Properties\<close>

text \<open>C27. Copying a run of blobs from another pack without decrypting hands every blob to the packer
  with exactly the bytes it has in the source pack, in the order of the run; the offsets into the
  joined read never leave it.\<close>

theorem copy_fast_copies_exactly:
  assumes "reads_file rp (cpb_pack_id pb) fl" "wf_bls (cpb_locations pb)" "bls_end (cpb_locations pb) \<le> length fl"
  shows "copy_fast rp tpe add pb st =
    foldR (\<lambda>(l, bid) st. map_err (\<lambda>_. RusticError EInternal
             ''Failed to fast-add (unchecked) blob `{blob_id}` to packfile.'')
          (add (subslice (unat (bl_offset l)) (unat (bl_offset l) + unat (bl_length l)) fl) bid
             (ucast (bl_length l)) (bl_uncompressed_length l) st)) (bls_blobs (cpb_locations pb)) st"
  by (rule copy_fast_exact [OF assms])

theorem copy_fast_copies_exactly_witness:
  "copy_fast (\<lambda>_ _ _ off len. Inr (subslice (unat off) (unat off + unat len) [1, 2, 3, 4, 5])) Data
     (\<lambda>d bid _ _ st. Inr (st @ [(d, bid)]))
     \<lparr>cpb_pack_id = [], cpb_locations = from_blob_location \<lparr>bl_offset = 1, bl_length = 3, bl_uncompressed_length = None\<rparr> [9]\<rparr> []
   = Inr [([2, 3, 4], [9])]"
  by (subst copy_fast_copies_exactly [where fl = "[1, 2, 3, 4, 5]"])
    (auto simp: reads_file_def wf_from_blob_location, simp_all add: from_blob_location_def bls_end_def subslice_def)

text \<open>As long as the grown size fits in 32 bits, the target size of a pack is the default size
  plus the grow factor times the integer square root of the repository size, limited by the configured
  limit and by \<open>MAX_SIZE\<close>, and the tolerance checks of \<open>prune\<close> compare exact products.\<close>

theorem pack_size_formula:
  assumes "isqrt_ok isqrt" "ps_grown isqrt ps < 2 ^ 32"
  shows "unat (ps_pack_size isqrt ps) =
      min (min (ps_grown isqrt ps) (unat (ps_size_limit ps))) (4076 * 1024 * 1024) \<and>
    (size_ok isqrt ps sz \<longleftrightarrow>
      unat (ps_pack_size isqrt ps) * unat (ps_min_percent ps) \<le> unat sz * 100 \<and>
      unat sz * 100 \<le> unat (ps_pack_size isqrt ps) * unat (ps_max_percent ps))"
  using ps_pack_size_exact [OF assms] tolerance_exact by (auto simp: size_ok_def not_less)

fun isqrt_nat :: "nat \<Rightarrow> nat" where
  "isqrt_nat 0 = 0"
| "isqrt_nat (Suc n) = (let r = isqrt_nat n in if Suc r * Suc r \<le> Suc n then Suc r else r)"

lemma isqrt_nat_spec: "isqrt_nat n * isqrt_nat n \<le> n \<and> n < Suc (isqrt_nat n) * Suc (isqrt_nat n)"
  by (induction n) (auto simp: Let_def)

lemma isqrt_nat_ok: "isqrt_ok (\<lambda>x. of_nat (isqrt_nat (unat x)))"
proof -
  have "unat (of_nat (isqrt_nat (unat x)) :: u64) = isqrt_nat (unat x)" for x :: u64
  proof -
    have "isqrt_nat (unat x) \<le> unat x"
      using isqrt_nat_spec [of "unat x"] by (meson le_square le_trans)
    then have "isqrt_nat (unat x) < 2 ^ 64" using unsigned_less [of x, where ?'a = nat] by simp
    then show ?thesis by (simp add: unat_of_nat)
  qed
  then show ?thesis unfolding isqrt_ok_def using isqrt_nat_spec by simp
qed

theorem pack_size_formula_witness:
  "unat (ps_pack_size (\<lambda>x. of_nat (isqrt_nat (unat x)))
     \<lparr>ps_default_size = 1000, ps_grow_factor = 10, ps_size_limit = 5000, ps_current_size = 4,
      ps_min_percent = 30, ps_max_percent = 200\<rparr>) = 1020"
proof -
  have "isqrt_nat 4 = 2" by (simp add: eval_nat_numeral Let_def)
  then show ?thesis
    using pack_size_formula [OF isqrt_nat_ok, of "\<lparr>ps_default_size = 1000, ps_grow_factor = 10,
        ps_size_limit = 5000, ps_current_size = 4, ps_min_percent = 30, ps_max_percent = 200\<rparr>"]
    by (simp add: ps_grown_def)
qed

end
