(* ===== verification/BinarySorted.thy ===== *)
theory BinarySorted
  imports Crypto
begin

text \<open>
  The in-memory index (\<open>crates/core/src/index.rs\<close>, \<open>crates/core/src/index/binarysorted.rs\<close>): the
  collector that takes packs from index files, the sorted index it becomes, binary search in it, and
  the iterator that turns an index back into packs. The parallel unstable sort by id (crate \<open>rayon\<close>)
  is the parameter \<open>sort_entries\<close>, of which only \<open>sort_entries_ok\<close> is used. Binary search is the loop
  of the standard library. The trait \<open>ReadIndex\<close> is the locale \<open>read_index\<close>.
\<close>

section \<open>Types\<close>

record SortedEntry =
  se_id :: BlobId
  se_pack_idx :: u32
  se_location :: BlobLocation

datatype IndexType = Full | DataIds | OnlyTrees

datatype EntriesVariants = EV_None | EV_Ids "BlobId list" | EV_FullEntries "SortedEntry list"

record TypeIndexCollector =
  tc_packs :: "(PackId \<times> u32) list"
  tc_entries :: EntriesVariants
  tc_total_size :: u64

type_synonym IndexCollector = "TypeIndexCollector BlobTypeMap"

record TypeIndex =
  ti_packs :: "PackId list"
  ti_entries :: EntriesVariants
  ti_total_size :: u64

type_synonym Index = "TypeIndex BlobTypeMap"

record IndexEntry =
  ie_blob_type :: BlobType
  ie_pack :: PackId
  ie_location :: BlobLocation

definition from_index_blob :: "IndexBlob \<Rightarrow> PackId \<Rightarrow> IndexEntry" where
  "from_index_blob b pid = \<lparr>ie_blob_type = ib_tpe b, ie_pack = pid, ie_location = ib_location b\<rparr>"

definition ie_data_length :: "IndexEntry \<Rightarrow> u32" where
  "ie_data_length e = data_length (ie_location e)"

section \<open>The collector\<close>

definition TypeIndexCollector_default :: TypeIndexCollector where
  "TypeIndexCollector_default = \<lparr>tc_packs = [], tc_entries = EV_None, tc_total_size = 0\<rparr>"

definition IndexCollector_new :: "IndexType \<Rightarrow> IndexCollector" where
  "IndexCollector_new tpe =
     (\<lambda>_. TypeIndexCollector_default)
       (Tree := TypeIndexCollector_default\<lparr>tc_entries := EV_FullEntries []\<rparr>,
        Data := TypeIndexCollector_default\<lparr>tc_entries :=
          (case tpe of OnlyTrees \<Rightarrow> EV_None | DataIds \<Rightarrow> EV_Ids [] | Full \<Rightarrow> EV_FullEntries [])\<rparr>)"

definition tree_packs :: "IndexCollector \<Rightarrow> (PackId \<times> u32) list" where
  "tree_packs c = tc_packs (c Tree)"

fun push_entry :: "u32 \<Rightarrow> IndexBlob \<Rightarrow> EntriesVariants \<Rightarrow> EntriesVariants" where
  "push_entry idx b EV_None = EV_None"
| "push_entry idx b (EV_Ids ids) = EV_Ids (ids @ [ib_id b])"
| "push_entry idx b (EV_FullEntries es) =
     EV_FullEntries (es @ [\<lparr>se_id = ib_id b, se_pack_idx = idx, se_location = ib_location b\<rparr>])"

definition extend_pack :: "IndexPack \<Rightarrow> IndexCollector \<Rightarrow> IndexCollector rustic_result" where
  "extend_pack p c =
     (let blob_type = ip_blob_type p; sz = ip_pack_size p; tc = c blob_type in
      bindR (ok_or (Panic ''pack count doesn't fit into u32'') (u32_try_from (length (tc_packs tc)))) (\<lambda>idx.
        Inr (c(blob_type :=
          tc\<lparr>tc_packs := tc_packs tc @ [(ip_id p, sz)],
             tc_total_size := tc_total_size tc + ucast sz,
             tc_entries := fold (push_entry idx) (ip_blobs p) (tc_entries tc)\<rparr>))))"

definition IndexCollector_extend :: "IndexPack list \<Rightarrow> IndexCollector \<Rightarrow> IndexCollector rustic_result" where
  "IndexCollector_extend ps c = foldR extend_pack ps c"

fun sort_variants :: "(SortedEntry list \<Rightarrow> SortedEntry list) \<Rightarrow> EntriesVariants \<Rightarrow> EntriesVariants" where
  "sort_variants sort_entries EV_None = EV_None"
| "sort_variants sort_entries (EV_Ids ids) = EV_Ids (sort ids)"
| "sort_variants sort_entries (EV_FullEntries es) = EV_FullEntries (sort_entries es)"

definition into_index :: "(SortedEntry list \<Rightarrow> SortedEntry list) \<Rightarrow> IndexCollector \<Rightarrow> Index" where
  "into_index sort_entries c =
     (\<lambda>t. \<lparr>ti_packs = map fst (tc_packs (c t)), ti_entries = sort_variants sort_entries (tc_entries (c t)),
           ti_total_size = tc_total_size (c t)\<rparr>)"

definition drop_data :: "Index \<Rightarrow> Index" where
  "drop_data idx =
     (\<lambda>t. if t = Data then \<lparr>ti_packs = [], ti_entries = EV_None, ti_total_size = 0\<rparr> else idx t)"

section \<open>Binary search\<close>

text \<open>\<open>slice::binary_search_by_key\<close>: halve the window until one element is left, then compare it.\<close>

function bs_loop :: "('a \<Rightarrow> 'k :: linorder) \<Rightarrow> 'a list \<Rightarrow> 'k \<Rightarrow> nat \<Rightarrow> nat \<Rightarrow> nat" where
  "bs_loop f xs k base n =
     (if n > 1
      then (let half = n div 2; mid = base + half;
                base = (if f (xs ! mid) > k then base else mid)
            in bs_loop f xs k base (n - half))
      else base)"
  by pat_completeness auto
termination
  by (relation "measure (\<lambda>(_, _, _, _, n). n)") auto

declare bs_loop.simps [simp del]

definition binary_search_by_key :: "('a \<Rightarrow> 'k :: linorder) \<Rightarrow> 'a list \<Rightarrow> 'k \<Rightarrow> nat option" where
  "binary_search_by_key f xs k =
     (if xs = [] then None
      else let base = bs_loop f xs k 0 (length xs) in
           if f (xs ! base) = k then Some base else None)"

section \<open>Lookup\<close>

definition Index_get_id :: "Index \<Rightarrow> BlobType \<Rightarrow> BlobId \<Rightarrow> IndexEntry option" where
  "Index_get_id idx t bid =
     (case ti_entries (idx t) of
        EV_FullEntries vec \<Rightarrow>
          map_option (\<lambda>i. let be = vec ! i in
              \<lparr>ie_blob_type = t, ie_pack = ti_packs (idx t) ! unat (se_pack_idx be),
               ie_location = se_location be\<rparr>)
            (binary_search_by_key se_id vec bid)
      | _ \<Rightarrow> None)"

definition Index_total_size :: "Index \<Rightarrow> BlobType \<Rightarrow> u64" where
  "Index_total_size idx t = ti_total_size (idx t)"

definition Index_has :: "Index \<Rightarrow> BlobType \<Rightarrow> BlobId \<Rightarrow> bool" where
  "Index_has idx t bid =
     (case ti_entries (idx t) of
        EV_FullEntries vec \<Rightarrow> binary_search_by_key se_id vec bid \<noteq> None
      | EV_Ids ids \<Rightarrow> binary_search_by_key (\<lambda>x. x) ids bid \<noteq> None
      | EV_None \<Rightarrow> False)"

section \<open>The trait ReadIndex\<close>

definition get_tree :: "(BlobType \<Rightarrow> BlobId \<Rightarrow> IndexEntry option) \<Rightarrow> Id \<Rightarrow> IndexEntry option" where
  "get_tree get_id i = get_id Tree i"

definition get_data :: "(BlobType \<Rightarrow> BlobId \<Rightarrow> IndexEntry option) \<Rightarrow> Id \<Rightarrow> IndexEntry option" where
  "get_data get_id i = get_id Data i"

definition has_tree :: "(BlobType \<Rightarrow> BlobId \<Rightarrow> bool) \<Rightarrow> Id \<Rightarrow> bool" where
  "has_tree has i = has Tree i"

definition has_data :: "(BlobType \<Rightarrow> BlobId \<Rightarrow> bool) \<Rightarrow> Id \<Rightarrow> bool" where
  "has_data has i = has Data i"

definition read_data ::
    "prims \<Rightarrow> DecryptBackend \<Rightarrow> (FileType \<Rightarrow> Id \<Rightarrow> bool \<Rightarrow> u32 \<Rightarrow> u32 \<Rightarrow> bytes rustic_result)
     \<Rightarrow> IndexEntry \<Rightarrow> bytes rustic_result" where
  "read_data p b read_partial e =
     read_encrypted_partial p b read_partial FPack (ie_pack e) (is_cacheable (ie_blob_type e)) (ie_location e)"

definition blob_from_backend ::
    "prims \<Rightarrow> DecryptBackend \<Rightarrow> (FileType \<Rightarrow> Id \<Rightarrow> bool \<Rightarrow> u32 \<Rightarrow> u32 \<Rightarrow> bytes rustic_result)
     \<Rightarrow> (BlobType \<Rightarrow> BlobId \<Rightarrow> IndexEntry option) \<Rightarrow> BlobType \<Rightarrow> BlobId \<Rightarrow> bytes rustic_result" where
  "blob_from_backend p b read_partial get_id t bid =
     (case get_id t bid of
        None \<Rightarrow> Inl (RusticError EInternal ''Blob `{id}` with type `{type}` not found in index'')
      | Some ie \<Rightarrow> read_data p b read_partial ie)"

text \<open>What every index promises: an entry has the type it was asked for, and a blob with an entry is
  present.\<close>

locale read_index =
  fixes get_id :: "BlobType \<Rightarrow> BlobId \<Rightarrow> IndexEntry option"
    and has :: "BlobType \<Rightarrow> BlobId \<Rightarrow> bool"
  assumes get_id_type: "get_id t bid = Some e \<Longrightarrow> ie_blob_type e = t"
    and get_id_has: "get_id t bid = Some e \<Longrightarrow> has t bid"
begin

lemma get_tree_cacheable: "get_tree get_id i = Some e \<Longrightarrow> is_cacheable (ie_blob_type e)"
  by (auto simp: get_tree_def dest: get_id_type)

lemma get_data_not_cacheable: "get_data get_id i = Some e \<Longrightarrow> \<not> is_cacheable (ie_blob_type e)"
  by (auto simp: get_data_def dest: get_id_type)

lemma blob_from_backend_has: "blob_from_backend p b rp get_id t bid = Inr d \<Longrightarrow> has t bid"
  by (auto simp: blob_from_backend_def dest: get_id_has split: option.splits)

lemma not_has_not_found:
  "\<not> has t bid \<Longrightarrow> blob_from_backend p b rp get_id t bid =
     Inl (RusticError EInternal ''Blob `{id}` with type `{type}` not found in index'')"
  by (auto simp: blob_from_backend_def dest: get_id_has split: option.splits)

end

interpretation ix: read_index "Index_get_id idx" "Index_has idx" for idx
  by unfold_locales
    (auto simp: Index_get_id_def Index_has_def Let_def split: EntriesVariants.splits)

section \<open>Binary search is correct\<close>

lemma sorted_map_nth_mono:
  "sorted (map f xs) \<Longrightarrow> i \<le> j \<Longrightarrow> j < length xs \<Longrightarrow> f (xs ! i) \<le> f (xs ! j)"
  using sorted_nth_mono [of "map f xs" i j] by simp

lemma bs_loop_inv:
  assumes "sorted (map f xs)" and "base + n \<le> length xs" and "0 < n"
    and "base = 0 \<or> f (xs ! base) \<le> k" and "\<forall>j. base + n \<le> j \<longrightarrow> j < length xs \<longrightarrow> k < f (xs ! j)"
  shows "bs_loop f xs k base n < length xs \<and>
    (bs_loop f xs k base n = 0 \<or> f (xs ! bs_loop f xs k base n) \<le> k) \<and>
    (\<forall>j. bs_loop f xs k base n < j \<longrightarrow> j < length xs \<longrightarrow> k < f (xs ! j))"
  using assms
proof (induction f xs k base n rule: bs_loop.induct)
  case (1 f xs k base n)
  show ?case
  proof (cases "n > 1")
    case False
    with "1.prems" show ?thesis by (auto simp: bs_loop.simps [of f xs k base n])
  next
    case True
    define mid where "mid = base + n div 2"
    define base' where "base' = (if f (xs ! mid) > k then base else mid)"
    have eq: "bs_loop f xs k base n = bs_loop f xs k base' (n - n div 2)"
      using True by (simp add: bs_loop.simps [of f xs k base n] base'_def mid_def Let_def)
    have mid: "mid < length xs" using True "1.prems" by (simp add: mid_def)
    have upper: "k < f (xs ! j)" if j: "base' + (n - n div 2) \<le> j" "j < length xs" for j
    proof (cases "f (xs ! mid) > k")
      case gt: True
      with j True have "mid \<le> j" by (simp add: base'_def mid_def)
      with gt show ?thesis
        using sorted_map_nth_mono [OF "1.prems"(1) _ j(2)] by (meson order_less_le_trans)
    next
      case False
      with j have "base + n \<le> j" by (simp add: base'_def mid_def)
      with j "1.prems" show ?thesis by blast
    qed
    have lower: "base' = 0 \<or> f (xs ! base') \<le> k"
      using "1.prems"(4) by (auto simp: base'_def not_less)
    have "base' + (n - n div 2) \<le> length xs" "0 < n - n div 2"
      using True "1.prems"(2) by (auto simp: base'_def mid_def)
    with "1.IH" [OF True refl refl, folded mid_def, OF base'_def] "1.prems"(1) lower upper
    show ?thesis unfolding eq by blast
  qed
qed

text \<open>On a sorted list the search finds an element with the key exactly when there is one.\<close>

lemma binary_search_Some:
  assumes "sorted (map f xs)" and "binary_search_by_key f xs k = Some i"
  shows "i < length xs \<and> f (xs ! i) = k"
  using assms bs_loop_inv [OF assms(1), of 0 "length xs" k]
  by (auto simp: binary_search_by_key_def Let_def split: if_splits)

lemma binary_search_None:
  assumes "sorted (map f xs)"
  shows "binary_search_by_key f xs k = None \<longleftrightarrow> k \<notin> f ` set xs"
proof (cases "xs = []")
  case False
  define b where "b = bs_loop f xs k 0 (length xs)"
  have b: "b < length xs" "b = 0 \<or> f (xs ! b) \<le> k" "\<forall>j. b < j \<longrightarrow> j < length xs \<longrightarrow> k < f (xs ! j)"
    using bs_loop_inv [OF assms, of 0 "length xs" k] False by (simp_all add: b_def)
  have "k \<notin> f ` set xs" if ne: "f (xs ! b) \<noteq> k"
  proof
    assume "k \<in> f ` set xs"
    then obtain j where j: "j < length xs" "f (xs ! j) = k" by (auto simp: in_set_conv_nth)
    with b ne have "j < b" by (metis nat_neq_iff order_less_irrefl)
    then have "k \<le> f (xs ! b)" using sorted_map_nth_mono [OF assms, of j b] b(1) j(2) by simp
    with b(2) \<open>j < b\<close> ne show False by simp
  qed
  with b(1) False show ?thesis
    by (auto simp: binary_search_by_key_def b_def [symmetric] Let_def)
qed (simp add: binary_search_by_key_def)

section \<open>The index holds what was collected\<close>

definition sort_entries_ok :: "(SortedEntry list \<Rightarrow> SortedEntry list) \<Rightarrow> bool" where
  "sort_entries_ok srt \<longleftrightarrow> (\<forall>es. mset (srt es) = mset es \<and> sorted (map se_id (srt es)))"

lemma sort_entries_ok_set: "sort_entries_ok srt \<Longrightarrow> set (srt es) = set es"
  by (metis sort_entries_ok_def set_mset_mset)

definition of_type :: "BlobType \<Rightarrow> IndexPack list \<Rightarrow> IndexPack list" where
  "of_type t ps = filter (\<lambda>p. ip_blob_type p = t) ps"

definition pack_entries :: "nat \<Rightarrow> IndexPack \<Rightarrow> SortedEntry list" where
  "pack_entries i p =
     map (\<lambda>b. \<lparr>se_id = ib_id b, se_pack_idx = of_nat i, se_location = ib_location b\<rparr>) (ip_blobs p)"

text \<open>The entries a list of packs of one type gives, in the order they are pushed.\<close>

definition type_entries :: "IndexPack list \<Rightarrow> SortedEntry list" where
  "type_entries ps = concat (map (\<lambda>(i, p). pack_entries i p) (enumerate 0 ps))"

fun collected :: "EntriesVariants \<Rightarrow> IndexPack list \<Rightarrow> EntriesVariants" where
  "collected EV_None ps = EV_None"
| "collected (EV_Ids _) ps = EV_Ids (concat (map (\<lambda>p. map ib_id (ip_blobs p)) ps))"
| "collected (EV_FullEntries _) ps = EV_FullEntries (type_entries ps)"

lemma fold_push_entry:
  "fold (push_entry idx) bs EV_None = EV_None"
  "fold (push_entry idx) bs (EV_Ids ids) = EV_Ids (ids @ map ib_id bs)"
  "fold (push_entry idx) bs (EV_FullEntries es) =
     EV_FullEntries (es @ map (\<lambda>b. \<lparr>se_id = ib_id b, se_pack_idx = idx, se_location = ib_location b\<rparr>) bs)"
  by (induction bs arbitrary: ids es) simp_all

lemma type_entries_snoc: "type_entries (ps @ [p]) = type_entries ps @ pack_entries (length ps) p"
  by (simp add: type_entries_def enumerate_append_eq)

lemma collected_snoc:
  "fold (push_entry (of_nat (length ps))) (ip_blobs p) (collected v ps) = collected v (ps @ [p])"
  by (cases v) (simp_all add: fold_push_entry type_entries_snoc pack_entries_def)

lemma extend_spec:
  assumes "IndexCollector_extend ps (IndexCollector_new tpe) = Inr c"
  shows "tc_packs (c t) = map (\<lambda>p. (ip_id p, ip_pack_size p)) (of_type t ps) \<and>
    tc_entries (c t) = collected (tc_entries (IndexCollector_new tpe t)) (of_type t ps) \<and>
    tc_total_size (c t) = sum_list (map (\<lambda>p. ucast (ip_pack_size p)) (of_type t ps)) \<and>
    length (of_type t ps) \<le> 2 ^ 32"
  using assms
proof (induction ps arbitrary: c rule: rev_induct)
  case Nil
  then show ?case
    by (cases t; cases tpe)
      (auto simp: IndexCollector_extend_def of_type_def IndexCollector_new_def TypeIndexCollector_default_def
        type_entries_def)
next
  case (snoc p ps)
  obtain c1 where c1: "IndexCollector_extend ps (IndexCollector_new tpe) = Inr c1" and p: "extend_pack p c1 = Inr c"
    using snoc.prems by (auto simp: IndexCollector_extend_def foldR_append result_simps)
  note IH = snoc.IH [OF c1]
  show ?case
  proof (cases "ip_blob_type p = t")
    case False
    with IH p show ?thesis by (auto simp: extend_pack_def Let_def result_simps of_type_def)
  next
    case True
    with p IH have len: "length (of_type t ps) < 2 ^ 32"
      and c: "c t = (c1 t)\<lparr>tc_packs := tc_packs (c1 t) @ [(ip_id p, ip_pack_size p)],
        tc_total_size := tc_total_size (c1 t) + ucast (ip_pack_size p),
        tc_entries := fold (push_entry (of_nat (length (of_type t ps)))) (ip_blobs p) (tc_entries (c1 t))\<rparr>"
      by (auto simp: extend_pack_def Let_def result_simps u32_try_from_def split: if_splits)
    have "of_type t (ps @ [p]) = of_type t ps @ [p]" using True by (simp add: of_type_def)
    with IH c len show ?thesis by (simp add: collected_snoc)
  qed
qed

lemma type_entries_mem:
  "e \<in> set (type_entries ps) \<longleftrightarrow>
   (\<exists>i < length ps. \<exists>b \<in> set (ip_blobs (ps ! i)).
      e = \<lparr>se_id = ib_id b, se_pack_idx = of_nat i, se_location = ib_location b\<rparr>)"
  by (fastforce simp: type_entries_def in_set_enumerate_eq pack_entries_def)

lemma type_entries_ids: "se_id ` set (type_entries ps) = {ib_id b | b p. p \<in> set ps \<and> b \<in> set (ip_blobs p)}"
proof (induction ps rule: rev_induct)
  case Nil
  then show ?case by (simp add: type_entries_def)
next
  case (snoc p ps)
  have "se_id ` set (pack_entries (length ps) p) = ib_id ` set (ip_blobs p)"
    by (force simp: pack_entries_def)
  with snoc.IH show ?case by (auto simp: type_entries_snoc image_Un)
qed

text \<open>The index keeps ids for a type unless it was built without them.\<close>

definition indexes_type :: "IndexType \<Rightarrow> BlobType \<Rightarrow> bool" where
  "indexes_type tpe t \<longleftrightarrow> t = Tree \<or> tpe \<noteq> OnlyTrees"

definition full_type :: "IndexType \<Rightarrow> BlobType \<Rightarrow> bool" where
  "full_type tpe t \<longleftrightarrow> t = Tree \<or> tpe = Full"

lemma new_entries_cases:
  "tc_entries (IndexCollector_new tpe t) =
     (if full_type tpe t then EV_FullEntries [] else if indexes_type tpe t then EV_Ids [] else EV_None)"
  by (cases t; cases tpe) (simp_all add: IndexCollector_new_def full_type_def indexes_type_def)

lemma Index_has_correct:
  assumes srt: "sort_entries_ok srt" and ext: "IndexCollector_extend ps (IndexCollector_new tpe) = Inr c"
  shows "Index_has (into_index srt c) t bid \<longleftrightarrow>
    indexes_type tpe t \<and> (\<exists>p \<in> set ps. ip_blob_type p = t \<and> bid \<in> ib_id ` set (ip_blobs p))"
proof -
  note e = extend_spec [OF ext, of t]
  have s: "sorted (map se_id (srt es))" "set (srt es) = set es" for es
    using srt sort_entries_ok_set by (auto simp: sort_entries_ok_def)
  have full: "binary_search_by_key se_id (srt (type_entries (of_type t ps))) bid \<noteq> None \<longleftrightarrow>
      (\<exists>p \<in> set ps. ip_blob_type p = t \<and> bid \<in> ib_id ` set (ip_blobs p))"
    unfolding binary_search_None [OF s(1)] s(2) type_entries_ids by (auto simp: of_type_def)
  have ids: "binary_search_by_key (\<lambda>x. x) (sort (concat (map (\<lambda>p. map ib_id (ip_blobs p)) (of_type t ps)))) bid
      \<noteq> None \<longleftrightarrow> (\<exists>p \<in> set ps. ip_blob_type p = t \<and> bid \<in> ib_id ` set (ip_blobs p))"
    by (subst binary_search_None) (auto simp: of_type_def)
  show ?thesis
    using e full ids
    by (auto simp: Index_has_def into_index_def new_entries_cases full_type_def indexes_type_def
        split: if_splits)
qed

lemma Index_get_id_sound:
  assumes srt: "sort_entries_ok srt" and ext: "IndexCollector_extend ps (IndexCollector_new tpe) = Inr c"
    and get: "Index_get_id (into_index srt c) t bid = Some e"
  shows "\<exists>p \<in> set ps. \<exists>b \<in> set (ip_blobs p). ip_blob_type p = t \<and> ib_id b = bid \<and>
    e = \<lparr>ie_blob_type = t, ie_pack = ip_id p, ie_location = ib_location b\<rparr>"
proof -
  note x = extend_spec [OF ext, of t]
  let ?es = "srt (type_entries (of_type t ps))"
  have s: "sorted (map se_id ?es)" "set ?es = set (type_entries (of_type t ps))"
    using srt sort_entries_ok_set by (auto simp: sort_entries_ok_def)
  obtain i where i: "binary_search_by_key se_id ?es bid = Some i"
    and e: "e = \<lparr>ie_blob_type = t,
      ie_pack = map (\<lambda>p. ip_id p) (of_type t ps) ! unat (se_pack_idx (?es ! i)),
      ie_location = se_location (?es ! i)\<rparr>"
    using get x
    by (auto simp: Index_get_id_def into_index_def new_entries_cases Let_def comp_def split: if_splits)
  have ib: "i < length ?es" "se_id (?es ! i) = bid"
    using binary_search_Some [OF s(1) i] by simp_all
  then have "?es ! i \<in> set (type_entries (of_type t ps))" using s(2) nth_mem by blast
  then obtain k b where k: "k < length (of_type t ps)" "b \<in> set (ip_blobs (of_type t ps ! k))"
    "?es ! i = \<lparr>se_id = ib_id b, se_pack_idx = of_nat k, se_location = ib_location b\<rparr>"
    by (auto simp: type_entries_mem)
  have "unat (of_nat k :: u32) = k" using k(1) x by (intro unat_u32_of_nat) simp
  moreover have "of_type t ps ! k \<in> set ps" "ip_blob_type (of_type t ps ! k) = t"
    using nth_mem [OF k(1)] by (auto simp: of_type_def)
  ultimately show ?thesis using k e ib(2) by (intro bexI [of _ "of_type t ps ! k"] bexI [of _ b]) auto
qed

lemma Index_get_id_complete:
  assumes "full_type tpe t" and "IndexCollector_extend ps (IndexCollector_new tpe) = Inr c"
  shows "Index_get_id (into_index srt c) t bid = None \<longleftrightarrow> \<not> Index_has (into_index srt c) t bid"
  using assms extend_spec [OF assms(2), of t]
  by (simp add: Index_get_id_def Index_has_def into_index_def new_entries_cases)

section \<open>Properties\<close>

text \<open>C13. The binary-sorted index answers exactly from the packs it was built from: \<open>has\<close> holds for a
  blob iff some pack of that type contains its id (and the type is indexed at all); where full entries
  are kept, \<open>get_id\<close> finds an entry iff \<open>has\<close> holds; and every entry found is the pack and the
  location of a blob with that id and type. The result does not depend on how the unstable parallel
  sort orders equal ids.\<close>

theorem Index_lookup_correct:
  assumes "sort_entries_ok srt" "IndexCollector_extend ps (IndexCollector_new tpe) = Inr c"
  shows "(Index_has (into_index srt c) t bid \<longleftrightarrow>
      indexes_type tpe t \<and> (\<exists>p \<in> set ps. ip_blob_type p = t \<and> bid \<in> ib_id ` set (ip_blobs p))) \<and>
    (full_type tpe t \<longrightarrow>
      (Index_get_id (into_index srt c) t bid = None \<longleftrightarrow> \<not> Index_has (into_index srt c) t bid)) \<and>
    (\<forall>e. Index_get_id (into_index srt c) t bid = Some e \<longrightarrow>
      (\<exists>p \<in> set ps. \<exists>b \<in> set (ip_blobs p). ip_blob_type p = t \<and> ib_id b = bid \<and>
        e = \<lparr>ie_blob_type = t, ie_pack = ip_id p, ie_location = ib_location b\<rparr>))"
  by (intro conjI impI allI Index_has_correct [OF assms] Index_get_id_complete [OF _ assms(2)]
      Index_get_id_sound [OF assms])

theorem Index_lookup_correct_witness:
  "\<exists>c. IndexCollector_extend [IndexPack_default] (IndexCollector_new Full) = Inr c \<and>
     \<not> Index_has (into_index (sort_key se_id) c) Data Id_default \<and>
     Index_get_id (into_index (sort_key se_id) c) Data Id_default = None"
proof -
  have s: "sort_entries_ok (sort_key se_id)" by (simp add: sort_entries_ok_def)
  obtain c where c: "IndexCollector_extend [IndexPack_default] (IndexCollector_new Full) = Inr c"
    by (simp add: IndexCollector_extend_def extend_pack_def IndexCollector_new_def IndexPack_default_def
        u32_try_from_def TypeIndexCollector_default_def ip_blob_type_def Let_def ok_or_def)
  from Index_lookup_correct [OF s c, of Data Id_default] c show ?thesis
    by (auto simp: full_type_def IndexPack_default_def)
qed

end
