(* ===== verification/PackStore.thy ===== *)
theory PackStore
  imports Packer BinarySorted
begin

text \<open>
  What the packer stores can be read back: the path of a blob through \<open>Packer::new\<close>, \<open>RawPacker\<close>
  and \<open>FileWriterHandle\<close> of crates/core/src/blob/packer.rs into the backend, and back through
  \<open>ReadIndex::blob_from_backend\<close> of crates/core/src/index.rs. The invariant says of every blob in a
  pack, open or sent, that its bytes decrypt to the data that was handed over under its id.
\<close>

section \<open>A run of the packer\<close>

text \<open>One blob handed to the packer, with the nonces, the clock readings and what the three
  duplicate checks of the pipeline saw.\<close>

record pack_item =
  pi_data :: bytes
  pi_id :: BlobId
  pi_nonce :: bytes
  pi_pack_nonce :: bytes
  pi_elapsed :: nat
  pi_now :: Timestamp
  pi_indexed1 :: "BlobId \<Rightarrow> bool"
  pi_packed :: "BlobId \<Rightarrow> bool"
  pi_indexed2 :: "BlobId \<Rightarrow> bool"

definition pack_one ::
    "prims \<Rightarrow> DecryptBackend \<Rightarrow> (u64 \<Rightarrow> u64) \<Rightarrow> pack_item \<Rightarrow> RawPacker \<Rightarrow> RawPacker rustic_result" where
  "pack_one p b isqrt it rp =
     bindR (packer_filter p b (pi_nonce it) (pi_indexed1 it) (pi_packed it) (pi_indexed2 it)
              (pi_data it, pi_id it)) (\<lambda>x.
     case x of
       None \<Rightarrow> Inr rp
     | Some (e, bid, data_len, ul) \<Rightarrow>
         rp_add_raw p isqrt (pi_pack_nonce it) (pi_elapsed it) (pi_now it) e bid data_len ul rp)"

definition pack_all ::
    "prims \<Rightarrow> DecryptBackend \<Rightarrow> (u64 \<Rightarrow> u64) \<Rightarrow> pack_item list \<Rightarrow> RawPacker \<Rightarrow> RawPacker rustic_result" where
  "pack_all p b isqrt items rp = foldR (pack_one p b isqrt) items rp"

definition pi_skipped :: "pack_item \<Rightarrow> bool" where
  "pi_skipped it \<longleftrightarrow> pi_indexed1 it (pi_id it) \<or> pi_packed it (pi_id it) \<or> pi_indexed2 it (pi_id it)"

text \<open>The file writer on all the packs of a run: each is written under the hash of its bytes.\<close>

definition write_loads ::
    "prims \<Rightarrow> 's Backend \<Rightarrow> bool \<Rightarrow> Timestamp \<Rightarrow> (BytesList \<times> IndexPack) list \<Rightarrow> ('s, IndexPack list) io" where
  "write_loads p be cacheable now loads =
     foldr (\<lambda>load k. io_bind (fwh_process be cacheable now (fst load, p_sha256 p (concat (fst load)), snd load))
              (\<lambda>ip. io_bind k (\<lambda>ips. io_return (ip # ips)))) loads (io_return [])"

section \<open>The invariant\<close>

definition readable :: "prims \<Rightarrow> DecryptBackend \<Rightarrow> bytes \<Rightarrow> BlobLocation \<Rightarrow> bytes \<Rightarrow> bool" where
  "readable p b fl l data \<longleftrightarrow> unat (bl_offset l) + unat (bl_length l) \<le> length fl \<and>
     read_encrypted_from_partial p b (subslice (unat (bl_offset l)) (unat (bl_offset l) + unat (bl_length l)) fl)
       (bl_uncompressed_length l) = Inr data"

definition holds_blobs ::
    "prims \<Rightarrow> DecryptBackend \<Rightarrow> BlobType \<Rightarrow> (bytes \<times> BlobId) set \<Rightarrow> bytes \<Rightarrow> IndexBlob list \<Rightarrow> bool" where
  "holds_blobs p b t S fl blobs \<longleftrightarrow> (\<forall>bl \<in> set blobs. ib_tpe bl = t \<and>
     (\<exists>x \<in> S. snd x = ib_id bl \<and> readable p b fl (ib_location bl) (fst x)))"

definition rp_loads :: "RawPacker \<Rightarrow> (BytesList \<times> IndexPack) list" where
  "rp_loads rp = (case rp_sent rp of None \<Rightarrow> [] | Some ls \<Rightarrow> ls)"

definition rp_all :: "RawPacker \<Rightarrow> (bytes \<times> IndexBlob list) list" where
  "rp_all rp = (concat (bp_file (rp_basic rp)), bp_blobs (rp_basic rp)) #
     map (\<lambda>l. (concat (fst l), ip_blobs (snd l))) (rp_loads rp)"

definition store_inv ::
    "prims \<Rightarrow> DecryptBackend \<Rightarrow> BlobType \<Rightarrow> (bytes \<times> BlobId) set \<Rightarrow> RawPacker \<Rightarrow> bool" where
  "store_inv p b t S rp \<longleftrightarrow> bp_blob_type (rp_basic rp) = t \<and> rp_key rp = db_key b \<and>
     (\<forall>(fl, blobs) \<in> set (rp_all rp). holds_blobs p b t S fl blobs) \<and>
     (\<forall>x \<in> S. \<exists>(fl, blobs) \<in> set (rp_all rp). snd x \<in> ib_id ` set blobs)"

lemma readable_append: "readable p b fl l data \<Longrightarrow> readable p b (fl @ r) l data"
  by (simp add: readable_def subslice_append_left)

lemma holds_blobs_append: "holds_blobs p b t S fl blobs \<Longrightarrow> holds_blobs p b t S (fl @ r) blobs"
  by (fastforce simp: holds_blobs_def intro: readable_append)

lemma holds_blobs_mono: "holds_blobs p b t S fl blobs \<Longrightarrow> S \<subseteq> S' \<Longrightarrow> holds_blobs p b t S' fl blobs"
  by (fastforce simp: holds_blobs_def)

lemma store_inv_new: "store_inv p b t {} (RawPacker_new now (db_key b) t sizer)"
  by (simp add: store_inv_def RawPacker_new_def rp_all_def rp_loads_def BasicPacker_new_def
      IndexPack_default_def holds_blobs_def)

lemma bp_add_raw_store:
  assumes inv: "bp_inv (rp_basic rp)" and st: "store_inv p b t S rp"
    and add: "bp_add_raw e bid data_len ul (rp_basic rp) = Inr bp"
    and rd: "read_encrypted_from_partial p b e ul = Inr data"
  shows "store_inv p b t (insert (data, bid) S) (rp\<lparr>rp_basic := bp\<rparr>)"
proof (cases "bp_has bid (rp_basic rp)")
  case True
  then have "bp = rp_basic rp" using bp_add_raw_old [OF add] by simp
  with st True show ?thesis
    by (auto simp: store_inv_def rp_all_def rp_loads_def bp_has_def intro: holds_blobs_mono)
next
  case False
  note n = bp_add_raw_new [OF add False]
  let ?nb = "new_blob (rp_basic rp) e bid ul" and ?S = "insert (data, bid) S"
  have "unat (of_nat (length e) :: u32) = length e" using n(1) by (rule unat_u32_of_nat)
  moreover have "unat (bp_size (rp_basic rp)) = length (concat (bp_file (rp_basic rp)))"
    using inv by (simp add: bp_inv_def)
  ultimately have nb: "readable p b (concat (bp_file bp)) (ib_location ?nb) data"
    using rd n(2) by (simp add: readable_def new_blob_def subslice_def)
  have old: "holds_blobs p b t ?S (concat (bp_file bp)) (bp_blobs (rp_basic rp))"
    using st n(2) by (auto simp: store_inv_def rp_all_def intro!: holds_blobs_append intro: holds_blobs_mono)
  have "holds_blobs p b t ?S (concat (bp_file bp)) (bp_blobs bp)"
    using old nb n(4) st by (auto simp: holds_blobs_def new_blob_def store_inv_def)
  then show ?thesis
    using st n(4,6) by (auto simp: store_inv_def rp_all_def rp_loads_def new_blob_def intro: holds_blobs_mono)
qed

lemma rp_save_store:
  assumes inv: "bp_inv (rp_basic rp)" and ok: "seal_ok p" "length nonce = 16"
    and sent: "rp_sent rp = Some sent" and save: "rp_save p nonce now rp = Inr rp'"
    and room: "length (concat (bp_file (rp_basic rp))) + 36 + 41 * length (bp_blobs (rp_basic rp)) < 2 ^ 32"
    and st: "store_inv p b t S rp"
  shows "store_inv p b t S rp'"
proof -
  note s = rp_save_ok [OF inv ok sent save room]
  obtain load tail where l: "rp_sent rp' = Some (sent @ [load])" "snd load = bp_index (rp_basic rp)"
      "concat (fst load) = concat (bp_file (rp_basic rp)) @ tail" using s(1) by blast
  have e: "bp_blobs (rp_basic rp') = []" using s(2,3) by (simp add: bp_inv_def bp_is_empty_def)
  have "holds_blobs p b t S (concat (fst load)) (ip_blobs (snd load))"
    using st l by (auto simp: store_inv_def rp_all_def intro!: holds_blobs_append)
  then show ?thesis
    using st sent s(4,5) l e by (auto simp: store_inv_def rp_all_def rp_loads_def holds_blobs_def)
qed

lemma rp_add_raw_store:
  assumes inv: "rp_inv p rp" and ok: "seal_ok p" and nonce: "length nonce = 16"
    and add: "rp_add_raw p isqrt nonce elapsed now e bid data_len ul rp = Inr rp'"
    and bid: "wf_id bid" and ul: "ul \<noteq> Some 0" and len: "length e \<le> 19 * 1024 * 1024"
    and st: "store_inv p b t S rp" and rd: "read_encrypted_from_partial p b e ul = Inr data"
  shows "store_inv p b t (insert (data, bid) S) rp'"
proof -
  obtain sent where i: "bp_inv (rp_basic rp)" "length (bp_blobs (rp_basic rp)) < 10000"
    "length (concat (bp_file (rp_basic rp))) < 4076 * 1024 * 1024" "rp_sent rp = Some sent"
    using inv by (auto simp: rp_inv_def)
  obtain bp where bp: "bp_add_raw e bid data_len ul (rp_basic rp) = Inr bp"
    and rest: "(if bp_should_save isqrt elapsed bp then rp_save p nonce now (rp\<lparr>rp_basic := bp\<rparr>)
                else Inr (rp\<lparr>rp_basic := bp\<rparr>)) = Inr rp'"
    using add by (auto simp: rp_add_raw_def result_simps Let_def)
  have binv: "bp_inv bp"
    using i by (intro bp_add_raw_inv [OF i(1) bp bid ul]) (use len in simp_all)
  note bb = bp_add_raw_bounds [OF bp]
  have 1: "store_inv p b t (insert (data, bid) S) (rp\<lparr>rp_basic := bp\<rparr>)"
    by (rule bp_add_raw_store [OF i(1) st bp rd])
  show ?thesis
  proof (cases "bp_should_save isqrt elapsed bp")
    case True
    with rest have "rp_save p nonce now (rp\<lparr>rp_basic := bp\<rparr>) = Inr rp'" by simp
    from rp_save_store [OF _ ok nonce _ this _ 1] binv i bb len show ?thesis by simp
  qed (use rest 1 in simp)
qed

section \<open>All blobs of a run\<close>

text \<open>What is asked of a blob: an id of 32 bytes, nonces of 16, room in a pack, and either the
  verification of the backend or a compressor that decodes what it encodes (an empty blob would be
  stored as if it were not compressed).\<close>

definition item_ok :: "prims \<Rightarrow> DecryptBackend \<Rightarrow> pack_item \<Rightarrow> bool" where
  "item_ok p b it \<longleftrightarrow> wf_id (pi_id it) \<and> length (pi_nonce it) = 16 \<and> length (pi_pack_nonce it) = 16 \<and>
     (db_extra_verify b \<or> zstd_ok p \<and> (pi_data it \<noteq> [] \<or> db_zstd b = None)) \<and>
     (\<forall>e n u. process_data p b (pi_nonce it) (pi_data it) = Inr (e, n, u) \<longrightarrow> length e \<le> 19 * 1024 * 1024)"

definition handed_over :: "pack_item list \<Rightarrow> (bytes \<times> BlobId) set" where
  "handed_over items = {(pi_data it, pi_id it) | it. it \<in> set items \<and> \<not> pi_skipped it}"

lemma handed_over_simps [simp]:
  "handed_over [] = {}"
  "handed_over (it # items) = (if pi_skipped it then {} else {(pi_data it, pi_id it)}) \<union> handed_over items"
  by (auto simp: handed_over_def)

lemma item_process:
  assumes "seal_ok p" "item_ok p b it" "process_data p b (pi_nonce it) (pi_data it) = Inr (e, n, ul)"
  shows "ul \<noteq> Some 0" and "read_encrypted_from_partial p b e ul = Inr (pi_data it)"
proof -
  note enc = process_data_encrypt [OF assms(3)]
  show "ul \<noteq> Some 0" by (rule db_encrypt_data_lengths [OF enc])
  show "read_encrypted_from_partial p b e ul = Inr (pi_data it)"
    using db_encrypt_data_roundtrip [OF assms(1) _ _ enc] process_data_verified [OF _ assms(3)] assms(2)
    by (auto simp: item_ok_def)
qed

lemma pack_one_store:
  assumes inv: "rp_inv p rp" and ok: "seal_ok p" "item_ok p b it" and st: "store_inv p b t S rp"
    and one: "pack_one p b isqrt it rp = Inr rp'"
  shows "rp_inv p rp' \<and> store_inv p b t (handed_over [it] \<union> S) rp'"
proof (cases "pi_skipped it")
  case True
  then have "rp' = rp"
    using one by (auto simp: pack_one_def packer_filter_def pi_skipped_def result_simps split: if_splits prod.splits)
  with inv st True show ?thesis by simp
next
  case False
  then obtain e n ul where e: "process_data p b (pi_nonce it) (pi_data it) = Inr (e, n, ul)"
    and add: "rp_add_raw p isqrt (pi_pack_nonce it) (pi_elapsed it) (pi_now it) e (pi_id it) (ucast n) ul rp = Inr rp'"
    using one by (auto simp: pack_one_def packer_filter_def pi_skipped_def result_simps split: if_splits prod.splits)
  have it: "wf_id (pi_id it)" "length (pi_pack_nonce it) = 16" "length e \<le> 19 * 1024 * 1024"
    using ok(2) e by (auto simp: item_ok_def)
  note pr = item_process [OF ok e]
  show ?thesis
    using rp_add_raw_inv [OF inv ok(1) it(2) add it(1) pr(1) it(3)]
      rp_add_raw_store [OF inv ok(1) it(2) add it(1) pr(1) it(3) st pr(2)] False by simp
qed

lemma pack_all_store:
  assumes "rp_inv p rp" "seal_ok p" "\<forall>it \<in> set items. item_ok p b it" "store_inv p b t S rp"
    and "pack_all p b isqrt items rp = Inr rp'"
  shows "rp_inv p rp' \<and> store_inv p b t (handed_over items \<union> S) rp'"
  using assms
proof (induction items arbitrary: rp S)
  case Nil
  then show ?case by (simp add: pack_all_def)
next
  case (Cons it items)
  then obtain rp1 where 1: "pack_one p b isqrt it rp = Inr rp1" and 2: "pack_all p b isqrt items rp1 = Inr rp'"
    by (auto simp: pack_all_def result_simps)
  have "rp_inv p rp1 \<and> store_inv p b t (handed_over [it] \<union> S) rp1"
    using pack_one_store [OF _ _ _ _ 1] Cons.prems by simp
  with Cons.IH [OF _ _ _ _ 2] Cons.prems(2,3) show ?case by (auto simp: Un_assoc Un_left_commute)
qed

text \<open>What the file writer has received at the end of the run.\<close>

definition stored_loads ::
    "prims \<Rightarrow> DecryptBackend \<Rightarrow> BlobType \<Rightarrow> (bytes \<times> BlobId) set \<Rightarrow> (BytesList \<times> IndexPack) list \<Rightarrow> bool" where
  "stored_loads p b t S loads \<longleftrightarrow>
     (\<forall>l \<in> set loads. good_pack p (db_key b) l \<and> holds_blobs p b t S (concat (fst l)) (ip_blobs (snd l))) \<and>
     (\<forall>x \<in> S. \<exists>l \<in> set loads. snd x \<in> ib_id ` set (ip_blobs (snd l)))"

lemma rp_finalize_stored:
  assumes inv: "rp_inv p rp" and ok: "seal_ok p" and nonce: "length nonce = 16"
    and st: "store_inv p b t S rp" and fin: "rp_finalize p nonce now rp = Inr (loads, stats, rp')"
  shows "stored_loads p b t S loads"
proof -
  have good: "\<forall>l \<in> set loads. good_pack p (db_key b) l"
    using rp_finalize_good [OF inv ok nonce fin] st by (simp add: store_inv_def)
  obtain rp1 where rp1: "store_inv p b t S rp1" "rp_sent rp1 = Some loads" "bp_blobs (rp_basic rp1) = []"
  proof (cases "bp_is_empty (rp_basic rp)")
    case True
    have "bp_inv (rp_basic rp)" using inv by (simp add: rp_inv_def)
    with True have "bp_blobs (rp_basic rp) = []" by (simp add: bp_inv_def bp_is_empty_def)
    with that [OF st] fin True show ?thesis by (auto simp: rp_finalize_def bp_take_stats_def split: option.splits)
  next
    case False
    with fin obtain r where save: "rp_save p nonce now rp = Inr r" and sent: "rp_sent r = Some loads"
      by (auto simp: rp_finalize_def result_simps bp_take_stats_def split: option.splits)
    obtain sent where i: "bp_inv (rp_basic rp)" "length (bp_blobs (rp_basic rp)) < 10000"
        "length (concat (bp_file (rp_basic rp))) < 4076 * 1024 * 1024" "rp_sent rp = Some sent"
      using inv by (auto simp: rp_inv_def)
    then have room: "length (concat (bp_file (rp_basic rp))) + 36 + 41 * length (bp_blobs (rp_basic rp)) < 2 ^ 32"
      by simp
    note s = rp_save_ok [OF i(1) ok nonce i(4) save room]
    have "bp_blobs (rp_basic r) = []" using s(2,3) by (simp add: bp_inv_def bp_is_empty_def)
    with that [OF rp_save_store [OF i(1) ok nonce i(4) save room st]] sent show ?thesis by blast
  qed
  with good show ?thesis by (fastforce simp: stored_loads_def store_inv_def rp_all_def rp_loads_def)
qed

section \<open>Writing the packs and reading a blob\<close>

definition load_id :: "prims \<Rightarrow> BytesList \<times> IndexPack \<Rightarrow> PackId" where
  "load_id p l = p_sha256 p (concat (fst l))"

text \<open>No two different packs of the run have the same hash.\<close>

definition no_collision :: "prims \<Rightarrow> (BytesList \<times> IndexPack) list \<Rightarrow> bool" where
  "no_collision p loads \<longleftrightarrow>
     (\<forall>l \<in> set loads. \<forall>l' \<in> set loads. load_id p l = load_id p l' \<longrightarrow> concat (fst l) = concat (fst l'))"

lemma write_loads_Nil: "write_loads p be c now [] s = (Inr ips, s') \<longleftrightarrow> ips = [] \<and> s' = s"
  by (auto simp: write_loads_def io_return_def)

lemma fwh_process_Inr:
  "fwh_process be c now (fl, pid, ip) s = (Inr ip', s') \<longleftrightarrow>
     be_write_bytes be FPack pid c fl s = (Inr (), s') \<and> ip' = ip\<lparr>ip_id := pid, ip_time := Some now\<rparr>"
  by (auto simp: fwh_process_def io_bind_eq_Inr io_return_def)

lemma write_loads_Cons:
  "write_loads p be c now (l # loads) s = (Inr ips, s') \<longleftrightarrow>
     (\<exists>s1 ips1. be_write_bytes be FPack (load_id p l) c (fst l) s = (Inr (), s1) \<and>
        write_loads p be c now loads s1 = (Inr ips1, s') \<and>
        ips = (snd l)\<lparr>ip_id := load_id p l, ip_time := Some now\<rparr> # ips1)"
proof -
  have "write_loads p be c now (l # loads) = io_bind (fwh_process be c now (fst l, load_id p l, snd l))
      (\<lambda>ip. io_bind (write_loads p be c now loads) (\<lambda>ips. io_return (ip # ips)))"
    by (simp add: write_loads_def load_id_def)
  then show ?thesis by (auto simp: io_bind_eq_Inr fwh_process_Inr io_return_def)
qed

context backend_spec
begin

lemma write_loads_kept:
  assumes "inv s" "vis FPack" "write_loads p be c now loads s = (Inr ips, s')"
    and "content s FPack c i = Some d" "\<forall>l \<in> set loads. load_id p l = i \<longrightarrow> concat (fst l) = d"
  shows "content s' FPack c i = Some d"
  using assms
proof (induction loads arbitrary: s ips)
  case (Cons l loads)
  from Cons.prems(3) obtain s1 ips1 where 1: "be_write_bytes be FPack (load_id p l) c (fst l) s = (Inr (), s1)"
    and 2: "write_loads p be c now loads s1 = (Inr ips1, s')"
    by (auto simp: write_loads_Cons)
  have "content s1 FPack c i = Some d"
  proof (cases "load_id p l = i")
    case True
    with write_content [OF Cons.prems(1,2) 1] Cons.prems(5) show ?thesis by simp
  next
    case False
    with write_frame [OF Cons.prems(1) 1, of FPack i c] Cons.prems(4) show ?thesis by simp
  qed
  with Cons.IH [OF write_inv [OF Cons.prems(1) 1] _ 2] Cons.prems(2,5) show ?case by simp
qed (simp add: write_loads_Nil)

lemma write_loads_content:
  assumes "inv s" "vis FPack" "write_loads p be c now loads s = (Inr ips, s')" "no_collision p loads"
  shows "inv s' \<and> ips = map (\<lambda>l. (snd l)\<lparr>ip_id := load_id p l, ip_time := Some now\<rparr>) loads \<and>
    (\<forall>l \<in> set loads. content s' FPack c (load_id p l) = Some (concat (fst l)))"
  using assms
proof (induction loads arbitrary: s ips)
  case (Cons l loads)
  from Cons.prems(3) obtain s1 ips1 where 1: "be_write_bytes be FPack (load_id p l) c (fst l) s = (Inr (), s1)"
    and 2: "write_loads p be c now loads s1 = (Inr ips1, s')"
    and ips: "ips = (snd l)\<lparr>ip_id := load_id p l, ip_time := Some now\<rparr> # ips1"
    by (auto simp: write_loads_Cons)
  have nc: "no_collision p loads" "\<forall>l' \<in> set loads. load_id p l' = load_id p l \<longrightarrow> concat (fst l') = concat (fst l)"
    using Cons.prems(4) unfolding no_collision_def by (meson list.set_intros)+
  have i1: "inv s1" by (rule write_inv [OF Cons.prems(1) 1])
  from write_loads_kept [OF i1 Cons.prems(2) 2 write_content [OF Cons.prems(1,2) 1] nc(2)]
  show ?case using Cons.IH [OF i1 Cons.prems(2) 2 nc(1)] ips by simp
qed (simp add: write_loads_Nil)

lemma blob_read_back:
  assumes st: "stored_loads p b t S loads"
    and w: "inv s" "vis FPack" "write_loads p be (is_cacheable t) now loads s = (Inr ips, s')" "no_collision p loads"
    and srt: "sort_entries_ok srt" and ext: "IndexCollector_extend ips (IndexCollector_new Full) = Inr c"
    and x: "(data, bid) \<in> S" and fn: "\<forall>x \<in> S. \<forall>y \<in> S. snd x = snd y \<longrightarrow> fst x = fst y"
  shows "blob_from_backend p b (\<lambda>t i c off len. fst (be_read_partial be t i c off len s'))
    (Index_get_id (into_index srt c)) t bid = Inr data"
proof -
  note wc = write_loads_content [OF w]
  have tpe: "ip_blob_type ip = t" if "ip \<in> set ips" "ip_blobs ip \<noteq> []" for ip
    using that st wc by (auto simp: ip_blob_type_def stored_loads_def holds_blobs_def split: list.splits)
  obtain ip where ip: "ip \<in> set ips" "bid \<in> ib_id ` set (ip_blobs ip)"
    using st x wc unfolding stored_loads_def by fastforce
  then have "ip_blob_type ip = t" by (intro tpe) auto
  with ip have "Index_has (into_index srt c) t bid"
    unfolding Index_has_correct [OF srt ext] by (auto simp: indexes_type_def)
  then obtain e where e: "Index_get_id (into_index srt c) t bid = Some e"
    using Index_get_id_complete [OF _ ext, of t srt bid] by (auto simp: full_type_def)
  obtain ip bl where ip: "ip \<in> set ips" "bl \<in> set (ip_blobs ip)" "ib_id bl = bid"
      "e = \<lparr>ie_blob_type = t, ie_pack = ip_id ip, ie_location = ib_location bl\<rparr>"
    using Index_get_id_sound [OF srt ext e] by blast
  obtain l where l: "l \<in> set loads" "ip_blobs ip = ip_blobs (snd l)" "ip_id ip = load_id p l"
    using wc ip(1) by auto
  have h: "holds_blobs p b t S (concat (fst l)) (ip_blobs (snd l))" "length (concat (fst l)) < 2 ^ 32"
    using st l(1) by (auto simp: stored_loads_def good_pack_def)
  then obtain y where "y \<in> S" "snd y = bid" "readable p b (concat (fst l)) (ib_location bl) (fst y)"
    using ip l(2) by (fastforce simp: holds_blobs_def)
  with fn x have rd: "readable p b (concat (fst l)) (ib_location bl) data" by fastforce
  have "content s' FPack (is_cacheable t) (load_id p l) = Some (concat (fst l))" using wc l(1) by simp
  from read_partial_content [OF _ this, of "bl_offset (ib_location bl)" "bl_length (ib_location bl)"] wc rd h(2)
  show ?thesis
    by (auto simp: blob_from_backend_def e read_data_def read_encrypted_partial_def ip(4) l(3) readable_def
        map_err_def split: sum.splits)
qed

end

section \<open>The whole path\<close>

text \<open>Pack the blobs, finish the last pack, write the packs and index them.\<close>

definition store_run ::
    "prims \<Rightarrow> DecryptBackend \<Rightarrow> (u64 \<Rightarrow> u64) \<Rightarrow> (SortedEntry list \<Rightarrow> SortedEntry list) \<Rightarrow> 's Backend
     \<Rightarrow> BlobType \<Rightarrow> PackSizer \<Rightarrow> bytes \<Rightarrow> Timestamp \<Rightarrow> pack_item list \<Rightarrow> 's \<Rightarrow> (Index \<times> 's) rustic_result" where
  "store_run p b isqrt srt be t sizer nonce now items s =
     bindR (pack_all p b isqrt items (RawPacker_new now (db_key b) t sizer)) (\<lambda>rp.
     bindR (rp_finalize p nonce now rp) (\<lambda>(loads, stats, rp').
     case write_loads p be (is_cacheable t) now loads s of
       (Inl e, s') \<Rightarrow> Inl e
     | (Inr ips, s') \<Rightarrow>
         bindR (IndexCollector_extend ips (IndexCollector_new Full)) (\<lambda>c. Inr (into_index srt c, s'))))"

text \<open>The packs of the run, for the hypothesis on hash collisions.\<close>

definition run_loads ::
    "prims \<Rightarrow> DecryptBackend \<Rightarrow> (u64 \<Rightarrow> u64) \<Rightarrow> BlobType \<Rightarrow> PackSizer \<Rightarrow> bytes \<Rightarrow> Timestamp
     \<Rightarrow> pack_item list \<Rightarrow> (BytesList \<times> IndexPack) list" where
  "run_loads p b isqrt t sizer nonce now items =
     (case bindR (pack_all p b isqrt items (RawPacker_new now (db_key b) t sizer)) (rp_finalize p nonce now) of
        Inl _ \<Rightarrow> [] | Inr (loads, _) \<Rightarrow> loads)"

definition same_id_same_data :: "pack_item list \<Rightarrow> bool" where
  "same_id_same_data items \<longleftrightarrow>
     (\<forall>x \<in> handed_over items. \<forall>y \<in> handed_over items. snd x = snd y \<longrightarrow> fst x = fst y)"

context backend_spec
begin

lemma store_run_read_back:
  assumes ok: "seal_ok p" "sort_entries_ok srt" "\<forall>it \<in> set items. item_ok p b it" "length nonce = 16"
    and w: "inv s" "vis FPack" "no_collision p (run_loads p b isqrt t sizer nonce now items)"
    and run: "store_run p b isqrt srt be t sizer nonce now items s = Inr (idx, s')"
    and it: "it \<in> set items" "\<not> pi_skipped it" "same_id_same_data items"
  shows "blob_from_backend p b (\<lambda>t i c off len. fst (be_read_partial be t i c off len s'))
    (Index_get_id idx) t (pi_id it) = Inr (pi_data it)"
proof -
  obtain rp loads stats rp'
    where 1: "pack_all p b isqrt items (RawPacker_new now (db_key b) t sizer) = Inr rp"
      and 2: "rp_finalize p nonce now rp = Inr (loads, stats, rp')"
      and r: "(case write_loads p be (is_cacheable t) now loads s of
          (Inl e, s') \<Rightarrow> Inl e
        | (Inr ips, s') \<Rightarrow> bindR (IndexCollector_extend ips (IndexCollector_new Full))
            (\<lambda>c. Inr (into_index srt c, s'))) = Inr (idx, s')"
    using run by (auto simp: store_run_def result_simps)
  then obtain ips c where 3: "write_loads p be (is_cacheable t) now loads s = (Inr ips, s')"
      and 4: "IndexCollector_extend ips (IndexCollector_new Full) = Inr c" and 5: "idx = into_index srt c"
    by (cases "write_loads p be (is_cacheable t) now loads s"; cases "fst (write_loads p be (is_cacheable t) now loads s)")
      (auto simp: result_simps)
  have "rp_inv p rp \<and> store_inv p b t (handed_over items \<union> {}) rp"
    by (rule pack_all_store [OF rp_inv_new ok(1,3) store_inv_new 1])
  then have st: "stored_loads p b t (handed_over items) loads"
    using rp_finalize_stored [OF _ ok(1,4) _ 2] by simp
  have nc: "no_collision p loads" using w(3) 1 2 by (simp add: run_loads_def)
  have "(pi_data it, pi_id it) \<in> handed_over items" using it by (auto simp: handed_over_def)
  from blob_read_back [OF st w(1,2) 3 nc ok(2) 4 this it(3) [unfolded same_id_same_data_def]]
  show ?thesis unfolding 5 .
qed

end

end
