(* ===== verification/ExampleRun.thy ===== *)
theory ExampleRun
  imports PackStore
begin

text \<open>
  One blob of three bytes on its way into a pack and back, with the primitives of \<open>clear_prims\<close> and
  a hot/cold pair of in-memory backends: the concrete run behind the instances of the theorems on
  packs.
\<close>

definition demo_item :: pack_item where
  "demo_item = \<lparr>pi_data = [1, 2, 7], pi_id = replicate 32 7, pi_nonce = replicate 16 0,
     pi_pack_nonce = replicate 16 1, pi_elapsed = 0, pi_now = 0, pi_indexed1 = (\<lambda>_. False),
     pi_packed = (\<lambda>_. False), pi_indexed2 = (\<lambda>_. False)\<rparr>"

definition demo_be :: DecryptBackend where
  "demo_be = \<lparr>db_key = [], db_zstd = Some 3, db_extra_verify = True\<rparr>"

definition demo_ip :: IndexPack where
  "demo_ip = \<lparr>ip_id = Id_default,
     ip_blobs = [\<lparr>ib_id = replicate 32 7, ib_tpe = Data,
       ib_location = \<lparr>bl_offset = 0, bl_length = 36, bl_uncompressed_length = Some 3\<rparr>\<rparr>],
     ip_time = None, ip_size = None\<rparr>"

definition demo_hdr :: bytes where
  "demo_hdr = PackHeader_to_binary (ip_blobs demo_ip)"

definition demo_file :: BytesList where
  "demo_file = [replicate 16 0 @ [0, 1, 2, 7] @ replicate 16 0,
     replicate 16 2 @ demo_hdr @ replicate 16 0, u32_to_le_bytes 73]"

abbreviation demo_packer :: RawPacker where
  "demo_packer \<equiv> RawPacker_new 0 [] Data (PackSizer_fixed 1000)"

abbreviation demo_hc :: "(InMemoryBackend \<times> InMemoryBackend) Backend" where
  "demo_hc \<equiv> hot_cold_backend in_memory_backend in_memory_backend"

lemma demo_process:
  "process_data clear_prims demo_be (replicate 16 0) [1, 2, 7] =
     Inr (replicate 16 0 @ [0, 1, 2, 7] @ replicate 16 0, 3, Some 3)"
  by (simp add: process_data_def db_encrypt_data_def very_data_def clear_prims_def demo_be_def
      Key_encrypt_data_def Key_decrypt_data_def read_encrypted_from_partial_def u32_try_from_def
      NonZeroU32_new_def ok_or_def)

lemma demo_pack_one:
  "\<exists>rp. pack_one clear_prims demo_be (\<lambda>_. 0) demo_item demo_packer = Inr rp \<and> rp_key rp = [] \<and>
     rp_sent rp = Some [] \<and> bp_file (rp_basic rp) = [replicate 16 0 @ [0, 1, 2, 7] @ replicate 16 0] \<and>
     bp_count (rp_basic rp) = 1 \<and> bp_index (rp_basic rp) = demo_ip"
  by (simp add: pack_one_def packer_filter_def demo_item_def demo_process rp_add_raw_def RawPacker_new_def
      BasicPacker_new_def PackSizer_fixed_def bp_add_raw_def bp_has_def IndexPack_default_def Let_def
      u64_try_from_def ok_or_def bp_write_data_def u32_try_from_def bp_should_save_def ps_pack_size_def
      PACKER_MAX_COUNT_def PACKER_MAX_SIZE_def PACKER_MAX_AGE_def word_le_nat_alt demo_ip_def
      BytesList_add_def IndexPack_add_def)

lemma length_demo_hdr: "length demo_hdr = 41"
  by (simp add: demo_hdr_def demo_ip_def PackHeader_to_binary_def from_blob_def bytes_simps)

lemma demo_finalize:
  "\<exists>rp stats rp'. pack_all clear_prims demo_be (\<lambda>_. 0) [demo_item] demo_packer = Inr rp \<and>
     rp_finalize clear_prims (replicate 16 2) 0 rp = Inr ([(demo_file, demo_ip)], stats, rp')"
proof -
  obtain rp where rp: "pack_one clear_prims demo_be (\<lambda>_. 0) demo_item demo_packer = Inr rp"
    "rp_key rp = []" "rp_sent rp = Some []"
    "bp_file (rp_basic rp) = [replicate 16 0 @ [0, 1, 2, 7] @ replicate 16 0]"
    "bp_count (rp_basic rp) = 1" "bp_index (rp_basic rp) = demo_ip" using demo_pack_one by blast
  have "\<exists>stats rp'. rp_finalize clear_prims (replicate 16 2) 0 rp = Inr ([(demo_file, demo_ip)], stats, rp')"
    using rp(2-) length_demo_hdr
    by (simp add: rp_finalize_def rp_save_def bp_is_empty_def bp_header_bytes_def Key_encrypt_data_def
        clear_prims_def ok_or_def bp_write_header_def bp_write_data_def u32_try_from_def bp_take_data_def
        Let_def bp_take_stats_def PackHeaderLength_to_binary_def demo_file_def BytesList_add_def
        flip: demo_hdr_def)
  with rp(1) show ?thesis by (auto simp: pack_all_def)
qed

lemma demo_write:
  "\<exists>s. write_loads clear_prims demo_hc False 0 [(demo_file, demo_ip)] (InMemory_new, InMemory_new) =
     (Inr [demo_ip\<lparr>ip_id := load_id clear_prims (demo_file, demo_ip), ip_time := Some 0\<rparr>], s)"
  by (simp add: write_loads_Cons write_loads_Nil hot_cold_backend_def hc_write_bytes_def on_cold_def
      io_bind_def io_return_def in_memory_backend_def im_write_bytes_def InMemory_new_def Let_def)

lemma demo_index:
  "\<exists>c. IndexCollector_extend [demo_ip\<lparr>ip_id := i, ip_time := tm\<rparr>] (IndexCollector_new Full) = Inr c"
  by (simp add: IndexCollector_extend_def extend_pack_def IndexCollector_new_def u32_try_from_def demo_ip_def
      ip_blob_type_def Let_def TypeIndexCollector_default_def ok_or_def)

lemma demo_item_ok: "item_ok clear_prims demo_be demo_item"
  by (auto simp: item_ok_def demo_item_def wf_id_def LEN_def demo_process) (simp add: demo_be_def)

lemma demo_run:
  "\<exists>idx s'. store_run clear_prims demo_be (\<lambda>_. 0) (sort_key se_id) demo_hc Data (PackSizer_fixed 1000)
     (replicate 16 2) 0 [demo_item] (InMemory_new, InMemory_new) = Inr (idx, s')"
proof -
  have k: "db_key demo_be = []" by (simp add: demo_be_def)
  show ?thesis
    using demo_finalize demo_write demo_index [of "Some 0" "load_id clear_prims (demo_file, demo_ip)"]
    by (auto simp: store_run_def k)
qed

lemma demo_no_collision:
  "no_collision clear_prims (run_loads clear_prims demo_be (\<lambda>_. 0) Data (PackSizer_fixed 1000)
     (replicate 16 2) 0 [demo_item])"
proof -
  have k: "db_key demo_be = []" by (simp add: demo_be_def)
  show ?thesis using demo_finalize by (auto simp: run_loads_def k no_collision_def)
qed

lemma sort_key_entries_ok: "sort_entries_ok (sort_key se_id)"
  by (simp add: sort_entries_ok_def)

lemma demo_good_pack: "good_pack clear_prims [] (demo_file, demo_ip)"
proof -
  obtain rp stats rp' where 1: "pack_all clear_prims demo_be (\<lambda>_. 0) [demo_item] demo_packer = Inr rp"
    and 2: "rp_finalize clear_prims (replicate 16 2) 0 rp = Inr ([(demo_file, demo_ip)], stats, rp')"
    using demo_finalize by blast
  have st: "store_inv clear_prims demo_be Data {} demo_packer"
    using store_inv_new [of clear_prims demo_be Data 0 "PackSizer_fixed 1000"] by (simp add: demo_be_def)
  have "rp_inv clear_prims rp" "rp_key rp = []"
    using pack_all_store [OF rp_inv_new clear_prims_ok(1) _ st 1] demo_item_ok
    by (auto simp: store_inv_def demo_be_def)
  with rp_finalize_good [OF _ clear_prims_ok(1) _ 2] show ?thesis by simp
qed

end
