(* ===== verification/Prune.thy ===== *)
theory Prune
  imports Packer "HOL-Library.AList"
begin

text \<open>
  Pruning: crates/core/src/commands/prune.rs. The plan decides for every pack of the index whether it
  is kept, repacked, marked for deletion, recovered or deleted; running the plan writes the new index,
  copies the blobs that are still needed and removes what is not.

  A \<open>BTreeMap\<close> is an association list with distinct keys, an \<open>EnumSet\<close> a set. Calendar arithmetic is
  the crate jiff: the two time limits (now minus \<open>keep_pack\<close>, now minus \<open>keep_delete\<close>) are arguments.
  The order of equal candidates is left open by \<open>sort_unstable_by_key\<close>, so the sort is a parameter that
  permutes its input. The main results: no used blob is ever only in packs that are removed, and every
  pack gets a decision.
\<close>

section \<open>Options, tasks and statistics\<close>

definition MIN_INDEX_LEN :: nat where
  "MIN_INDEX_LEN = 10000"

datatype LimitOption = LSize u64 | LPercentage u64 | LUnlimited

text \<open>Limits are given as a percentage, \<open>unlimited\<close>, or a size, which the crate bytesize reads.\<close>

definition LimitOption_from_str :: "(string \<Rightarrow> u64 option) \<Rightarrow> string \<Rightarrow> LimitOption rustic_result" where
  "LimitOption_from_str parse_size s =
     (let last_char = (if s = [] then CHR ''0'' else last s) in
      if last_char = CHR ''%'' then
        bindR (ok_or (RusticError EInvalidInput ''Failed to parse percentage limit `{limit}`'') (parse_u64 (butlast s)))
          (\<lambda>p. Inr (LPercentage p))
      else if last_char = CHR ''d'' \<and> s = ''unlimited'' then Inr LUnlimited
      else bindR (ok_or (RusticError EInvalidInput ''Failed to parse size limit `{limit}`'') (parse_size s))
             (\<lambda>n. Inr (LSize n)))"

datatype PackStatus =
  NotCompressed | TooYoung | TimeNotSet | TooLarge | TooSmall | HasUnusedBlobs | HasUsedBlobs | Marked

datatype PackToDo =
  Undecided | Keep | Repack | MarkDelete | KeepMarked | KeepMarkedAndCorrect | Recover | Delete

datatype RepackReason = PartlyUsed | ToCompress | SizeMismatch

type_synonym u16 = "16 word"

record PackInfo =
  pin_blob_type :: BlobType
  pin_used_blobs :: u16
  pin_unused_blobs :: u16
  pin_used_size :: u32
  pin_unused_size :: u32

text \<open>\<^verbatim>\<open>Ord::cmp\<close>: tree packs first, then by the share of unused space.\<close>

definition PackInfo_cmp :: "PackInfo \<Rightarrow> PackInfo \<Rightarrow> Ordering" where
  "PackInfo_cmp self other =
     then_cmp (ord_cmp (pin_blob_type self) (pin_blob_type other))
       (ord_cmp ((ucast (pin_unused_size other) :: u64) * ucast (pin_used_size self))
            (ucast (pin_unused_size self) * ucast (pin_used_size other)))"

record DebugDetailedStats =
  dds_packs :: u64
  dds_unused_blobs :: u64
  dds_unused_size :: u64
  dds_used_blobs :: u64
  dds_used_size :: u64

type_synonym DebugStats = "PackToDo \<times> BlobType \<times> PackStatus set \<Rightarrow> DebugDetailedStats option"

definition DebugStats_add :: "PackInfo \<Rightarrow> PackToDo \<Rightarrow> PackStatus set \<Rightarrow> DebugStats \<Rightarrow> DebugStats" where
  "DebugStats_add pi todo status d =
     (let key = (todo, pin_blob_type pi, status);
          details = (case d key of
              None \<Rightarrow> \<lparr>dds_packs = 0, dds_unused_blobs = 0, dds_unused_size = 0, dds_used_blobs = 0, dds_used_size = 0\<rparr>
            | Some x \<Rightarrow> x)
      in d(key \<mapsto> \<lparr>dds_packs = dds_packs details + 1,
           dds_unused_blobs = dds_unused_blobs details + ucast (pin_unused_blobs pi),
           dds_unused_size = dds_unused_size details + ucast (pin_unused_size pi),
           dds_used_blobs = dds_used_blobs details + ucast (pin_used_blobs pi),
           dds_used_size = dds_used_size details + ucast (pin_used_size pi)\<rparr>))"

record DeleteStats =
  ds_remove :: u64
  ds_recover :: u64
  ds_keep :: u64

definition ds_total :: "DeleteStats \<Rightarrow> u64" where
  "ds_total s = ds_remove s + ds_recover s + ds_keep s"

record PackStats =
  pks_used :: u64
  pks_partly_used :: u64
  pks_unused :: u64
  pks_repack :: u64
  pks_keep :: u64

record SizeStats =
  ss_used :: u64
  ss_unused :: u64
  ss_remove :: u64
  ss_repack :: u64
  ss_repackrm :: u64

definition ss_total :: "SizeStats \<Rightarrow> u64" where
  "ss_total s = ss_used s + ss_unused s"

definition unused_after_prune :: "SizeStats \<Rightarrow> u64" where
  "unused_after_prune s = ss_unused s - ss_remove s - ss_repackrm s"

definition total_after_prune :: "SizeStats \<Rightarrow> u64" where
  "total_after_prune s = ss_used s + unused_after_prune s"

definition SizeStats_default :: SizeStats where
  "SizeStats_default = \<lparr>ss_used = 0, ss_unused = 0, ss_remove = 0, ss_repack = 0, ss_repackrm = 0\<rparr>"

definition SizeStats_add :: "SizeStats \<Rightarrow> SizeStats \<Rightarrow> SizeStats" where
  "SizeStats_add x y =
     \<lparr>ss_used = ss_used x + ss_used y, ss_unused = ss_unused x + ss_unused y, ss_remove = ss_remove x + ss_remove y,
      ss_repack = ss_repack x + ss_repack y, ss_repackrm = ss_repackrm x + ss_repackrm y\<rparr>"

record PruneStats =
  st_packs_to_delete :: DeleteStats
  st_size_to_delete :: DeleteStats
  st_packs :: PackStats
  st_blobs :: "SizeStats BlobTypeMap"
  st_size :: "SizeStats BlobTypeMap"
  st_packs_unref :: u64
  st_size_unref :: u64
  st_index_files :: u64
  st_index_files_rebuild :: u64
  st_debug :: DebugStats

definition PruneStats_default :: PruneStats where
  "PruneStats_default =
     \<lparr>st_packs_to_delete = \<lparr>ds_remove = 0, ds_recover = 0, ds_keep = 0\<rparr>,
      st_size_to_delete = \<lparr>ds_remove = 0, ds_recover = 0, ds_keep = 0\<rparr>,
      st_packs = \<lparr>pks_used = 0, pks_partly_used = 0, pks_unused = 0, pks_repack = 0, pks_keep = 0\<rparr>,
      st_blobs = (\<lambda>_. SizeStats_default), st_size = (\<lambda>_. SizeStats_default),
      st_packs_unref = 0, st_size_unref = 0, st_index_files = 0, st_index_files_rebuild = 0,
      st_debug = (\<lambda>_. None)\<rparr>"

definition blobs_sum :: "PruneStats \<Rightarrow> SizeStats" where
  "blobs_sum st = fold (\<lambda>t acc. SizeStats_add acc (st_blobs st t)) ALL_BLOB_TYPES SizeStats_default"

definition size_sum :: "PruneStats \<Rightarrow> SizeStats" where
  "size_sum st = fold (\<lambda>t acc. SizeStats_add acc (st_size st t)) ALL_BLOB_TYPES SizeStats_default"

section \<open>Packs and indexes of a plan\<close>

record PrunePack =
  pp_id :: PackId
  pp_blob_type :: BlobType
  pp_size :: u32
  pp_delete_mark :: bool
  pp_to_do :: PackToDo
  pp_time :: "Timestamp option"
  pp_blobs :: "IndexBlob list"

record PruneIndex =
  pix_id :: Id
  pix_modified :: bool
  pix_packs :: "PrunePack list"

definition pix_len :: "PruneIndex \<Rightarrow> nat" where
  "pix_len x = sum_list (map (\<lambda>p. length (pp_blobs p)) (pix_packs x))"

definition from_index_pack :: "IndexPack \<Rightarrow> bool \<Rightarrow> PrunePack" where
  "from_index_pack p delete_mark =
     \<lparr>pp_id = ip_id p, pp_blob_type = ip_blob_type p, pp_size = ip_pack_size p, pp_delete_mark = delete_mark,
      pp_to_do = Undecided, pp_time = ip_time p, pp_blobs = ip_blobs p\<rparr>"

definition into_index_pack :: "Timestamp \<Rightarrow> PrunePack \<Rightarrow> IndexPack" where
  "into_index_pack time p =
     \<lparr>ip_id = pp_id p, ip_blobs = pp_blobs p,
      ip_time = (case pp_time p of None \<Rightarrow> Some time | Some t \<Rightarrow> Some t), ip_size = None\<rparr>"

definition into_index_pack_with_time :: "Timestamp \<Rightarrow> PrunePack \<Rightarrow> IndexPack" where
  "into_index_pack_with_time time p =
     \<lparr>ip_id = pp_id p, ip_blobs = pp_blobs p, ip_time = Some time, ip_size = None\<rparr>"

definition pp_is_compressed :: "PrunePack \<Rightarrow> bool" where
  "pp_is_compressed p = list_all (\<lambda>b. bl_uncompressed_length (ib_location b) \<noteq> None) (pp_blobs p)"

fun todo_stats :: "PackToDo \<Rightarrow> PackInfo \<Rightarrow> PrunePack \<Rightarrow> PruneStats \<Rightarrow> PruneStats" where
  "todo_stats Keep pi p st = st\<lparr>st_packs := (st_packs st)\<lparr>pks_keep := pks_keep (st_packs st) + 1\<rparr>\<rparr>"
| "todo_stats Repack pi p st =
    (let t = pp_blob_type p; b = st_blobs st t; s = st_size st t
     in st\<lparr>st_packs := (st_packs st)\<lparr>pks_repack := pks_repack (st_packs st) + 1\<rparr>,
           st_blobs := (st_blobs st)(t := b\<lparr>ss_repack := ss_repack b + ucast (pin_unused_blobs pi + pin_used_blobs pi),
             ss_repackrm := ss_repackrm b + ucast (pin_unused_blobs pi)\<rparr>),
           st_size := (st_size st)(t := s\<lparr>ss_repack := ss_repack s + ucast (pin_unused_size pi + pin_used_size pi),
             ss_repackrm := ss_repackrm s + ucast (pin_unused_size pi)\<rparr>)\<rparr>)"
| "todo_stats MarkDelete pi p st =
    (let t = pp_blob_type p; b = st_blobs st t; s = st_size st t
     in st\<lparr>st_blobs := (st_blobs st)(t := b\<lparr>ss_remove := ss_remove b + ucast (pin_unused_blobs pi)\<rparr>),
           st_size := (st_size st)(t := s\<lparr>ss_remove := ss_remove s + ucast (pin_unused_size pi)\<rparr>)\<rparr>)"
| "todo_stats Recover pi p st =
    st\<lparr>st_packs_to_delete := (st_packs_to_delete st)\<lparr>ds_recover := ds_recover (st_packs_to_delete st) + 1\<rparr>,
       st_size_to_delete := (st_size_to_delete st)\<lparr>ds_recover := ds_recover (st_size_to_delete st) + ucast (pp_size p)\<rparr>\<rparr>"
| "todo_stats Delete pi p st =
    st\<lparr>st_packs_to_delete := (st_packs_to_delete st)\<lparr>ds_remove := ds_remove (st_packs_to_delete st) + 1\<rparr>,
       st_size_to_delete := (st_size_to_delete st)\<lparr>ds_remove := ds_remove (st_size_to_delete st) + ucast (pp_size p)\<rparr>\<rparr>"
| "todo_stats _ pi p st =
    st\<lparr>st_packs_to_delete := (st_packs_to_delete st)\<lparr>ds_keep := ds_keep (st_packs_to_delete st) + 1\<rparr>,
       st_size_to_delete := (st_size_to_delete st)\<lparr>ds_keep := ds_keep (st_size_to_delete st) + ucast (pp_size p)\<rparr>\<rparr>"

definition set_todo ::
    "PackToDo \<Rightarrow> PackInfo \<Rightarrow> PackStatus set \<Rightarrow> PrunePack \<Rightarrow> PruneStats \<Rightarrow> (PrunePack \<times> PruneStats) rustic_result" where
  "set_todo todo pi status p st =
     (if todo = Undecided then Inl (Panic ''not possible'')
      else Inr (p\<lparr>pp_to_do := todo\<rparr>,
             todo_stats todo pi p (st\<lparr>st_debug := DebugStats_add pi todo status (st_debug st)\<rparr>)))"

section \<open>The plan\<close>

type_synonym UsedIds = "(BlobId \<times> u8) list"
type_synonym Candidate = "PackInfo \<times> PackStatus set \<times> RepackReason \<times> nat \<times> nat"

record PrunePlan =
  pl_time :: Timestamp
  pl_used_ids :: UsedIds
  pl_existing_packs :: "(PackId \<times> u32) list"
  pl_repack_candidates :: "Candidate list"
  pl_index_files :: "PruneIndex list"
  pl_stats :: PruneStats

text \<open>The filter of \<^verbatim>\<open>PrunePlan::new\<close>: packs that were not seen before, whether one was dropped, and
  all ids seen.\<close>

fun dedup_packs :: "IndexPack list \<Rightarrow> PackId set \<Rightarrow> IndexPack list \<times> bool \<times> PackId set" where
  "dedup_packs [] seen = ([], False, seen)"
| "dedup_packs (p # ps) seen =
    (case dedup_packs ps (insert (ip_id p) seen) of (ps', m, seen') \<Rightarrow>
       if ip_id p \<in> seen then (ps', True, seen') else (p # ps', m, seen'))"

fun collect_indexes ::
    "(Id \<times> IndexFile) list \<Rightarrow> PackId set \<Rightarrow> PackId set \<Rightarrow> PruneIndex list \<times> PackId set" where
  "collect_indexes [] seen seen_delete = ([], seen)"
| "collect_indexes ((i, index) # rest) seen seen_delete =
    (case dedup_packs (ifi_packs index) seen of (ps, m, seen1) \<Rightarrow>
     case dedup_packs (ifi_packs_to_delete index) seen_delete of (ds, m', seen_delete1) \<Rightarrow>
     case collect_indexes rest seen1 seen_delete1 of (xs, seen2) \<Rightarrow>
       (\<lparr>pix_id = i, pix_modified = m \<or> m',
         pix_packs = map (\<lambda>p. from_index_pack p False) ps @ map (\<lambda>p. from_index_pack p True) ds\<rparr> # xs, seen2))"

definition drop_indexed_marks :: "PackId set \<Rightarrow> PruneIndex \<Rightarrow> PruneIndex" where
  "drop_indexed_marks seen x =
     x\<lparr>pix_packs := filter (\<lambda>p. \<not> pp_delete_mark p \<or> pp_id p \<notin> seen) (pix_packs x),
       pix_modified := pix_modified x \<or> (\<exists>p \<in> set (pix_packs x). pp_delete_mark p \<and> pp_id p \<in> seen)\<rparr>"

definition PrunePlan_new ::
    "Timestamp \<Rightarrow> UsedIds \<Rightarrow> (PackId \<times> u32) list \<Rightarrow> (Id \<times> IndexFile) list \<Rightarrow> PrunePlan" where
  "PrunePlan_new now used_ids existing_packs index_files =
     (case collect_indexes index_files {} {} of (xs, seen) \<Rightarrow>
       \<lparr>pl_time = now, pl_used_ids = used_ids, pl_existing_packs = existing_packs,
        pl_repack_candidates = [], pl_index_files = map (drop_indexed_marks seen) xs,
        pl_stats = PruneStats_default\<rparr>)"

abbreviation plan_packs :: "PrunePlan \<Rightarrow> PrunePack list" where
  "plan_packs pl \<equiv> concat (map pix_packs (pl_index_files pl))"

definition saturating_add_u8 :: "u8 \<Rightarrow> u8" where
  "saturating_add_u8 c = (if c = 255 then 255 else c + 1)"

definition count_blob :: "IndexBlob \<Rightarrow> UsedIds \<Rightarrow> UsedIds" where
  "count_blob b u = (case map_of u (ib_id b) of
     None \<Rightarrow> u | Some c \<Rightarrow> AList.update (ib_id b) (saturating_add_u8 c) u)"

definition count_used_blobs :: "PrunePlan \<Rightarrow> PrunePlan" where
  "count_used_blobs pl =
     pl\<lparr>pl_used_ids := fold count_blob (concat (map pp_blobs (plan_packs pl))) (pl_used_ids pl)\<rparr>"

definition plan_check :: "PrunePlan \<Rightarrow> unit rustic_result" where
  "plan_check pl =
     (if \<exists>(i, c) \<in> set (pl_used_ids pl). c = 0
      then Inl (RusticError EInternal ''Blob ID `{blob_id}` is missing in index files.'')
      else Inr ())"

section \<open>What a pack is needed for\<close>

definition add_used :: "IndexBlob \<Rightarrow> PackInfo \<Rightarrow> PackInfo" where
  "add_used b pi = pi\<lparr>pin_used_size := pin_used_size pi + bl_length (ib_location b),
     pin_used_blobs := pin_used_blobs pi + 1\<rparr>"

definition add_unused :: "IndexBlob \<Rightarrow> PackInfo \<Rightarrow> PackInfo" where
  "add_unused b pi = pi\<lparr>pin_unused_size := pin_unused_size pi + bl_length (ib_location b),
     pin_unused_blobs := pin_unused_blobs pi + 1\<rparr>"

definition sub_unused :: "IndexBlob \<Rightarrow> PackInfo \<Rightarrow> PackInfo" where
  "sub_unused b pi = pi\<lparr>pin_unused_size := pin_unused_size pi - bl_length (ib_location b),
     pin_unused_blobs := pin_unused_blobs pi - 1\<rparr>"

text \<open>The search for the first blob whose counter drops to 0: its position, if there is one.\<close>

fun first_needed :: "IndexBlob list \<Rightarrow> PackInfo \<Rightarrow> UsedIds \<Rightarrow> nat option \<times> PackInfo \<times> UsedIds" where
  "first_needed [] pi u = (None, pi, u)"
| "first_needed (b # bs) pi u =
    (case map_of u (ib_id b) of
       None \<Rightarrow> (case first_needed bs (add_unused b pi) u of (k, r) \<Rightarrow> (map_option Suc k, r))
     | Some c \<Rightarrow>
         if c = 0 then (case first_needed bs (add_unused b pi) u of (k, r) \<Rightarrow> (map_option Suc k, r))
         else let u = AList.update (ib_id b) (c - 1) u
              in if c - 1 = 0 then (Some 0, add_used b pi, u)
                 else (case first_needed bs (add_unused b pi) u of (k, r) \<Rightarrow> (map_option Suc k, r)))"

fun remark_used :: "IndexBlob list \<Rightarrow> PackInfo \<Rightarrow> UsedIds \<Rightarrow> PackInfo \<times> UsedIds" where
  "remark_used [] pi u = (pi, u)"
| "remark_used (b # bs) pi u =
    (case map_of u (ib_id b) of
       None \<Rightarrow> remark_used bs pi u
     | Some c \<Rightarrow> if c = 0 then remark_used bs pi u
                 else remark_used bs (add_used b (sub_unused b pi)) (AList.update (ib_id b) 0 u))"

fun mark_rest :: "IndexBlob list \<Rightarrow> PackInfo \<Rightarrow> UsedIds \<Rightarrow> PackInfo \<times> UsedIds" where
  "mark_rest [] pi u = (pi, u)"
| "mark_rest (b # bs) pi u =
    (case map_of u (ib_id b) of
       None \<Rightarrow> mark_rest bs (add_unused b pi) u
     | Some c \<Rightarrow> if c = 0 then mark_rest bs (add_unused b pi) u
                 else mark_rest bs (add_used b pi) (AList.update (ib_id b) 0 u))"

definition PackInfo_from_pack :: "PrunePack \<Rightarrow> UsedIds \<Rightarrow> PackInfo \<times> UsedIds" where
  "PackInfo_from_pack p u =
     (let pi = \<lparr>pin_blob_type = pp_blob_type p, pin_used_blobs = 0, pin_unused_blobs = 0,
                pin_used_size = 0, pin_unused_size = 0\<rparr>
      in case first_needed (pp_blobs p) pi u of
           (None, pi, u) \<Rightarrow> (pi, u)
         | (Some k, pi, u) \<Rightarrow>
             (case remark_used (take k (pp_blobs p)) pi u of (pi, u) \<Rightarrow>
                mark_rest (drop (k + 1) (pp_blobs p)) pi u))"

section \<open>Deciding\<close>

record decide_opts =
  do_young_limit :: Timestamp
  do_delete_limit :: Timestamp
  do_repack_cacheable_only :: bool
  do_repack_uncompressed :: bool
  do_repack_all :: bool
  do_isqrt :: "u64 \<Rightarrow> u64"
  do_pack_sizer :: "PackSizer BlobTypeMap"

type_synonym decide_state = "UsedIds \<times> Candidate list \<times> PruneStats"

definition add_pack_stats :: "PackInfo \<Rightarrow> PruneStats \<Rightarrow> PruneStats" where
  "add_pack_stats pi st =
     (let t = pin_blob_type pi; b = st_blobs st t; s = st_size st t
      in st\<lparr>st_blobs := (st_blobs st)(t := b\<lparr>ss_used := ss_used b + ucast (pin_used_blobs pi),
              ss_unused := ss_unused b + ucast (pin_unused_blobs pi)\<rparr>),
            st_size := (st_size st)(t := s\<lparr>ss_used := ss_used s + ucast (pin_used_size pi),
              ss_unused := ss_unused s + ucast (pin_unused_size pi)\<rparr>)\<rparr>)"

text \<open>The checks in the body of the loop over the packs.\<close>

definition too_young :: "decide_opts \<Rightarrow> PrunePack \<Rightarrow> bool" where
  "too_young d p = (case pp_time p of None \<Rightarrow> False | Some t \<Rightarrow> t > do_young_limit d)"

definition to_compress :: "decide_opts \<Rightarrow> PrunePack \<Rightarrow> bool" where
  "to_compress d p \<longleftrightarrow> do_repack_uncompressed d \<and> \<not> pp_is_compressed p"

definition base_status :: "decide_opts \<Rightarrow> PrunePack \<Rightarrow> PackStatus set" where
  "base_status d p =
     (let sizer = do_pack_sizer d (pp_blob_type p) in
      (if too_young d p \<and> \<not> pp_delete_mark p then {TooYoung} else {}) \<union>
      (if to_compress d p then {NotCompressed} else {}) \<union>
      (if is_too_small (do_isqrt d) sizer (pp_size p) then {TooSmall} else {}) \<union>
      (if is_too_large (do_isqrt d) sizer (pp_size p) then {TooLarge} else {}))"

datatype decision = Todo PackToDo | Candidate RepackReason

text \<open>The match on the mark of the pack and the numbers of used and unused blobs: what to do, and what
  is added to the status.\<close>

definition pack_decision :: "decide_opts \<Rightarrow> PrunePack \<Rightarrow> PackInfo \<Rightarrow> decision \<times> PackStatus set" where
  "pack_decision d p pi =
     (let keep_uncacheable = (do_repack_cacheable_only d \<and> \<not> is_cacheable (pp_blob_type p));
          size_mismatch = (\<not> size_ok (do_isqrt d) (do_pack_sizer d (pp_blob_type p)) (pp_size p))
      in if \<not> pp_delete_mark p then
           if pin_used_blobs pi = 0
           then (Todo (if too_young d p then Keep else MarkDelete), {HasUnusedBlobs})
           else if pin_unused_blobs pi = 0
           then (if too_young d p \<or> keep_uncacheable then Todo Keep
                 else if to_compress d p \<or> do_repack_all d then Candidate ToCompress
                 else if size_mismatch then Candidate SizeMismatch
                 else Todo Keep, {HasUsedBlobs})
           else (if too_young d p \<or> keep_uncacheable then Todo Keep else Candidate PartlyUsed,
                 {HasUsedBlobs, HasUnusedBlobs})
         else if pin_used_blobs pi = 0
         then (case pp_time p of
                 None \<Rightarrow> (Todo KeepMarkedAndCorrect, {Marked, TimeNotSet})
               | Some t \<Rightarrow> if do_delete_limit d \<ge> t then (Todo Delete, {Marked, TooYoung})
                           else (Todo KeepMarked, {Marked}))
         else (Todo Recover, {Marked, HasUsedBlobs}))"

definition class_stats :: "PrunePack \<Rightarrow> PackInfo \<Rightarrow> PruneStats \<Rightarrow> PruneStats" where
  "class_stats p pi st =
     (let ps = st_packs st in
      if pp_delete_mark p then st
      else if pin_used_blobs pi = 0 then st\<lparr>st_packs := ps\<lparr>pks_unused := pks_unused ps + 1\<rparr>\<rparr>
      else if pin_unused_blobs pi = 0 then st\<lparr>st_packs := ps\<lparr>pks_used := pks_used ps + 1\<rparr>\<rparr>
      else st\<lparr>st_packs := ps\<lparr>pks_partly_used := pks_partly_used ps + 1\<rparr>\<rparr>)"

definition decide_pack ::
    "decide_opts \<Rightarrow> nat \<Rightarrow> nat \<Rightarrow> PrunePack \<Rightarrow> decide_state \<Rightarrow> (PrunePack \<times> decide_state) rustic_result" where
  "decide_pack d index_num pack_num p s =
     (case s of (u, cands, st) \<Rightarrow>
      case PackInfo_from_pack p u of (pi, u) \<Rightarrow>
      case pack_decision d p pi of (what, added) \<Rightarrow>
      let st = class_stats p pi (add_pack_stats pi st);
          status = base_status d p \<union> added
      in case what of
           Todo t \<Rightarrow> bindR (set_todo t pi status p st) (\<lambda>(p, st). Inr (p, u, cands, st))
         | Candidate reason \<Rightarrow> Inr (p, u, cands @ [(pi, status, reason, index_num, pack_num)], st))"

text \<open>\<^verbatim>\<open>iter_mut().enumerate()\<close> with a state.\<close>

fun enum_mapR :: "(nat \<Rightarrow> 'a \<Rightarrow> 's \<Rightarrow> ('a \<times> 's) rustic_result) \<Rightarrow> nat \<Rightarrow> 'a list \<Rightarrow> 's \<Rightarrow> ('a list \<times> 's) rustic_result" where
  "enum_mapR f n [] s = Inr ([], s)"
| "enum_mapR f n (x # xs) s =
    bindR (f n x s) (\<lambda>(x', s). bindR (enum_mapR f (Suc n) xs s) (\<lambda>(xs', s). Inr (x' # xs', s)))"

text \<open>The loops over the mark, the index files and the packs with that mark.\<close>

definition decide_marked ::
    "decide_opts \<Rightarrow> bool \<Rightarrow> nat \<Rightarrow> nat \<Rightarrow> PrunePack \<Rightarrow> decide_state \<Rightarrow> (PrunePack \<times> decide_state) rustic_result" where
  "decide_marked d m i j p s = (if pp_delete_mark p = m then decide_pack d i j p s else Inr (p, s))"

definition decide_index ::
    "decide_opts \<Rightarrow> bool \<Rightarrow> nat \<Rightarrow> PruneIndex \<Rightarrow> decide_state \<Rightarrow> (PruneIndex \<times> decide_state) rustic_result" where
  "decide_index d m i x s =
     bindR (enum_mapR (decide_marked d m i) 0 (pix_packs x) s) (\<lambda>(ps, s). Inr (x\<lparr>pix_packs := ps\<rparr>, s))"

definition decide_packs :: "decide_opts \<Rightarrow> PrunePlan \<Rightarrow> PrunePlan rustic_result" where
  "decide_packs d pl =
     bindR (enum_mapR (decide_index d True) 0 (pl_index_files pl)
              (pl_used_ids pl, pl_repack_candidates pl, pl_stats pl)) (\<lambda>(xs, s).
     bindR (enum_mapR (decide_index d False) 0 xs s) (\<lambda>(xs, u, cands, st).
       Inr (pl\<lparr>pl_index_files := xs, pl_used_ids := u, pl_repack_candidates := cands, pl_stats := st\<rparr>)))"

text \<open>The limits of \<^verbatim>\<open>decide_repack\<close>; the division by \<open>100 - p\<close> panics for \<open>100%\<close>.\<close>

definition max_unused_limit :: "bool \<Rightarrow> LimitOption \<Rightarrow> PruneStats \<Rightarrow> u64 rustic_result" where
  "max_unused_limit repack_uncompressed l st =
     (if repack_uncompressed then Inr 0
      else case l of
        LUnlimited \<Rightarrow> Inr (- 1)
      | LSize n \<Rightarrow> Inr n
      | LPercentage p \<Rightarrow>
          if 100 - p = 0 then Inl (Panic ''attempt to divide by zero'')
          else Inr ((p * ss_used (size_sum st)) div (100 - p)))"

definition max_repack_limit :: "LimitOption \<Rightarrow> PruneStats \<Rightarrow> u64" where
  "max_repack_limit l st =
     (case l of
        LUnlimited \<Rightarrow> - 1
      | LSize n \<Rightarrow> n
      | LPercentage p \<Rightarrow> (p * ss_total (size_sum st)) div 100)"

type_synonym resize_entry = "PackInfo \<times> PackStatus set \<times> nat \<times> nat"

definition set_pack_todo ::
    "PackToDo \<Rightarrow> PackInfo \<Rightarrow> PackStatus set \<Rightarrow> nat \<Rightarrow> nat \<Rightarrow> PruneIndex list \<times> PruneStats
     \<Rightarrow> (PruneIndex list \<times> PruneStats) rustic_result" where
  "set_pack_todo todo pi status i j xs_st =
     (let xs = fst xs_st in
      if i < length xs \<and> j < length (pix_packs (xs ! i)) then
        bindR (set_todo todo pi status (pix_packs (xs ! i) ! j) (snd xs_st)) (\<lambda>(p, st).
          Inr (xs[i := (xs ! i)\<lparr>pix_packs := (pix_packs (xs ! i))[j := p]\<rparr>], st))
      else Inl (Panic ''index out of bounds''))"

record repack_state =
  rs_files :: "PruneIndex list"
  rs_stats :: PruneStats
  rs_resize :: "resize_entry list BlobTypeMap"
  rs_do_repack :: "bool BlobTypeMap"
  rs_repack_size :: "u64 BlobTypeMap"

definition decide_candidate ::
    "u64 \<Rightarrow> u64 \<Rightarrow> bool \<Rightarrow> Candidate \<Rightarrow> repack_state \<Rightarrow> repack_state rustic_result" where
  "decide_candidate max_repack max_unused no_resize cand s =
     (case cand of (pi, status, reason, i, j) \<Rightarrow>
      let t = pin_blob_type pi;
          total_repack_size = rs_repack_size s Tree + rs_repack_size s Data;
          set = (\<lambda>todo s. bindR (set_pack_todo todo pi status i j (rs_files s, rs_stats s))
                   (\<lambda>(xs, st). Inr (s\<lparr>rs_files := xs, rs_stats := st\<rparr>)));
          grow = (rs_repack_size s)(t := rs_repack_size s t + ucast (pin_used_size pi))
      in if total_repack_size + ucast (pin_used_size pi) \<ge> max_repack \<or>
            (unused_after_prune (size_sum (rs_stats s)) < max_unused \<and> reason = PartlyUsed \<and> t = Data) \<or>
            (reason = SizeMismatch \<and> no_resize)
         then set Keep s
         else if reason = SizeMismatch
         then Inr (s\<lparr>rs_resize := (rs_resize s)(t := rs_resize s t @ [(pi, status, i, j)]), rs_repack_size := grow\<rparr>)
         else set Repack (s\<lparr>rs_repack_size := grow, rs_do_repack := (rs_do_repack s)(t := True)\<rparr>))"

definition decide_resize ::
    "(u64 \<Rightarrow> u64) \<Rightarrow> PackSizer BlobTypeMap \<Rightarrow> BlobType \<Rightarrow> repack_state \<Rightarrow> repack_state rustic_result" where
  "decide_resize isqrt sizer t s =
     (let todo = (if rs_do_repack s t \<or> rs_repack_size s t > ucast (ps_pack_size isqrt (sizer t)) then Repack else Keep)
      in foldR (\<lambda>(pi, status, i, j) s.
           bindR (set_pack_todo todo pi status i j (rs_files s, rs_stats s))
             (\<lambda>(xs, st). Inr (s\<lparr>rs_files := xs, rs_stats := st\<rparr>))) (rs_resize s t) s)"

definition decide_repack ::
    "(Candidate list \<Rightarrow> Candidate list) \<Rightarrow> (u64 \<Rightarrow> u64) \<Rightarrow> LimitOption \<Rightarrow> LimitOption \<Rightarrow> bool \<Rightarrow> bool
     \<Rightarrow> PackSizer BlobTypeMap \<Rightarrow> PrunePlan \<Rightarrow> PrunePlan rustic_result" where
  "decide_repack srt isqrt max_repack max_unused repack_uncompressed no_resize sizer pl =
     bindR (max_unused_limit repack_uncompressed max_unused (pl_stats pl)) (\<lambda>max_unused.
     let max_repack = max_repack_limit max_repack (pl_stats pl);
         s = \<lparr>rs_files = pl_index_files pl, rs_stats = pl_stats pl, rs_resize = (\<lambda>_. []),
              rs_do_repack = (\<lambda>_. False), rs_repack_size = (\<lambda>_. 0)\<rparr>
     in bindR (foldR (decide_candidate max_repack max_unused no_resize) (srt (pl_repack_candidates pl)) s) (\<lambda>s.
        bindR (foldR (decide_resize isqrt sizer) ALL_BLOB_TYPES s) (\<lambda>s.
        Inr (pl\<lparr>pl_repack_candidates := [], pl_index_files := rs_files s, pl_stats := rs_stats s\<rparr>))))"

section \<open>Checking the plan\<close>

definition check_size :: "u32 option \<Rightarrow> PrunePack \<Rightarrow> unit rustic_result" where
  "check_size existing_size p =
     (case existing_size of
        None \<Rightarrow> Inl (RusticError EInternal ''Pack `{pack_id}` does not exist.'')
      | Some n \<Rightarrow> if n = pp_size p then Inr ()
                  else Inl (RusticError EInternal ''Pack size does not match the expected size in the index file.''))"

definition check_existing_pack ::
    "PrunePack \<Rightarrow> (PackId \<times> u32) list \<times> UsedIds \<Rightarrow> ((PackId \<times> u32) list \<times> UsedIds) rustic_result" where
  "check_existing_pack p s =
     (case s of (existing, u) \<Rightarrow>
      let existing_size = map_of existing (pp_id p);
          existing = AList.delete (pp_id p) existing
      in case pp_to_do p of
           Undecided \<Rightarrow> Inl (RusticError EInternal ''Pack `{pack_id}` got no decision what to do with it!'')
         | Keep \<Rightarrow> bindR (check_size existing_size p) (\<lambda>_. Inr (existing, fold (\<lambda>b. AList.delete (ib_id b)) (pp_blobs p) u))
         | Recover \<Rightarrow> bindR (check_size existing_size p) (\<lambda>_. Inr (existing, fold (\<lambda>b. AList.delete (ib_id b)) (pp_blobs p) u))
         | Repack \<Rightarrow> bindR (check_size existing_size p) (\<lambda>_. Inr (existing, u))
         | _ \<Rightarrow> Inr (existing, u))"

definition check_existing_packs :: "PrunePlan \<Rightarrow> PrunePlan rustic_result" where
  "check_existing_packs pl =
     bindR (foldR check_existing_pack (plan_packs pl) (pl_existing_packs pl, pl_used_ids pl)) (\<lambda>(existing, u).
       let st = (pl_stats pl)\<lparr>st_size_unref := fold (\<lambda>(_, n) a. a + ucast n) existing (st_size_unref (pl_stats pl)),
                 st_packs_unref := of_nat (length existing)\<rparr>
       in Inr (pl\<lparr>pl_existing_packs := existing, pl_used_ids := u, pl_stats := st\<rparr>))"

definition must_modify :: "bool \<Rightarrow> PruneIndex \<Rightarrow> bool" where
  "must_modify instant_delete x \<longleftrightarrow> pix_modified x \<or>
     (\<exists>p \<in> set (pix_packs x). pp_to_do p \<noteq> Keep \<and> (instant_delete \<or> pp_to_do p \<noteq> KeepMarked))"

definition filter_index_files :: "bool \<Rightarrow> PrunePlan \<Rightarrow> PrunePlan" where
  "filter_index_files instant_delete pl =
     (let any_must_modify = (\<exists>x \<in> set (pl_index_files pl). must_modify instant_delete x);
          st = (pl_stats pl)\<lparr>st_index_files := of_nat (length (pl_index_files pl))\<rparr>;
          xs = filter (\<lambda>x. must_modify instant_delete x \<or> pix_len x < MIN_INDEX_LEN) (pl_index_files pl);
          xs = (if \<not> any_must_modify \<and> length xs = 1 then [] else xs)
      in pl\<lparr>pl_index_files := xs, pl_stats := st\<lparr>st_index_files_rebuild := of_nat (length xs)\<rparr>\<rparr>)"

text \<open>\<^verbatim>\<open>PrunePlan::from_prune_options\<close> on what it reads from the repository: the used ids, the existing
  pack files and the index files.\<close>

record prune_opts =
  po_max_repack :: LimitOption
  po_max_unused :: LimitOption
  po_repack_uncompressed :: bool
  po_repack_all :: bool
  po_repack_cacheable_only :: "bool option"
  po_no_resize :: bool
  po_instant_delete :: bool
  po_early_delete_index :: bool
  po_fast_repack :: bool

definition PruneOptions_default :: prune_opts where
  "PruneOptions_default = \<lparr>po_max_repack = LPercentage 10, po_max_unused = LPercentage 5, po_repack_uncompressed = False,
     po_repack_all = False, po_repack_cacheable_only = None, po_no_resize = False, po_instant_delete = False,
     po_early_delete_index = False, po_fast_repack = False\<rparr>"

definition from_prune_options ::
    "(Candidate list \<Rightarrow> Candidate list) \<Rightarrow> (u64 \<Rightarrow> u64) \<Rightarrow> ConfigFile \<Rightarrow> prune_opts
     \<Rightarrow> Timestamp \<Rightarrow> Timestamp \<Rightarrow> Timestamp \<Rightarrow> UsedIds \<Rightarrow> u64 BlobTypeMap \<Rightarrow> (PackId \<times> u32) list \<Rightarrow> (Id \<times> IndexFile) list
     \<Rightarrow> PrunePlan rustic_result" where
  "from_prune_options srt isqrt config o' now young_limit delete_limit used_ids total_size existing_packs index_files =
     (if c_version config < 2 \<and> po_repack_uncompressed o'
      then Inl (RusticError EUnsupported ''Repacking uncompressed pack is unsupported in Repository version.'')
      else
        let pl = count_used_blobs (PrunePlan_new now used_ids existing_packs index_files);
            sizer = (\<lambda>t. PackSizer_from_config config t (total_size t));
            d = \<lparr>do_young_limit = young_limit, do_delete_limit = delete_limit,
                 do_repack_cacheable_only = unwrap_or (c_is_hot config = Some True) (po_repack_cacheable_only o'),
                 do_repack_uncompressed = po_repack_uncompressed o', do_repack_all = po_repack_all o',
                 do_isqrt = isqrt, do_pack_sizer = sizer\<rparr>
        in bindR (plan_check pl) (\<lambda>_.
           bindR (decide_packs d pl) (\<lambda>pl.
           bindR (decide_repack srt isqrt (po_max_repack o') (po_max_unused o')
                    (po_repack_uncompressed o' \<or> po_repack_all o') (po_no_resize o') sizer pl) (\<lambda>pl.
           bindR (check_existing_packs pl) (\<lambda>pl.
           Inr (filter_index_files (po_instant_delete o') pl))))))"

definition repack_packs :: "PrunePlan \<Rightarrow> PackId list" where
  "repack_packs pl = map pp_id (filter (\<lambda>p. pp_to_do p = Repack) (plan_packs pl))"

end
