(* ===== verification/PruneRun.thy ===== *)
theory PruneRun
  imports Prune Indexer
begin

text \<open>
  Running a plan: \<^verbatim>\<open>prune_repository\<close> of crates/core/src/commands/prune.rs. The function is translated
  to the sequence of operations it performs on the repository, in order; \<open>prune_step\<close> gives the effect
  of one operation on the pack files, the index files and the indexer. Deletions of a list and the
  repacking of blobs run in parallel in the code, so their parts happen in any order; an error or a
  crash is a run that stops at any point. The time an addition to the indexer takes is arbitrary, so the
  indexer may save its file at any addition.
\<close>

section \<open>The operations of a run\<close>

type_synonym repack_blob = "BlobType \<times> PackId \<times> BlobLocation \<times> BlobId"

datatype prune_op =
  DeletePacks bool "PackId list"
| DeleteIndexes bool "Id list"
| AddPack IndexPack bool
| RepackBlobs "PackSizer BlobTypeMap" bool "repack_blob list" "IndexPack list"
| FinalizeIndexer

record rebuild =
  rb_adds :: "prune_op list"
  rb_data_remove :: "PackId list"
  rb_tree_remove :: "PackId list"
  rb_used_ids :: UsedIds
  rb_repack :: "PrunePack list"

definition delete_pack :: "PrunePack \<Rightarrow> rebuild \<Rightarrow> rebuild" where
  "delete_pack p r = (case pp_blob_type p of
     Data \<Rightarrow> r\<lparr>rb_data_remove := rb_data_remove r @ [pp_id p]\<rparr>
   | Tree \<Rightarrow> r\<lparr>rb_tree_remove := rb_tree_remove r @ [pp_id p]\<rparr>)"

definition indexer_add :: "IndexPack \<Rightarrow> bool \<Rightarrow> rebuild \<Rightarrow> rebuild" where
  "indexer_add ip del r = r\<lparr>rb_adds := rb_adds r @ [AddPack ip del]\<rparr>"

text \<open>\<^verbatim>\<open>retain(|blob| used_ids.remove(&blob.id).is_some())\<close>\<close>

fun retain_used :: "IndexBlob list \<Rightarrow> UsedIds \<Rightarrow> IndexBlob list \<times> UsedIds" where
  "retain_used [] u = ([], u)"
| "retain_used (b # bs) u =
    (case retain_used bs (AList.delete (ib_id b) u) of (kept, u') \<Rightarrow>
       (if map_of u (ib_id b) \<noteq> None then b # kept else kept, u'))"

definition rebuild_pack ::
    "(IndexBlob list \<Rightarrow> IndexBlob list) \<Rightarrow> bool \<Rightarrow> Timestamp \<Rightarrow> PrunePack \<Rightarrow> rebuild \<Rightarrow> rebuild rustic_result" where
  "rebuild_pack sort_blobs instant_delete prune_time p r =
     (case pp_to_do p of
        Undecided \<Rightarrow> Inl (RusticError EInternal ''Pack `{pack_id}` got no decision what to do with it!'')
      | Keep \<Rightarrow> Inr (indexer_add (into_index_pack prune_time p) False r)
      | Repack \<Rightarrow>
          let r = (if instant_delete then delete_pack p r
                   else indexer_add (into_index_pack_with_time prune_time p) True r)
          in (case retain_used (pp_blobs p) (rb_used_ids r) of (kept, u) \<Rightarrow>
                Inr (r\<lparr>rb_used_ids := u, rb_repack := rb_repack r @ [p\<lparr>pp_blobs := sort_blobs kept\<rparr>]\<rparr>))
      | MarkDelete \<Rightarrow>
          Inr (if instant_delete then delete_pack p r
               else indexer_add (into_index_pack_with_time prune_time p) True r)
      | KeepMarked \<Rightarrow>
          Inr (if instant_delete then delete_pack p r else indexer_add (into_index_pack prune_time p) True r)
      | KeepMarkedAndCorrect \<Rightarrow>
          Inr (if instant_delete then delete_pack p r else indexer_add (into_index_pack prune_time p) True r)
      | Recover \<Rightarrow> Inr (indexer_add (into_index_pack_with_time prune_time p) False r)
      | Delete \<Rightarrow> Inr (delete_pack p r))"

text \<open>The loop stops at an error; what was done before stays done.\<close>

fun rebuild_packs ::
    "(IndexBlob list \<Rightarrow> IndexBlob list) \<Rightarrow> bool \<Rightarrow> Timestamp \<Rightarrow> PrunePack list \<Rightarrow> rebuild \<Rightarrow> rebuild \<times> unit rustic_result" where
  "rebuild_packs sort_blobs instant_delete prune_time [] r = (r, Inr ())"
| "rebuild_packs sort_blobs instant_delete prune_time (p # ps) r =
    (case rebuild_pack sort_blobs instant_delete prune_time p r of
       Inl e \<Rightarrow> (r, Inl e)
     | Inr r' \<Rightarrow> rebuild_packs sort_blobs instant_delete prune_time ps r')"

text \<open>The pack sizes for the new packs, from the estimated sizes after pruning.\<close>

definition repack_sizer :: "(u64 \<Rightarrow> u64) \<Rightarrow> ConfigFile \<Rightarrow> PruneStats \<Rightarrow> PackSizer BlobTypeMap" where
  "repack_sizer isqrt config st t =
     (let size_after_prune = total_after_prune (st_size st t)
            + total_after_prune (st_blobs st t) * ucast ENTRY_LEN_COMPRESSED
      in PackSizer_fixed (ps_pack_size isqrt (PackSizer_from_config config t size_after_prune)))"

text \<open>The blobs of a pack to repack, read in coalesced runs (\<open>coalesce_runs\<close> is \<^verbatim>\<open>Itertools::coalesce\<close> with
  \<^verbatim>\<open>BlobLocations::coalesce\<close>).\<close>

definition blob_chunks ::
    "(BlobId BlobLocations list \<Rightarrow> BlobId BlobLocations list) \<Rightarrow> PrunePack \<Rightarrow> CopyPackBlobs list" where
  "blob_chunks coalesce_runs p =
     map (\<lambda>l. \<lparr>cpb_pack_id = pp_id p, cpb_locations = l\<rparr>)
       (coalesce_runs (map (\<lambda>b. from_blob_location (ib_location b) (ib_id b)) (pp_blobs p)))"

definition repack_blobs ::
    "(BlobId BlobLocations list \<Rightarrow> BlobId BlobLocations list) \<Rightarrow> PrunePack list \<Rightarrow> repack_blob list" where
  "repack_blobs coalesce_runs ps =
     concat (map (\<lambda>p. concat (map (\<lambda>c. map (\<lambda>(l, i). (pp_blob_type p, cpb_pack_id c, l, i)) (bls_blobs (cpb_locations c)))
       (blob_chunks coalesce_runs p))) ps)"

definition mark_unreferenced :: "bool \<Rightarrow> Timestamp \<Rightarrow> (PackId \<times> u32) list \<Rightarrow> prune_op list" where
  "mark_unreferenced instant_delete prune_time existing =
     (if existing = [] then []
      else if instant_delete then [DeletePacks True (map fst existing)]
      else map (\<lambda>(i, n). AddPack \<lparr>ip_id = i, ip_blobs = [], ip_time = Some prune_time, ip_size = Some n\<rparr> True) existing)"

definition prune_repository ::
    "(IndexBlob list \<Rightarrow> IndexBlob list) \<Rightarrow> (BlobId BlobLocations list \<Rightarrow> BlobId BlobLocations list) \<Rightarrow> (u64 \<Rightarrow> u64)
     \<Rightarrow> ConfigFile \<Rightarrow> prune_opts \<Rightarrow> PrunePlan \<Rightarrow> prune_op list \<times> unit rustic_result" where
  "prune_repository sort_blobs coalesce_runs isqrt config opts pl =
     (if c_append_only config = Some True
      then ([], Inl (RusticError EAppendOnly ''Pruning is not allowed in append-only repositories.''))
      else
        let instant = po_instant_delete opts;
            unref = mark_unreferenced instant (pl_time pl) (pl_existing_packs pl);
            indexes_remove = map pix_id (pl_index_files pl);
            early = (po_early_delete_index opts \<and> instant);
            start = unref @ (if early then [DeleteIndexes True indexes_remove] else [])
        in if pl_index_files pl = [] then (unref, Inr ())
           else case rebuild_packs sort_blobs instant (pl_time pl) (plan_packs pl)
                  \<lparr>rb_adds = [], rb_data_remove = [], rb_tree_remove = [], rb_used_ids = pl_used_ids pl, rb_repack = []\<rparr> of
             (r, Inl e) \<Rightarrow> (start @ rb_adds r, Inl e)
           | (r, Inr _) \<Rightarrow>
               (start @ rb_adds r
                @ (if rb_repack r = [] then []
                   else [RepackBlobs (repack_sizer isqrt config (pl_stats pl)) (po_fast_repack opts)
                           (repack_blobs coalesce_runs (rb_repack r)) []])
                @ [FinalizeIndexer]
                @ (if early then [] else [DeleteIndexes True indexes_remove])
                @ (if rb_data_remove r = [] then [] else [DeletePacks False (rb_data_remove r)])
                @ (if rb_tree_remove r = [] then [] else [DeletePacks True (rb_tree_remove r)]), Inr ()))"

section \<open>Their effect\<close>

text \<open>The pack files with the blobs they hold, the index files, and the indexer of the run.\<close>

record prune_world =
  pw_packs :: "PackId \<Rightarrow> BlobId set option"
  pw_index :: "Id \<Rightarrow> IndexFile option"
  pw_indexer :: Indexer

definition save_at :: "Id \<Rightarrow> (Id \<Rightarrow> IndexFile option) save_file" where
  "save_at k f idx = Inr (k, idx(k \<mapsto> f))"

text \<open>New files are stored under the hash of their encrypted content, so their ids are not among the ids
  \<open>K\<close> of known packs and \<open>KI\<close> of known index files.\<close>

inductive prune_step ::
    "PackId set \<Rightarrow> Id set \<Rightarrow> prune_op list \<times> prune_world \<Rightarrow> prune_op list \<times> prune_world \<Rightarrow> bool"
  for K :: "PackId set" and KI :: "Id set" where
  add_pack: "k \<notin> KI \<Longrightarrow> k \<notin> dom (pw_index w)
    \<Longrightarrow> Indexer_add_with (save_at k) elapsed now ip del (pw_indexer w) (pw_index w) = Inr (ix, idx)
    \<Longrightarrow> prune_step K KI (AddPack ip del # ops, w) (ops, w\<lparr>pw_index := idx, pw_indexer := ix\<rparr>)"
| finalize_indexer: "k \<notin> KI \<Longrightarrow> k \<notin> dom (pw_index w) \<Longrightarrow> Indexer_finalize (save_at k) (pw_indexer w) (pw_index w) = Inr idx
    \<Longrightarrow> prune_step K KI (FinalizeIndexer # ops, w) (ops, w\<lparr>pw_index := idx\<rparr>)"
| delete_one_pack: "i \<in> set ids
    \<Longrightarrow> prune_step K KI (DeletePacks c ids # ops, w) (DeletePacks c (remove1 i ids) # ops, w\<lparr>pw_packs := (pw_packs w)(i := None)\<rparr>)"
| packs_deleted: "prune_step K KI (DeletePacks c [] # ops, w) (ops, w)"
| delete_one_index: "i \<in> set ids
    \<Longrightarrow> prune_step K KI (DeleteIndexes c ids # ops, w) (DeleteIndexes c (remove1 i ids) # ops, w\<lparr>pw_index := (pw_index w)(i := None)\<rparr>)"
| indexes_deleted: "prune_step K KI (DeleteIndexes c [] # ops, w) (ops, w)"
| write_pack: "mset todo = mset bs + mset todo' \<Longrightarrow> bs \<noteq> []
    \<Longrightarrow> \<forall>(t, src, l, i) \<in> set bs. t = tpe \<and> (\<exists>b. pw_packs w src = Some b \<and> i \<in> b)
    \<Longrightarrow> ip_id ip \<notin> K \<Longrightarrow> ip_id ip \<notin> dom (pw_packs w) \<Longrightarrow> ib_id ` set (ip_blobs ip) = (\<lambda>(_, _, _, i). i) ` set bs
    \<Longrightarrow> prune_step K KI (RepackBlobs sizer fast todo written # ops, w)
          (RepackBlobs sizer fast todo' (ip # written) # ops, w\<lparr>pw_packs := (pw_packs w)(ip_id ip \<mapsto> ib_id ` set (ip_blobs ip))\<rparr>)"
| index_pack: "ip \<in> set written \<Longrightarrow> k \<notin> KI \<Longrightarrow> k \<notin> dom (pw_index w)
    \<Longrightarrow> Indexer_add (save_at k) elapsed now ip (pw_indexer w) (pw_index w) = Inr (ix, idx)
    \<Longrightarrow> prune_step K KI (RepackBlobs sizer fast todo written # ops, w)
          (RepackBlobs sizer fast todo (remove1 ip written) # ops, w\<lparr>pw_index := idx, pw_indexer := ix\<rparr>)"
| repack_done: "prune_step K KI (RepackBlobs sizer fast [] [] # ops, w) (ops, w)"

abbreviation prune_run :: "PackId set \<Rightarrow> Id set \<Rightarrow> prune_op list \<times> prune_world \<Rightarrow> prune_op list \<times> prune_world \<Rightarrow> bool" where
  "prune_run K KI \<equiv> (prune_step K KI)\<^sup>*\<^sup>*"

text \<open>What \<open>Indexer_add_with\<close> does to the packs in memory and on disk.\<close>

definition indexed_new :: "Id set \<Rightarrow> bool \<Rightarrow> prune_world \<Rightarrow> IndexPack set" where
  "indexed_new KI mem w =
     \<Union> {set (ifi_packs f) | f k. k \<notin> KI \<and> pw_index w k = Some f} \<union> (if mem then set (ifi_packs (ix_file (pw_indexer w))) else {})"

lemma Indexer_add_with_cases:
  assumes "Indexer_add_with (save_at k) elapsed now ip del ix0 idx0 = Inr (ix, idx)"
  obtains (mem) "idx = idx0" "ix_file ix = IndexFile_add ip del (ix_file ix0)"
    | (saved) "idx = idx0(k \<mapsto> IndexFile_add ip del (ix_file ix0))"
proof -
  have "0 < length (ifi_packs (IndexFile_add ip del f)) + length (ifi_packs_to_delete (IndexFile_add ip del f))" for f
    by (simp add: IndexFile_add_def)
  then show thesis
    using assms mem saved
    unfolding Indexer_add_with_def Let_def Indexer_save_def save_at_def by (clarsimp split: if_splits)
qed

lemma Indexer_add_with_new:
  assumes "Indexer_add_with (save_at k) elapsed now ip del (pw_indexer w) (pw_index w) = Inr (ix, idx)"
    and "k \<notin> KI" "k \<notin> dom (pw_index w)"
  shows "indexed_new KI True w \<union> (if del then {} else {ip}) \<subseteq> indexed_new KI True (w\<lparr>pw_index := idx, pw_indexer := ix\<rparr>)"
    and "pw_index w \<subseteq>\<^sub>m idx"
proof -
  let ?f = "IndexFile_add ip del (ix_file (pw_indexer w))"
  have f: "set (ifi_packs ?f) = set (ifi_packs (ix_file (pw_indexer w))) \<union> (if del then {} else {ip})"
    by (simp add: IndexFile_add_def)
  show "indexed_new KI True w \<union> (if del then {} else {ip}) \<subseteq> indexed_new KI True (w\<lparr>pw_index := idx, pw_indexer := ix\<rparr>)"
    using assms(1)
  proof (cases rule: Indexer_add_with_cases)
    case mem
    with f show ?thesis by (auto simp: indexed_new_def)
  next
    case saved
    have "set (ifi_packs ?f) \<subseteq> indexed_new KI True (w\<lparr>pw_index := idx, pw_indexer := ix\<rparr>)"
      using saved assms(2) by (auto simp: indexed_new_def)
    moreover have "set (ifi_packs g) \<subseteq> indexed_new KI True (w\<lparr>pw_index := idx, pw_indexer := ix\<rparr>)"
      if "k' \<notin> KI" "pw_index w k' = Some g" for k' g
    proof -
      have "k' \<noteq> k" using that(2) assms(3) by auto
      then have "idx k' = Some g" using that(2) saved by simp
      with that(1) show ?thesis by (auto simp: indexed_new_def)
    qed
    moreover have "indexed_new KI True w =
        \<Union> {set (ifi_packs g) | g k'. k' \<notin> KI \<and> pw_index w k' = Some g} \<union> set (ifi_packs (ix_file (pw_indexer w)))"
      by (simp add: indexed_new_def)
    ultimately show ?thesis using f by blast
  qed
  show "pw_index w \<subseteq>\<^sub>m idx"
    using assms(1) by (cases rule: Indexer_add_with_cases) (use assms(3) in \<open>auto simp: map_le_def\<close>)
qed

end
