(* ===== verification/PruneSafety.thy ===== *)
theory PruneSafety
  imports Prune
begin

text \<open>
  The safety of pruning (crates/core/src/commands/prune.rs): what the counters of used blobs guarantee
  while the packs are decided on one after the other, and that the finished plan keeps, recovers or
  repacks a pack for every used blob.
\<close>

section \<open>The counters\<close>

abbreviation blob_ids :: "IndexBlob list \<Rightarrow> BlobId list" where
  "blob_ids bs \<equiv> map ib_id bs"

abbreviation occ :: "BlobId \<Rightarrow> IndexBlob list \<Rightarrow> nat" where
  "occ i bs \<equiv> count_list (blob_ids bs) i"

lemma pin_used_simps [simp]:
  "pin_used_blobs (add_used b pi) = pin_used_blobs pi + 1"
  "pin_used_blobs (add_unused b pi) = pin_used_blobs pi"
  "pin_used_blobs (sub_unused b pi) = pin_used_blobs pi"
  by (simp_all add: add_used_def add_unused_def sub_unused_def)

lemma map_of_update [simp]: "map_of (AList.update k v u) i = (if i = k then Some v else map_of u i)"
  by (simp add: update_conv)

lemma unat_u16_Suc: "unat (w :: u16) + 1 < 65536 \<Longrightarrow> unat (w + 1) = unat w + 1"
  by (simp add: unat_word_ariths)

text \<open>After both marking loops the ids of the blobs are settled: their counter is 0.\<close>

lemma remark_used_spec:
  assumes "remark_used bs pi u = (pi', u')"
  shows "map_of u' i = (if i \<in> set (blob_ids bs) then map_option (\<lambda>_. 0) (map_of u i) else map_of u i)"
    and "unat (pin_used_blobs pi) + length bs < 65536 \<Longrightarrow>
      unat (pin_used_blobs pi) \<le> unat (pin_used_blobs pi') \<and>
      unat (pin_used_blobs pi') \<le> unat (pin_used_blobs pi) + length bs"
  using assms
proof (induction bs pi u rule: remark_used.induct)
  case (2 b bs pi u)
  { case 1 with 2 show ?case by (auto split: option.splits if_splits) }
  { case 2
    with "2.IH" show ?case
      by (auto simp: unat_u16_Suc split: option.splits if_splits) }
qed auto

lemma mark_rest_spec:
  assumes "mark_rest bs pi u = (pi', u')"
  shows "map_of u' i = (if i \<in> set (blob_ids bs) then map_option (\<lambda>_. 0) (map_of u i) else map_of u i)"
    and "unat (pin_used_blobs pi) + length bs < 65536 \<Longrightarrow>
      unat (pin_used_blobs pi) \<le> unat (pin_used_blobs pi') \<and>
      unat (pin_used_blobs pi') \<le> unat (pin_used_blobs pi) + length bs"
  using assms
proof (induction bs pi u rule: mark_rest.induct)
  case (2 b bs pi u)
  { case 1 with 2 show ?case by (auto split: option.splits if_splits) }
  { case 2
    with "2.IH" show ?case
      by (auto simp: unat_u16_Suc split: option.splits if_splits) }
qed auto

text \<open>A search without a hit has counted every blob down and no counter to 0.\<close>

lemma unat_minus_one_u8: "(c :: u8) \<noteq> 0 \<Longrightarrow> unat (c - 1) = unat c - 1"
  by (metis unat_minus_one)

lemma first_needed_cases:
  assumes "first_needed (b # bs) pi u = (k, pi', u')"
  obtains (skip) k0 where "map_of u (ib_id b) = None \<or> map_of u (ib_id b) = Some 0"
      "first_needed bs (add_unused b pi) u = (k0, pi', u')" "k = map_option Suc k0"
    | (dec) c k0 where "map_of u (ib_id b) = Some c" "c \<noteq> 0" "c - 1 \<noteq> 0"
      "first_needed bs (add_unused b pi) (AList.update (ib_id b) (c - 1) u) = (k0, pi', u')" "k = map_option Suc k0"
    | (hit) c where "map_of u (ib_id b) = Some c" "c \<noteq> 0" "k = Some 0" "pi' = add_used b pi"
      "u' = AList.update (ib_id b) 0 u"
proof (cases "map_of u (ib_id b)")
  case None
  with assms show thesis by (auto split: prod.splits intro: skip)
next
  case (Some c)
  consider "c = 0" | "c \<noteq> 0" "c - 1 = 0" | "c \<noteq> 0" "c - 1 \<noteq> 0" by blast
  then show thesis
  proof cases
    case 1
    with assms Some show thesis by (auto split: prod.splits intro: skip)
  next
    case 2
    with assms Some show thesis by (auto intro: hit)
  next
    case 3
    with assms Some obtain k0 where
      "first_needed bs (add_unused b pi) (AList.update (ib_id b) (c - 1) u) = (k0, pi', u')" "k = map_option Suc k0"
      by (auto split: prod.splits)
    with Some 3 show thesis by (intro dec)
  qed
qed

lemma first_needed_None:
  assumes "first_needed bs pi u = (None, pi', u')"
  shows "pin_used_blobs pi' = pin_used_blobs pi \<and>
    (map_of u i = None \<or> map_of u i = Some 0 \<longrightarrow> map_of u' i = map_of u i) \<and>
    (\<forall>c. map_of u i = Some c \<longrightarrow> c \<noteq> 0 \<longrightarrow> (\<exists>c'. map_of u' i = Some c' \<and> c' \<noteq> 0 \<and> unat c' + occ i bs = unat c))"
  using assms
proof (induction bs arbitrary: pi u)
  case (Cons b bs)
  from Cons.prems show ?case
  proof (cases rule: first_needed_cases)
    case (skip k0)
    with Cons.IH [of "add_unused b pi" u] show ?thesis by auto
  next
    case (dec c k0)
    have d: "unat (c - 1) + 1 = unat c" using dec(2) unat_minus_one_u8 [OF dec(2)] by (simp add: unat_gt_0)
    from dec have "first_needed bs (add_unused b pi) (AList.update (ib_id b) (c - 1) u) = (None, pi', u')" by simp
    from Cons.IH [OF this] dec d show ?thesis by (cases "i = ib_id b") auto
  qed auto
qed simp

text \<open>A search with a hit at n has set the counter of that blob to 0 and touched no other id than
  those seen so far.\<close>

lemma first_needed_Some:
  assumes "first_needed bs pi u = (Some n, pi', u')"
  shows "n < length bs \<and> pin_used_blobs pi' = pin_used_blobs pi + 1 \<and>
    (i \<notin> set (blob_ids (take (Suc n) bs)) \<longrightarrow> map_of u' i = map_of u i) \<and>
    map_of u' (ib_id (bs ! n)) = Some 0 \<and> (map_of u' i = None) = (map_of u i = None) \<and>
    (map_of u i = Some 0 \<longrightarrow> map_of u' i = Some 0)"
  using assms
proof (induction bs arbitrary: pi u n)
  case (Cons b bs)
  from Cons.prems show ?case
  proof (cases rule: first_needed_cases)
    case (skip k0)
    then obtain m where "k0 = Some m" "n = Suc m" by (cases k0) auto
    with Cons.IH [of "add_unused b pi" u m] skip show ?thesis by auto
  next
    case (dec c k0)
    then obtain m where "k0 = Some m" "n = Suc m" by (cases k0) auto
    with Cons.IH [of "add_unused b pi" "AList.update (ib_id b) (c - 1) u" m] dec show ?thesis
      by (auto split: if_splits)
  next
    case (hit c)
    then show ?thesis by auto
  qed
qed simp

section \<open>One pack\<close>

text \<open>A pack that is not needed leaves every counter positive that was positive, reduced by its blobs; a
  needed pack settles all of its blobs. (A pack holds fewer than \<open>2^16\<close> blobs, otherwise the \<open>u16\<close>
  counters of \<open>PackInfo\<close> would wrap.)\<close>

lemma from_pack_cases:
  assumes "PackInfo_from_pack p u = (pi, u')" "length (pp_blobs p) < 65536"
  obtains (unneeded) pi0 where "pin_used_blobs pi0 = 0" "first_needed (pp_blobs p) pi0 u = (None, pi, u')"
      "pin_used_blobs pi = 0"
    | (needed) pi0 n pi1 u1 pi2 u2 where "first_needed (pp_blobs p) pi0 u = (Some n, pi1, u1)"
      "remark_used (take n (pp_blobs p)) pi1 u1 = (pi2, u2)" "mark_rest (drop (n + 1) (pp_blobs p)) pi2 u2 = (pi, u')"
      "pin_used_blobs pi \<noteq> 0"
proof -
  let ?pi = "\<lparr>pin_blob_type = pp_blob_type p, pin_used_blobs = 0, pin_unused_blobs = 0,
      pin_used_size = 0, pin_unused_size = 0\<rparr>"
  obtain k pi1 u1 where f: "first_needed (pp_blobs p) ?pi u = (k, pi1, u1)" by (cases "first_needed (pp_blobs p) ?pi u") auto
  show thesis
  proof (cases k)
    case None
    with f assms(1) show thesis
      using first_needed_None [of "pp_blobs p" ?pi u pi1 u1] unneeded [of ?pi] by (auto simp: PackInfo_from_pack_def)
  next
    case (Some n)
    obtain pi2 u2 where r: "remark_used (take n (pp_blobs p)) pi1 u1 = (pi2, u2)" by fastforce
    have m: "mark_rest (drop (n + 1) (pp_blobs p)) pi2 u2 = (pi, u')"
      using assms(1) f Some r by (simp add: PackInfo_from_pack_def)
    have n: "n < length (pp_blobs p)" "pin_used_blobs pi1 = 1"
      using first_needed_Some [of "pp_blobs p" ?pi u n pi1 u1] f Some by auto
    have 2: "1 \<le> unat (pin_used_blobs pi2)" "unat (pin_used_blobs pi2) \<le> 1 + n"
      using remark_used_spec(2) [OF r] n assms(2) by simp_all
    then have "unat (pin_used_blobs pi2) + length (drop (n + 1) (pp_blobs p)) < 65536" using n assms(2) by simp
    from mark_rest_spec(2) [OF m this] 2(1) have "1 \<le> unat (pin_used_blobs pi)" by simp
    then show thesis using needed [OF f [unfolded Some] r m] by fastforce
  qed
qed

lemma from_pack_unneeded:
  assumes "PackInfo_from_pack p u = (pi, u')" "length (pp_blobs p) < 65536" "pin_used_blobs pi = 0"
  shows "(map_of u i = None \<or> map_of u i = Some 0 \<longrightarrow> map_of u' i = map_of u i) \<and>
    (\<forall>c. map_of u i = Some c \<longrightarrow> c \<noteq> 0 \<longrightarrow>
      (\<exists>c'. map_of u' i = Some c' \<and> c' \<noteq> 0 \<and> unat c' + occ i (pp_blobs p) = unat c))"
  using from_pack_cases [OF assms(1,2)] first_needed_None assms(3) by metis

lemma from_pack_needed:
  assumes "PackInfo_from_pack p u = (pi, u')" "length (pp_blobs p) < 65536" "pin_used_blobs pi \<noteq> 0"
  shows "map_of u' i = (if i \<in> set (blob_ids (pp_blobs p)) then map_option (\<lambda>_. 0) (map_of u i) else map_of u i)"
  using assms(1,2)
proof (cases rule: from_pack_cases)
  case (unneeded pi0)
  then show ?thesis using assms(3) by simp
next
  case (needed pi0 n pi1 u1 pi2 u2)
  let ?bs = "pp_blobs p"
  note f = first_needed_Some [OF needed(1), of i]
  have u': "map_of u' i = (if i \<in> set (blob_ids (drop (n + 1) ?bs)) \<or> i \<in> set (blob_ids (take n ?bs))
      then map_option (\<lambda>_. 0) (map_of u1 i) else map_of u1 i)"
    using mark_rest_spec(1) [OF needed(3), of i] remark_used_spec(1) [OF needed(2), of i]
    by (simp add: option.map_comp comp_def)
  have split: "?bs = take n ?bs @ ?bs ! n # drop (n + 1) ?bs" using f by (simp add: id_take_nth_drop)
  have mem: "i \<in> set (blob_ids ?bs) \<longleftrightarrow>
      i \<in> set (blob_ids (take n ?bs)) \<or> i = ib_id (?bs ! n) \<or> i \<in> set (blob_ids (drop (n + 1) ?bs))"
    by (subst split) auto
  have tk: "take (Suc n) ?bs = take n ?bs @ [?bs ! n]" using f by (simp add: take_Suc_conv_app_nth)
  show ?thesis
  proof (cases "map_of u i")
    case None
    with f u' show ?thesis by auto
  next
    case (Some c)
    with f obtain c1 where "map_of u1 i = Some c1" by auto
    with Some f u' mem tk show ?thesis by (cases "i = ib_id (?bs ! n)") auto
  qed
qed

text \<open>Packs that differ in their task only.\<close>

definition same_pack :: "PrunePack \<Rightarrow> PrunePack \<Rightarrow> bool" where
  "same_pack p p' \<longleftrightarrow> p' = p\<lparr>pp_to_do := pp_to_do p'\<rparr>"

lemma same_packD:
  assumes "same_pack p p'"
  shows "pp_id p' = pp_id p" "pp_blob_type p' = pp_blob_type p" "pp_size p' = pp_size p"
    "pp_delete_mark p' = pp_delete_mark p" "pp_time p' = pp_time p" "pp_blobs p' = pp_blobs p"
  using assms by (cases p; cases p'; simp add: same_pack_def)+

lemma same_pack_refl [simp]: "same_pack p p" "same_pack p (p\<lparr>pp_to_do := t\<rparr>)"
  by (simp_all add: same_pack_def)

lemma same_pack_trans: "same_pack p q \<Longrightarrow> same_pack q r \<Longrightarrow> same_pack p r"
  by (cases p; cases q; cases r) (simp add: same_pack_def)

section \<open>Deciding on one pack\<close>

text \<open>The tasks under which the blobs of a pack survive; an undecided pack is a candidate for repacking.\<close>

definition survives :: "PrunePack \<Rightarrow> bool" where
  "survives p \<longleftrightarrow> pp_to_do p = Undecided \<or> pp_to_do p = Keep \<or> pp_to_do p = Recover \<or> pp_to_do p = Repack"

abbreviation pack_ids :: "PrunePack \<Rightarrow> BlobId set" where
  "pack_ids p \<equiv> set (blob_ids (pp_blobs p))"

lemma set_todo_Inr:
  "set_todo t pi status p st = Inr (p', st') \<Longrightarrow> t \<noteq> Undecided \<and> p' = p\<lparr>pp_to_do := t\<rparr>"
  by (auto simp: set_todo_def split: if_splits)

lemma pack_decision_cases:
  assumes "pack_decision d p pi = (what, added)"
  shows "pin_used_blobs pi \<noteq> 0 \<Longrightarrow>
      (if pp_delete_mark p then what = Todo Recover else what = Todo Keep \<or> (\<exists>r. what = Candidate r))"
    and "pin_used_blobs pi = 0 \<Longrightarrow>
      (if pp_delete_mark p then what \<in> {Todo Delete, Todo KeepMarked, Todo KeepMarkedAndCorrect}
       else what \<in> {Todo Keep, Todo MarkDelete})"
  using assms by (auto simp: pack_decision_def Let_def split: if_splits option.splits)

lemma decide_pack_cases:
  assumes "decide_pack d i j p (u, cands, st) = Inr (p', u', cands', st')"
  obtains pi what added where "PackInfo_from_pack p u = (pi, u')" "pack_decision d p pi = (what, added)"
    and "case what of
        Todo t \<Rightarrow> t \<noteq> Undecided \<and> p' = p\<lparr>pp_to_do := t\<rparr> \<and> cands' = cands
      | Candidate r \<Rightarrow> p' = p \<and> cands' = cands @ [(pi, base_status d p \<union> added, r, i, j)]"
proof -
  obtain pi u1 what added where pi: "PackInfo_from_pack p u = (pi, u1)" "pack_decision d p pi = (what, added)"
    by (metis surj_pair)
  show thesis
    by (rule that [of pi what added])
      (use assms pi in \<open>auto simp: decide_pack_def Let_def result_simps dest!: set_todo_Inr split: decision.splits\<close>)
qed

lemma decide_pack_frame:
  assumes "decide_pack d i j p (u, cands, st) = Inr (p', u', cands', st')"
  shows "same_pack p p'"
  using assms by (cases rule: decide_pack_cases) (auto split: decision.splits)

section \<open>The invariant of the decisions\<close>

text \<open>\<open>rem i\<close> is how often the blob \<open>i\<close> still occurs in packs that were not decided on. A counter never
  exceeds it, and a counter that is 0 belongs to a blob that some pack will keep.\<close>

definition counters :: "BlobId set \<Rightarrow> (BlobId \<Rightarrow> nat) \<Rightarrow> BlobId set \<Rightarrow> UsedIds \<Rightarrow> bool" where
  "counters U rem safe u \<longleftrightarrow> dom (map_of u) = U \<and>
     (\<forall>i c. map_of u i = Some c \<longrightarrow> unat c \<le> rem i \<and> (c = 0 \<longrightarrow> i \<in> safe))"

lemma decide_pack_counters:
  assumes dec: "decide_pack d n j p (u, cands, st) = Inr (p', u', cands', st')"
    and und: "pp_to_do p = Undecided" and len: "length (pp_blobs p) < 65536"
    and c: "counters U (\<lambda>i. occ i (pp_blobs p) + rem i) safe u"
  shows "counters U rem (safe \<union> (if survives p' then pack_ids p' else {})) u'"
  using dec
proof (cases rule: decide_pack_cases)
  case (1 pi what added)
  show ?thesis
  proof (cases "pin_used_blobs pi = 0")
    case True
    note f = from_pack_unneeded [OF 1(1) len True]
    have "map_of u' i = None \<longleftrightarrow> map_of u i = None" for i
      using f [of i] by (cases "map_of u i") auto
    then have "dom (map_of u') = U" using c by (simp add: counters_def dom_def)
    moreover have "unat k \<le> rem i \<and> (k = 0 \<longrightarrow> i \<in> safe)" if "map_of u' i = Some k" for i k
    proof (cases "map_of u i")
      case None
      with f [of i] that show ?thesis by simp
    next
      case (Some k0)
      then have "unat k0 \<le> occ i (pp_blobs p) + rem i" "k0 = 0 \<longrightarrow> i \<in> safe" using c by (auto simp: counters_def)
      with f [of i] that Some show ?thesis by (cases "k0 = 0") auto
    qed
    ultimately show ?thesis by (auto simp: counters_def)
  next
    case False
    note f = from_pack_needed [OF 1(1) len False]
    have s: "survives p'" "pack_ids p' = pack_ids p"
      using pack_decision_cases(1) [OF 1(2) False] 1(3) und
      by (auto simp: survives_def split: if_splits decision.splits)
    have "dom (map_of u') = U" using f c by (auto simp: counters_def dom_def split: if_splits)
    moreover have "unat k \<le> rem i \<and> (k = 0 \<longrightarrow> i \<in> safe \<union> pack_ids p)" if "map_of u' i = Some k" for i k
    proof (cases "i \<in> pack_ids p")
      case True
      with that f [of i] show ?thesis by auto
    next
      case False
      then have "occ i (pp_blobs p) = 0" by (intro count_notin)
      with False that f [of i] c show ?thesis by (fastforce simp: counters_def)
    qed
    ultimately show ?thesis using s by (auto simp: counters_def)
  qed
qed

section \<open>The loops\<close>

text \<open>Only the task of a pack changes, and only in the pass for its mark.\<close>

definition pass_pack :: "bool \<Rightarrow> PrunePack \<Rightarrow> PrunePack \<Rightarrow> bool" where
  "pass_pack m p p' \<longleftrightarrow> same_pack p p' \<and> (pp_delete_mark p \<noteq> m \<longrightarrow> p' = p)"

lemma pass_packD:
  assumes "pass_pack m p p'"
  shows "pp_delete_mark p' = pp_delete_mark p" "pp_blobs p' = pp_blobs p" "same_pack p p'"
    "pp_delete_mark p \<noteq> m \<Longrightarrow> p' = p"
  using assms same_packD [of p p'] by (auto simp: pass_pack_def)

definition marked_occ :: "bool \<Rightarrow> BlobId \<Rightarrow> PrunePack list \<Rightarrow> nat" where
  "marked_occ m i ps = occ i (concat (map pp_blobs (filter (\<lambda>p. pp_delete_mark p = m) ps)))"

definition surviving_ids :: "bool \<Rightarrow> PrunePack list \<Rightarrow> BlobId set" where
  "surviving_ids m ps = \<Union> (pack_ids ` {p \<in> set ps. pp_delete_mark p = m \<and> survives p})"

definition fresh_packs :: "bool \<Rightarrow> PrunePack list \<Rightarrow> bool" where
  "fresh_packs m ps \<longleftrightarrow> (\<forall>p \<in> set ps. length (pp_blobs p) < 65536 \<and> (pp_delete_mark p = m \<longrightarrow> pp_to_do p = Undecided))"

lemma count_list_append [simp]: "count_list (xs @ ys) i = count_list xs i + count_list ys i"
  by (induction xs) auto

lemma marked_occ_simps [simp]:
  "marked_occ m i [] = 0"
  "marked_occ m i (p # ps) = (if pp_delete_mark p = m then occ i (pp_blobs p) else 0) + marked_occ m i ps"
  "marked_occ m i (ps @ qs) = marked_occ m i ps + marked_occ m i qs"
  by (simp_all add: marked_occ_def)

lemma surviving_ids_simps [simp]:
  "surviving_ids m [] = {}"
  "surviving_ids m (p # ps) = (if pp_delete_mark p = m \<and> survives p then pack_ids p else {}) \<union> surviving_ids m ps"
  "surviving_ids m (ps @ qs) = surviving_ids m ps \<union> surviving_ids m qs"
  by (auto simp: surviving_ids_def)

lemma packs_pass:
  assumes "enum_mapR (decide_marked d m i) n ps s = Inr (ps', s')"
    and "fresh_packs m ps" "counters U (\<lambda>i. marked_occ m i ps + rem i) safe (fst s)"
  shows "list_all2 (pass_pack m) ps ps' \<and> counters U rem (safe \<union> surviving_ids m ps') (fst s')"
  using assms
proof (induction ps arbitrary: n s ps' safe)
  case Nil
  then show ?case by simp
next
  case (Cons p ps)
  obtain u cands st where s: "s = (u, cands, st)" by (cases s) auto
  from Cons.prems(1) obtain p1 s1 ps1 where 1: "decide_marked d m i n p s = Inr (p1, s1)"
    and 2: "enum_mapR (decide_marked d m i) (Suc n) ps s1 = Inr (ps1, s')" and ps': "ps' = p1 # ps1"
    by (auto simp: result_simps)
  have fr: "fresh_packs m ps" using Cons.prems(2) by (simp add: fresh_packs_def)
  obtain u1 cands1 st1 where s1: "s1 = (u1, cands1, st1)" by (cases s1) auto
  have step: "pass_pack m p p1 \<and>
      counters U (\<lambda>i. marked_occ m i ps + rem i)
        (safe \<union> (if pp_delete_mark p1 = m \<and> survives p1 then pack_ids p1 else {})) u1"
  proof (cases "pp_delete_mark p = m")
    case False
    with 1 s s1 Cons.prems(3) show ?thesis by (auto simp: decide_marked_def pass_pack_def)
  next
    case True
    with 1 s s1 have dec: "decide_pack d i n p (u, cands, st) = Inr (p1, u1, cands1, st1)"
      by (simp add: decide_marked_def)
    have "counters U (\<lambda>i. occ i (pp_blobs p) + (marked_occ m i ps + rem i)) safe u"
      using Cons.prems(3) True s by (simp add: add.assoc)
    moreover have "pp_to_do p = Undecided" "length (pp_blobs p) < 65536"
      using Cons.prems(2) True by (simp_all add: fresh_packs_def)
    ultimately have "counters U (\<lambda>i. marked_occ m i ps + rem i) (safe \<union> (if survives p1 then pack_ids p1 else {})) u1"
      by (intro decide_pack_counters [OF dec])
    moreover have fr1: "same_pack p p1" by (rule decide_pack_frame [OF dec])
    moreover have "pp_delete_mark p1 = m" using True same_packD(4) [OF fr1] by simp
    ultimately show ?thesis using True by (simp add: pass_pack_def)
  qed
  with Cons.IH [OF 2 fr, of "safe \<union> (if pp_delete_mark p1 = m \<and> survives p1 then pack_ids p1 else {})"] s1
  show ?case by (simp add: ps' Un_assoc)
qed

abbreviation all_prune_packs :: "PruneIndex list \<Rightarrow> PrunePack list" where
  "all_prune_packs xs \<equiv> concat (map pix_packs xs)"

lemma decide_index_Inr:
  "decide_index d m i x s = Inr (x', s') \<longleftrightarrow>
     (\<exists>ps. enum_mapR (decide_marked d m i) 0 (pix_packs x) s = Inr (ps, s') \<and> x' = x\<lparr>pix_packs := ps\<rparr>)"
  by (cases s') (auto simp: decide_index_def result_simps)

text \<open>An index file keeps its id and its modification mark.\<close>

definition same_indexes :: "(PrunePack \<Rightarrow> PrunePack \<Rightarrow> bool) \<Rightarrow> PruneIndex list \<Rightarrow> PruneIndex list \<Rightarrow> bool" where
  "same_indexes R = list_all2 (\<lambda>x x'. x' = x\<lparr>pix_packs := pix_packs x'\<rparr> \<and> list_all2 R (pix_packs x) (pix_packs x'))"

lemma same_indexes_packs:
  "same_indexes R xs xs' \<Longrightarrow> list_all2 R (all_prune_packs xs) (all_prune_packs xs')"
  unfolding same_indexes_def by (induction xs xs' rule: list_all2_induct) (auto intro: list_all2_appendI)

lemma packs_same:
  assumes "enum_mapR (decide_marked d m i) n ps s = Inr (ps', s')"
  shows "list_all2 (pass_pack m) ps ps'"
  using assms
proof (induction ps arbitrary: n s ps')
  case (Cons p ps)
  from Cons.prems obtain p1 s1 ps1 where 1: "decide_marked d m i n p s = Inr (p1, s1)"
    and 2: "enum_mapR (decide_marked d m i) (Suc n) ps s1 = Inr (ps1, s')" and ps': "ps' = p1 # ps1"
    by (auto simp: result_simps)
  have "pass_pack m p p1"
    using 1 decide_pack_frame by (cases s; cases s1) (auto simp: decide_marked_def pass_pack_def split: if_splits)
  with Cons.IH [OF 2] show ?case by (simp add: ps')
qed simp

lemma indexes_same:
  assumes "enum_mapR (decide_index d m) n xs s = Inr (xs', s')"
  shows "same_indexes (pass_pack m) xs xs'"
  using assms
proof (induction xs arbitrary: n s xs')
  case (Cons x xs)
  from Cons.prems obtain ps1 s1 xs1 where 1: "enum_mapR (decide_marked d m n) 0 (pix_packs x) s = Inr (ps1, s1)"
    and 2: "enum_mapR (decide_index d m) (Suc n) xs s1 = Inr (xs1, s')" and xs': "xs' = x\<lparr>pix_packs := ps1\<rparr> # xs1"
    by (auto simp: result_simps decide_index_Inr)
  from packs_same [OF 1] Cons.IH [OF 2] show ?case by (simp add: xs' same_indexes_def)
qed (simp add: same_indexes_def)

lemma indexes_pass:
  assumes "enum_mapR (decide_index d m) n xs s = Inr (xs', s')"
    and "fresh_packs m (all_prune_packs xs)"
    and "counters U (\<lambda>i. marked_occ m i (all_prune_packs xs) + rem i) safe (fst s)"
  shows "same_indexes (pass_pack m) xs xs' \<and> counters U rem (safe \<union> surviving_ids m (all_prune_packs xs')) (fst s')"
  using assms
proof (induction xs arbitrary: n s xs' safe)
  case Nil
  then show ?case by (simp add: same_indexes_def)
next
  case (Cons x xs)
  from Cons.prems(1) obtain ps1 s1 xs1 where 1: "enum_mapR (decide_marked d m n) 0 (pix_packs x) s = Inr (ps1, s1)"
    and 2: "enum_mapR (decide_index d m) (Suc n) xs s1 = Inr (xs1, s')" and xs': "xs' = x\<lparr>pix_packs := ps1\<rparr> # xs1"
    by (auto simp: result_simps decide_index_Inr)
  have fr: "fresh_packs m (pix_packs x)" "fresh_packs m (all_prune_packs xs)"
    using Cons.prems(2) by (auto simp: fresh_packs_def)
  have "counters U (\<lambda>i. marked_occ m i (pix_packs x) + (marked_occ m i (all_prune_packs xs) + rem i)) safe (fst s)"
    using Cons.prems(3) by (simp add: add.assoc)
  from packs_pass [OF 1 fr(1) this]
  have p: "list_all2 (pass_pack m) (pix_packs x) ps1"
    "counters U (\<lambda>i. marked_occ m i (all_prune_packs xs) + rem i) (safe \<union> surviving_ids m ps1) (fst s1)"
    by simp_all
  from Cons.IH [OF 2 fr(2) p(2)] p(1) show ?case by (simp add: xs' same_indexes_def Un_assoc)
qed

lemma pass_marked_occ:
  "list_all2 (pass_pack m) ps ps' \<Longrightarrow> marked_occ k i ps' = marked_occ k i ps"
  by (induction ps ps' rule: list_all2_induct) (simp_all add: pass_packD)

lemma pass_fresh:
  "list_all2 (pass_pack True) ps ps' \<Longrightarrow> fresh_packs False ps \<Longrightarrow> fresh_packs False ps'"
proof (induction ps ps' rule: list_all2_induct)
  case (Cons p ps p' ps')
  note same = pass_packD [OF Cons.hyps(1)]
  from Cons.prems Cons.IH have "fresh_packs False ps'" by (simp add: fresh_packs_def)
  moreover have "length (pp_blobs p') < 65536" using Cons.prems same by (simp add: fresh_packs_def)
  moreover have "\<not> pp_delete_mark p' \<longrightarrow> pp_to_do p' = Undecided"
    using Cons.prems same by (cases "pp_delete_mark p") (simp_all add: fresh_packs_def)
  ultimately show ?case by (simp add: fresh_packs_def)
qed simp

lemma pass_surviving:
  "list_all2 (pass_pack False) ps ps' \<Longrightarrow> surviving_ids True ps' = surviving_ids True ps"
proof (induction ps ps' rule: list_all2_induct)
  case (Cons p ps p' ps')
  then show ?case using pass_packD [OF Cons.hyps(1)] by (cases "pp_delete_mark p") auto
qed simp

lemma same_indexes_mono: "(\<And>p q. R p q \<Longrightarrow> S p q) \<Longrightarrow> same_indexes R xs ys \<Longrightarrow> same_indexes S xs ys"
  unfolding same_indexes_def by (elim list_all2_mono) (auto elim: list_all2_mono)

lemma same_indexes_trans:
  assumes "same_indexes same_pack xs ys" "same_indexes same_pack ys zs"
  shows "same_indexes same_pack xs zs"
  using _ assms unfolding same_indexes_def
proof (rule list_all2_trans)
  fix x y z :: PruneIndex
  assume "y = x\<lparr>pix_packs := pix_packs y\<rparr> \<and> list_all2 same_pack (pix_packs x) (pix_packs y)"
    and "z = y\<lparr>pix_packs := pix_packs z\<rparr> \<and> list_all2 same_pack (pix_packs y) (pix_packs z)"
  then show "z = x\<lparr>pix_packs := pix_packs z\<rparr> \<and> list_all2 same_pack (pix_packs x) (pix_packs z)"
    by (cases x; cases y; cases z) (auto elim: list_all2_trans [rotated] intro: same_pack_trans)
qed

text \<open>After both passes every used blob is in a pack that survives.\<close>

lemma decide_packs_survive:
  assumes dec: "decide_packs d pl = Inr pl'"
    and fresh: "\<forall>p \<in> set (plan_packs pl). length (pp_blobs p) < 65536 \<and> pp_to_do p = Undecided"
    and c: "counters U (\<lambda>i. marked_occ True i (plan_packs pl) + marked_occ False i (plan_packs pl)) {} (pl_used_ids pl)"
  shows "same_indexes same_pack (pl_index_files pl) (pl_index_files pl')"
    and "\<forall>i \<in> U. \<exists>p \<in> set (plan_packs pl'). survives p \<and> i \<in> pack_ids p"
    and "dom (map_of (pl_used_ids pl')) = U"
    and "pl_existing_packs pl' = pl_existing_packs pl" "pl_time pl' = pl_time pl"
proof -
  obtain xs1 s1 xs2 u cands st where
    1: "enum_mapR (decide_index d True) 0 (pl_index_files pl)
         (pl_used_ids pl, pl_repack_candidates pl, pl_stats pl) = Inr (xs1, s1)"
    and 2: "enum_mapR (decide_index d False) 0 xs1 s1 = Inr (xs2, u, cands, st)"
    and pl': "pl' = pl\<lparr>pl_index_files := xs2, pl_used_ids := u, pl_repack_candidates := cands, pl_stats := st\<rparr>"
    using dec by (auto simp: decide_packs_def result_simps)
  have fr: "fresh_packs True (plan_packs pl)" "fresh_packs False (plan_packs pl)"
    using fresh by (auto simp: fresh_packs_def)
  have p1: "same_indexes (pass_pack True) (pl_index_files pl) xs1"
    "counters U (\<lambda>i. marked_occ False i (plan_packs pl)) ({} \<union> surviving_ids True (all_prune_packs xs1)) (fst s1)"
    using indexes_pass [OF 1 fr(1), of U "\<lambda>i. marked_occ False i (plan_packs pl)" "{}"] c by simp_all
  note l1 = same_indexes_packs [OF p1(1)]
  have c1: "counters U (\<lambda>i. marked_occ False i (all_prune_packs xs1) + 0) (surviving_ids True (all_prune_packs xs1)) (fst s1)"
    using p1(2) pass_marked_occ [OF l1] by simp
  note p2 = indexes_pass [OF 2 pass_fresh [OF l1 fr(2)] c1]
  have l2: "list_all2 (pass_pack False) (all_prune_packs xs1) (all_prune_packs xs2)"
    using p2 same_indexes_packs by blast
  have c2: "counters U (\<lambda>_. 0) (surviving_ids True (all_prune_packs xs2) \<union> surviving_ids False (all_prune_packs xs2)) u"
    using p2 pass_surviving [OF l2] by simp
  show "\<forall>i \<in> U. \<exists>p \<in> set (plan_packs pl'). survives p \<and> i \<in> pack_ids p"
  proof
    fix i assume "i \<in> U"
    then obtain k where "map_of u i = Some k" using c2 by (auto simp: counters_def)
    with c2 have "i \<in> surviving_ids True (all_prune_packs xs2) \<union> surviving_ids False (all_prune_packs xs2)"
      by (auto simp: counters_def unat_eq_0)
    then show "\<exists>p \<in> set (plan_packs pl'). survives p \<and> i \<in> pack_ids p"
      by (auto simp: pl' surviving_ids_def)
  qed
  show "dom (map_of (pl_used_ids pl')) = U" using c2 by (simp add: pl' counters_def)
  show "pl_existing_packs pl' = pl_existing_packs pl" "pl_time pl' = pl_time pl" by (simp_all add: pl')
  have "same_indexes same_pack (pl_index_files pl) xs1" "same_indexes same_pack xs1 xs2"
    using p1(1) p2 by (auto elim: same_indexes_mono [rotated] dest: pass_packD(3))
  then show "same_indexes same_pack (pl_index_files pl) (pl_index_files pl')"
    unfolding pl' by (auto intro: same_indexes_trans)
qed

end
