(* ===== verification/PruneDecisions.thy ===== *)
theory PruneDecisions
  imports PruneSafety
begin

text \<open>
  From the counters to the finished plan of crates/core/src/commands/prune.rs: what the plan starts
  with, that the candidates for repacking are exactly the packs that were left undecided, that every
  pack ends with a decision, and what checking the plan against the existing packs establishes.
\<close>

section \<open>The start of a plan\<close>

lemma dedup_packs_sub:
  "dedup_packs ps seen = (qs, m, seen') \<Longrightarrow>
     set qs \<subseteq> set ps \<and> distinct (map ip_id qs) \<and> ip_id ` set qs \<inter> seen = {} \<and>
     seen' = seen \<union> ip_id ` set ps \<and> ip_id ` set qs \<union> seen = seen' \<and> (\<not> m \<longrightarrow> qs = ps)"
proof (induction ps arbitrary: seen qs m seen')
  case (Cons p ps)
  obtain qs1 m1 where 1: "dedup_packs ps (insert (ip_id p) seen) = (qs1, m1, seen')"
    using Cons.prems by (auto split: prod.splits if_splits)
  with Cons.prems have q: "(qs, m) = (if ip_id p \<in> seen then (qs1, True) else (p # qs1, m1))"
    by (auto split: if_splits)
  note ih = Cons.IH [OF 1]
  show ?case
  proof (cases "ip_id p \<in> seen")
    case True
    then have "insert (ip_id p) seen = seen" by blast
    with True q ih show ?thesis by auto
  next
    case False
    with q ih show ?thesis by auto
  qed
qed simp

lemma count_blob_spec:
  "map_of (count_blob b u) i = None \<longleftrightarrow> map_of u i = None"
  "map_of u i = Some c \<Longrightarrow> map_of (count_blob b u) i = Some c' \<Longrightarrow> unat c' \<le> unat c + occ i [b]"
proof -
  have s: "unat (saturating_add_u8 k) \<le> unat k + 1" for k
  proof (cases "k = 255")
    case False
    then have "unat k \<noteq> 255" by (simp add: unat_arith_simps)
    then have "unat k + 1 < 256" using unsigned_less [of k, where ?'a = nat] by simp
    then show ?thesis using False by (simp add: saturating_add_u8_def unat_word_ariths)
  qed (simp add: saturating_add_u8_def)
  show "map_of (count_blob b u) i = None \<longleftrightarrow> map_of u i = None"
    by (auto simp: count_blob_def split: option.splits)
  show "map_of u i = Some c \<Longrightarrow> map_of (count_blob b u) i = Some c' \<Longrightarrow> unat c' \<le> unat c + occ i [b]"
    using s [of c] by (auto simp: count_blob_def split: option.splits if_splits)
qed

lemma count_blobs_spec:
  "map_of (fold count_blob bs u) i = None \<longleftrightarrow> map_of u i = None"
  "map_of u i = Some c \<Longrightarrow> map_of (fold count_blob bs u) i = Some c' \<Longrightarrow> unat c' \<le> unat c + occ i bs"
proof (induction bs arbitrary: u c)
  case (Cons b bs)
  {
    case 1
    show ?case using Cons.IH(1) count_blob_spec(1) by simp
  next
    case 2
    obtain c1 where c1: "map_of (count_blob b u) i = Some c1"
      using 2(1) count_blob_spec(1) [of b u i] by (cases "map_of (count_blob b u) i") auto
    have "unat c' \<le> unat c1 + occ i bs" using Cons.IH(2) [OF c1] 2(2) by simp
    moreover have "unat c1 \<le> unat c + occ i [b]" by (rule count_blob_spec(2) [OF 2(1) c1])
    ultimately show ?case by (simp split: if_splits)
  }
qed simp_all

lemma marked_occ_both: "marked_occ True i ps + marked_occ False i ps = occ i (concat (map pp_blobs ps))"
  by (induction ps) auto

text \<open>Counting and checking give the counters the decisions start from.\<close>

lemma counters_start:
  assumes "\<forall>(i, c) \<in> set (pl_used_ids pl). c = 0" "plan_check (count_used_blobs pl) = Inr ()"
  shows "counters (fst ` set (pl_used_ids pl))
    (\<lambda>i. marked_occ True i (plan_packs pl) + marked_occ False i (plan_packs pl)) {}
    (pl_used_ids (count_used_blobs pl))"
proof -
  let ?u = "pl_used_ids pl" and ?bs = "concat (map pp_blobs (plan_packs pl))"
  let ?v = "fold count_blob ?bs ?u"
  have v: "pl_used_ids (count_used_blobs pl) = ?v" by (simp add: count_used_blobs_def)
  have "dom (map_of ?v) = dom (map_of ?u)" using count_blobs_spec(1) [of ?bs ?u] by (auto simp: dom_def)
  moreover have "unat c \<le> occ i ?bs" if c: "map_of ?v i = Some c" for i c
  proof -
    obtain c0 where c0: "map_of ?u i = Some c0" using c count_blobs_spec(1) [of ?bs ?u i] by (cases "map_of ?u i") auto
    with assms(1) have "c0 = 0" by (auto dest: map_of_SomeD)
    with count_blobs_spec(2) [OF c0 c] show ?thesis by simp
  qed
  moreover have "c \<noteq> 0" if "map_of ?v i = Some c" for i c
    using map_of_SomeD [OF that] assms(2) v by (auto simp: plan_check_def split: if_splits)
  ultimately show ?thesis by (auto simp: counters_def v marked_occ_both dom_map_of_conv_image_fst)
qed

section \<open>Candidates are the undecided packs\<close>

text \<open>A task fits the mark of its pack.\<close>

definition todo_fits :: "PrunePack \<Rightarrow> bool" where
  "todo_fits p \<longleftrightarrow>
     (if pp_delete_mark p then pp_to_do p \<in> {Recover, Delete, KeepMarked, KeepMarkedAndCorrect}
      else pp_to_do p \<in> {Undecided, Keep, Repack, MarkDelete})"

definition cand_pos :: "Candidate list \<Rightarrow> (nat \<times> nat) set" where
  "cand_pos cands = (\<lambda>(_, _, _, i, j). (i, j)) ` set cands"

lemma cand_pos_simps [simp]:
  "cand_pos [] = {}" "cand_pos (xs @ ys) = cand_pos xs \<union> cand_pos ys"
  "cand_pos ((pi, st, r, i, j) # xs) = insert (i, j) (cand_pos xs)"
  by (simp_all add: cand_pos_def image_Un)

fun undecided_in :: "bool \<Rightarrow> nat \<Rightarrow> nat \<Rightarrow> PrunePack list \<Rightarrow> (nat \<times> nat) set" where
  "undecided_in m n j [] = {}"
| "undecided_in m n j (p # ps) =
    (if pp_delete_mark p = m \<and> pp_to_do p = Undecided then {(n, j)} else {}) \<union> undecided_in m n (Suc j) ps"

fun undecided_at :: "bool \<Rightarrow> nat \<Rightarrow> PruneIndex list \<Rightarrow> (nat \<times> nat) set" where
  "undecided_at m n [] = {}"
| "undecided_at m n (x # xs) = undecided_in m n 0 (pix_packs x) \<union> undecided_at m (Suc n) xs"

lemma undecided_in_iff:
  "(a, b) \<in> undecided_in m n j ps \<longleftrightarrow>
     a = n \<and> (\<exists>k < length ps. b = j + k \<and> pp_delete_mark (ps ! k) = m \<and> pp_to_do (ps ! k) = Undecided)"
proof (induction ps arbitrary: j)
  case (Cons p ps)
  then show ?case by (auto simp: Ex_less_Suc2 split: if_splits)
qed simp

lemma undecided_at_iff:
  "(a, b) \<in> undecided_at m n xs \<longleftrightarrow>
     (\<exists>k < length xs. a = n + k \<and> (\<exists>l < length (pix_packs (xs ! k)). b = l \<and>
        pp_delete_mark (pix_packs (xs ! k) ! l) = m \<and> pp_to_do (pix_packs (xs ! k) ! l) = Undecided))"
  by (induction xs arbitrary: n) (auto simp: undecided_in_iff Ex_less_Suc2)

lemma decide_pack_fits:
  assumes dec: "decide_pack d n j p (u, cands, st) = Inr (p', u', cands', st')"
    and und: "pp_to_do p = Undecided"
  shows "todo_fits p' \<and> (pp_to_do p' = Undecided \<longrightarrow> \<not> pp_delete_mark p) \<and>
    cand_pos cands' = cand_pos cands \<union> (if pp_to_do p' = Undecided then {(n, j)} else {})"
  using dec
proof (cases rule: decide_pack_cases)
  case (1 pi what added)
  have "if pp_delete_mark p then what \<in> {Todo Recover, Todo Delete, Todo KeepMarked, Todo KeepMarkedAndCorrect}
      else what \<in> {Todo Keep, Todo MarkDelete} \<or> (\<exists>r. what = Candidate r)"
    using pack_decision_cases [OF 1(2)] by (cases "pin_used_blobs pi = 0") (auto split: if_splits)
  with 1(3) und show ?thesis by (auto simp: todo_fits_def split: if_splits decision.splits)
qed

lemma packs_fit:
  assumes "enum_mapR (decide_marked d m n) j ps s = Inr (ps', s')"
    and "\<forall>p \<in> set ps. pp_delete_mark p = m \<longrightarrow> pp_to_do p = Undecided"
  shows "(\<forall>p \<in> set ps'. pp_delete_mark p = m \<longrightarrow> todo_fits p) \<and>
    cand_pos (fst (snd s')) = cand_pos (fst (snd s)) \<union> undecided_in m n j ps' \<and> (m \<longrightarrow> undecided_in m n j ps' = {})"
  using assms
proof (induction ps arbitrary: j s ps')
  case (Cons p ps)
  from Cons.prems(1) obtain p1 s1 ps1 where 1: "decide_marked d m n j p s = Inr (p1, s1)"
    and 2: "enum_mapR (decide_marked d m n) (Suc j) ps s1 = Inr (ps1, s')" and ps': "ps' = p1 # ps1"
    by (auto simp: result_simps)
  have und: "\<forall>p \<in> set ps. pp_delete_mark p = m \<longrightarrow> pp_to_do p = Undecided" using Cons.prems(2) by simp
  obtain u cands st u1 cands1 st1 where s: "s = (u, cands, st)" "s1 = (u1, cands1, st1)" by (cases s; cases s1) auto
  have "pp_delete_mark p1 = pp_delete_mark p \<and> (pp_delete_mark p1 = m \<longrightarrow> todo_fits p1) \<and>
      (pp_delete_mark p1 = m \<and> pp_to_do p1 = Undecided \<longrightarrow> \<not> m) \<and>
      cand_pos cands1 = cand_pos cands \<union> (if pp_delete_mark p1 = m \<and> pp_to_do p1 = Undecided then {(n, j)} else {})"
  proof (cases "pp_delete_mark p = m")
    case True
    with 1 s have dec: "decide_pack d n j p (u, cands, st) = Inr (p1, u1, cands1, st1)" by (simp add: decide_marked_def)
    have "pp_delete_mark p1 = pp_delete_mark p" using decide_pack_frame [OF dec] by (rule same_packD)
    with True decide_pack_fits [OF dec] Cons.prems(2) show ?thesis by auto
  qed (use 1 s in \<open>auto simp: decide_marked_def\<close>)
  with Cons.IH [OF 2 und] s show ?case by (auto simp add: ps' Un_assoc split: if_splits)
qed simp

lemma indexes_fit:
  assumes "enum_mapR (decide_index d m) n xs s = Inr (xs', s')"
    and "\<forall>p \<in> set (all_prune_packs xs). pp_delete_mark p = m \<longrightarrow> pp_to_do p = Undecided"
  shows "(\<forall>p \<in> set (all_prune_packs xs'). pp_delete_mark p = m \<longrightarrow> todo_fits p) \<and>
    cand_pos (fst (snd s')) = cand_pos (fst (snd s)) \<union> undecided_at m n xs' \<and> (m \<longrightarrow> undecided_at m n xs' = {})"
  using assms
proof (induction xs arbitrary: n s xs')
  case (Cons x xs)
  from Cons.prems(1) obtain ps1 s1 xs1 where 1: "enum_mapR (decide_marked d m n) 0 (pix_packs x) s = Inr (ps1, s1)"
    and 2: "enum_mapR (decide_index d m) (Suc n) xs s1 = Inr (xs1, s')" and xs': "xs' = x\<lparr>pix_packs := ps1\<rparr> # xs1"
    by (auto simp: result_simps decide_index_Inr)
  have "\<forall>p \<in> set (pix_packs x). pp_delete_mark p = m \<longrightarrow> pp_to_do p = Undecided"
    "\<forall>p \<in> set (all_prune_packs xs). pp_delete_mark p = m \<longrightarrow> pp_to_do p = Undecided"
    using Cons.prems(2) by auto
  from packs_fit [OF 1 this(1)] Cons.IH [OF 2 this(2)] show ?case by (simp add: xs' Un_assoc ball_Un)
qed simp

lemma decide_packs_fit:
  assumes dec: "decide_packs d pl = Inr pl'" and new: "pl_repack_candidates pl = []"
    and und: "\<forall>p \<in> set (plan_packs pl). pp_to_do p = Undecided"
    and len: "\<forall>p \<in> set (plan_packs pl). length (pp_blobs p) < 65536"
  shows "(\<forall>p \<in> set (plan_packs pl'). todo_fits p) \<and>
    cand_pos (pl_repack_candidates pl') = undecided_at False 0 (pl_index_files pl')"
proof -
  obtain xs1 s1 xs2 u cands st where
    1: "enum_mapR (decide_index d True) 0 (pl_index_files pl)
         (pl_used_ids pl, pl_repack_candidates pl, pl_stats pl) = Inr (xs1, s1)"
    and 2: "enum_mapR (decide_index d False) 0 xs1 s1 = Inr (xs2, u, cands, st)"
    and pl': "pl' = pl\<lparr>pl_index_files := xs2, pl_used_ids := u, pl_repack_candidates := cands, pl_stats := st\<rparr>"
    using dec by (auto simp: decide_packs_def result_simps)
  note l1 = same_indexes_packs [OF indexes_same [OF 1]]
  note l2 = same_indexes_packs [OF indexes_same [OF 2]]
  have f1: "\<forall>p \<in> set (all_prune_packs xs1). pp_delete_mark p \<longrightarrow> todo_fits p" "cand_pos (fst (snd s1)) = {}"
    using indexes_fit [OF 1] und new by simp_all
  have "\<forall>p \<in> set (all_prune_packs xs1). \<not> pp_delete_mark p \<longrightarrow> pp_to_do p = Undecided"
  proof (intro ballI impI)
    fix p assume p: "p \<in> set (all_prune_packs xs1)" "\<not> pp_delete_mark p"
    then obtain p0 where "p0 \<in> set (plan_packs pl)" "pass_pack True p0 p" using list_all2_right [OF l1] by blast
    with p(2) und pass_packD show "pp_to_do p = Undecided" by metis
  qed
  then have f2: "\<forall>p \<in> set (all_prune_packs xs2). \<not> pp_delete_mark p \<longrightarrow> todo_fits p"
    "cand_pos cands = undecided_at False 0 xs2"
    using indexes_fit [OF 2] f1(2) by simp_all
  have "todo_fits p" if p: "p \<in> set (all_prune_packs xs2)" for p
  proof (cases "pp_delete_mark p")
    case True
    obtain p0 where "p0 \<in> set (all_prune_packs xs1)" "pass_pack False p0 p"
      using list_all2_right [OF l2 p] by blast
    with True f1(1) pass_packD show ?thesis by metis
  qed (use p f2(1) in blast)
  then show ?thesis using f2(2) by (simp add: pl')
qed

section \<open>Deciding on the candidates\<close>

abbreviation pack_at :: "PruneIndex list \<Rightarrow> nat \<Rightarrow> nat \<Rightarrow> PrunePack" where
  "pack_at xs a b \<equiv> pix_packs (xs ! a) ! b"

definition positions :: "PruneIndex list \<Rightarrow> (nat \<times> nat) set" where
  "positions xs = {(a, b). a < length xs \<and> b < length (pix_packs (xs ! a))}"

text \<open>Only packs at the positions P change, to a decided task at least at D.\<close>

definition repacked :: "(nat \<times> nat) set \<Rightarrow> PruneIndex list \<Rightarrow> (nat \<times> nat) set \<Rightarrow> PruneIndex list \<Rightarrow> bool" where
  "repacked P xs0 D xs \<longleftrightarrow> same_indexes same_pack xs0 xs \<and>
     (\<forall>a b. (a, b) \<in> positions xs \<longrightarrow>
        (if (a, b) \<in> P then pp_to_do (pack_at xs a b) \<in> {Undecided, Keep, Repack} \<and>
            ((a, b) \<in> D \<longrightarrow> pp_to_do (pack_at xs a b) \<noteq> Undecided)
         else pack_at xs a b = pack_at xs0 a b))"

lemma set_pack_todo_Inr:
  assumes "set_pack_todo t pi status i j (xs, st) = Inr (xs', st')"
  shows "(i, j) \<in> positions xs" "t \<noteq> Undecided"
    "xs' = xs[i := (xs ! i)\<lparr>pix_packs := (pix_packs (xs ! i))[j := (pack_at xs i j)\<lparr>pp_to_do := t\<rparr>]\<rparr>]"
  using assms by (auto simp: set_pack_todo_def positions_def Let_def result_simps dest!: set_todo_Inr split: if_splits)

lemma same_indexes_refl: "same_indexes same_pack xs xs"
  by (simp add: same_indexes_def list.rel_refl)

lemma set_pack_todo_repacked:
  assumes set: "set_pack_todo t pi status i j (xs, st) = Inr (xs', st')"
    and P: "(i, j) \<in> P" "t \<in> {Keep, Repack}" and inv: "repacked P xs0 D xs"
  shows "repacked P xs0 (insert (i, j) D) xs'"
proof -
  note s = set_pack_todo_Inr [OF set]
  let ?p = "(pack_at xs i j)\<lparr>pp_to_do := t\<rparr>"
  have ij: "i < length xs" "j < length (pix_packs (xs ! i))" using s(1) by (auto simp: positions_def)
  have pos: "positions xs' = positions xs" using ij by (auto simp: positions_def s(3) nth_list_update split: if_splits)
  have at: "pack_at xs' a b = (if (a, b) = (i, j) then ?p else pack_at xs a b)" if "(a, b) \<in> positions xs" for a b
    using that ij by (auto simp: s(3) nth_list_update positions_def)
  have "list_all2 same_pack (pix_packs (xs ! i)) ((pix_packs (xs ! i))[j := ?p])"
    using ij by (auto simp: list_all2_conv_all_nth nth_list_update)
  then have "same_indexes same_pack xs xs'"
    using ij same_indexes_refl [of xs] unfolding same_indexes_def s(3) list_all2_conv_all_nth [of _ xs]
    by (auto simp: nth_list_update)
  then have "same_indexes same_pack xs0 xs'" using inv same_indexes_trans by (auto simp: repacked_def)
  then show ?thesis
    unfolding repacked_def pos
    by (intro conjI allI impI) (use inv P at in \<open>auto simp: repacked_def split: if_splits\<close>)
qed

definition resize_pos :: "resize_entry list \<Rightarrow> (nat \<times> nat) set" where
  "resize_pos rs = (\<lambda>(_, _, i, j). (i, j)) ` set rs"

lemma resize_pos_simps [simp]:
  "resize_pos [] = {}" "resize_pos (xs @ ys) = resize_pos xs \<union> resize_pos ys"
  "resize_pos ((pi, st, i, j) # xs) = insert (i, j) (resize_pos xs)"
  by (simp_all add: resize_pos_def image_Un)

text \<open>While the candidates are processed, every one seen so far is decided or waits to be resized.\<close>

definition repack_inv :: "(nat \<times> nat) set \<Rightarrow> PruneIndex list \<Rightarrow> (nat \<times> nat) set \<Rightarrow> repack_state \<Rightarrow> bool" where
  "repack_inv P xs0 S s \<longleftrightarrow> (\<forall>t. resize_pos (rs_resize s t) \<subseteq> P) \<and>
     (\<exists>D. repacked P xs0 D (rs_files s) \<and> S \<subseteq> D \<union> resize_pos (rs_resize s Tree) \<union> resize_pos (rs_resize s Data))"

lemma decide_candidate_inv:
  assumes dec: "decide_candidate max_repack max_unused no_resize (pi, status, reason, i, j) s = Inr s'"
    and P: "(i, j) \<in> P" and inv: "repack_inv P xs0 S s"
  shows "repack_inv P xs0 (insert (i, j) S) s'"
proof -
  obtain D where D: "repacked P xs0 D (rs_files s)"
    "S \<subseteq> D \<union> resize_pos (rs_resize s Tree) \<union> resize_pos (rs_resize s Data)"
    "\<forall>t. resize_pos (rs_resize s t) \<subseteq> P"
    using inv by (auto simp: repack_inv_def)
  let ?resize = "(rs_resize s)(pin_blob_type pi := rs_resize s (pin_blob_type pi) @ [(pi, status, i, j)])"
  consider (set) t xs st where "t \<in> {Keep, Repack}" "set_pack_todo t pi status i j (rs_files s, rs_stats s) = Inr (xs, st)"
      "rs_files s' = xs" "rs_resize s' = rs_resize s"
    | (resize) "rs_files s' = rs_files s" "rs_resize s' = ?resize"
    using dec by (fastforce simp: decide_candidate_def Let_def result_simps split: if_splits)
  then show ?thesis
  proof cases
    case (set t xs st)
    have "repacked P xs0 (insert (i, j) D) xs" by (rule set_pack_todo_repacked [OF set(2) P set(1) D(1)])
    with set(3,4) D(2,3) show ?thesis by (auto simp: repack_inv_def)
  next
    case resize
    have "resize_pos (?resize t) \<subseteq> P" for t using D(3) P by simp
    moreover have "insert (i, j) S \<subseteq> D \<union> resize_pos (?resize Tree) \<union> resize_pos (?resize Data)"
      using D(2) by (cases "pin_blob_type pi") auto
    ultimately show ?thesis unfolding repack_inv_def resize using D(1) by blast
  qed
qed

lemma decide_candidates_inv:
  assumes "foldR (decide_candidate max_repack max_unused no_resize) cands s = Inr s'"
    and "cand_pos cands \<subseteq> P" "repack_inv P xs0 S s"
  shows "repack_inv P xs0 (S \<union> cand_pos cands) s'"
  using assms
proof (induction cands arbitrary: s S)
  case (Cons c cands)
  obtain pi status reason i j where c: "c = (pi, status, reason, i, j)" by (metis prod_cases5)
  from Cons.prems(1) obtain s1 where 1: "decide_candidate max_repack max_unused no_resize (pi, status, reason, i, j) s = Inr s1"
    and 2: "foldR (decide_candidate max_repack max_unused no_resize) cands s1 = Inr s'"
    by (auto simp: c result_simps)
  have "repack_inv P xs0 (insert (i, j) S) s1"
    by (rule decide_candidate_inv [OF 1 _ Cons.prems(3)]) (use Cons.prems(2) c in simp)
  from Cons.IH [OF 2 _ this] Cons.prems(2) show ?case by (simp add: c)
qed simp

lemma resize_entries:
  assumes "foldR (\<lambda>(pi, status, i, j) s.
      bindR (set_pack_todo todo pi status i j (rs_files s, rs_stats s))
        (\<lambda>(xs, st). Inr (s\<lparr>rs_files := xs, rs_stats := st\<rparr>))) rs s = Inr s'"
    and "resize_pos rs \<subseteq> P" "todo \<in> {Keep, Repack}" "repacked P xs0 D (rs_files s)"
  shows "repacked P xs0 (D \<union> resize_pos rs) (rs_files s') \<and> rs_resize s' = rs_resize s"
  using assms
proof (induction rs arbitrary: s D)
  case (Cons r rs)
  obtain pi status i j where r: "r = (pi, status, i, j)" by (metis prod_cases4)
  from Cons.prems(1) obtain xs st where 1: "set_pack_todo todo pi status i j (rs_files s, rs_stats s) = Inr (xs, st)"
    and 2: "foldR (\<lambda>(pi, status, i, j) s.
      bindR (set_pack_todo todo pi status i j (rs_files s, rs_stats s))
        (\<lambda>(xs, st). Inr (s\<lparr>rs_files := xs, rs_stats := st\<rparr>))) rs (s\<lparr>rs_files := xs, rs_stats := st\<rparr>) = Inr s'"
    by (auto simp: r result_simps)
  have "repacked P xs0 (insert (i, j) D) (rs_files (s\<lparr>rs_files := xs, rs_stats := st\<rparr>))"
    using set_pack_todo_repacked [OF 1 _ Cons.prems(3,4)] Cons.prems(2) by (simp add: r)
  from Cons.IH [OF 2 _ Cons.prems(3) this] Cons.prems(2) show ?case by (simp add: r)
qed simp

lemma decide_resize_inv:
  assumes "decide_resize isqrt sizer t s = Inr s'" "repacked P xs0 D (rs_files s)" "resize_pos (rs_resize s t) \<subseteq> P"
  shows "repacked P xs0 (D \<union> resize_pos (rs_resize s t)) (rs_files s') \<and> rs_resize s' = rs_resize s"
  by (rule resize_entries [OF assms(1) [unfolded decide_resize_def Let_def] assms(3) _ assms(2)]) simp

lemma decide_repack_all:
  assumes dec: "decide_repack srt isqrt mr mu ru no_resize sizer pl = Inr pl'"
    and srt: "\<forall>cs. set (srt cs) = set cs"
    and P: "cand_pos (pl_repack_candidates pl) = P" "P = undecided_at False 0 (pl_index_files pl)"
  shows "repacked P (pl_index_files pl) P (pl_index_files pl') \<and>
    pl_used_ids pl' = pl_used_ids pl \<and> pl_existing_packs pl' = pl_existing_packs pl \<and> pl_time pl' = pl_time pl"
proof -
  obtain u s s1 s2 where
    s: "s = \<lparr>rs_files = pl_index_files pl, rs_stats = pl_stats pl, rs_resize = (\<lambda>_. []),
              rs_do_repack = (\<lambda>_. False), rs_repack_size = (\<lambda>_. 0)\<rparr>"
    and 1: "foldR (decide_candidate (max_repack_limit mr (pl_stats pl)) u no_resize) (srt (pl_repack_candidates pl)) s = Inr s1"
    and 2: "foldR (decide_resize isqrt sizer) ALL_BLOB_TYPES s1 = Inr s2"
    and pl': "pl' = pl\<lparr>pl_repack_candidates := [], pl_index_files := rs_files s2, pl_stats := rs_stats s2\<rparr>"
    using dec by (auto simp: decide_repack_def Let_def result_simps)
  let ?xs = "pl_index_files pl"
  have c: "cand_pos (srt cs) = cand_pos cs" for cs using srt by (simp add: cand_pos_def)
  have "repacked P ?xs {} ?xs"
    by (auto simp: repacked_def same_indexes_refl P(2) undecided_at_iff)
  then have "repack_inv P ?xs {} s" by (auto simp: repack_inv_def s)
  from decide_candidates_inv [OF 1 _ this] c P(1) obtain D where
    D: "repacked P ?xs D (rs_files s1)" "P \<subseteq> D \<union> resize_pos (rs_resize s1 Tree) \<union> resize_pos (rs_resize s1 Data)"
      "\<And>t. resize_pos (rs_resize s1 t) \<subseteq> P"
    by (auto simp: repack_inv_def)
  obtain sa where a: "decide_resize isqrt sizer Tree s1 = Inr sa" "decide_resize isqrt sizer Data sa = Inr s2"
    using 2 by (auto simp: ALL_BLOB_TYPES_def result_simps)
  note r1 = decide_resize_inv [OF a(1) D(1,3)]
  note r2 = decide_resize_inv [OF a(2) conjunct1 [OF r1]]
  have "repacked P ?xs (D \<union> resize_pos (rs_resize s1 Tree) \<union> resize_pos (rs_resize s1 Data)) (rs_files s2)"
    using r2 r1 D(3) by auto
  then have "repacked P ?xs P (rs_files s2)" using D(2) unfolding repacked_def by (meson subsetD)
  then show ?thesis by (simp add: pl')
qed

section \<open>Checking against the existing packs\<close>

abbreviation needed_todo :: "PackToDo \<Rightarrow> bool" where
  "needed_todo t \<equiv> t = Keep \<or> t = Recover \<or> t = Repack"

abbreviation stays :: "PrunePack \<Rightarrow> bool" where
  "stays p \<equiv> pp_to_do p = Keep \<or> pp_to_do p = Recover"

lemma map_of_delete [simp]: "map_of (AList.delete k u) = (map_of u)(k := None)"
  by (rule delete_conv')

lemma keys_delete [simp]: "fst ` set (AList.delete k u) = fst ` set u - {k}"
  by (force simp: AList.delete_eq)

lemma keys_fold_delete [simp]:
  "fst ` set (fold (\<lambda>b. AList.delete (ib_id b)) bs u) = fst ` set u - set (blob_ids bs)"
  by (induction bs arbitrary: u) auto

lemma check_size_Inr: "check_size e p = Inr x \<longleftrightarrow> e = Some (pp_size p)"
  by (auto simp: check_size_def split: option.splits)

lemma check_existing_pack_Inr:
  assumes "check_existing_pack p (ex, u) = Inr (ex', u')"
  shows "pp_to_do p \<noteq> Undecided \<and> (needed_todo (pp_to_do p) \<longrightarrow> map_of ex (pp_id p) = Some (pp_size p)) \<and>
    ex' = AList.delete (pp_id p) ex \<and> fst ` set u' = fst ` set u - (if stays p then pack_ids p else {})"
  using assms by (cases "pp_to_do p"; clarsimp simp: check_existing_pack_def Let_def result_simps check_size_Inr)

lemma check_packs_Inr:
  assumes "foldR check_existing_pack ps (ex, u) = Inr (ex', u')"
  shows "(\<forall>p \<in> set ps. pp_to_do p \<noteq> Undecided \<and>
      (needed_todo (pp_to_do p) \<longrightarrow> map_of ex (pp_id p) = Some (pp_size p))) \<and>
    (\<forall>i. map_of ex' i = (if i \<in> pp_id ` set ps then None else map_of ex i)) \<and>
    fst ` set u' = fst ` set u - \<Union> (pack_ids ` {p \<in> set ps. stays p})"
  using assms
proof (induction ps arbitrary: ex u)
  case (Cons p ps)
  from Cons.prems obtain ex1 u1 where 1: "check_existing_pack p (ex, u) = Inr (ex1, u1)"
    and 2: "foldR check_existing_pack ps (ex1, u1) = Inr (ex', u')" by (auto simp: result_simps)
  note c = check_existing_pack_Inr [OF 1]
  note ih = Cons.IH [OF 2]
  have ex1: "map_of ex1 = (map_of ex)(pp_id p := None)" using c by simp
  have "pp_to_do q \<noteq> Undecided \<and> (needed_todo (pp_to_do q) \<longrightarrow> map_of ex (pp_id q) = Some (pp_size q))"
    if "q \<in> set ps" for q
    using bspec [OF conjunct1 [OF ih] that] by (cases "pp_id q = pp_id p") (simp_all add: ex1)
  moreover have "{q \<in> set (p # ps). stays q} = (if stays p then {p} else {}) \<union> {q \<in> set ps. stays q}" by auto
  then have "fst ` set u' = fst ` set u - \<Union> (pack_ids ` {q \<in> set (p # ps). stays q})"
    using ih c by (simp add: Diff_eq Int_assoc)
  moreover have "map_of ex' i = (if i \<in> pp_id ` set (p # ps) then None else map_of ex i)" for i
    using ih by (simp add: ex1)
  ultimately show ?case using c by simp
qed simp

section \<open>The finished plan\<close>

definition new_plan_packs :: "(Id \<times> IndexFile) list \<Rightarrow> PruneIndex list" where
  "new_plan_packs index_files = pl_index_files (PrunePlan_new 0 [] [] index_files)"

text \<open>What a plan promises before the index files that need no change are dropped from it.\<close>

definition plan_ok ::
    "BlobId set \<Rightarrow> (PackId \<times> u32) list \<Rightarrow> PruneIndex list \<Rightarrow> PrunePlan \<Rightarrow> bool" where
  "plan_ok U existing xs0 pl \<longleftrightarrow>
     same_indexes same_pack xs0 (pl_index_files pl) \<and>
     (\<forall>p \<in> set (plan_packs pl). pp_to_do p \<noteq> Undecided \<and> todo_fits p \<and>
        (needed_todo (pp_to_do p) \<longrightarrow> map_of existing (pp_id p) = Some (pp_size p))) \<and>
     (\<forall>i \<in> U. \<exists>p \<in> set (plan_packs pl). needed_todo (pp_to_do p) \<and> i \<in> pack_ids p) \<and>
     (\<forall>i. map_of (pl_existing_packs pl) i = (if i \<in> pp_id ` set (plan_packs pl) then None else map_of existing i)) \<and>
     fst ` set (pl_used_ids pl) = U - \<Union> (pack_ids ` {p \<in> set (plan_packs pl). stays p})"

lemma collect_indexes_packs:
  "collect_indexes fs seen seen_delete = (xs, seen') \<Longrightarrow> p \<in> set (all_prune_packs xs) \<Longrightarrow>
     pp_to_do p = Undecided \<and> (\<exists>(k, f) \<in> set fs. \<exists>q \<in> set (ifi_packs f @ ifi_packs_to_delete f). pp_blobs p = ip_blobs q)"
proof (induction fs arbitrary: seen seen_delete xs seen')
  case (Cons kf fs)
  obtain k f where kf: "kf = (k, f)" by fastforce
  obtain ps m s1 ds m' s2 xs1 where
    1: "dedup_packs (ifi_packs f) seen = (ps, m, s1)" "dedup_packs (ifi_packs_to_delete f) seen_delete = (ds, m', s2)"
      "collect_indexes fs s1 s2 = (xs1, seen')"
    and xs: "xs = \<lparr>pix_id = k, pix_modified = m \<or> m',
         pix_packs = map (\<lambda>p. from_index_pack p False) ps @ map (\<lambda>p. from_index_pack p True) ds\<rparr> # xs1"
    using Cons.prems(1) by (auto simp: kf split: prod.splits)
  have sub: "set ps \<subseteq> set (ifi_packs f)" "set ds \<subseteq> set (ifi_packs_to_delete f)"
    using dedup_packs_sub [OF 1(1)] dedup_packs_sub [OF 1(2)] by auto
  from Cons.prems(2) consider q where "q \<in> set ps \<union> set ds" "p = from_index_pack q False \<or> p = from_index_pack q True"
    | "p \<in> set (all_prune_packs xs1)" by (auto simp: xs)
  then show ?case
  proof cases
    case 1
    with sub show ?thesis by (auto simp: kf from_index_pack_def)
  next
    case 2
    from Cons.IH [OF 1(3) this] show ?thesis by (auto simp: kf)
  qed
qed simp

lemma PrunePlan_new_packs:
  assumes "p \<in> set (plan_packs (PrunePlan_new now u ex fs))"
  shows "pp_to_do p = Undecided \<and> (\<exists>(k, f) \<in> set fs. \<exists>q \<in> set (ifi_packs f @ ifi_packs_to_delete f). pp_blobs p = ip_blobs q)"
proof -
  obtain xs seen where c: "collect_indexes fs {} {} = (xs, seen)" by fastforce
  then have "p \<in> set (all_prune_packs xs)" using assms by (auto simp: PrunePlan_new_def drop_indexed_marks_def)
  with collect_indexes_packs [OF c] show ?thesis by blast
qed

lemma PrunePlan_new_sel [simp]:
  "pl_used_ids (PrunePlan_new now u ex fs) = u" "pl_existing_packs (PrunePlan_new now u ex fs) = ex"
  "pl_repack_candidates (PrunePlan_new now u ex fs) = []"
  "pl_index_files (PrunePlan_new now u ex fs) = new_plan_packs fs"
  by (simp_all add: new_plan_packs_def PrunePlan_new_def split: prod.splits)

lemma count_used_blobs_sel [simp]:
  "pl_index_files (count_used_blobs pl) = pl_index_files pl" "pl_existing_packs (count_used_blobs pl) = pl_existing_packs pl"
  "pl_repack_candidates (count_used_blobs pl) = pl_repack_candidates pl"
  by (simp_all add: count_used_blobs_def)

definition small_packs :: "(Id \<times> IndexFile) list \<Rightarrow> bool" where
  "small_packs fs \<longleftrightarrow>
     (\<forall>(k, f) \<in> set fs. \<forall>q \<in> set (ifi_packs f @ ifi_packs_to_delete f). length (ip_blobs q) < 65536)"

text \<open>The facts on the packs after the candidates were decided on.\<close>

lemma all_prune_packs_nth:
  "p \<in> set (all_prune_packs xs) \<longleftrightarrow> (\<exists>a b. (a, b) \<in> positions xs \<and> p = pack_at xs a b)"
  by (auto simp: positions_def in_set_conv_nth) (metis nth_mem)+

lemma repacked_packs:
  assumes r: "repacked P xs0 P xs" and P: "P = undecided_at False 0 xs0"
    and fits: "\<forall>p \<in> set (all_prune_packs xs0). todo_fits p"
  shows "\<forall>p \<in> set (all_prune_packs xs). pp_to_do p \<noteq> Undecided \<and> todo_fits p"
    and "p0 \<in> set (all_prune_packs xs0) \<Longrightarrow> survives p0 \<Longrightarrow>
      \<exists>p \<in> set (all_prune_packs xs). same_pack p0 p \<and> needed_todo (pp_to_do p)"
proof -
  have same: "length xs0 = length xs" "\<And>a. a < length xs \<Longrightarrow> length (pix_packs (xs0 ! a)) = length (pix_packs (xs ! a))"
    "\<And>a b. (a, b) \<in> positions xs \<Longrightarrow> same_pack (pack_at xs0 a b) (pack_at xs a b)"
    using r by (auto simp: repacked_def same_indexes_def list_all2_conv_all_nth positions_def)
  then have pos: "positions xs0 = positions xs" by (auto simp: positions_def)
  have P': "(a, b) \<in> P \<longleftrightarrow> \<not> pp_delete_mark (pack_at xs0 a b) \<and> pp_to_do (pack_at xs0 a b) = Undecided"
    if "(a, b) \<in> positions xs" for a b
    using that pos by (auto simp: P undecided_at_iff positions_def)
  have all: "pp_to_do (pack_at xs a b) \<noteq> Undecided \<and> todo_fits (pack_at xs a b) \<and>
      (survives (pack_at xs0 a b) \<longrightarrow> needed_todo (pp_to_do (pack_at xs a b)))" if ab: "(a, b) \<in> positions xs" for a b
  proof (cases "(a, b) \<in> P")
    case True
    then have "pp_to_do (pack_at xs a b) \<in> {Undecided, Keep, Repack}" "pp_to_do (pack_at xs a b) \<noteq> Undecided"
      using r ab unfolding repacked_def by presburger+
    then have "pp_to_do (pack_at xs a b) \<in> {Keep, Repack}" by blast
    moreover have "\<not> pp_delete_mark (pack_at xs a b)"
      using True P' [OF ab] same_packD(4) [OF same(3) [OF ab]] by simp
    ultimately show ?thesis by (auto simp: todo_fits_def)
  next
    case False
    then have e: "pack_at xs a b = pack_at xs0 a b" using r ab by (simp add: repacked_def)
    have "todo_fits (pack_at xs0 a b)" using fits ab pos all_prune_packs_nth by blast
    moreover from this False P' [OF ab] have "pp_to_do (pack_at xs0 a b) \<noteq> Undecided" by (auto simp: todo_fits_def)
    ultimately show ?thesis by (auto simp: e survives_def)
  qed
  show "\<forall>p \<in> set (all_prune_packs xs). pp_to_do p \<noteq> Undecided \<and> todo_fits p"
    using all by (metis all_prune_packs_nth)
  show "\<exists>p \<in> set (all_prune_packs xs). same_pack p0 p \<and> needed_todo (pp_to_do p)"
    if p0: "p0 \<in> set (all_prune_packs xs0)" "survives p0"
  proof -
    obtain a b where "(a, b) \<in> positions xs" "p0 = pack_at xs0 a b" using p0(1) pos all_prune_packs_nth by blast
    with p0(2) all same(3) show ?thesis using all_prune_packs_nth by blast
  qed
qed

text \<open>A successful planning run ends in a plan that is ok, from which \<open>filter_index_files\<close> drops index
  files.\<close>

lemma from_prune_options_ok:
  assumes run: "from_prune_options srt isqrt config opts now young_limit delete_limit used_ids total_size existing fs = Inr pl"
    and used: "\<forall>(i, c) \<in> set used_ids. c = 0" and small: "small_packs fs" and srt: "\<forall>cs. set (srt cs) = set cs"
  obtains pl' where "pl = filter_index_files (po_instant_delete opts) pl'"
    "plan_ok (fst ` set used_ids) existing (new_plan_packs fs) pl'"
proof -
  let ?U = "fst ` set used_ids"
  let ?pl0 = "PrunePlan_new now used_ids existing fs"
  obtain d sizer mr mu ru nr pl1 pl2 pl3 where chk: "plan_check (count_used_blobs ?pl0) = Inr ()"
    and 1: "decide_packs d (count_used_blobs ?pl0) = Inr pl1"
    and 2: "decide_repack srt isqrt mr mu ru nr sizer pl1 = Inr pl2"
    and 3: "check_existing_packs pl2 = Inr pl3" and pl: "pl = filter_index_files (po_instant_delete opts) pl3"
    using run by (auto simp: from_prune_options_def Let_def result_simps split: if_splits)
  have p0: "\<forall>p \<in> set (plan_packs (count_used_blobs ?pl0)). length (pp_blobs p) < 65536 \<and> pp_to_do p = Undecided"
    using PrunePlan_new_packs [of _ now used_ids existing fs] small by (fastforce simp: small_packs_def)
  have c: "counters ?U (\<lambda>i. marked_occ True i (plan_packs (count_used_blobs ?pl0))
      + marked_occ False i (plan_packs (count_used_blobs ?pl0))) {} (pl_used_ids (count_used_blobs ?pl0))"
    using counters_start [of ?pl0] used chk by simp
  note s1 = decide_packs_survive [OF 1 p0 c]
  have f1: "\<forall>p \<in> set (plan_packs pl1). todo_fits p" "cand_pos (pl_repack_candidates pl1) = undecided_at False 0 (pl_index_files pl1)"
    using decide_packs_fit [OF 1] p0 by simp_all
  note r = decide_repack_all [OF 2 srt f1(2) refl]
  note rp = repacked_packs [OF conjunct1 [OF r] refl f1(1)]
  have same: "same_indexes same_pack (new_plan_packs fs) (pl_index_files pl2)"
    using s1(1) r same_indexes_trans by (auto simp: repacked_def)
  have used2: "\<exists>p \<in> set (plan_packs pl2). needed_todo (pp_to_do p) \<and> i \<in> pack_ids p" if i: "i \<in> ?U" for i
  proof -
    obtain p0 where p0: "p0 \<in> set (plan_packs pl1)" "survives p0" "i \<in> pack_ids p0" using bspec [OF s1(2) i] by blast
    obtain p where p: "p \<in> set (plan_packs pl2)" "same_pack p0 p" "needed_todo (pp_to_do p)" using rp(2) [OF p0(1,2)] by blast
    from p(1,3) p0(3) show ?thesis unfolding same_packD(6) [OF p(2), symmetric] by blast
  qed
  obtain ex u where 4: "foldR check_existing_pack (plan_packs pl2) (pl_existing_packs pl2, pl_used_ids pl2) = Inr (ex, u)"
    and pl3: "pl_index_files pl3 = pl_index_files pl2" "pl_existing_packs pl3 = ex" "pl_used_ids pl3 = u"
    using 3 by (auto simp: check_existing_packs_def Let_def result_simps)
  have e: "pl_existing_packs pl2 = existing" "fst ` set (pl_used_ids pl2) = ?U"
    using r s1(3,4) by (simp_all add: dom_map_of_conv_image_fst)
  note c = check_packs_Inr [OF 4, unfolded e]
  have "\<forall>p \<in> set (plan_packs pl2). pp_to_do p \<noteq> Undecided \<and> todo_fits p \<and>
      (needed_todo (pp_to_do p) \<longrightarrow> map_of existing (pp_id p) = Some (pp_size p))"
    using rp(1) conjunct1 [OF c] by blast
  then have "plan_ok ?U existing (new_plan_packs fs) pl3"
    unfolding plan_ok_def pl3 by (intro conjI same ballI [OF used2] conjunct1 [OF conjunct2 [OF c]] conjunct2 [OF conjunct2 [OF c]])
  with pl that show thesis by blast
qed

end
