(* ===== verification/PruneCrash.thy ===== *)
theory PruneCrash
  imports PruneRun PruneDecisions
begin

text \<open>
  Crash safety of pruning: at every point of a run, also one that is cut off, each used blob can still
  be found, and a finished run leaves it in a pack that is indexed and not marked for deletion.
\<close>

section \<open>Ordered programs\<close>

text \<open>What a run may touch: the packs it may drop, the unreferenced packs, the index files it replaces,
  and whether these may go first.\<close>

record prune_ctx =
  pc_known :: "PackId set"
  pc_known_index :: "Id set"
  pc_drop :: "PackId set"
  pc_unref :: "PackId set"
  pc_remove :: "Id set"
  pc_early :: bool

fun is_delete :: "prune_op \<Rightarrow> bool" where
  "is_delete (DeletePacks _ _) = True"
| "is_delete (DeleteIndexes _ _) = True"
| "is_delete _ = False"

text \<open>Packs are dropped and index files removed only after the indexer was finalized.\<close>

fun prog_ok :: "prune_ctx \<Rightarrow> prune_op list \<Rightarrow> bool" where
  "prog_ok c [] = True"
| "prog_ok c (op # ops) =
    (prog_ok c ops \<and>
     (case op of
        DeletePacks _ ids \<Rightarrow> set ids \<subseteq> pc_unref c \<or> (set ids \<subseteq> pc_drop c \<and> list_all is_delete ops)
      | DeleteIndexes _ ids \<Rightarrow> set ids \<subseteq> pc_remove c \<and> (pc_early c \<or> list_all is_delete ops)
      | AddPack _ del \<Rightarrow> del \<or> FinalizeIndexer \<in> set ops
      | RepackBlobs _ _ _ _ \<Rightarrow> FinalizeIndexer \<in> set ops
      | FinalizeIndexer \<Rightarrow> list_all is_delete ops))"

abbreviation unfinished :: "prune_op list \<Rightarrow> bool" where
  "unfinished ops \<equiv> FinalizeIndexer \<in> set ops"

lemma deletes_finished [simp]: "list_all is_delete ops \<Longrightarrow> \<not> unfinished ops"
  by (auto simp: list_all_iff)

definition ctx_ok :: "prune_ctx \<Rightarrow> bool" where
  "ctx_ok c \<longleftrightarrow> pc_drop c \<union> pc_unref c \<subseteq> pc_known c \<and> pc_remove c \<subseteq> pc_known_index c"

abbreviation ctx_step :: "prune_ctx \<Rightarrow> prune_op list \<times> prune_world \<Rightarrow> prune_op list \<times> prune_world \<Rightarrow> bool" where
  "ctx_step c \<equiv> prune_step (pc_known c) (pc_known_index c)"

abbreviation new_packs :: "prune_ctx \<Rightarrow> prune_op list \<Rightarrow> prune_world \<Rightarrow> IndexPack set" where
  "new_packs c ops w \<equiv> indexed_new (pc_known_index c) (unfinished ops) w"

section \<open>What a step changes\<close>

lemma step_prog_ok:
  assumes "ctx_step c (ops, w) (ops', w')" "prog_ok c ops"
  shows "prog_ok c ops' \<and> (unfinished ops' \<longrightarrow> unfinished ops)"
  using assms by (cases rule: prune_step.cases) (auto dest: notin_set_remove1)

lemma Indexer_add_with_mono:
  assumes "Indexer_add_with (save_at k) elapsed now ip del (pw_indexer w) (pw_index w) = Inr (ix, idx)"
    and "k \<notin> KI" "k \<notin> dom (pw_index w)"
  shows "indexed_new KI m w \<union> (if del \<or> \<not> m then {} else {ip}) \<subseteq> indexed_new KI m (w\<lparr>pw_index := idx, pw_indexer := ix\<rparr>)"
proof (cases m)
  case True
  then show ?thesis using Indexer_add_with_new(1) [OF assms] by auto
next
  case False
  have "idx k' = Some f" if "pw_index w k' = Some f" for k' f
    using Indexer_add_with_new(2) [OF assms] that by (metis map_le_def domI)
  then show ?thesis using False unfolding indexed_new_def by (simp, blast)
qed

lemma Indexer_add_with_keeps:
  assumes "Indexer_add_with (save_at k) elapsed now ip del (pw_indexer w) (pw_index w) = Inr (ix, idx)"
    and "k \<notin> KI" "k' \<in> KI"
  shows "idx k' = pw_index w k'"
  using assms(1) by (cases rule: Indexer_add_with_cases) (use assms(2,3) in auto)

lemma finalize_indexed:
  assumes "Indexer_finalize (save_at k) (pw_indexer w) (pw_index w) = Inr idx" "k \<notin> KI" "k \<notin> dom (pw_index w)"
  shows "indexed_new KI True w \<subseteq> indexed_new KI False (w\<lparr>pw_index := idx\<rparr>)" "k' \<in> KI \<Longrightarrow> idx k' = pw_index w k'"
proof -
  let ?f = "ix_file (pw_indexer w)"
  consider "set (ifi_packs ?f) = {}" "idx = pw_index w" | "idx = (pw_index w)(k \<mapsto> ?f)"
    using assms(1) by (auto simp: Indexer_finalize_def Indexer_save_def save_at_def split: if_splits)
  note idx = this
  then show "k' \<in> KI \<Longrightarrow> idx k' = pw_index w k'" by cases (use assms(2) in auto)
  show "indexed_new KI True w \<subseteq> indexed_new KI False (w\<lparr>pw_index := idx\<rparr>)"
    using idx
  proof cases
    case 2
    have "set (ifi_packs ?f) \<subseteq> indexed_new KI False (w\<lparr>pw_index := idx\<rparr>)" using 2 assms(2) by (auto simp: indexed_new_def)
    moreover have "set (ifi_packs g) \<subseteq> indexed_new KI False (w\<lparr>pw_index := idx\<rparr>)"
      if "k' \<notin> KI" "pw_index w k' = Some g" for k' g
    proof -
      have "k' \<noteq> k" using that(2) assms(3) by auto
      then have "idx k' = Some g" using that(2) 2 by simp
      with that(1) show ?thesis by (auto simp: indexed_new_def)
    qed
    moreover have "indexed_new KI True w =
        \<Union> {set (ifi_packs g) | g k'. k' \<notin> KI \<and> pw_index w k' = Some g} \<union> set (ifi_packs ?f)"
      by (simp add: indexed_new_def)
    ultimately show ?thesis by blast
  qed (auto simp: indexed_new_def)
qed

lemma step_packs:
  assumes "ctx_step c (ops, w) (ops', w')" "prog_ok c ops"
  shows "q \<in> pc_known c \<Longrightarrow> pw_packs w' q = pw_packs w q \<or> q \<in> pc_unref c \<or> (q \<in> pc_drop c \<and> \<not> unfinished ops)"
  using assms(1)
proof (cases rule: prune_step.cases)
  case (delete_one_pack i ids c' ops0)
  with assms(2) show ?thesis by (cases "q = i") auto
qed auto

lemma step_packs_new:
  assumes "ctx_step c (ops, w) (ops', w')" "prog_ok c ops" "ctx_ok c"
  shows "q \<notin> pc_known c \<Longrightarrow> pw_packs w q = Some b \<Longrightarrow> pw_packs w' q = Some b"
  using assms(1)
proof (cases rule: prune_step.cases)
  case (delete_one_pack i ids c' ops0)
  then have "i \<in> pc_known c" using assms(2,3) by (auto simp: ctx_ok_def)
  moreover assume "q \<notin> pc_known c" "pw_packs w q = Some b"
  ultimately show ?thesis using delete_one_pack by auto
qed auto

lemma step_index:
  assumes "ctx_step c (ops, w) (ops', w')" "prog_ok c ops" "k \<in> pc_known_index c"
  shows "pw_index w' k = pw_index w k \<or> (k \<in> pc_remove c \<and> (unfinished ops \<longrightarrow> pc_early c))"
  using assms(1)
proof (cases rule: prune_step.cases)
  case (add_pack k' elapsed now ip del ix idx)
  then show ?thesis using Indexer_add_with_keeps [OF add_pack(5,3) assms(3)] by simp
next
  case (finalize_indexer k' idx)
  then show ?thesis using finalize_indexed(2) [OF finalize_indexer(5,3,4) assms(3)] by simp
next
  case (delete_one_index i ids c' ops0)
  with assms(2) show ?thesis by (cases "k = i") auto
next
  case (index_pack ip written k' elapsed now ix idx)
  then show ?thesis using Indexer_add_with_keeps [OF index_pack(7) [unfolded Indexer_add_def] index_pack(5) assms(3)] by simp
qed auto

lemma delete_index_new:
  "k \<in> KI \<Longrightarrow> indexed_new KI m (w\<lparr>pw_index := (pw_index w)(k := None)\<rparr>) = indexed_new KI m w"
proof -
  assume "k \<in> KI"
  then have "{set (ifi_packs f) |f k'. k' \<notin> KI \<and> ((pw_index w)(k := None)) k' = Some f} =
      {set (ifi_packs f) |f k'. k' \<notin> KI \<and> pw_index w k' = Some f}" by (metis (no_types, lifting) fun_upd_other)
  then show ?thesis by (simp add: indexed_new_def)
qed

lemma indexed_new_packs [simp]: "indexed_new KI m (w\<lparr>pw_packs := p\<rparr>) = indexed_new KI m w"
  by (simp add: indexed_new_def)

lemma step_new_packs:
  assumes "ctx_step c (ops, w) (ops', w')" "prog_ok c ops" "ctx_ok c"
  shows "new_packs c ops w \<subseteq> new_packs c ops' w'"
  using assms(1)
proof (cases rule: prune_step.cases)
  case (add_pack k elapsed now ip del ix idx)
  with Indexer_add_with_mono [OF add_pack(5,3,4), of "unfinished ops'"] show ?thesis by simp
next
  case (finalize_indexer k idx)
  with finalize_indexed(1) [OF finalize_indexer(5,3,4)] assms(2) show ?thesis by simp
next
  case (delete_one_index i ids c' ops0)
  then have "i \<in> pc_known_index c" using assms(2,3) by (auto simp: ctx_ok_def)
  with delete_one_index show ?thesis by (simp add: delete_index_new)
next
  case (index_pack ip written k elapsed now ix idx sizer fast todo ops0)
  with Indexer_add_with_mono [OF index_pack(7) [unfolded Indexer_add_def] index_pack(5,6), of "unfinished ops'"]
  show ?thesis by simp
qed auto

lemma step_adds:
  assumes "ctx_step c (ops, w) (ops', w')" "prog_ok c ops" "AddPack ip False \<in> set ops"
  shows "AddPack ip False \<in> set ops' \<or> ip \<in> new_packs c ops' w'"
  using assms(1)
proof (cases rule: prune_step.cases)
  case (add_pack k elapsed now ip' del ix idx)
  with Indexer_add_with_mono [OF add_pack(5,3,4), of "unfinished ops'"] assms(2,3) show ?thesis by auto
qed (use assms(3) in auto)

text \<open>A blob that is to be copied waits in the repacker, or is in a new pack that waits to be indexed.\<close>

definition new_copy :: "prune_ctx \<Rightarrow> prune_world \<Rightarrow> BlobId \<Rightarrow> IndexPack \<Rightarrow> bool" where
  "new_copy c w i ip \<longleftrightarrow> i \<in> ib_id ` set (ip_blobs ip) \<and> ip_id ip \<notin> pc_known c \<and> (\<exists>b. pw_packs w (ip_id ip) = Some b \<and> i \<in> b)"

definition waiting :: "prune_ctx \<Rightarrow> prune_op list \<Rightarrow> prune_world \<Rightarrow> BlobId \<Rightarrow> bool" where
  "waiting c ops w i \<longleftrightarrow> (\<exists>sizer fast todo written. RepackBlobs sizer fast todo written \<in> set ops \<and>
     ((\<exists>(_, _, _, j) \<in> set todo. j = i) \<or> (\<exists>ip \<in> set written. new_copy c w i ip)))"

lemma step_new_copy:
  assumes "ctx_step c (ops, w) (ops', w')" "prog_ok c ops" "ctx_ok c" "new_copy c w i ip"
  shows "new_copy c w' i ip"
  using assms(4) step_packs_new [OF assms(1-3)] by (auto simp: new_copy_def)

lemma waiting_Cons:
  "waiting c (op # ops) w i \<longleftrightarrow> waiting c ops w i \<or> (\<exists>sizer fast todo written. op = RepackBlobs sizer fast todo written \<and>
     ((\<exists>(_, _, _, j) \<in> set todo. j = i) \<or> (\<exists>ip \<in> set written. new_copy c w i ip)))"
  unfolding waiting_def by (simp, blast)

lemma step_waiting:
  assumes step: "ctx_step c (ops, w) (ops', w')" and ok: "prog_ok c ops" "ctx_ok c" and wait: "waiting c ops w i"
  shows "waiting c ops' w' i \<or> (\<exists>ip \<in> new_packs c ops' w'. new_copy c w' i ip)"
proof -
  note copy = step_new_copy [OF step ok]
  have rest: "waiting c qs w i \<Longrightarrow> waiting c qs w' i" for qs unfolding waiting_def using copy by meson
  from step show ?thesis
  proof (cases rule: prune_step.cases)
    case (write_pack todo bs todo' tpe ip sizer fast written ops0)
    have todo: "set todo = set bs \<union> set todo'" using write_pack(4) by (metis set_mset_mset set_mset_union)
    have new: "new_copy c w' i ip" if "(t, src, l, i) \<in> set bs" for t src l
    proof -
      have "i \<in> ib_id ` set (ip_blobs ip)" unfolding write_pack(9) using that by force
      then show ?thesis using write_pack(3,7) by (simp add: new_copy_def)
    qed
    from wait [unfolded write_pack(1) waiting_Cons] consider "waiting c ops0 w i"
      | t src l where "(t, src, l, i) \<in> set bs" | t src l where "(t, src, l, i) \<in> set todo'"
      | ip' where "ip' \<in> set written" "new_copy c w i ip'" using todo by auto
    then show ?thesis by cases (use rest new copy in \<open>fastforce simp: write_pack(2) waiting_Cons\<close>)+
  next
    case (index_pack ip written k elapsed now ix idx sizer fast todo ops0)
    have ip: "ip \<in> new_packs c ops' w'"
      using Indexer_add_with_mono [OF index_pack(7) [unfolded Indexer_add_def] index_pack(5,6), of True] index_pack(1,2,3) ok(1)
      by simp
    from wait [unfolded index_pack(1) waiting_Cons] consider "waiting c ops0 w i"
      | t src l where "(t, src, l, i) \<in> set todo" | ip' where "ip' \<in> set written" "new_copy c w i ip'" by auto
    then show ?thesis
    proof cases
      case (3 ip')
      then show ?thesis
      proof (cases "ip' = ip")
        case True
        with 3 ip copy show ?thesis by blast
      next
        case False
        then have "ip' \<in> set (remove1 ip written)" using 3 by simp
        moreover have "new_copy c w' i ip'" by (rule copy [OF 3(2)])
        ultimately have "waiting c ops' w' i" by (auto simp: index_pack(2) waiting_Cons)
        then show ?thesis ..
      qed
    qed (use rest in \<open>fastforce simp: index_pack(2) waiting_Cons\<close>)+
  next
    case (repack_done sizer fast)
    with wait rest show ?thesis by (simp add: waiting_Cons)
  qed (use wait rest in \<open>auto simp: waiting_Cons\<close>)
qed

section \<open>The invariant of a run\<close>

text \<open>\<open>P\<close> and \<open>I\<close> are the pack and index files at the start, \<open>A\<close> the packs to be indexed again, \<open>C\<close> the blobs
  to be copied.\<close>

definition run_inv ::
    "prune_ctx \<Rightarrow> (PackId \<Rightarrow> BlobId set option) \<Rightarrow> (Id \<Rightarrow> IndexFile option) \<Rightarrow> IndexPack set \<Rightarrow> BlobId set
     \<Rightarrow> prune_op list \<Rightarrow> prune_world \<Rightarrow> bool" where
  "run_inv c P I A C ops w \<longleftrightarrow> prog_ok c ops \<and>
     (\<forall>q \<in> dom P. q \<notin> pc_unref c \<longrightarrow> unfinished ops \<or> q \<notin> pc_drop c \<longrightarrow> pw_packs w q = P q) \<and>
     (\<forall>k \<in> pc_known_index c. k \<notin> pc_remove c \<or> (unfinished ops \<and> \<not> pc_early c) \<longrightarrow> pw_index w k = I k) \<and>
     (\<forall>ip \<in> A. AddPack ip False \<in> set ops \<or> ip \<in> new_packs c ops w) \<and>
     (\<forall>i \<in> C. waiting c ops w i \<or> (\<exists>ip \<in> new_packs c ops w. new_copy c w i ip))"

lemma run_inv_step:
  assumes step: "ctx_step c (ops, w) (ops', w')" and inv: "run_inv c P I A C ops w"
    and ctx: "ctx_ok c" "dom P \<subseteq> pc_known c"
  shows "run_inv c P I A C ops' w'"
proof -
  have ok: "prog_ok c ops" and adds: "\<forall>ip \<in> A. AddPack ip False \<in> set ops \<or> ip \<in> new_packs c ops w"
    and copies: "\<forall>i \<in> C. waiting c ops w i \<or> (\<exists>ip \<in> new_packs c ops w. new_copy c w i ip)"
    using inv by (auto simp: run_inv_def)
  note ok' = step_prog_ok [OF step ok]
  note new = step_new_packs [OF step ok ctx(1)]
  have "pw_packs w' q = P q" if "q \<in> dom P" "q \<notin> pc_unref c" "unfinished ops' \<or> q \<notin> pc_drop c" for q
    using that inv step_packs [OF step ok, of q] ok' ctx(2) unfolding run_inv_def by (metis subsetD)
  moreover have "pw_index w' k = I k"
    if "k \<in> pc_known_index c" "k \<notin> pc_remove c \<or> (unfinished ops' \<and> \<not> pc_early c)" for k
    using that inv step_index [OF step ok that(1)] ok' unfolding run_inv_def by metis
  moreover have "AddPack ip False \<in> set ops' \<or> ip \<in> new_packs c ops' w'" if "ip \<in> A" for ip
    using adds that new step_adds [OF step ok, of ip] by blast
  moreover have "waiting c ops' w' i \<or> (\<exists>ip \<in> new_packs c ops' w'. new_copy c w' i ip)" if "i \<in> C" for i
    using copies that new step_waiting [OF step ok ctx(1), of i] step_new_copy [OF step ok ctx(1)] by blast
  ultimately show ?thesis using ok' unfolding run_inv_def by blast
qed

lemma run_inv_run:
  assumes "prune_run (pc_known c) (pc_known_index c) (ops, w) (ops', w')" "run_inv c P I A C ops w"
    and "ctx_ok c" "dom P \<subseteq> pc_known c"
  shows "run_inv c P I A C ops' w'"
  using assms(1,2)
  by (induction rule: rtranclp_induct2) (auto intro: run_inv_step [OF _ _ assms(3,4)])

section \<open>Where a used blob is\<close>

text \<open>A blob is found when an index file lists it in a pack (with \<open>marked\<close>, also a pack marked for
  deletion) and the file of that pack holds it.\<close>

definition found :: "bool \<Rightarrow> prune_world \<Rightarrow> BlobId \<Rightarrow> bool" where
  "found marked w i \<longleftrightarrow> (\<exists>k f. pw_index w k = Some f \<and>
     (\<exists>ip \<in> set (ifi_packs f) \<union> (if marked then set (ifi_packs_to_delete f) else {}).
        i \<in> ib_id ` set (ip_blobs ip) \<and> (\<exists>b. pw_packs w (ip_id ip) = Some b \<and> i \<in> b)))"

text \<open>The three ways a plan takes care of a used blob: its index file stays, its pack is indexed again,
  or it is copied.\<close>

definition cared_for ::
    "prune_ctx \<Rightarrow> (PackId \<Rightarrow> BlobId set option) \<Rightarrow> (Id \<Rightarrow> IndexFile option) \<Rightarrow> IndexPack set \<Rightarrow> BlobId set \<Rightarrow> BlobId \<Rightarrow> bool" where
  "cared_for c P I A C i \<longleftrightarrow>
     (\<exists>k f ip. k \<in> pc_known_index c \<and> k \<notin> pc_remove c \<and> I k = Some f \<and> ip \<in> set (ifi_packs f) \<and> i \<in> ib_id ` set (ip_blobs ip) \<and>
        ip_id ip \<notin> pc_drop c \<union> pc_unref c \<and> (\<exists>b. P (ip_id ip) = Some b \<and> i \<in> b)) \<or>
     (\<exists>ip \<in> A. i \<in> ib_id ` set (ip_blobs ip) \<and> ip_id ip \<notin> pc_drop c \<union> pc_unref c \<and> (\<exists>b. P (ip_id ip) = Some b \<and> i \<in> b)) \<or>
     i \<in> C"

text \<open>Where it was found at the start.\<close>

definition found_start :: "prune_ctx \<Rightarrow> (PackId \<Rightarrow> BlobId set option) \<Rightarrow> (Id \<Rightarrow> IndexFile option) \<Rightarrow> BlobId \<Rightarrow> bool" where
  "found_start c P I i \<longleftrightarrow> (\<exists>k f. k \<in> pc_known_index c \<and> I k = Some f \<and>
     (\<exists>ip \<in> set (ifi_packs f) \<union> set (ifi_packs_to_delete f).
        i \<in> ib_id ` set (ip_blobs ip) \<and> ip_id ip \<notin> pc_unref c \<and> (\<exists>b. P (ip_id ip) = Some b \<and> i \<in> b)))"

lemma waiting_unfinished: "prog_ok c ops \<Longrightarrow> waiting c ops w i \<Longrightarrow> unfinished ops"
  by (induction ops) (auto simp: waiting_Cons, auto simp: waiting_def)

lemma add_unfinished: "prog_ok c ops \<Longrightarrow> AddPack ip False \<in> set ops \<Longrightarrow> unfinished ops"
  by (induction ops) auto

lemma new_packs_found:
  assumes "\<not> unfinished ops" "ip \<in> new_packs c ops w" "i \<in> ib_id ` set (ip_blobs ip)" "pw_packs w (ip_id ip) = Some b" "i \<in> b"
  shows "found m w i"
proof -
  obtain f k where "pw_index w k = Some f" "ip \<in> set (ifi_packs f)" using assms(1,2) by (auto simp: indexed_new_def)
  with assms(3-) show ?thesis unfolding found_def by blast
qed

text \<open>Once the indexer was finalized, a blob that is cared for is in a pack that is not marked.\<close>

lemma finished_found:
  assumes inv: "run_inv c P I A C ops w" and care: "cared_for c P I A C i" and fin: "\<not> unfinished ops"
  shows "found m w i"
proof -
  have ok: "prog_ok c ops" using inv by (simp add: run_inv_def)
  have pk: "pw_packs w q = P q" if "P q = Some b" "q \<notin> pc_drop c \<union> pc_unref c" for q b
    using inv that unfolding run_inv_def by blast
  from care consider (stays) k f ip b where "k \<in> pc_known_index c" "k \<notin> pc_remove c" "I k = Some f" "ip \<in> set (ifi_packs f)"
      "i \<in> ib_id ` set (ip_blobs ip)" "ip_id ip \<notin> pc_drop c \<union> pc_unref c" "P (ip_id ip) = Some b" "i \<in> b"
    | (again) ip b where "ip \<in> A" "i \<in> ib_id ` set (ip_blobs ip)" "ip_id ip \<notin> pc_drop c \<union> pc_unref c"
      "P (ip_id ip) = Some b" "i \<in> b"
    | (copy) "i \<in> C" unfolding cared_for_def by blast
  then show ?thesis
  proof cases
    case stays
    then have "pw_index w k = Some f" using inv unfolding run_inv_def by metis
    with stays pk show ?thesis unfolding found_def by (metis UnCI)
  next
    case again
    then have "ip \<in> new_packs c ops w" using inv add_unfinished [OF ok] fin unfolding run_inv_def by blast
    with again pk [OF again(4,3)] show ?thesis using new_packs_found [OF fin, of ip c w i b m] by simp
  next
    case copy
    then obtain ip where "ip \<in> new_packs c ops w" "new_copy c w i ip"
      using inv waiting_unfinished [OF ok] fin unfolding run_inv_def by blast
    then show ?thesis unfolding new_copy_def using new_packs_found [OF fin] by blast
  qed
qed

text \<open>Before that, it is where it was, unless the index files were deleted early; its pack file is
  there in any case.\<close>

lemma unfinished_found:
  assumes inv: "run_inv c P I A C ops w" and start: "found_start c P I i" and unf: "unfinished ops"
  shows "\<not> pc_early c \<Longrightarrow> found True w i" and "\<exists>q b. pw_packs w q = Some b \<and> i \<in> b"
proof -
  obtain k f ip b where s: "k \<in> pc_known_index c" "I k = Some f" "ip \<in> set (ifi_packs f) \<union> set (ifi_packs_to_delete f)"
    "i \<in> ib_id ` set (ip_blobs ip)" "ip_id ip \<notin> pc_unref c" "P (ip_id ip) = Some b" "i \<in> b"
    using start unfolding found_start_def by blast
  have pk: "pw_packs w (ip_id ip) = Some b" using inv s(5,6) unf unfolding run_inv_def by (metis domI)
  then show "\<exists>q b. pw_packs w q = Some b \<and> i \<in> b" using s(7) by blast
  assume "\<not> pc_early c"
  then have "pw_index w k = Some f" using inv s(1,2) unf unfolding run_inv_def by metis
  with s pk show "found True w i" unfolding found_def by (metis (full_types))
qed

end
