(* ===== verification/PruneRepo.thy ===== *)
theory PruneRepo
  imports PruneCrash
begin

text \<open>
  The plan and the run of pruning put together (crates/core/src/commands/prune.rs): a plan made by
  \<open>from_prune_options\<close> and run by \<open>prune_repository\<close> keeps every used blob.
\<close>

section \<open>The packs of a new plan\<close>

lemma collect_indexes_ids: "collect_indexes fs s d = (xs, s') \<Longrightarrow> map pix_id xs = map fst fs"
  by (induction fs s d arbitrary: xs s' rule: collect_indexes.induct) (auto split: prod.splits)

text \<open>Each pack of a plan comes from its index file, from the section of its mark.\<close>

definition from_file :: "(Id \<times> IndexFile) list \<Rightarrow> PruneIndex \<Rightarrow> bool" where
  "from_file fs x \<longleftrightarrow> (\<exists>f. (pix_id x, f) \<in> set fs \<and> (\<forall>p \<in> set (pix_packs x).
     \<exists>q \<in> set (if pp_delete_mark p then ifi_packs_to_delete f else ifi_packs f). p = from_index_pack q (pp_delete_mark p)))"

lemma from_index_pack_sel [simp]:
  "pp_id (from_index_pack q m) = ip_id q" "pp_delete_mark (from_index_pack q m) = m" "pp_blobs (from_index_pack q m) = ip_blobs q"
  by (simp_all add: from_index_pack_def)

lemma collect_indexes_from: "collect_indexes fs s d = (xs, s') \<Longrightarrow> x \<in> set xs \<Longrightarrow> from_file fs x"
proof (induction fs s d arbitrary: xs s' rule: collect_indexes.induct)
  case (2 k f rest s d)
  obtain ps m s1 ds m' s2 xs1 where
    1: "dedup_packs (ifi_packs f) s = (ps, m, s1)" "dedup_packs (ifi_packs_to_delete f) d = (ds, m', s2)"
      "collect_indexes rest s1 s2 = (xs1, s')"
    and xs: "xs = \<lparr>pix_id = k, pix_modified = m \<or> m',
         pix_packs = map (\<lambda>p. from_index_pack p False) ps @ map (\<lambda>p. from_index_pack p True) ds\<rparr> # xs1"
    using "2.prems"(1) by (auto split: prod.splits)
  have sub: "set ps \<subseteq> set (ifi_packs f)" "set ds \<subseteq> set (ifi_packs_to_delete f)"
    using dedup_packs_sub [OF 1(1)] dedup_packs_sub [OF 1(2)] by auto
  from "2.prems"(2) consider "x = hd xs" | "x \<in> set xs1" by (auto simp: xs)
  then show ?case
  proof cases
    case 1
    with sub show ?thesis by (force simp: xs from_file_def)
  next
    case 2
    from "2.IH" [OF 1(1)[symmetric] refl 1(2)[symmetric] refl 1(3) this]
    show ?thesis unfolding from_file_def by (meson list.set_intros(2))
  qed
qed simp

text \<open>Packs are listed once, and a marked pack is not also listed as unmarked.\<close>

lemma collect_indexes_distinct:
  assumes "collect_indexes fs s d = (xs, s')"
  shows "(\<forall>m. distinct (map pp_id (filter (\<lambda>p. pp_delete_mark p = m) (all_prune_packs xs)))) \<and>
    (\<forall>p \<in> set (all_prune_packs xs). pp_id p \<notin> (if pp_delete_mark p then d else s)) \<and>
    s' = s \<union> pp_id ` {p \<in> set (all_prune_packs xs). \<not> pp_delete_mark p}"
  using assms
proof (induction fs s d arbitrary: xs s' rule: collect_indexes.induct)
  case (2 k f rest s d)
  obtain ps m s1 ds m' s2 xs1 where
    1: "dedup_packs (ifi_packs f) s = (ps, m, s1)" "dedup_packs (ifi_packs_to_delete f) d = (ds, m', s2)"
      "collect_indexes rest s1 s2 = (xs1, s')"
    and xs: "xs = \<lparr>pix_id = k, pix_modified = m \<or> m',
         pix_packs = map (\<lambda>p. from_index_pack p False) ps @ map (\<lambda>p. from_index_pack p True) ds\<rparr> # xs1"
    using "2.prems"(1) by (auto split: prod.splits)
  note ih = "2.IH" [OF 1(1)[symmetric] refl 1(2)[symmetric] refl 1(3)]
  note dp = dedup_packs_sub [OF 1(1)] and dd = dedup_packs_sub [OF 1(2)]
  have flt: "filter (\<lambda>p. pp_delete_mark p = b) (all_prune_packs xs) =
      map (\<lambda>q. from_index_pack q b) (if b then ds else ps) @ filter (\<lambda>p. pp_delete_mark p = b) (all_prune_packs xs1)" for b
    by (cases b) (simp_all add: xs filter_map comp_def)
  have "distinct (map pp_id (filter (\<lambda>p. pp_delete_mark p = b) (all_prune_packs xs)))" for b
  proof -
    define L S where "L = (if b then ds else ps)" and "S = (if b then s2 else s1)"
    have L: "ip_id ` set L \<subseteq> S" "distinct (map ip_id L)" using dp dd by (auto simp: L_def S_def)
    have "pp_id p \<notin> S" if p: "p \<in> set (filter (\<lambda>p. pp_delete_mark p = b) (all_prune_packs xs1))" for p
    proof -
      have "p \<in> set (all_prune_packs xs1)" "pp_delete_mark p = b" using p by simp_all
      with bspec [OF conjunct1 [OF conjunct2 [OF ih]] this(1)] show ?thesis by (simp add: S_def)
    qed
    then have "pp_id ` set (filter (\<lambda>p. pp_delete_mark p = b) (all_prune_packs xs1)) \<subseteq> - S"
      unfolding image_subset_iff Compl_iff by (intro ballI)
    then have "set (map ip_id L) \<inter> set (map pp_id (filter (\<lambda>p. pp_delete_mark p = b) (all_prune_packs xs1))) = {}"
      unfolding set_map using L(1) by (metis Int_mono Compl_disjoint subset_empty)
    then show ?thesis
      unfolding flt map_append distinct_append L_def [symmetric] using ih L(2) by (simp add: comp_def)
  qed
  moreover have "pp_id p \<notin> (if pp_delete_mark p then d else s)" if "p \<in> set (all_prune_packs xs)" for p
  proof -
    from that consider "p \<in> set (map (\<lambda>p. from_index_pack p False) ps)" | "p \<in> set (map (\<lambda>p. from_index_pack p True) ds)"
      | "p \<in> set (all_prune_packs xs1)" by (auto simp: xs)
    then show ?thesis
    proof cases
      case 3
      then have "pp_id p \<notin> (if pp_delete_mark p then s2 else s1)" using ih by blast
      with dp dd show ?thesis by (auto split: if_splits)
    qed (use dp dd in auto)
  qed
  moreover have "s' = s \<union> pp_id ` {p \<in> set (all_prune_packs xs). \<not> pp_delete_mark p}"
  proof -
    have "{p \<in> set (all_prune_packs xs). \<not> pp_delete_mark p} =
        (\<lambda>q. from_index_pack q False) ` set ps \<union> {p \<in> set (all_prune_packs xs1). \<not> pp_delete_mark p}"
      by (auto simp: xs)
    then have "pp_id ` {p \<in> set (all_prune_packs xs). \<not> pp_delete_mark p} =
        ip_id ` set ps \<union> pp_id ` {p \<in> set (all_prune_packs xs1). \<not> pp_delete_mark p}"
      by (simp add: image_Un image_image)
    with ih dp show ?thesis by auto
  qed
  ultimately show ?case by blast
qed simp

lemma distinct_filters: "distinct (filter P xs) \<Longrightarrow> distinct (filter (\<lambda>x. \<not> P x) xs) \<Longrightarrow> distinct xs"
  by (induction xs) (auto split: if_splits)

lemma new_plan_facts:
  shows "map pix_id (new_plan_packs fs) = map fst fs" and "\<forall>x \<in> set (new_plan_packs fs). from_file fs x"
    and "distinct (map pp_id (all_prune_packs (new_plan_packs fs)))"
proof -
  obtain xs seen where c: "collect_indexes fs {} {} = (xs, seen)" by fastforce
  have n: "new_plan_packs fs = map (drop_indexed_marks seen) xs" by (simp add: new_plan_packs_def PrunePlan_new_def c)
  show "map pix_id (new_plan_packs fs) = map fst fs"
    using collect_indexes_ids [OF c] by (simp add: n comp_def drop_indexed_marks_def)
  show "\<forall>x \<in> set (new_plan_packs fs). from_file fs x"
    using collect_indexes_from [OF c] by (fastforce simp: n from_file_def drop_indexed_marks_def)
  let ?ps = "all_prune_packs xs"
  have all: "all_prune_packs (new_plan_packs fs) = filter (\<lambda>p. \<not> pp_delete_mark p \<or> pp_id p \<notin> seen) ?ps"
    unfolding n by (induction xs) (simp_all add: drop_indexed_marks_def)
  note d = collect_indexes_distinct [OF c]
  show "distinct (map pp_id (all_prune_packs (new_plan_packs fs)))"
    unfolding all distinct_map
  proof
    have dd: "distinct (filter (\<lambda>p. pp_delete_mark p = m) ?ps)" "inj_on pp_id {p \<in> set ?ps. pp_delete_mark p = m}" for m
      using d by (auto simp: distinct_map)
    have "distinct ?ps" using distinct_filters [of pp_delete_mark ?ps] dd(1) [of True] dd(1) [of False] by simp
    then show "distinct (filter (\<lambda>p. \<not> pp_delete_mark p \<or> pp_id p \<notin> seen) ?ps)" by simp
    show "inj_on pp_id (set (filter (\<lambda>p. \<not> pp_delete_mark p \<or> pp_id p \<notin> seen) ?ps))"
    proof (rule inj_onI)
      fix p q
      assume p: "p \<in> set (filter (\<lambda>p. \<not> pp_delete_mark p \<or> pp_id p \<notin> seen) ?ps)"
        and q: "q \<in> set (filter (\<lambda>p. \<not> pp_delete_mark p \<or> pp_id p \<notin> seen) ?ps)" and e: "pp_id p = pp_id q"
      have "pp_id r \<in> seen" if "r \<in> set ?ps" "\<not> pp_delete_mark r" for r using d that by simp
      then have "pp_delete_mark p = pp_delete_mark q" using p q e unfolding set_filter by (metis (mono_tags, lifting) mem_Collect_eq)
      with p q e dd(2) [of "pp_delete_mark p"] show "p = q" by (auto dest: inj_onD)
    qed
  qed
qed

section \<open>Rebuilding the index\<close>

lemma retain_used_spec:
  "retain_used bs u = (kept, u') \<Longrightarrow>
     ib_id ` set kept = ib_id ` set bs \<inter> fst ` set u \<and> fst ` set u' = fst ` set u - ib_id ` set bs"
proof (induction bs arbitrary: u kept)
  case (Cons b bs)
  obtain kept1 where 1: "retain_used bs (AList.delete (ib_id b) u) = (kept1, u')"
    using Cons.prems by (auto split: prod.splits)
  then have k: "kept = (if map_of u (ib_id b) \<noteq> None then b # kept1 else kept1)" using Cons.prems by simp
  have "map_of u (ib_id b) \<noteq> None \<longleftrightarrow> ib_id b \<in> fst ` set u" by (simp add: map_of_eq_None_iff)
  with Cons.IH [OF 1] k show ?case by auto
qed simp

text \<open>The loop over the packs: \<open>ps\<close> are those processed.\<close>

fun is_add :: "prune_op \<Rightarrow> bool" where
  "is_add (AddPack _ _) = True"
| "is_add _ = False"

definition rb_removed :: "rebuild \<Rightarrow> PackId set" where
  "rb_removed r = set (rb_data_remove r) \<union> set (rb_tree_remove r)"

definition rebuild_inv :: "bool \<Rightarrow> BlobId set \<Rightarrow> PrunePack list \<Rightarrow> rebuild \<Rightarrow> bool" where
  "rebuild_inv instant U ps r \<longleftrightarrow>
     (\<forall>op \<in> set (rb_adds r). is_add op) \<and>
     (\<forall>p \<in> set ps. stays p \<longrightarrow> (\<exists>ip. AddPack ip False \<in> set (rb_adds r) \<and> ip_id ip = pp_id p \<and> ip_blobs ip = pp_blobs p)) \<and>
     rb_removed r \<subseteq> pp_id ` {p \<in> set ps. \<not> stays p} \<and>
     fst ` set (rb_used_ids r) = U - \<Union> (pack_ids ` {p \<in> set ps. pp_to_do p = Repack}) \<and>
     U \<inter> \<Union> (pack_ids ` {p \<in> set ps. pp_to_do p = Repack}) \<subseteq> \<Union> (pack_ids ` set (rb_repack r))"

lemma delete_pack_sel [simp]:
  "rb_adds (delete_pack p r) = rb_adds r" "rb_used_ids (delete_pack p r) = rb_used_ids r" "rb_repack (delete_pack p r) = rb_repack r"
  "rb_removed (delete_pack p r) = insert (pp_id p) (rb_removed r)"
  by (auto simp: delete_pack_def rb_removed_def split: BlobType.splits)

lemma rb_removed_update [simp]:
  "rb_removed (r\<lparr>rb_used_ids := u\<rparr>) = rb_removed r" "rb_removed (r\<lparr>rb_repack := ps\<rparr>) = rb_removed r"
  by (simp_all add: rb_removed_def)

lemma indexer_add_sel [simp]:
  "rb_adds (indexer_add ip d r) = rb_adds r @ [AddPack ip d]" "rb_used_ids (indexer_add ip d r) = rb_used_ids r"
  "rb_repack (indexer_add ip d r) = rb_repack r" "rb_removed (indexer_add ip d r) = rb_removed r"
  by (simp_all add: indexer_add_def rb_removed_def)

lemma into_index_pack_sel [simp]:
  "ip_id (into_index_pack t p) = pp_id p" "ip_blobs (into_index_pack t p) = pp_blobs p"
  "ip_id (into_index_pack_with_time t p) = pp_id p" "ip_blobs (into_index_pack_with_time t p) = pp_blobs p"
  by (simp_all add: into_index_pack_def into_index_pack_with_time_def)

lemma filter_snoc_sets:
  "{q \<in> set (ps @ [p]). P q} = (if P p then insert p {q \<in> set ps. P q} else {q \<in> set ps. P q})"
  by auto

lemma rebuild_pack_stays:
  assumes "rebuild_pack sb instant t p r = Inr r'" "stays p" "rebuild_inv instant U ps r"
  shows "rebuild_inv instant U (ps @ [p]) r'"
proof -
  obtain ip where r': "r' = indexer_add ip False r" "ip_id ip = pp_id p" "ip_blobs ip = pp_blobs p"
    using assms(1,2) by (auto simp: rebuild_pack_def)
  have "\<exists>ip. AddPack ip False \<in> set (rb_adds r') \<and> ip_id ip = pp_id q \<and> ip_blobs ip = pp_blobs q"
    if "q \<in> set (ps @ [p])" "stays q" for q
    using that assms(3) r' by (cases "q = p") (auto simp: rebuild_inv_def)
  moreover have "\<forall>op \<in> set (rb_adds r'). is_add op" using assms(3) r' by (auto simp: rebuild_inv_def)
  ultimately show ?thesis
    using assms(2,3) unfolding rebuild_inv_def filter_snoc_sets by (auto simp: r'(1))
qed

lemma rebuild_inv_cong:
  assumes "rb_adds r' = rb_adds r \<or> (\<exists>ip. rb_adds r' = rb_adds r @ [AddPack ip True])"
    and "rb_removed r' \<subseteq> insert (pp_id p) (rb_removed r)"
    and "\<not> stays p" "rebuild_inv instant U ps r"
    and "fst ` set (rb_used_ids r') = fst ` set (rb_used_ids r) - (if pp_to_do p = Repack then pack_ids p else {})"
    and "(if pp_to_do p = Repack then pack_ids p \<inter> fst ` set (rb_used_ids r) else {}) \<union> \<Union> (pack_ids ` set (rb_repack r))
      \<subseteq> \<Union> (pack_ids ` set (rb_repack r'))"
  shows "rebuild_inv instant U (ps @ [p]) r'"
proof -
  have adds: "\<forall>op \<in> set (rb_adds r'). is_add op" "set (rb_adds r) \<subseteq> set (rb_adds r')"
    using assms(1,4) by (auto simp: rebuild_inv_def)
  have st: "\<forall>q \<in> set (ps @ [p]). stays q \<longrightarrow> (\<exists>ip. AddPack ip False \<in> set (rb_adds r') \<and> ip_id ip = pp_id q \<and> ip_blobs ip = pp_blobs q)"
  proof (intro ballI impI)
    fix q assume q: "q \<in> set (ps @ [p])" "stays q"
    then have "q \<in> set ps" using assms(3) by auto
    moreover have "\<forall>q \<in> set ps. stays q \<longrightarrow> (\<exists>ip. AddPack ip False \<in> set (rb_adds r) \<and> ip_id ip = pp_id q \<and> ip_blobs ip = pp_blobs q)"
      using assms(4) unfolding rebuild_inv_def by (elim conjE)
    ultimately obtain ip where "AddPack ip False \<in> set (rb_adds r)" "ip_id ip = pp_id q" "ip_blobs ip = pp_blobs q"
      using q(2) by blast
    with adds(2) show "\<exists>ip. AddPack ip False \<in> set (rb_adds r') \<and> ip_id ip = pp_id q \<and> ip_blobs ip = pp_blobs q" by blast
  qed
  have "rb_removed r' \<subseteq> pp_id ` {q \<in> set (ps @ [p]). \<not> stays q}"
    using assms(2,3,4) unfolding rebuild_inv_def filter_snoc_sets by auto
  moreover have "fst ` set (rb_used_ids r') = U - \<Union> (pack_ids ` {q \<in> set (ps @ [p]). pp_to_do q = Repack})"
    using assms(4,5) unfolding rebuild_inv_def filter_snoc_sets by auto
  moreover have "U \<inter> \<Union> (pack_ids ` {q \<in> set (ps @ [p]). pp_to_do q = Repack}) \<subseteq> \<Union> (pack_ids ` set (rb_repack r'))"
  proof -
    have u: "fst ` set (rb_used_ids r) = U - \<Union> (pack_ids ` {q \<in> set ps. pp_to_do q = Repack})"
      "U \<inter> \<Union> (pack_ids ` {q \<in> set ps. pp_to_do q = Repack}) \<subseteq> \<Union> (pack_ids ` set (rb_repack r))"
      using assms(4) unfolding rebuild_inv_def by blast+
    define X Y Y' where "X = \<Union> (pack_ids ` {q \<in> set ps. pp_to_do q = Repack})"
      and "Y = \<Union> (pack_ids ` set (rb_repack r))" and "Y' = \<Union> (pack_ids ` set (rb_repack r'))"
    note def = this
    have "(if pp_to_do p = Repack then pack_ids p \<inter> (U - X) else {}) \<union> Y \<subseteq> Y'" "U \<inter> X \<subseteq> Y"
      unfolding def by (rule assms(6) [unfolded u(1)], rule u(2))
    then have "U \<inter> ((if pp_to_do p = Repack then pack_ids p else {}) \<union> X) \<subseteq> Y'"
      by (cases "pp_to_do p = Repack") (simp_all, blast+)
    then show ?thesis unfolding filter_snoc_sets def by (simp split: if_splits)
  qed
  ultimately show ?thesis using adds(1) st unfolding rebuild_inv_def by blast
qed

lemma rebuild_pack_inv:
  assumes run: "rebuild_pack sb instant t p r = Inr r'" and sb: "\<And>bs. set (sb bs) = set bs" and inv: "rebuild_inv instant U ps r"
  shows "rebuild_inv instant U (ps @ [p]) r'"
proof (cases "stays p")
  case True
  then show ?thesis by (rule rebuild_pack_stays [OF run _ inv])
next
  case ns: False
  show ?thesis
  proof (cases "pp_to_do p = Repack")
    case True
    obtain kept u where k: "retain_used (pp_blobs p) (rb_used_ids r) = (kept, u)" by fastforce
    let ?r1 = "if instant then delete_pack p r else indexer_add (into_index_pack_with_time t p) True r"
    have r': "r' = ?r1\<lparr>rb_used_ids := u, rb_repack := rb_repack r @ [p\<lparr>pp_blobs := sb kept\<rparr>]\<rparr>"
      using run True k by (auto simp: rebuild_pack_def Let_def split: if_splits)
    show ?thesis
      by (rule rebuild_inv_cong [OF _ _ ns inv]) (use retain_used_spec [OF k] sb in \<open>auto simp: r' True\<close>)
  next
    case False
    have "r' = delete_pack p r \<or> (\<exists>ip. r' = indexer_add ip True r)"
      using run ns False by (auto simp: rebuild_pack_def split: PackToDo.splits if_splits)
    then show ?thesis by (intro rebuild_inv_cong [OF _ _ ns inv]) (use False in auto)
  qed
qed

lemma rebuild_pack_total: "pp_to_do q \<noteq> Undecided \<Longrightarrow> \<exists>r'. rebuild_pack sb instant t q r = Inr r'"
  by (cases "pp_to_do q") (simp_all add: rebuild_pack_def Let_def split: prod.splits)

lemma rebuild_packs_inv:
  assumes "rebuild_packs sb instant t qs r = (r', res)" "\<And>bs. set (sb bs) = set bs" "rebuild_inv instant U ps r"
    and "\<forall>p \<in> set qs. pp_to_do p \<noteq> Undecided"
  shows "res = Inr () \<and> rebuild_inv instant U (ps @ qs) r'"
  using assms(1,3,4)
proof (induction qs arbitrary: r ps)
  case (Cons q qs)
  obtain r1 where 1: "rebuild_pack sb instant t q r = Inr r1"
    using Cons.prems(3) rebuild_pack_total [of q sb instant t r] by auto
  have "rebuild_inv instant U (ps @ [q]) r1" by (rule rebuild_pack_inv [OF 1 assms(2) Cons.prems(2)])
  from Cons.IH [OF _ this] Cons.prems(1,3) 1 show ?case by simp
qed simp

section \<open>The start of a run\<close>

lemma filter_index_files_sel:
  "pl_existing_packs (filter_index_files inst pl) = pl_existing_packs pl"
  "pl_used_ids (filter_index_files inst pl) = pl_used_ids pl"
  "set (pl_index_files (filter_index_files inst pl)) \<subseteq> set (pl_index_files pl)"
  by (auto simp: filter_index_files_def Let_def)

lemma filter_index_files_dropped:
  assumes "x \<in> set (pl_index_files pl)" "x \<notin> set (pl_index_files (filter_index_files inst pl))" "p \<in> set (pix_packs x)"
  shows "pp_to_do p = Keep \<or> pp_to_do p = KeepMarked"
proof -
  have "\<not> must_modify inst x"
    using assms(1,2) by (auto simp: filter_index_files_def Let_def split: if_splits)
  with assms(3) show ?thesis by (auto simp: must_modify_def)
qed

text \<open>The ids of all packs a repository knows, and the context of a run.\<close>

definition known_packs :: "(PackId \<times> u32) list \<Rightarrow> (Id \<times> IndexFile) list \<Rightarrow> PackId set" where
  "known_packs existing fs = fst ` set existing \<union> ip_id ` (\<Union>(k, f) \<in> set fs. set (ifi_packs f) \<union> set (ifi_packs_to_delete f))"

definition run_ctx :: "(PackId \<times> u32) list \<Rightarrow> (Id \<times> IndexFile) list \<Rightarrow> prune_opts \<Rightarrow> PrunePlan \<Rightarrow> prune_ctx" where
  "run_ctx existing fs opts pl =
     \<lparr>pc_known = known_packs existing fs, pc_known_index = fst ` set fs,
      pc_drop = pp_id ` {p \<in> set (plan_packs pl). \<not> stays p}, pc_unref = fst ` set (pl_existing_packs pl),
      pc_remove = pix_id ` set (pl_index_files pl), pc_early = (po_early_delete_index opts \<and> po_instant_delete opts)\<rparr>"

lemma run_ctx_sel [simp]:
  "pc_known (run_ctx ex fs opts pl) = known_packs ex fs" "pc_known_index (run_ctx ex fs opts pl) = fst ` set fs"
  "pc_drop (run_ctx ex fs opts pl) = pp_id ` {p \<in> set (plan_packs pl). \<not> stays p}"
  "pc_unref (run_ctx ex fs opts pl) = fst ` set (pl_existing_packs pl)"
  "pc_remove (run_ctx ex fs opts pl) = pix_id ` set (pl_index_files pl)"
  "pc_early (run_ctx ex fs opts pl) = (po_early_delete_index opts \<and> po_instant_delete opts)"
  by (simp_all add: run_ctx_def)

definition coalesce_ok :: "(BlobId BlobLocations list \<Rightarrow> BlobId BlobLocations list) \<Rightarrow> bool" where
  "coalesce_ok cr \<longleftrightarrow> (\<forall>ls. concat (map bls_blobs (cr ls)) = concat (map bls_blobs ls))"

lemma repack_blobs_ids:
  assumes "coalesce_ok cr"
  shows "(\<lambda>(_, _, _, i). i) ` set (repack_blobs cr ps) = \<Union> (pack_ids ` set ps)"
proof -
  have "(\<lambda>(_, _, _, i). i) ` set (repack_blobs cr [p]) = pack_ids p" for p
  proof -
    have "map (\<lambda>(_, _, _, i). i) (repack_blobs cr [p]) =
        map snd (concat (map bls_blobs (cr (map (\<lambda>b. from_blob_location (ib_location b) (ib_id b)) (pp_blobs p)))))"
      by (simp add: repack_blobs_def blob_chunks_def map_concat comp_def case_prod_unfold)
    also have "\<dots> = map snd (concat (map bls_blobs (map (\<lambda>b. from_blob_location (ib_location b) (ib_id b)) (pp_blobs p))))"
      using assms by (simp only: coalesce_ok_def)
    also have "\<dots> = blob_ids (pp_blobs p)" by (induction "pp_blobs p") (simp_all add: from_blob_location_def comp_def)
    finally show ?thesis by (metis set_map)
  qed
  then show ?thesis by (induction ps) (simp_all add: repack_blobs_def image_Un)
qed

text \<open>Programs are put together from parts that are ok.\<close>

lemma prog_ok_adds:
  assumes "\<forall>op \<in> set xs. is_add op" "prog_ok c ops" "unfinished ops \<or> (\<forall>ip. AddPack ip False \<notin> set xs)"
  shows "prog_ok c (xs @ ops)"
  using assms
proof (induction xs)
  case (Cons x xs)
  then show ?case by (cases x) auto
qed simp

definition tail_ops :: "Id list \<Rightarrow> bool \<Rightarrow> PackId list \<Rightarrow> PackId list \<Rightarrow> prune_op list" where
  "tail_ops ids early ds ts =
     (if early then [] else [DeleteIndexes True ids]) @ (if ds = [] then [] else [DeletePacks False ds]) @
     (if ts = [] then [] else [DeletePacks True ts])"

lemma prog_ok_tail:
  "set ids \<subseteq> pc_remove c \<Longrightarrow> set ds \<union> set ts \<subseteq> pc_drop c \<Longrightarrow>
     prog_ok c (FinalizeIndexer # tail_ops ids early ds ts) \<and> list_all is_delete (tail_ops ids early ds ts)"
  by (simp add: tail_ops_def)

lemma prog_ok_early:
  "prog_ok c ops \<Longrightarrow> set ids \<subseteq> pc_remove c \<Longrightarrow> e \<longrightarrow> pc_early c \<Longrightarrow>
     prog_ok c ((if e then [DeleteIndexes True ids] else []) @ ops)"
  by simp

lemma prog_ok_unref:
  assumes "prog_ok c ops" "fst ` set ex \<subseteq> pc_unref c"
  shows "prog_ok c (mark_unreferenced inst t ex @ ops)"
proof (cases "ex = [] \<or> inst")
  case True
  with assms show ?thesis by (auto simp: mark_unreferenced_def)
next
  case False
  then show ?thesis using assms(1) by (auto simp: mark_unreferenced_def intro!: prog_ok_adds)
qed

text \<open>The program of a plan is ordered.\<close>

definition whole_program ::
    "prune_opts \<Rightarrow> PrunePlan \<Rightarrow> rebuild \<Rightarrow> prune_op list \<Rightarrow> prune_op list" where
  "whole_program opts pl r rep =
     (let early = po_early_delete_index opts \<and> po_instant_delete opts; ids = map pix_id (pl_index_files pl) in
      mark_unreferenced (po_instant_delete opts) (pl_time pl) (pl_existing_packs pl) @
      (if early then [DeleteIndexes True ids] else []) @ rb_adds r @ rep @
      FinalizeIndexer # tail_ops ids early (rb_data_remove r) (rb_tree_remove r))"

lemma prune_repository_cases:
  assumes run: "prune_repository sb cr isqrt config opts pl = (ops, res)" and config: "c_append_only config \<noteq> Some True"
    and todo: "\<forall>p \<in> set (plan_packs pl). pp_to_do p \<noteq> Undecided" and sb: "\<And>bs. set (sb bs) = set bs"
  obtains (nothing) "pl_index_files pl = []" "res = Inr ()"
      "ops = mark_unreferenced (po_instant_delete opts) (pl_time pl) (pl_existing_packs pl)"
    | (rebuild) r rep sizer where "res = Inr ()" "ops = whole_program opts pl r rep"
      "rebuild_inv (po_instant_delete opts) (fst ` set (pl_used_ids pl)) (plan_packs pl) r"
      "if rb_repack r = [] then rep = [] else rep = [RepackBlobs sizer (po_fast_repack opts) (repack_blobs cr (rb_repack r)) []]"
proof (cases "pl_index_files pl = []")
  case True
  show thesis by (rule nothing) (use True run config in \<open>auto simp: prune_repository_def Let_def\<close>)
next
  case False
  let ?r0 = "\<lparr>rb_adds = [], rb_data_remove = [], rb_tree_remove = [], rb_used_ids = pl_used_ids pl, rb_repack = []\<rparr>"
  let ?inst = "po_instant_delete opts"
  obtain r res' where r: "rebuild_packs sb ?inst (pl_time pl) (plan_packs pl) ?r0 = (r, res')" by fastforce
  have "rebuild_inv ?inst (fst ` set (pl_used_ids pl)) [] ?r0" by (simp add: rebuild_inv_def rb_removed_def)
  from rebuild_packs_inv [OF r sb this todo]
  have inv: "res' = Inr ()" "rebuild_inv ?inst (fst ` set (pl_used_ids pl)) (plan_packs pl) r" by simp_all
  let ?sizer = "repack_sizer isqrt config (pl_stats pl)"
  show thesis
    by (rule rebuild [of r "if rb_repack r = [] then []
        else [RepackBlobs ?sizer (po_fast_repack opts) (repack_blobs cr (rb_repack r)) []]" ?sizer])
      (use run config False r inv in \<open>auto simp: prune_repository_def Let_def whole_program_def tail_ops_def\<close>)
qed

lemma prune_repository_prog_ok:
  assumes "prune_repository sb cr isqrt config opts pl = (ops, res)" "c_append_only config \<noteq> Some True"
    and "\<forall>p \<in> set (plan_packs pl). pp_to_do p \<noteq> Undecided" "\<And>bs. set (sb bs) = set bs"
  shows "prog_ok (run_ctx existing fs opts pl) ops"
  using assms
proof (cases rule: prune_repository_cases)
  case nothing
  then show ?thesis using prog_ok_unref [of "run_ctx existing fs opts pl" "[]"] by simp
next
  case (rebuild r rep sizer)
  let ?c = "run_ctx existing fs opts pl" and ?ids = "map pix_id (pl_index_files pl)"
  let ?early = "po_early_delete_index opts \<and> po_instant_delete opts"
  let ?fin = "FinalizeIndexer # tail_ops ?ids ?early (rb_data_remove r) (rb_tree_remove r)"
  have "prog_ok ?c ?fin"
    by (rule conjunct1 [OF prog_ok_tail])
      (use rebuild(3) in \<open>simp_all add: rebuild_inv_def rb_removed_def\<close>)
  then have fin: "prog_ok ?c (rep @ ?fin)" using rebuild(4) by (auto split: if_splits)
  have "\<forall>op \<in> set (rb_adds r). is_add op" using rebuild(3) unfolding rebuild_inv_def by (elim conjE)
  from prog_ok_adds [OF this fin] have "prog_ok ?c (rb_adds r @ rep @ ?fin)" by simp
  then have "prog_ok ?c ((if ?early then [DeleteIndexes True ?ids] else []) @ rb_adds r @ rep @ ?fin)"
    by (rule prog_ok_early) simp_all
  then show ?thesis unfolding rebuild(2) whole_program_def Let_def by (intro prog_ok_unref) simp_all
qed

section \<open>A plan cares for every used blob\<close>

definition truthful :: "(PackId \<Rightarrow> BlobId set option) \<Rightarrow> (Id \<times> IndexFile) list \<Rightarrow> bool" where
  "truthful P fs \<longleftrightarrow> (\<forall>(k, f) \<in> set fs. \<forall>q \<in> set (ifi_packs f) \<union> set (ifi_packs_to_delete f).
     \<forall>b. P (ip_id q) = Some b \<longrightarrow> ib_id ` set (ip_blobs q) \<subseteq> b)"

text \<open>A pack of a plan in terms of its index file.\<close>

lemma plan_pack_origin:
  assumes same: "same_indexes same_pack (new_plan_packs fs) xs" and x: "x \<in> set xs" "p \<in> set (pix_packs x)"
  obtains f q where "(pix_id x, f) \<in> set fs" "q \<in> set (if pp_delete_mark p then ifi_packs_to_delete f else ifi_packs f)"
    "ip_id q = pp_id p" "ip_blobs q = pp_blobs p"
proof -
  obtain x0 where x0: "x0 \<in> set (new_plan_packs fs)" "x = x0\<lparr>pix_packs := pix_packs x\<rparr>" "list_all2 same_pack (pix_packs x0) (pix_packs x)"
    using list_all2_right [OF same [unfolded same_indexes_def] x(1)] by blast
  have id0: "pix_id x = pix_id x0" by (subst x0(2)) simp
  obtain p0 where p0: "p0 \<in> set (pix_packs x0)" "same_pack p0 p" using list_all2_right [OF x0(3) x(2)] by blast
  have "from_file fs x0" using new_plan_facts(2) x0(1) by blast
  then obtain f q where "(pix_id x0, f) \<in> set fs" "q \<in> set (if pp_delete_mark p0 then ifi_packs_to_delete f else ifi_packs f)"
    "p0 = from_index_pack q (pp_delete_mark p0)" using p0(1) unfolding from_file_def by blast
  then show thesis using that [of f q] same_packD [OF p0(2)] id0 from_index_pack_sel by metis
qed

lemma same_indexes_ids: "same_indexes same_pack xs ys \<Longrightarrow> map pix_id ys = map pix_id xs"
  unfolding same_indexes_def
proof (induction xs ys rule: list_all2_induct)
  case (Cons x xs y ys)
  then have "pix_id y = pix_id x" by (cases x; cases y) simp
  with Cons show ?case by simp
qed simp

lemma same_packs_ids: "list_all2 same_pack ps qs \<Longrightarrow> map pp_id qs = map pp_id ps"
  by (induction ps qs rule: list_all2_induct) (simp_all add: same_packD(1))

text \<open>The facts on a plan that is ok; \<open>Q\<close> are its packs.\<close>

lemma plan_ok_ids:
  assumes "plan_ok U ex (new_plan_packs fs) pl" "distinct (map fst fs)"
  shows "inj_on pp_id (set (plan_packs pl))" "inj_on pix_id (set (pl_index_files pl))"
proof -
  have s: "same_indexes same_pack (new_plan_packs fs) (pl_index_files pl)" using assms(1) by (simp add: plan_ok_def)
  have "distinct (map pp_id (plan_packs pl))"
    using new_plan_facts(3) [of fs] same_packs_ids [OF same_indexes_packs [OF s]] by simp
  then show "inj_on pp_id (set (plan_packs pl))" by (simp only: distinct_map)
  have "distinct (map pix_id (pl_index_files pl))" using new_plan_facts(1) [of fs] same_indexes_ids [OF s] assms(2) by simp
  then show "inj_on pix_id (set (pl_index_files pl))" by (simp only: distinct_map)
qed

lemma needed_pack_file:
  assumes plan: "plan_ok U ex (new_plan_packs fs) pl" and P: "dom P = fst ` set ex" "truthful P fs"
    and x: "x \<in> set (pl_index_files pl)" "p \<in> set (pix_packs x)" "needed_todo (pp_to_do p)" "i \<in> pack_ids p"
  shows "(\<exists>b. P (pp_id p) = Some b \<and> i \<in> b) \<and> pp_id p \<notin> fst ` set (pl_existing_packs pl)"
proof -
  have p: "p \<in> set (plan_packs pl)" using x by auto
  have s: "same_indexes same_pack (new_plan_packs fs) (pl_index_files pl)" using plan by (simp add: plan_ok_def)
  have "map_of ex (pp_id p) = Some (pp_size p)" using plan p x(3) unfolding plan_ok_def by blast
  then have "pp_id p \<in> fst ` set ex" by (metis domI dom_map_of_conv_image_fst)
  then obtain b where b: "P (pp_id p) = Some b" using P(1) by blast
  obtain f q where q: "(pix_id x, f) \<in> set fs" "q \<in> set (if pp_delete_mark p then ifi_packs_to_delete f else ifi_packs f)"
    "ip_id q = pp_id p" "ip_blobs q = pp_blobs p" by (rule plan_pack_origin [OF s x(1,2)])
  have "q \<in> set (ifi_packs f) \<union> set (ifi_packs_to_delete f)" using q(2) by (simp split: if_splits)
  with bspec [OF P(2) [unfolded truthful_def] q(1)] b q(3) have "ib_id ` set (ip_blobs q) \<subseteq> b" by simp
  then have "i \<in> b" using x(4) q(4) by auto
  moreover have "map_of (pl_existing_packs pl) (pp_id p) = None" using plan p unfolding plan_ok_def by simp
  ultimately show ?thesis using b by (simp add: map_of_eq_None_iff)
qed

lemma plan_found_start:
  assumes plan: "plan_ok U ex (new_plan_packs fs) pl" and P: "dom P = fst ` set ex" "truthful P fs" "distinct (map fst fs)"
    and i: "i \<in> U"
  shows "found_start (run_ctx ex fs opts (filter_index_files inst pl)) P (map_of fs) i"
proof -
  obtain x p where x: "x \<in> set (pl_index_files pl)" "p \<in> set (pix_packs x)" "needed_todo (pp_to_do p)" "i \<in> pack_ids p"
    using plan i unfolding plan_ok_def by fastforce
  have s: "same_indexes same_pack (new_plan_packs fs) (pl_index_files pl)" using plan by (simp add: plan_ok_def)
  obtain f q where q: "(pix_id x, f) \<in> set fs" "q \<in> set (if pp_delete_mark p then ifi_packs_to_delete f else ifi_packs f)"
    "ip_id q = pp_id p" "ip_blobs q = pp_blobs p" by (rule plan_pack_origin [OF s x(1,2)])
  have "map_of fs (pix_id x) = Some f" using q(1) P(3) by simp
  moreover have "pix_id x \<in> fst ` set fs" using q(1) by force
  moreover have "q \<in> set (ifi_packs f) \<union> set (ifi_packs_to_delete f)" using q(2) by (auto split: if_splits)
  ultimately show ?thesis
    using needed_pack_file [OF plan P(1,2) x] q(3,4) x(4)
    unfolding found_start_def run_ctx_sel filter_index_files_sel by (metis set_map)
qed

lemma cared_for_again:
  "ip \<in> A \<Longrightarrow> i \<in> set (blob_ids (ip_blobs ip)) \<Longrightarrow> ip_id ip \<notin> pc_drop c \<union> pc_unref c \<Longrightarrow> \<exists>b. P (ip_id ip) = Some b \<and> i \<in> b
     \<Longrightarrow> cared_for c P I A C i"
  unfolding cared_for_def set_map by blast

lemma cared_for_stays:
  "k \<in> pc_known_index c \<Longrightarrow> I k = Some f \<Longrightarrow> ip \<in> set (ifi_packs f) \<Longrightarrow> k \<notin> pc_remove c \<Longrightarrow> i \<in> set (blob_ids (ip_blobs ip))
     \<Longrightarrow> ip_id ip \<notin> pc_drop c \<union> pc_unref c \<Longrightarrow> \<exists>b. P (ip_id ip) = Some b \<and> i \<in> b \<Longrightarrow> cared_for c P I A C i"
  unfolding cared_for_def set_map by blast

lemma plan_cared_for:
  assumes plan: "plan_ok U ex (new_plan_packs fs) pl0" and pl: "pl = filter_index_files (po_instant_delete opts) pl0"
    and P: "dom P = fst ` set ex" "truthful P fs" "distinct (map fst fs)"
    and run: "prune_repository sb cr isqrt config opts pl = (ops, res)" "c_append_only config \<noteq> Some True"
    and sb: "\<And>bs. set (sb bs) = set bs" and cr: "coalesce_ok cr" and i: "i \<in> U"
  shows "cared_for (run_ctx ex fs opts pl) P (map_of fs) {ip. AddPack ip False \<in> set ops}
    {i. waiting (run_ctx ex fs opts pl) ops w i} i"
proof -
  let ?c = "run_ctx ex fs opts pl"
  have sub: "set (pl_index_files pl) \<subseteq> set (pl_index_files pl0)" "set (plan_packs pl) \<subseteq> set (plan_packs pl0)"
    and same: "pl_existing_packs pl = pl_existing_packs pl0" "pl_used_ids pl = pl_used_ids pl0"
    using filter_index_files_sel [of "po_instant_delete opts" pl0] by (auto simp: pl)
  note inj = plan_ok_ids [OF plan P(3)]
  have todo: "\<forall>p \<in> set (plan_packs pl). pp_to_do p \<noteq> Undecided" using plan sub(2) unfolding plan_ok_def by blast
  have pfile: "(\<exists>b. P (pp_id p) = Some b \<and> i \<in> b) \<and> pp_id p \<notin> pc_drop ?c \<union> pc_unref ?c"
    if x: "x \<in> set (pl_index_files pl0)" "p \<in> set (pix_packs x)" "stays p" "i \<in> pack_ids p" for x p
  proof -
    have "pp_id p \<notin> pp_id ` {p \<in> set (plan_packs pl). \<not> stays p}"
    proof
      assume "pp_id p \<in> pp_id ` {p \<in> set (plan_packs pl). \<not> stays p}"
      then obtain p' where p': "p' \<in> set (plan_packs pl0)" "\<not> stays p'" "pp_id p = pp_id p'" using sub(2) by blast
      have "p \<in> set (plan_packs pl0)" using x(1,2) by auto
      with p' inj(1) have "p = p'" by (metis inj_onD)
      with p'(2) x(3) show False by blast
    qed
    moreover have "needed_todo (pp_to_do p)" using x(3) by blast
    ultimately show ?thesis using needed_pack_file [OF plan P(1,2) x(1,2) _ x(4)] by (simp add: same(1))
  qed
  show ?thesis
  proof (cases "\<exists>x \<in> set (pl_index_files pl0). \<exists>p \<in> set (pix_packs x). stays p \<and> i \<in> pack_ids p")
    case True
    then obtain x p where x: "x \<in> set (pl_index_files pl0)" "p \<in> set (pix_packs x)" "stays p" "i \<in> pack_ids p" by blast
    show ?thesis
    proof (cases "x \<in> set (pl_index_files pl)")
      case True
      from run todo sb show ?thesis
      proof (cases rule: prune_repository_cases)
        case nothing
        with True show ?thesis by simp
      next
        case (rebuild r rep sizer)
        have "p \<in> set (plan_packs pl)" using True x(2) by auto
        moreover have "\<forall>p \<in> set (plan_packs pl). stays p \<longrightarrow>
            (\<exists>ip. AddPack ip False \<in> set (rb_adds r) \<and> ip_id ip = pp_id p \<and> ip_blobs ip = pp_blobs p)"
          using rebuild(3) unfolding rebuild_inv_def by (elim conjE)
        ultimately obtain ip where ip: "AddPack ip False \<in> set (rb_adds r)" "ip_id ip = pp_id p" "ip_blobs ip = pp_blobs p"
          using x(3) by blast
        then have "AddPack ip False \<in> set ops" by (simp add: rebuild(2) whole_program_def Let_def)
        then show ?thesis using ip(2,3) pfile [OF x] x(4) by (intro cared_for_again [of ip]) simp_all
      qed
    next
      case False
      then have keep: "pp_to_do p = Keep" using filter_index_files_dropped [OF x(1) _ x(2)] x(3) unfolding pl by auto
      have "p \<in> set (plan_packs pl0)" using x(1,2) by auto
      then have "\<not> pp_delete_mark p" using plan keep unfolding plan_ok_def todo_fits_def by (metis PackToDo.distinct singletonD insertE)
      moreover have s: "same_indexes same_pack (new_plan_packs fs) (pl_index_files pl0)" using plan by (simp add: plan_ok_def)
      ultimately obtain f q where q: "(pix_id x, f) \<in> set fs" "q \<in> set (ifi_packs f)" "ip_id q = pp_id p" "ip_blobs q = pp_blobs p"
        using plan_pack_origin [OF s x(1,2)] by metis
      have "pix_id x \<notin> pix_id ` set (pl_index_files pl)" using False inj(2) x(1) sub(1) by (metis image_iff inj_onD subsetD)
      moreover have "map_of fs (pix_id x) = Some f" "pix_id x \<in> fst ` set fs" using q(1) P(3) by (simp, force)
      ultimately show ?thesis
        using q(2-) pfile [OF x] x(4) by (intro cared_for_stays [of "pix_id x" ?c "map_of fs" f q]) simp_all
    qed
  next
    case ns: False
    obtain x p where x: "x \<in> set (pl_index_files pl0)" "p \<in> set (pix_packs x)" "needed_todo (pp_to_do p)" "i \<in> pack_ids p"
      using plan i unfolding plan_ok_def by fastforce
    then have rp: "pp_to_do p = Repack" using ns by blast
    then have xp: "x \<in> set (pl_index_files pl)" using filter_index_files_dropped [OF x(1) _ x(2)] unfolding pl by fastforce
    then have pp: "p \<in> set (plan_packs pl)" using x(2) by auto
    have used: "i \<in> fst ` set (pl_used_ids pl)" using plan i ns unfolding plan_ok_def same by auto
    from run todo sb show ?thesis
    proof (cases rule: prune_repository_cases)
      case nothing
      with xp show ?thesis by simp
    next
      case (rebuild r rep sizer)
      have "fst ` set (pl_used_ids pl) \<inter> \<Union> (pack_ids ` {p \<in> set (plan_packs pl). pp_to_do p = Repack}) \<subseteq> \<Union> (pack_ids ` set (rb_repack r))"
        using rebuild(3) unfolding rebuild_inv_def by (elim conjE)
      then have ir: "i \<in> \<Union> (pack_ids ` set (rb_repack r))" using used pp rp x(4) by blast
      then have rep: "rep = [RepackBlobs sizer (po_fast_repack opts) (repack_blobs cr (rb_repack r)) []]"
        using rebuild(4) by (cases "rb_repack r = []") simp_all
      have "i \<in> (\<lambda>(_, _, _, j). j) ` set (repack_blobs cr (rb_repack r))" using ir unfolding repack_blobs_ids [OF cr] .
      then have "\<exists>(_, _, _, j) \<in> set (repack_blobs cr (rb_repack r)). j = i" by (auto simp only: image_iff case_prod_unfold)
      moreover have "RepackBlobs sizer (po_fast_repack opts) (repack_blobs cr (rb_repack r)) [] \<in> set ops"
        by (simp add: rebuild(2) rep whole_program_def Let_def)
      ultimately have "waiting ?c ops w i" unfolding waiting_def by blast
      then show ?thesis unfolding cared_for_def by blast
    qed
  qed
qed

section \<open>Pruning keeps what is used\<close>

definition start_world :: "Timestamp \<Rightarrow> (PackId \<Rightarrow> BlobId set option) \<Rightarrow> (Id \<times> IndexFile) list \<Rightarrow> prune_world" where
  "start_world now P fs = \<lparr>pw_packs = P, pw_index = map_of fs, pw_indexer = Indexer_new_unindexed now\<rparr>"

text \<open>What is assumed of a repository and of the library functions used: the listed packs are the pack
  files, the index files do not claim blobs a pack file does not hold, packs have fewer than \<open>2^16\<close>
  blobs, sorting permutes.\<close>

definition prune_setting ::
    "(Candidate list \<Rightarrow> Candidate list) \<Rightarrow> (IndexBlob list \<Rightarrow> IndexBlob list) \<Rightarrow> (BlobId BlobLocations list \<Rightarrow> BlobId BlobLocations list)
     \<Rightarrow> UsedIds \<Rightarrow> (PackId \<times> u32) list \<Rightarrow> (Id \<times> IndexFile) list \<Rightarrow> (PackId \<Rightarrow> BlobId set option) \<Rightarrow> bool" where
  "prune_setting srt sb cr used_ids existing fs P \<longleftrightarrow>
     (\<forall>cs. set (srt cs) = set cs) \<and> (\<forall>bs. set (sb bs) = set bs) \<and> coalesce_ok cr \<and>
     (\<forall>(i, c) \<in> set used_ids. c = 0) \<and> small_packs fs \<and> distinct (map fst fs) \<and>
     dom P = fst ` set existing \<and> truthful P fs"

lemma run_ctx_ok:
  assumes "plan_ok U ex (new_plan_packs fs) pl0" "pl = filter_index_files inst pl0"
  shows "ctx_ok (run_ctx ex fs opts pl)"
proof -
  have s: "same_indexes same_pack (new_plan_packs fs) (pl_index_files pl0)" using assms(1) by (simp add: plan_ok_def)
  have sub: "set (pl_index_files pl) \<subseteq> set (pl_index_files pl0)" "pl_existing_packs pl = pl_existing_packs pl0"
    using filter_index_files_sel [of inst pl0] by (simp_all add: assms(2))
  have "pp_id p \<in> known_packs ex fs" if p: "x \<in> set (pl_index_files pl0)" "p \<in> set (pix_packs x)" for x p
  proof -
    obtain f q where q: "(pix_id x, f) \<in> set fs" "q \<in> set (if pp_delete_mark p then ifi_packs_to_delete f else ifi_packs f)"
      "ip_id q = pp_id p" by (rule plan_pack_origin [OF s p])
    then have "q \<in> set (ifi_packs f) \<union> set (ifi_packs_to_delete f)" by (simp split: if_splits)
    with q(1,3) show ?thesis unfolding known_packs_def by (metis (mono_tags, lifting) UN_I UnI2 case_prod_conv image_eqI)
  qed
  then have "pc_drop (run_ctx ex fs opts pl) \<subseteq> known_packs ex fs" using sub(1) by auto
  moreover have "fst ` set (pl_existing_packs pl0) \<subseteq> fst ` set ex"
  proof
    fix i assume "i \<in> fst ` set (pl_existing_packs pl0)"
    then have "map_of (pl_existing_packs pl0) i \<noteq> None" by (simp add: map_of_eq_None_iff)
    moreover have "map_of (pl_existing_packs pl0) i = (if i \<in> pp_id ` set (plan_packs pl0) then None else map_of ex i)"
      using assms(1) unfolding plan_ok_def by blast
    ultimately have "map_of ex i \<noteq> None" by (simp split: if_splits)
    then show "i \<in> fst ` set ex" by (simp add: map_of_eq_None_iff)
  qed
  moreover have "pix_id ` set (pl_index_files pl) \<subseteq> fst ` set fs"
    using sub(1) same_indexes_ids [OF s] new_plan_facts(1) [of fs] by (metis image_mono set_map)
  ultimately show ?thesis by (auto simp: ctx_ok_def sub(2) known_packs_def)
qed

lemma prune_run_inv:
  assumes set: "prune_setting srt sb cr used_ids existing fs P"
    and plan: "from_prune_options srt isqrt config opts now young_limit delete_limit used_ids total_size existing fs = Inr pl"
    and run: "prune_repository sb cr isqrt config opts pl = (ops, res)" "c_append_only config \<noteq> Some True"
    and steps: "prune_run (known_packs existing fs) (fst ` set fs) (ops, start_world now' P fs) (ops', w)"
  obtains A C where "res = Inr ()" "run_inv (run_ctx existing fs opts pl) P (map_of fs) A C ops' w"
    "\<forall>i \<in> fst ` set used_ids. cared_for (run_ctx existing fs opts pl) P (map_of fs) A C i \<and>
       found_start (run_ctx existing fs opts pl) P (map_of fs) i"
proof -
  have s: "\<forall>cs. set (srt cs) = set cs" "\<And>bs. set (sb bs) = set bs" "coalesce_ok cr" "\<forall>(i, c) \<in> set used_ids. c = 0"
    "small_packs fs" "distinct (map fst fs)" "dom P = fst ` set existing" "truthful P fs"
    using set unfolding prune_setting_def by auto
  obtain pl0 where pl0: "pl = filter_index_files (po_instant_delete opts) pl0"
    "plan_ok (fst ` set used_ids) existing (new_plan_packs fs) pl0"
    by (rule from_prune_options_ok [OF plan s(4,5,1)])
  let ?c = "run_ctx existing fs opts pl" and ?w = "start_world now' P fs"
  let ?A = "{ip. AddPack ip False \<in> set ops}" and ?C = "{i. waiting ?c ops ?w i}"
  have "set (plan_packs pl) \<subseteq> set (plan_packs pl0)"
    using filter_index_files_sel(3) [of "po_instant_delete opts" pl0] by (auto simp: pl0(1))
  then have todo: "\<forall>p \<in> set (plan_packs pl). pp_to_do p \<noteq> Undecided" using pl0(2) unfolding plan_ok_def by blast
  have res: "res = Inr ()" using run todo s(2) by (cases rule: prune_repository_cases)
  have "prog_ok ?c ops" by (rule prune_repository_prog_ok [OF run todo s(2)])
  then have inv0: "run_inv ?c P (map_of fs) ?A ?C ops ?w" by (auto simp: run_inv_def start_world_def)
  have ctx: "ctx_ok ?c" "dom P \<subseteq> pc_known ?c" using s(7) run_ctx_ok [OF pl0(2,1)] by (simp_all add: known_packs_def)
  have "prune_run (pc_known ?c) (pc_known_index ?c) (ops, ?w) (ops', w)" using steps by (simp only: run_ctx_sel)
  note inv = run_inv_run [OF this inv0 ctx]
  have "cared_for ?c P (map_of fs) ?A ?C i \<and> found_start ?c P (map_of fs) i" if i: "i \<in> fst ` set used_ids" for i
    by (rule conjI [OF plan_cared_for [OF pl0(2,1) s(7,8,6) run s(2,3) i]
          plan_found_start [OF pl0(2) s(7,8,6) i, of opts "po_instant_delete opts", folded pl0(1)]])
  then show thesis by (intro that [OF res inv] ballI)
qed

end
