(* ===== verification/PruneProps.thy ===== *)
theory PruneProps
  imports PruneRepo
begin

text \<open>
  The properties of pruning (crates/core/src/commands/prune.rs), with a small repository to run them on:
  one index file with one pack of two blobs, one of which is used. Its plan repacks the pack.
\<close>

section \<open>A small repository\<close>

definition ex_used :: IndexBlob where
  "ex_used = \<lparr>ib_id = [1], ib_tpe = Data, ib_location = \<lparr>bl_offset = 0, bl_length = 40, bl_uncompressed_length = None\<rparr>\<rparr>"

definition ex_unused :: IndexBlob where
  "ex_unused = \<lparr>ib_id = [9], ib_tpe = Data, ib_location = \<lparr>bl_offset = 40, bl_length = 40, bl_uncompressed_length = None\<rparr>\<rparr>"

definition ex_pack :: IndexPack where
  "ex_pack = \<lparr>ip_id = [2], ip_blobs = [ex_used, ex_unused], ip_time = Some 0, ip_size = Some 120\<rparr>"

definition ex_files :: "(Id \<times> IndexFile) list" where
  "ex_files = [([3], \<lparr>ifi_supersedes = None, ifi_packs = [ex_pack], ifi_packs_to_delete = []\<rparr>)]"

definition ex_opts :: prune_opts where
  "ex_opts = \<lparr>po_max_repack = LUnlimited, po_max_unused = LSize 0, po_repack_uncompressed = False, po_repack_all = False,
     po_repack_cacheable_only = None, po_no_resize = False, po_instant_delete = True, po_early_delete_index = False,
     po_fast_repack = True\<rparr>"

abbreviation ex_config :: ConfigFile where
  "ex_config \<equiv> ConfigFile_new (\<lambda>_. []) 2 [] 0"

abbreviation ex_plan :: "PrunePlan rustic_result" where
  "ex_plan \<equiv> from_prune_options (\<lambda>cs. cs) (\<lambda>_. 0) ex_config ex_opts 5 4 3 [([1], 0)] (\<lambda>_. 0) [([2], 120)] ex_files"

definition ex_prune_pack :: PrunePack where
  "ex_prune_pack = \<lparr>pp_id = [2], pp_blob_type = Data, pp_size = 120, pp_delete_mark = False, pp_to_do = Undecided,
     pp_time = Some 0, pp_blobs = [ex_used, ex_unused]\<rparr>"

abbreviation ex_index :: "PackToDo \<Rightarrow> PruneIndex list" where
  "ex_index t \<equiv> [\<lparr>pix_id = [3], pix_modified = False, pix_packs = [ex_prune_pack\<lparr>pp_to_do := t\<rparr>]\<rparr>]"

lemma ex_blob_ids [simp]: "ib_id ex_used = [1]" "ib_id ex_unused = [9]"
  by (simp_all add: ex_used_def ex_unused_def)

lemma ex_prune_pack_sel [simp]:
  "pp_id ex_prune_pack = [2]" "pp_size ex_prune_pack = 120" "pp_blobs ex_prune_pack = [ex_used, ex_unused]"
  "pp_blob_type ex_prune_pack = Data"
  by (simp_all add: ex_prune_pack_def)

lemma ex_new: "count_used_blobs (PrunePlan_new 5 [([1], 0)] [([2], 120)] ex_files) =
    \<lparr>pl_time = 5, pl_used_ids = [([1], 1)], pl_existing_packs = [([2], 120)], pl_repack_candidates = [],
     pl_index_files = ex_index Undecided, pl_stats = PruneStats_default\<rparr>"
  by (simp add: count_used_blobs_def PrunePlan_new_def ex_files_def from_index_pack_def drop_indexed_marks_def
      ex_pack_def ip_blob_type_def ip_pack_size_def count_blob_def saturating_add_u8_def ex_prune_pack_def)
    (simp add: ex_used_def)

lemma ex_info: "\<exists>pi. PackInfo_from_pack ex_prune_pack [([1], 1)] = (pi, [([1], 0)]) \<and> pin_blob_type pi = Data \<and>
    pin_used_blobs pi = 1 \<and> pin_unused_blobs pi = 1 \<and> pin_used_size pi = 40"
  by (simp add: PackInfo_from_pack_def ex_prune_pack_def add_used_def add_unused_def)
    (simp add: ex_used_def)

lemma ex_decided:
  assumes d: "do_young_limit d = 4" "\<not> do_repack_cacheable_only d"
  shows "\<exists>pi st status. decide_packs d
      \<lparr>pl_time = 5, pl_used_ids = [([1], 1)], pl_existing_packs = [([2], 120)], pl_repack_candidates = [],
       pl_index_files = ex_index Undecided, pl_stats = PruneStats_default\<rparr> = Inr
      \<lparr>pl_time = 5, pl_used_ids = [([1], 0)], pl_existing_packs = [([2], 120)],
       pl_repack_candidates = [(pi, status, PartlyUsed, 0, 0)], pl_index_files = ex_index Undecided, pl_stats = st\<rparr> \<and>
      pin_blob_type pi = Data \<and> pin_used_size pi = 40"
proof -
  obtain pi where pi: "PackInfo_from_pack ex_prune_pack [([1], 1)] = (pi, [([1], 0)])" "pin_blob_type pi = Data"
    "pin_used_blobs pi = 1" "pin_unused_blobs pi = 1" "pin_used_size pi = 40" using ex_info by blast
  have u: "ex_prune_pack\<lparr>pp_to_do := Undecided\<rparr> = ex_prune_pack" by (simp add: ex_prune_pack_def)
  have p: "\<not> too_young d ex_prune_pack" "\<not> pp_delete_mark ex_prune_pack"
    using d by (simp_all add: too_young_def ex_prune_pack_def)
  have "\<exists>status. pack_decision d ex_prune_pack pi = (Candidate PartlyUsed, status)"
    using d p pi by (simp add: pack_decision_def)
  then obtain status where "pack_decision d ex_prune_pack pi = (Candidate PartlyUsed, status)" ..
  with pi p show ?thesis by (simp add: decide_packs_def decide_index_def decide_marked_def decide_pack_def Let_def u)
qed

lemma u64_max_gt: "\<not> (- 1 :: u64) \<le> 40"
proof
  assume "(- 1 :: u64) \<le> 40"
  with word_order.extremum [of "41 :: u64"] have "(41 :: u64) \<le> 40" by (rule order_trans)
  then show False by simp
qed

lemma ex_repacked:
  assumes "pin_blob_type pi = Data" "pin_used_size pi = 40"
  shows "\<exists>st. decide_repack (\<lambda>cs. cs) isqrt LUnlimited (LSize 0) False False sizer
      \<lparr>pl_time = 5, pl_used_ids = u, pl_existing_packs = e,
       pl_repack_candidates = [(pi, status, PartlyUsed, 0, 0)], pl_index_files = ex_index Undecided, pl_stats = st0\<rparr> = Inr
      \<lparr>pl_time = 5, pl_used_ids = u, pl_existing_packs = e, pl_repack_candidates = [],
       pl_index_files = ex_index Repack, pl_stats = st\<rparr>"
  using assms u64_max_gt
  by (simp add: decide_repack_def max_unused_limit_def max_repack_limit_def decide_candidate_def Let_def set_pack_todo_def
      set_todo_def decide_resize_def ALL_BLOB_TYPES_def)

lemma ex_planned:
  "\<exists>st. ex_plan = Inr \<lparr>pl_time = 5, pl_used_ids = [([1], 0)], pl_existing_packs = [], pl_repack_candidates = [],
     pl_index_files = ex_index Repack, pl_stats = st\<rparr>"
proof -
  let ?d = "\<lparr>do_young_limit = 4, do_delete_limit = 3, do_repack_cacheable_only = False,
      do_repack_uncompressed = False, do_repack_all = False, do_isqrt = (\<lambda>_. 0),
      do_pack_sizer = (\<lambda>t. PackSizer_from_config ex_config t 0)\<rparr>"
  obtain pi st status where 1: "decide_packs ?d
      \<lparr>pl_time = 5, pl_used_ids = [([1], 1)], pl_existing_packs = [([2], 120)], pl_repack_candidates = [],
       pl_index_files = ex_index Undecided, pl_stats = PruneStats_default\<rparr> = Inr
      \<lparr>pl_time = 5, pl_used_ids = [([1], 0)], pl_existing_packs = [([2], 120)],
       pl_repack_candidates = [(pi, status, PartlyUsed, 0, 0)], pl_index_files = ex_index Undecided, pl_stats = st\<rparr>"
    and pi: "pin_blob_type pi = Data" "pin_used_size pi = 40" using ex_decided [of ?d] by auto
  note r = ex_repacked [OF pi, of "\<lambda>_. 0" "\<lambda>t. PackSizer_from_config ex_config t 0" "[([1], 0)]" "[([2], 120)]" status st]
  have c: "c_version ex_config = 2" "c_is_hot ex_config = None" by (simp_all add: ConfigFile_new_def)
  from r obtain st1 where 2: "decide_repack (\<lambda>cs. cs) (\<lambda>_. 0) LUnlimited (LSize 0) False False
      (\<lambda>t. PackSizer_from_config ex_config t 0)
      \<lparr>pl_time = 5, pl_used_ids = [([1], 0)], pl_existing_packs = [([2], 120)],
       pl_repack_candidates = [(pi, status, PartlyUsed, 0, 0)], pl_index_files = ex_index Undecided, pl_stats = st\<rparr> = Inr
      \<lparr>pl_time = 5, pl_used_ids = [([1], 0)], pl_existing_packs = [([2], 120)], pl_repack_candidates = [],
       pl_index_files = ex_index Repack, pl_stats = st1\<rparr>" by blast
  show ?thesis
    by (simp add: from_prune_options_def ex_opts_def c Let_def ex_new plan_check_def 1 2 check_existing_packs_def
        check_existing_pack_def check_size_def filter_index_files_def must_modify_def)
qed

text \<open>A run of this plan to its end: the blob is copied to a new pack, the new pack is indexed, and the
  old index file and the old pack are removed.\<close>

definition ex_new_pack :: IndexPack where
  "ex_new_pack = \<lparr>ip_id = [4], ip_blobs = [ex_used], ip_time = Some 5, ip_size = None\<rparr>"

definition ex_packs :: "PackId \<Rightarrow> BlobId set option" where
  "ex_packs = [[2] \<mapsto> {[1], [9]}]"

lemma ex_setting: "prune_setting (\<lambda>cs. cs) (\<lambda>bs. bs) (\<lambda>ls. ls) [([1], 0)] [([2], 120)] ex_files ex_packs"
  by (auto simp: prune_setting_def coalesce_ok_def small_packs_def ex_files_def ex_pack_def ex_packs_def truthful_def)

lemma ex_program:
  assumes "ex_plan = Inr pl"
  shows "\<exists>sizer. prune_repository (\<lambda>bs. bs) (\<lambda>ls. ls) (\<lambda>_. 0) ex_config ex_opts pl =
    ([RepackBlobs sizer True [(Data, [2], ib_location ex_used, [1])] [], FinalizeIndexer, DeleteIndexes True [[3]],
      DeletePacks False [[2]]], Inr ())"
proof -
  obtain st where pl: "pl = \<lparr>pl_time = 5, pl_used_ids = [([1], 0)], pl_existing_packs = [], pl_repack_candidates = [],
     pl_index_files = ex_index Repack, pl_stats = st\<rparr>" using ex_planned assms by auto
  show ?thesis
    by (simp add: pl prune_repository_def ConfigFile_new_def ex_opts_def mark_unreferenced_def rebuild_pack_def
        delete_pack_def Let_def repack_blobs_def blob_chunks_def from_blob_location_def)
qed

abbreviation ex_known :: "PackId set" where
  "ex_known \<equiv> known_packs [([2], 120)] ex_files"

abbreviation ex_end :: prune_world where
  "ex_end \<equiv> (start_world 5 ex_packs ex_files)\<lparr>
     pw_packs := (ex_packs([4] \<mapsto> {[1]}))([2] := None),
     pw_index := [[7] \<mapsto> IndexFile_add ex_new_pack False IndexFile_default],
     pw_indexer := (Indexer_new_unindexed 5)\<lparr>ix_count := 1, ix_file := IndexFile_add ex_new_pack False IndexFile_default\<rparr>\<rparr>"

lemma ex_run:
  "prune_run ex_known (fst ` set ex_files)
    ([RepackBlobs sizer True [(Data, [2], l, [1])] [], FinalizeIndexer, DeleteIndexes True [[3]], DeletePacks False [[2]]],
     start_world 5 ex_packs ex_files) ([], ex_end)"
proof -
  let ?w0 = "start_world 5 ex_packs ex_files"
  let ?w1 = "?w0\<lparr>pw_packs := ex_packs([4] \<mapsto> {[1]})\<rparr>"
  let ?ix = "(Indexer_new_unindexed 5)\<lparr>ix_count := 1, ix_file := IndexFile_add ex_new_pack False IndexFile_default\<rparr>"
  let ?w2 = "?w1\<lparr>pw_index := map_of ex_files, pw_indexer := ?ix\<rparr>"
  let ?f = "IndexFile_add ex_new_pack False IndexFile_default"
  let ?w3 = "?w2\<lparr>pw_index := (map_of ex_files)([7] \<mapsto> ?f)\<rparr>"
  let ?w4 = "?w3\<lparr>pw_index := ((map_of ex_files)([7] \<mapsto> ?f))([3] := None)\<rparr>"
  let ?w5 = "?w4\<lparr>pw_packs := (ex_packs([4] \<mapsto> {[1]}))([2] := None)\<rparr>"
  let ?step = "prune_step ex_known (fst ` set ex_files)"
  let ?del = "[FinalizeIndexer, DeleteIndexes True [[3]], DeletePacks False [[2]]]"
  have np: "ip_id ex_new_pack = [4]" "ip_blobs ex_new_pack = [ex_used]" by (simp_all add: ex_new_pack_def)
  have k: "[4] \<notin> ex_known" "[4] \<notin> dom ex_packs" "[7] \<notin> fst ` set ex_files" "[7] \<notin> dom (map_of ex_files)"
    by (simp_all add: known_packs_def ex_files_def ex_pack_def ex_packs_def)
  have 1: "?step (RepackBlobs sizer True [(Data, [2], l, [1])] [] # ?del, ?w0) (RepackBlobs sizer True [] [ex_new_pack] # ?del, ?w1)"
    using write_pack [of "[(Data, [2], l, [1])]" "[(Data, [2], l, [1])]" "[]" Data ?w0 ex_new_pack ex_known "fst ` set ex_files" sizer True "[]" ?del]
      k(1,2) by (simp add: np start_world_def ex_packs_def)
  have "Indexer_add (save_at [7]) 0 5 ex_new_pack (pw_indexer ?w1) (pw_index ?w1) = Inr (?ix, map_of ex_files)"
    by (simp add: Indexer_add_def Indexer_add_with_def Let_def start_world_def Indexer_new_unindexed_def INDEXER_MAX_COUNT_def
        INDEXER_MAX_AGE_def np)
  then have 2: "?step (RepackBlobs sizer True [] [ex_new_pack] # ?del, ?w1) (RepackBlobs sizer True [] [] # ?del, ?w2)"
    using index_pack [of ex_new_pack "[ex_new_pack]" "[7]" "fst ` set ex_files" ?w1 0 5 ?ix "map_of ex_files" ex_known sizer True "[]" ?del]
      k(3,4) by (simp add: start_world_def)
  have 3: "?step (RepackBlobs sizer True [] [] # ?del, ?w2) (?del, ?w2)" by (rule repack_done)
  have "Indexer_finalize (save_at [7]) (pw_indexer ?w2) (pw_index ?w2) = Inr ((map_of ex_files)([7] \<mapsto> ?f))"
    by (simp add: Indexer_finalize_def Indexer_save_def save_at_def IndexFile_add_def)
  then have 4: "?step (?del, ?w2) ([DeleteIndexes True [[3]], DeletePacks False [[2]]], ?w3)"
    using finalize_indexer [of "[7]" "fst ` set ex_files" ?w2 "(map_of ex_files)([7] \<mapsto> ?f)" ex_known] k(3,4) by simp
  have 5: "?step ([DeleteIndexes True [[3]], DeletePacks False [[2]]], ?w3) ([DeleteIndexes True [], DeletePacks False [[2]]], ?w4)"
    using delete_one_index [of "[3]" "[[3]]" ex_known "fst ` set ex_files" True "[DeletePacks False [[2]]]" ?w3] by simp
  have 6: "?step ([DeleteIndexes True [], DeletePacks False [[2]]], ?w4) ([DeletePacks False [[2]]], ?w4)" by (rule indexes_deleted)
  have 7: "?step ([DeletePacks False [[2]]], ?w4) ([DeletePacks False []], ?w5)"
    using delete_one_pack [of "[2]" "[[2]]" ex_known "fst ` set ex_files" False "[]" ?w4] by simp
  have 8: "?step ([DeletePacks False []], ?w5) ([], ?w5)" by (rule packs_deleted)
  have e: "?w5 = ex_end" by (simp add: ex_files_def fun_eq_iff)
  note step = converse_rtranclp_into_rtranclp
  have "prune_run ex_known (fst ` set ex_files)
      (RepackBlobs sizer True [(Data, [2], l, [1])] [] # ?del, ?w0) ([], ?w5)"
    by (rule step [OF 1 step [OF 2 step [OF 3 step [OF 4 step [OF 5 step [OF 6 step [OF 7 r_into_rtranclp [of ?step, OF 8]]]]]]]])
  then show ?thesis unfolding e .
qed

section \<open>Properties\<close>

text \<open>C6. Pruning is crash safe. Take a plan made by \<open>from_prune_options\<close> and any state reached while
  \<open>prune_repository\<close> runs it, however its parallel parts interleave and wherever it is cut off: every used
  blob is still held by a pack file, and unless the index files were to be deleted early, it is still
  found, through an index file, in a pack file that holds it.\<close>

theorem prune_crash_safe:
  assumes "prune_setting srt sb cr used_ids existing fs P"
    and "from_prune_options srt isqrt config opts now young_limit delete_limit used_ids total_size existing fs = Inr pl"
    and "prune_repository sb cr isqrt config opts pl = (ops, res)" "c_append_only config \<noteq> Some True"
    and "prune_run (known_packs existing fs) (fst ` set fs) (ops, start_world now' P fs) (ops', w)"
    and "i \<in> fst ` set used_ids"
  shows "(\<exists>q b. pw_packs w q = Some b \<and> i \<in> b) \<and> (\<not> (po_early_delete_index opts \<and> po_instant_delete opts) \<longrightarrow> found True w i)"
proof -
  let ?c = "run_ctx existing fs opts pl"
  obtain A C where inv: "run_inv ?c P (map_of fs) A C ops' w"
    and i: "cared_for ?c P (map_of fs) A C i" "found_start ?c P (map_of fs) i"
    using prune_run_inv [OF assms(1-5)] assms(6) by metis
  show ?thesis
  proof (cases "unfinished ops'")
    case True
    with unfinished_found [OF inv i(2)] show ?thesis by simp
  next
    case False
    from finished_found [OF inv i(1) False] have "found True w i" .
    moreover from this have "\<exists>q b. pw_packs w q = Some b \<and> i \<in> b" unfolding found_def by blast
    ultimately show ?thesis by blast
  qed
qed

text \<open>C8. A pruning run that ends is complete: it reports success, and every used blob is found in a
  pack that is indexed and not marked for deletion.\<close>

theorem prune_finished:
  assumes "prune_setting srt sb cr used_ids existing fs P"
    and "from_prune_options srt isqrt config opts now young_limit delete_limit used_ids total_size existing fs = Inr pl"
    and "prune_repository sb cr isqrt config opts pl = (ops, res)" "c_append_only config \<noteq> Some True"
    and "prune_run (known_packs existing fs) (fst ` set fs) (ops, start_world now' P fs) ([], w)"
  shows "res = Inr () \<and> (\<forall>i \<in> fst ` set used_ids. found False w i)"
proof -
  let ?c = "run_ctx existing fs opts pl"
  obtain A C where inv: "res = Inr ()" "run_inv ?c P (map_of fs) A C [] w"
    and i: "\<forall>i \<in> fst ` set used_ids. cared_for ?c P (map_of fs) A C i"
    using prune_run_inv [OF assms(1-5)] by metis
  have "found False w i" if "i \<in> fst ` set used_ids" for i
    by (rule finished_found [OF inv(2) bspec [OF i that]]) simp
  with inv(1) show ?thesis by blast
qed

theorem prune_crash_safe_witness:
  "\<exists>pl ops. ex_plan = Inr pl \<and> prune_repository (\<lambda>bs. bs) (\<lambda>ls. ls) (\<lambda>_. 0) ex_config ex_opts pl = (ops, Inr ()) \<and>
     prune_run ex_known (fst ` set ex_files) (ops, start_world 5 ex_packs ex_files) ([], ex_end) \<and> found True ex_end [1]"
proof -
  obtain pl where pl: "ex_plan = Inr pl" using ex_planned by blast
  obtain ops where ops: "prune_repository (\<lambda>bs. bs) (\<lambda>ls. ls) (\<lambda>_. 0) ex_config ex_opts pl = (ops, Inr ())"
    "prune_run ex_known (fst ` set ex_files) (ops, start_world 5 ex_packs ex_files) ([], ex_end)"
    using ex_program [OF pl] ex_run by metis
  from prune_crash_safe [OF ex_setting pl ops(1) _ ops(2), of "[1]"] have "found True ex_end [1]"
    by (simp add: ConfigFile_new_def ex_opts_def)
  with pl ops show ?thesis by blast
qed

theorem prune_finished_witness:
  "\<exists>pl ops. ex_plan = Inr pl \<and> prune_repository (\<lambda>bs. bs) (\<lambda>ls. ls) (\<lambda>_. 0) ex_config ex_opts pl = (ops, Inr ()) \<and>
     prune_run ex_known (fst ` set ex_files) (ops, start_world 5 ex_packs ex_files) ([], ex_end) \<and> found False ex_end [1]"
proof -
  obtain pl where pl: "ex_plan = Inr pl" using ex_planned by blast
  obtain ops where ops: "prune_repository (\<lambda>bs. bs) (\<lambda>ls. ls) (\<lambda>_. 0) ex_config ex_opts pl = (ops, Inr ())"
    "prune_run ex_known (fst ` set ex_files) (ops, start_world 5 ex_packs ex_files) ([], ex_end)"
    using ex_program [OF pl] ex_run by metis
  from prune_finished [OF ex_setting pl ops(1) _ ops(2)] have "found False ex_end [1]"
    by (simp add: ConfigFile_new_def ex_opts_def)
  with pl ops show ?thesis by blast
qed

text \<open>C22. Every pack gets a decision: when the decisions on the packs and on the candidates for
  repacking have been made, none is left undecided, so the internal errors for undecided packs in
  \<open>check_existing_packs\<close> and \<open>prune_repository\<close> are never raised. The task also fits the mark of the pack:
  only marked packs are recovered or deleted, only unmarked ones kept, repacked or marked.\<close>

theorem every_pack_decided:
  assumes "\<forall>cs. set (srt cs) = set cs" "small_packs fs"
    and "decide_packs d (count_used_blobs (PrunePlan_new now used_ids existing fs)) = Inr pl1"
    and "decide_repack srt isqrt max_repack max_unused repack_uncompressed no_resize sizer pl1 = Inr pl2"
    and "p \<in> set (plan_packs pl2)"
  shows "pp_to_do p \<noteq> Undecided \<and> (pp_to_do p \<in> {Recover, Delete, KeepMarked, KeepMarkedAndCorrect} \<longleftrightarrow> pp_delete_mark p)"
proof -
  let ?pl = "count_used_blobs (PrunePlan_new now used_ids existing fs)"
  have p0: "\<forall>p \<in> set (plan_packs ?pl). length (pp_blobs p) < 65536 \<and> pp_to_do p = Undecided"
    using PrunePlan_new_packs [of _ now used_ids existing fs] assms(2) by (fastforce simp: small_packs_def)
  have f: "\<forall>p \<in> set (plan_packs pl1). todo_fits p" "cand_pos (pl_repack_candidates pl1) = undecided_at False 0 (pl_index_files pl1)"
    using decide_packs_fit [OF assms(3)] p0 by simp_all
  have "pp_to_do p \<noteq> Undecided \<and> todo_fits p"
    using repacked_packs(1) [OF conjunct1 [OF decide_repack_all [OF assms(4,1) f(2) refl]] refl f(1)] assms(5) by blast
  then show ?thesis by (auto simp: todo_fits_def split: if_splits)
qed

theorem every_pack_decided_witness:
  "\<exists>pl1 pl2. decide_packs \<lparr>do_young_limit = 4, do_delete_limit = 3, do_repack_cacheable_only = False,
      do_repack_uncompressed = False, do_repack_all = False, do_isqrt = (\<lambda>_. 0), do_pack_sizer = (\<lambda>_. PackSizer_fixed 1000)\<rparr>
       (count_used_blobs (PrunePlan_new 5 [([1], 0)] [([2], 120)] ex_files)) = Inr pl1 \<and>
     decide_repack (\<lambda>cs. cs) (\<lambda>_. 0) LUnlimited (LSize 0) False False (\<lambda>_. PackSizer_fixed 1000) pl1 = Inr pl2 \<and>
     plan_packs pl2 = [ex_prune_pack\<lparr>pp_to_do := Repack\<rparr>] \<and> Repack \<noteq> Undecided"
proof -
  let ?d = "\<lparr>do_young_limit = 4, do_delete_limit = 3, do_repack_cacheable_only = False,
      do_repack_uncompressed = False, do_repack_all = False, do_isqrt = (\<lambda>_. 0), do_pack_sizer = (\<lambda>_. PackSizer_fixed 1000)\<rparr>"
  obtain pi st status where 1: "decide_packs ?d (count_used_blobs (PrunePlan_new 5 [([1], 0)] [([2], 120)] ex_files)) = Inr
      \<lparr>pl_time = 5, pl_used_ids = [([1], 0)], pl_existing_packs = [([2], 120)],
       pl_repack_candidates = [(pi, status, PartlyUsed, 0, 0)], pl_index_files = ex_index Undecided, pl_stats = st\<rparr>"
    and pi: "pin_blob_type pi = Data" "pin_used_size pi = 40" using ex_decided [of ?d] unfolding ex_new by auto
  obtain st1 where 2: "decide_repack (\<lambda>cs. cs) (\<lambda>_. 0) LUnlimited (LSize 0) False False (\<lambda>_. PackSizer_fixed 1000)
      \<lparr>pl_time = 5, pl_used_ids = [([1], 0)], pl_existing_packs = [([2], 120)],
       pl_repack_candidates = [(pi, status, PartlyUsed, 0, 0)], pl_index_files = ex_index Undecided, pl_stats = st\<rparr> = Inr
      \<lparr>pl_time = 5, pl_used_ids = [([1], 0)], pl_existing_packs = [([2], 120)], pl_repack_candidates = [],
       pl_index_files = ex_index Repack, pl_stats = st1\<rparr>"
    using ex_repacked [OF pi, of "\<lambda>_. 0" "\<lambda>_. PackSizer_fixed 1000" "[([1], 0)]" "[([2], 120)]" status st] by blast
  have "small_packs ex_files" by (simp add: small_packs_def ex_files_def ex_pack_def)
  from every_pack_decided [OF _ this 1 2, of "ex_prune_pack\<lparr>pp_to_do := Repack\<rparr>"] 1 2 show ?thesis by simp
qed

text \<open>Marking alone never fills the indexer: it is saved by its age or not at all.\<close>

definition mark_pack :: "Timestamp \<Rightarrow> PackId \<times> u32 \<Rightarrow> IndexPack" where
  "mark_pack t = (\<lambda>(i, n). \<lparr>ip_id = i, ip_blobs = [], ip_time = Some t, ip_size = Some n\<rparr>)"

lemma marks_in_memory:
  assumes "length clock = length marks" "\<forall>(elapsed, now) \<in> set clock. elapsed < INDEXER_MAX_AGE"
    and "\<forall>ip \<in> set marks. ip_blobs ip = []" "ix_count ix = 0"
  shows "\<exists>ix'. Indexer_add_all save_file (map2 (\<lambda>ip (elapsed, now). (ip, True, elapsed, now)) marks clock) (ix, s) = Inr (ix', s) \<and>
    ifi_packs_to_delete (ix_file ix') = ifi_packs_to_delete (ix_file ix) @ marks"
  using assms
proof (induction clock marks arbitrary: ix rule: list_induct2)
  case (Cons c clock ip marks)
  obtain elapsed now where c: "c = (elapsed, now)" by (cases c)
  obtain ix1 where a: "Indexer_add_with save_file elapsed now ip True ix s = Inr (ix1, s)" "ix_count ix1 = 0"
    "ifi_packs_to_delete (ix_file ix1) = ifi_packs_to_delete (ix_file ix) @ [ip]"
    using Cons.prems by (simp add: c Indexer_add_with_def Let_def INDEXER_MAX_COUNT_def IndexFile_add_def)
  from Cons.IH [of ix1] Cons.prems a(2,3) obtain ix' where
    "Indexer_add_all save_file (map2 (\<lambda>ip (elapsed, now). (ip, True, elapsed, now)) marks clock) (ix1, s) = Inr (ix', s)"
    "ifi_packs_to_delete (ix_file ix') = ifi_packs_to_delete (ix_file ix) @ ip # marks" by auto
  then show ?case using a(1) by (auto simp: Indexer_add_all_def c)
qed (simp add: Indexer_add_all_def)

text \<open>C37. Unreferenced packs are not marked when there is nothing else to do. Without instant deletion, in a repository
  that is not append-only, and when no index file has to be rewritten, a prune run succeeds and consists of the
  additions of the marks to the indexer alone: the indexer is never finalized. So whatever the storage does, unless
  one of the additions comes when the indexer is \<open>INDEXER_MAX_AGE\<close> (300 seconds) old, nothing is saved and all marks
  are left in memory.\<close>

theorem unreferenced_marks_lost:
  assumes "pl_index_files pl = []" "c_append_only config \<noteq> Some True" "\<not> po_instant_delete opts"
    and "length clock = length (pl_existing_packs pl)" "\<forall>(elapsed, now) \<in> set clock. elapsed < INDEXER_MAX_AGE"
  shows "\<exists>marks ix. marks = map (mark_pack (pl_time pl)) (pl_existing_packs pl) \<and>
    prune_repository sb cr isqrt config opts pl = (map (\<lambda>ip. AddPack ip True) marks, Inr ()) \<and>
    Indexer_add_all save_file (map2 (\<lambda>ip (elapsed, now). (ip, True, elapsed, now)) marks clock) (Indexer_new_unindexed start, s) =
      Inr (ix, s) \<and>
    ifi_packs_to_delete (ix_file ix) = marks"
proof -
  let ?marks = "map (mark_pack (pl_time pl)) (pl_existing_packs pl)"
  have "prune_repository sb cr isqrt config opts pl = (map (\<lambda>ip. AddPack ip True) ?marks, Inr ())"
    using assms(1-3) by (auto simp: prune_repository_def Let_def mark_unreferenced_def mark_pack_def)
  moreover have "\<exists>ix. Indexer_add_all save_file (map2 (\<lambda>ip (elapsed, now). (ip, True, elapsed, now)) ?marks clock)
      (Indexer_new_unindexed start, s) = Inr (ix, s) \<and>
      ifi_packs_to_delete (ix_file ix) = ifi_packs_to_delete (ix_file (Indexer_new_unindexed start)) @ ?marks"
    by (rule marks_in_memory)
      (use assms(4,5) in \<open>auto simp: mark_pack_def Indexer_new_unindexed_def\<close>)
  ultimately show ?thesis by (simp add: Indexer_new_unindexed_def IndexFile_default_def)
qed

theorem unreferenced_marks_lost_witness:
  "\<exists>ix. prune_repository (\<lambda>bs. bs) (\<lambda>ls. ls) (\<lambda>_. 0) ex_config (ex_opts\<lparr>po_instant_delete := False\<rparr>)
       \<lparr>pl_time = 5, pl_used_ids = [], pl_existing_packs = [([6], 77)], pl_repack_candidates = [], pl_index_files = [],
        pl_stats = PruneStats_default\<rparr> =
       ([AddPack \<lparr>ip_id = [6], ip_blobs = [], ip_time = Some 5, ip_size = Some 77\<rparr> True], Inr ()) \<and>
     Indexer_add_all (save_at [9]) [(\<lparr>ip_id = [6], ip_blobs = [], ip_time = Some 5, ip_size = Some 77\<rparr>, True, 2, 7)]
       (Indexer_new_unindexed 5, \<lambda>_. None) = Inr (ix, \<lambda>_. None)"
  using unreferenced_marks_lost [of "\<lparr>pl_time = 5, pl_used_ids = [], pl_existing_packs = [([6], 77)], pl_repack_candidates = [],
      pl_index_files = [], pl_stats = PruneStats_default\<rparr>" ex_config "ex_opts\<lparr>po_instant_delete := False\<rparr>" "[(2, 7)]"
      "\<lambda>bs. bs" "\<lambda>ls. ls" "\<lambda>_. 0" "save_at [9]" 5 "\<lambda>_. None"]
  by (auto simp: ConfigFile_new_def mark_pack_def INDEXER_MAX_AGE_def)

text \<open>A limit of 100 percent for the unused space, unless everything is repacked, makes the planning
  panic: the limit divides by the remaining zero percent.\<close>

theorem max_unused_100_panics:
  "decide_repack srt isqrt max_repack (LPercentage 100) False no_resize sizer pl = Inl (Panic ''attempt to divide by zero'')"
  by (simp add: decide_repack_def max_unused_limit_def)

end
