(* ===== verification/Snapshots.thy ===== *)
theory Snapshots
  imports PackFile
begin

text \<open>
  Snapshots (crates/core/src/repofile/snapshotfile.rs with grouping.rs and modification.rs): the snapshot
  file, its tags and delete mark, the ways to ask for snapshots (by id, by prefix, \<open>latest~N\<close>), grouping
  and modification.

  A \<open>BTreeSet<String>\<close> is a set of strings. Times are those of the crate jiff: a zoned time is its instant
  and its zone, compared by the instant; adding a span to it is a parameter. Reading snapshots from the
  backend enters as the list of files or as a function from ids.
\<close>

section \<open>Strings\<close>

text \<open>\<^verbatim>\<open>strip_prefix\<close>.\<close>

definition strip_prefix :: "string \<Rightarrow> string \<Rightarrow> string option" where
  "strip_prefix p s = (if take (length p) s = p then Some (drop (length p) s) else None)"

section \<open>Lists of strings\<close>

type_synonym StringList = "string set"

definition StringList_from_str :: "string \<Rightarrow> StringList" where
  "StringList_from_str s = set (split_char (CHR '','') s)"

definition StringList_to_string :: "StringList \<Rightarrow> string" where
  "StringList_to_string sl = join_char (CHR '','') (sorted_list_of_set sl)"

definition sl_contains_all :: "StringList \<Rightarrow> StringList \<Rightarrow> bool" where
  "sl_contains_all self sl \<longleftrightarrow> sl \<subseteq> self"

definition sl_matches :: "StringList \<Rightarrow> StringList list \<Rightarrow> bool" where
  "sl_matches self sls \<longleftrightarrow> sls = [] \<or> list_ex (sl_contains_all self) sls"

definition sl_add_all :: "StringList list \<Rightarrow> StringList \<Rightarrow> StringList" where
  "sl_add_all sls self = fold (\<lambda>sl acc. acc \<union> sl) sls self"

definition sl_remove_all :: "StringList list \<Rightarrow> StringList \<Rightarrow> StringList" where
  "sl_remove_all sls self = fold (\<lambda>sl acc. acc - sl) sls self"

section \<open>Times, marks and the snapshot file\<close>

record Zoned =
  z_instant :: int
  z_zone :: string

type_synonym Span = int
type_synonym SnapshotId = Id
type_synonym TreeId = Id

datatype DeleteOption = NotSet | Never | After Zoned

definition is_not_set :: "DeleteOption \<Rightarrow> bool" where
  "is_not_set d \<longleftrightarrow> d = NotSet"

text \<open>The counters of a summary; the two durations are floating point numbers and left out.\<close>

record SnapshotSummary =
  su_files_new :: u64
  su_files_changed :: u64
  su_files_unmodified :: u64
  su_total_files_processed :: u64
  su_total_bytes_processed :: u64
  su_dirs_new :: u64
  su_dirs_changed :: u64
  su_dirs_unmodified :: u64
  su_total_dirs_processed :: u64
  su_total_dirsize_processed :: u64
  su_data_blobs :: u64
  su_tree_blobs :: u64
  su_data_added :: u64
  su_data_added_packed :: u64
  su_data_added_files :: u64
  su_data_added_files_packed :: u64
  su_data_added_trees :: u64
  su_data_added_trees_packed :: u64
  su_command :: string
  su_backup_start :: Zoned
  su_backup_end :: Zoned
  su_error_count :: u64

definition SnapshotSummary_default :: "Zoned \<Rightarrow> SnapshotSummary" where
  "SnapshotSummary_default now =
     \<lparr>su_files_new = 0, su_files_changed = 0, su_files_unmodified = 0, su_total_files_processed = 0,
      su_total_bytes_processed = 0, su_dirs_new = 0, su_dirs_changed = 0, su_dirs_unmodified = 0,
      su_total_dirs_processed = 0, su_total_dirsize_processed = 0, su_data_blobs = 0, su_tree_blobs = 0,
      su_data_added = 0, su_data_added_packed = 0, su_data_added_files = 0, su_data_added_files_packed = 0,
      su_data_added_trees = 0, su_data_added_trees_packed = 0, su_command = [], su_backup_start = now,
      su_backup_end = now, su_error_count = 0\<rparr>"

record SnapshotFile =
  sn_time :: Zoned
  sn_program_version :: string
  sn_parent :: "SnapshotId option"
  sn_parents :: "SnapshotId list"
  sn_tree :: TreeId
  sn_label :: string
  sn_paths :: StringList
  sn_hostname :: string
  sn_username :: string
  sn_uid :: u32
  sn_gid :: u32
  sn_tags :: StringList
  sn_original :: "SnapshotId option"
  sn_delete :: DeleteOption
  sn_summary :: "SnapshotSummary option"
  sn_description :: "string option"
  sn_id :: SnapshotId

definition SnapshotFile_default :: "string \<Rightarrow> Zoned \<Rightarrow> SnapshotFile" where
  "SnapshotFile_default version now =
     \<lparr>sn_time = now, sn_program_version = ''rustic '' @ version, sn_parent = None, sn_parents = [], sn_tree = Id_default,
      sn_label = [], sn_paths = {}, sn_hostname = [], sn_username = [], sn_uid = 0, sn_gid = 0, sn_tags = {},
      sn_original = None, sn_delete = NotSet, sn_summary = None, sn_description = None, sn_id = Id_default\<rparr>"

definition sn_cmp :: "SnapshotFile \<Rightarrow> SnapshotFile \<Rightarrow> Ordering" where
  "sn_cmp a b = ord_cmp (z_instant (sn_time a)) (z_instant (sn_time b))"

definition must_delete :: "Zoned \<Rightarrow> SnapshotFile \<Rightarrow> bool" where
  "must_delete now sn = (case sn_delete sn of After t \<Rightarrow> z_instant t < z_instant now | _ \<Rightarrow> False)"

definition must_keep :: "Zoned \<Rightarrow> SnapshotFile \<Rightarrow> bool" where
  "must_keep now sn = (case sn_delete sn of Never \<Rightarrow> True | After t \<Rightarrow> z_instant t \<ge> z_instant now | NotSet \<Rightarrow> False)"

definition add_tags :: "StringList list \<Rightarrow> SnapshotFile \<Rightarrow> bool \<times> SnapshotFile" where
  "add_tags tag_lists sn =
     (let tags = sl_add_all tag_lists (sn_tags sn) in (sn_tags sn \<noteq> tags, sn\<lparr>sn_tags := tags\<rparr>))"

definition set_tags :: "StringList list \<Rightarrow> SnapshotFile \<Rightarrow> bool \<times> SnapshotFile" where
  "set_tags tag_lists sn =
     (let tags = sl_add_all tag_lists {} in (sn_tags sn \<noteq> tags, sn\<lparr>sn_tags := tags\<rparr>))"

definition remove_tags :: "StringList list \<Rightarrow> SnapshotFile \<Rightarrow> bool \<times> SnapshotFile" where
  "remove_tags tag_lists sn =
     (let tags = sl_remove_all tag_lists (sn_tags sn) in (sn_tags sn \<noteq> tags, sn\<lparr>sn_tags := tags\<rparr>))"

definition clear_ids :: "SnapshotFile \<Rightarrow> SnapshotFile" where
  "clear_ids sn = sn\<lparr>sn_id := Id_default, sn_parent := None, sn_parents := []\<rparr>"

definition get_parents :: "SnapshotFile \<Rightarrow> SnapshotId list" where
  "get_parents sn =
     (if sn_parents sn = [] then (case sn_parent sn of None \<Rightarrow> [] | Some p \<Rightarrow> [p]) else sn_parents sn)"

definition set_id :: "SnapshotId \<times> SnapshotFile \<Rightarrow> SnapshotFile" where
  "set_id t = (case t of (i, snap) \<Rightarrow>
     snap\<lparr>sn_id := i, sn_original := (case sn_original snap of None \<Rightarrow> Some i | Some x \<Rightarrow> Some x)\<rparr>)"

section \<open>New snapshots\<close>

record SnapshotOptions =
  so_label :: "string option"
  so_tags :: "StringList list"
  so_description :: "string option"
  so_description_from :: "string option"
  so_time :: "Zoned option"
  so_delete_never :: bool
  so_delete_after :: "Span option"
  so_host :: "string option"
  so_command :: "string option"

definition SnapshotOptions_add_tags :: "string \<Rightarrow> SnapshotOptions \<Rightarrow> SnapshotOptions" where
  "SnapshotOptions_add_tags tag opts = opts\<lparr>so_tags := so_tags opts @ [StringList_from_str tag]\<rparr>"

text \<open>The host name (\<open>None\<close> when it is not unicode), the command line and the reading of a file are
  arguments.\<close>

definition SnapshotFile_from_options ::
    "string \<Rightarrow> (Zoned \<Rightarrow> Span \<Rightarrow> Zoned) \<Rightarrow> string option \<Rightarrow> string \<Rightarrow> (string \<Rightarrow> string option) \<Rightarrow> Zoned
     \<Rightarrow> SnapshotOptions \<Rightarrow> SnapshotFile rustic_result" where
  "SnapshotFile_from_options version saturating_add gethostname args read_to_string now opts =
     bindR (case so_host opts of
              Some host \<Rightarrow> Inr host
            | None \<Rightarrow> ok_or (RusticError EInvalidInput ''Failed to convert hostname `{hostname}` to string.'') gethostname)
       (\<lambda>hostname.
     let time = (case so_time opts of None \<Rightarrow> now | Some t \<Rightarrow> t);
         delete = (if so_delete_never opts then Never
                   else case so_delete_after opts of None \<Rightarrow> NotSet | Some d \<Rightarrow> After (saturating_add time d));
         command = (case so_command opts of None \<Rightarrow> args | Some c \<Rightarrow> c);
         snap = (SnapshotFile_default version now)\<lparr>sn_time := time, sn_hostname := hostname,
           sn_label := (case so_label opts of None \<Rightarrow> [] | Some l \<Rightarrow> l), sn_delete := delete,
           sn_summary := Some ((SnapshotSummary_default now)\<lparr>su_command := command\<rparr>),
           sn_description := so_description opts\<rparr>
     in bindR (case so_description_from opts of
                 None \<Rightarrow> Inr snap
               | Some path \<Rightarrow>
                   bindR (ok_or (RusticError EInvalidInput ''Failed to read description file `{path}`.'') (read_to_string path))
                     (\<lambda>d. Inr (snap\<lparr>sn_description := Some d\<rparr>)))
          (\<lambda>snap. Inr (snd (set_tags (so_tags opts) snap))))"

section \<open>Modification\<close>

record SnapshotModification =
  sm_set_label :: "string option"
  sm_set_time :: "Zoned option"
  sm_set_hostname :: "string option"
  sm_add_tags :: "StringList list"
  sm_set_tags :: "StringList list"
  sm_remove_tags :: "StringList list"
  sm_set_description :: "string option"
  sm_set_description_from :: "string option"
  sm_remove_description :: bool
  sm_set_delete_after :: "Span option"
  sm_set_delete_never :: bool
  sm_remove_delete :: bool

text \<open>\<^verbatim>\<open>set_check\<close> with the equality of the type (zoned times are equal when their instants are).\<close>

definition set_check :: "('a \<Rightarrow> 'a \<Rightarrow> bool) \<Rightarrow> 'a \<Rightarrow> 'a option \<Rightarrow> bool \<times> 'a" where
  "set_check eq a b = (case b of None \<Rightarrow> (False, a) | Some v \<Rightarrow> if eq a v then (False, a) else (True, v))"

definition zoned_eq :: "Zoned \<Rightarrow> Zoned \<Rightarrow> bool" where
  "zoned_eq a b \<longleftrightarrow> z_instant a = z_instant b"

definition delete_eq :: "DeleteOption \<Rightarrow> DeleteOption \<Rightarrow> bool" where
  "delete_eq a b = (case (a, b) of (After s, After t) \<Rightarrow> zoned_eq s t | _ \<Rightarrow> a = b)"

definition apply_to ::
    "(string \<Rightarrow> string option) \<Rightarrow> (Zoned \<Rightarrow> Span \<Rightarrow> Zoned) \<Rightarrow> Zoned \<Rightarrow> SnapshotModification \<Rightarrow> SnapshotFile
     \<Rightarrow> (bool \<times> SnapshotFile) rustic_result" where
  "apply_to read_to_string add now m sn =
     (let delete = (if sm_remove_delete m then Some NotSet
                    else if sm_set_delete_never m then Some Never
                    else map_option (\<lambda>d. After (add now d)) (sm_set_delete_after m))
      in bindR (if sm_remove_description m then Inr (Some None)
                else case sm_set_description_from m of
                  Some path \<Rightarrow>
                    bindR (ok_or (RusticError EOther ''Failed to read description from file {path}.'') (read_to_string path))
                      (\<lambda>d. Inr (Some (Some d)))
                | None \<Rightarrow> Inr (map_option Some (sm_set_description m))) (\<lambda>description.
         let (c1, sn) = (if sm_set_tags m \<noteq> [] then set_tags (sm_set_tags m) sn else (False, sn));
             (c2, sn) = add_tags (sm_add_tags m) sn;
             (c3, sn) = remove_tags (sm_remove_tags m) sn;
             (c4, v4) = set_check delete_eq (sn_delete sn) delete;
             (c5, v5) = set_check (=) (sn_label sn) (sm_set_label m);
             (c6, v6) = set_check (=) (sn_description sn) description;
             (c7, v7) = set_check zoned_eq (sn_time sn) (sm_set_time m);
             (c8, v8) = set_check (=) (sn_hostname sn) (sm_set_hostname m)
         in Inr (c1 \<or> c2 \<or> c3 \<or> c4 \<or> c5 \<or> c6 \<or> c7 \<or> c8,
              sn\<lparr>sn_delete := v4, sn_label := v5, sn_description := v6, sn_time := v7, sn_hostname := v8\<rparr>)))"

end
