(* ===== verification/SnapshotSelect.thy ===== *)
theory SnapshotSelect
  imports Snapshots
begin

text \<open>
  Asking for snapshots (crates/core/src/repofile/snapshotfile.rs): requests are full ids, prefixes of ids,
  \<open>latest\<close> or \<open>latest~N\<close>. The backend enters as the ids it lists, a function that reads a snapshot, and the
  stream of all snapshots; \<open>k_smallest\<close> is \<^verbatim>\<open>k_smallest_by\<close> of the crate itertools, of which the code needs
  that it returns the first elements of a sorted permutation. \<^verbatim>\<open>to_hex\<close> and the parsing of ids are
  parameters as well.
\<close>

section \<open>Requests\<close>

definition HEX_LEN :: nat where
  "HEX_LEN = LEN * 2"

datatype SnapshotRequest = Latest nat | StartsWith string | ReqId SnapshotId

definition SnapshotRequest_from_str :: "(string \<Rightarrow> SnapshotId rustic_result) \<Rightarrow> string \<Rightarrow> SnapshotRequest rustic_result" where
  "SnapshotRequest_from_str parse_id s =
     (let err = RusticError EInvalidInput ''Invalid snapshot identifier'' in
      case strip_prefix ''latest'' s of
        Some suffix \<Rightarrow>
          if suffix = [] then Inr (Latest 0)
          else bindR (ok_or err (strip_prefix ''~'' suffix)) (\<lambda>latest_index.
               bindR (ok_or err (parse_u64 latest_index)) (\<lambda>n. Inr (Latest (unat n))))
      | None \<Rightarrow>
          if length s < HEX_LEN then Inr (StartsWith s)
          else bindR (parse_id s) (\<lambda>i. Inr (ReqId i)))"

record SnapshotRequests =
  sr_requests :: "SnapshotRequest list"
  sr_max_n_latest :: "nat option"
  sr_starts_with :: "string list"
  sr_ids :: "SnapshotId list"

definition add_request :: "SnapshotRequest \<Rightarrow> SnapshotRequests \<Rightarrow> SnapshotRequests" where
  "add_request r s = (case r of
     Latest n \<Rightarrow> s\<lparr>sr_max_n_latest := Some (max (case sr_max_n_latest s of None \<Rightarrow> 0 | Some m \<Rightarrow> m) n)\<rparr>
   | StartsWith p \<Rightarrow> s\<lparr>sr_starts_with := sr_starts_with s @ [p]\<rparr>
   | ReqId i \<Rightarrow> s\<lparr>sr_ids := sr_ids s @ [i]\<rparr>)"

definition SnapshotRequests_from_strs ::
    "(string \<Rightarrow> SnapshotId rustic_result) \<Rightarrow> string list \<Rightarrow> SnapshotRequests rustic_result" where
  "SnapshotRequests_from_strs parse_id strings =
     bindR (traverseR (SnapshotRequest_from_str parse_id) strings) (\<lambda>requests.
       Inr (fold add_request requests
         \<lparr>sr_requests = requests, sr_max_n_latest = None, sr_starts_with = [], sr_ids = []\<rparr>))"

text \<open>The results in the order of the requests; indexing and \<^verbatim>\<open>unwrap\<close> panic.\<close>

fun map_results :: "'a list \<Rightarrow> SnapshotRequest list \<Rightarrow> 'a list \<Rightarrow> 'a list \<Rightarrow> 'a list rustic_result" where
  "map_results latest [] starts_with ids = Inr []"
| "map_results latest (Latest n # rs) starts_with ids =
    (if n < length latest
     then bindR (map_results latest rs starts_with ids) (\<lambda>xs. Inr (latest ! n # xs))
     else Inl (Panic ''index out of bounds''))"
| "map_results latest (StartsWith p # rs) starts_with ids =
    (case starts_with of
       [] \<Rightarrow> Inl (Panic ''called Option::unwrap() on a None value'')
     | x # starts_with \<Rightarrow> bindR (map_results latest rs starts_with ids) (\<lambda>xs. Inr (x # xs)))"
| "map_results latest (ReqId i # rs) starts_with ids =
    (case ids of
       [] \<Rightarrow> Inl (Panic ''called Option::unwrap() on a None value'')
     | x # ids \<Rightarrow> bindR (map_results latest rs starts_with ids) (\<lambda>xs. Inr (x # xs)))"

section \<open>Reading snapshots\<close>

definition from_backend :: "(SnapshotId \<Rightarrow> SnapshotFile rustic_result) \<Rightarrow> SnapshotId \<Rightarrow> SnapshotFile rustic_result" where
  "from_backend get i = bindR (get i) (\<lambda>sn. Inr (set_id (i, sn)))"

definition fill_missing ::
    "(SnapshotId \<Rightarrow> SnapshotFile rustic_result) \<Rightarrow> SnapshotFile list \<Rightarrow> Id list \<Rightarrow> (SnapshotFile \<Rightarrow> bool)
     \<Rightarrow> SnapshotFile list rustic_result" where
  "fill_missing get current ids flt =
     (let snaps = fold (\<lambda>sn m. m(sn_id sn \<mapsto> sn)) current Map.empty;
          missing_ids = filter (\<lambda>i. snaps i = None) ids
      in bindR (traverseR (\<lambda>i. bindR (get i) (\<lambda>sn. Inr (i, sn))) missing_ids) (\<lambda>res.
         let snaps = fold (\<lambda>(i, sn) m. if flt sn then m(i \<mapsto> sn) else m) res snaps
         in Inr (List.map_filter (\<lambda>i. map_option (\<lambda>sn. set_id (i, sn)) (snaps i)) ids)))"

definition iter_all_from_backend ::
    "(SnapshotFile \<Rightarrow> bool) \<Rightarrow> (SnapshotId \<times> SnapshotFile) rustic_result list \<Rightarrow> SnapshotFile list" where
  "iter_all_from_backend flt stream =
     filter flt (map set_id (List.map_filter (\<lambda>r. case r of Inl _ \<Rightarrow> None | Inr x \<Rightarrow> Some x) stream))"

definition update_from_backend ::
    "Id list rustic_result \<Rightarrow> (SnapshotId \<Rightarrow> SnapshotFile rustic_result) \<Rightarrow> SnapshotFile list \<Rightarrow> (SnapshotFile \<Rightarrow> bool)
     \<Rightarrow> SnapshotFile list rustic_result" where
  "update_from_backend list_ids get current flt = bindR list_ids (\<lambda>ids. fill_missing get current ids flt)"

definition latest_n_from_iter ::
    "(nat \<Rightarrow> SnapshotFile list \<Rightarrow> SnapshotFile list) \<Rightarrow> nat \<Rightarrow> SnapshotFile list \<Rightarrow> SnapshotFile list rustic_result" where
  "latest_n_from_iter k_smallest n iter =
     (let latest = k_smallest (n + 1) iter in
      if length latest > n then Inr latest
      else if n = 0 then Inl (RusticError ERepository ''No snapshots found.'')
      else Inl (RusticError ERepository ''No snapshots found for latest~{n}.''))"

definition latest_n ::
    "(nat \<Rightarrow> SnapshotFile list \<Rightarrow> SnapshotFile list) \<Rightarrow> SnapshotFile list \<Rightarrow> nat \<Rightarrow> SnapshotFile rustic_result" where
  "latest_n k_smallest iter n =
     bindR (latest_n_from_iter k_smallest n iter) (\<lambda>snapshots.
       if snapshots = [] then Inl (Panic ''called Option::unwrap() on a None value'') else Inr (last snapshots))"

definition SnapshotFile_latest ::
    "(nat \<Rightarrow> SnapshotFile list \<Rightarrow> SnapshotFile list) \<Rightarrow> SnapshotFile list \<Rightarrow> SnapshotFile rustic_result" where
  "SnapshotFile_latest k_smallest iter = latest_n k_smallest iter 0"

text \<open>\<^verbatim>\<open>find_ids\<close> of crates/core/src/backend.rs: full ids are taken as they are, otherwise all are
  prefixes.\<close>

definition find_ids ::
    "(string \<Rightarrow> Id rustic_result) \<Rightarrow> (Id \<Rightarrow> string) \<Rightarrow> Id list rustic_result \<Rightarrow> string list \<Rightarrow> Id list rustic_result" where
  "find_ids parse_id to_hex list_ids ids =
     (case traverseR parse_id ids of
        Inr xs \<Rightarrow> Inr xs
      | Inl _ \<Rightarrow> bindR list_ids (find_starts_with_from_iter to_hex ids))"

definition find_id ::
    "(string \<Rightarrow> Id rustic_result) \<Rightarrow> (Id \<Rightarrow> string) \<Rightarrow> Id list rustic_result \<Rightarrow> string \<Rightarrow> Id rustic_result" where
  "find_id parse_id to_hex list_ids i =
     bindR (find_ids parse_id to_hex list_ids [i]) (\<lambda>xs. if xs = [] then Inl (Panic ''removal index'') else Inr (hd xs))"

definition update_from_ids ::
    "(string \<Rightarrow> Id rustic_result) \<Rightarrow> (Id \<Rightarrow> string) \<Rightarrow> Id list rustic_result \<Rightarrow> (SnapshotId \<Rightarrow> SnapshotFile rustic_result)
     \<Rightarrow> SnapshotFile list \<Rightarrow> string list \<Rightarrow> SnapshotFile list rustic_result" where
  "update_from_ids parse_id to_hex list_ids get current ids =
     bindR (find_ids parse_id to_hex list_ids ids) (\<lambda>ids. fill_missing get current ids (\<lambda>_. True))"

definition SnapshotFile_from_id ::
    "(string \<Rightarrow> Id rustic_result) \<Rightarrow> (Id \<Rightarrow> string) \<Rightarrow> Id list rustic_result \<Rightarrow> (SnapshotId \<Rightarrow> SnapshotFile rustic_result)
     \<Rightarrow> string \<Rightarrow> SnapshotFile rustic_result" where
  "SnapshotFile_from_id parse_id to_hex list_ids get i =
     bindR (find_id parse_id to_hex list_ids i) (from_backend get)"

record snap_source =
  ss_list :: "Id list rustic_result"
  ss_get :: "SnapshotId \<Rightarrow> SnapshotFile rustic_result"
  ss_stream :: "(SnapshotId \<times> SnapshotFile) rustic_result list rustic_result"

record snap_params =
  sp_parse_id :: "string \<Rightarrow> Id rustic_result"
  sp_to_hex :: "Id \<Rightarrow> string"
  sp_k_smallest :: "nat \<Rightarrow> SnapshotFile list \<Rightarrow> SnapshotFile list"
  sp_default :: SnapshotFile

definition SnapshotFile_from_str ::
    "snap_params \<Rightarrow> snap_source \<Rightarrow> (SnapshotFile \<Rightarrow> bool) \<Rightarrow> string \<Rightarrow> SnapshotFile rustic_result" where
  "SnapshotFile_from_str p be predicate s =
     bindR (SnapshotRequest_from_str (sp_parse_id p) s) (\<lambda>r. case r of
       Latest n \<Rightarrow> bindR (ss_stream be) (\<lambda>st. latest_n (sp_k_smallest p) (iter_all_from_backend predicate st) n)
     | StartsWith i \<Rightarrow> SnapshotFile_from_id (sp_parse_id p) (sp_to_hex p) (ss_list be) (ss_get be) i
     | ReqId i \<Rightarrow> from_backend (ss_get be) i)"

text \<open>The loop over all snapshots when \<open>latest\<close> was requested: a snapshot with a requested id is put at the
  position of that id, positions counting all requested ids but the vector having one place per
  different id.\<close>

definition ids_index :: "SnapshotId list \<Rightarrow> SnapshotId \<Rightarrow> nat option" where
  "ids_index ids = fold (\<lambda>(i, n) m. m(i \<mapsto> n)) (zip ids [0..<length ids]) Map.empty"

definition place_id :: "SnapshotId list \<Rightarrow> SnapshotFile \<Rightarrow> SnapshotFile list \<Rightarrow> SnapshotFile list rustic_result" where
  "place_id ids sn vec_ids = (case ids_index ids (sn_id sn) of
     None \<Rightarrow> Inr vec_ids
   | Some idx \<Rightarrow> if idx < length vec_ids then Inr (vec_ids[idx := sn]) else Inl (Panic ''index out of bounds''))"

definition SnapshotFile_from_strs ::
    "snap_params \<Rightarrow> snap_source \<Rightarrow> (SnapshotFile \<Rightarrow> bool) \<Rightarrow> string list \<Rightarrow> SnapshotFile list rustic_result" where
  "SnapshotFile_from_strs p be predicate strings =
     bindR (SnapshotRequests_from_strs (sp_parse_id p) strings) (\<lambda>r.
     case sr_max_n_latest r of
       None \<Rightarrow>
         bindR (if sr_starts_with r = [] then Inr []
                else bindR (ss_list be) (find_starts_with_from_iter (sp_to_hex p) (sr_starts_with r)))
           (\<lambda>ids_starts_with.
         bindR (map_results [] (sr_requests r) ids_starts_with (sr_ids r)) (\<lambda>all_ids.
         fill_missing (ss_get be) [] all_ids (\<lambda>_. True)))
     | Some max_n \<Rightarrow>
         bindR (ss_stream be) (\<lambda>st.
         let items = iter_all_from_backend predicate st in
         bindR (foldR (place_id (sr_ids r)) items (replicate (card (dom (ids_index (sr_ids r)))) (sp_default p))) (\<lambda>vec_ids.
         bindR (latest_n_from_iter (sp_k_smallest p) max_n items) (\<lambda>latest.
         bindR (assert_found (find_unique_multiple (\<lambda>sn v. take (length v) (sp_to_hex p (sn_id sn)) = v) (sr_starts_with r) items))
           (\<lambda>vec_ids_starts_with.
         map_results latest (sr_requests r) vec_ids_starts_with vec_ids)))))"

section \<open>The latest snapshots\<close>

text \<open>The documented behaviour of \<^verbatim>\<open>k_smallest_by\<close> with the reversed order of times.\<close>

definition k_smallest_ok :: "(nat \<Rightarrow> SnapshotFile list \<Rightarrow> SnapshotFile list) \<Rightarrow> bool" where
  "k_smallest_ok ks \<longleftrightarrow> (\<forall>k xs. \<exists>ys. mset ys = mset xs \<and>
     sorted_wrt (\<lambda>a b. z_instant (sn_time b) \<le> z_instant (sn_time a)) ys \<and> ks k xs = take k ys)"

definition newer :: "SnapshotFile list \<Rightarrow> SnapshotFile \<Rightarrow> nat" where
  "newer xs sn = length (filter (\<lambda>x. z_instant (sn_time x) > z_instant (sn_time sn)) xs)"

definition at_least_as_new :: "SnapshotFile list \<Rightarrow> SnapshotFile \<Rightarrow> nat" where
  "at_least_as_new xs sn = length (filter (\<lambda>x. z_instant (sn_time x) \<ge> z_instant (sn_time sn)) xs)"

lemma length_filter_mset: "mset xs = mset ys \<Longrightarrow> length (filter P xs) = length (filter P ys)"
  by (metis mset_filter size_mset)

lemma sorted_position:
  assumes "sorted_wrt (\<lambda>a b. z_instant (sn_time b) \<le> z_instant (sn_time a)) ys" "n < length ys"
  shows "newer ys (ys ! n) \<le> n" "n < at_least_as_new ys (ys ! n)"
proof -
  let ?t = "\<lambda>x. z_instant (sn_time x)"
  have split: "ys = take n ys @ ys ! n # drop (Suc n) ys" using assms(2) by (rule id_take_nth_drop)
  have le: "?t (ys ! j) \<le> ?t (ys ! i)" if "i \<le> j" "j < length ys" for i j
    using assms(1) that by (cases "i = j") (auto simp: sorted_wrt_iff_nth_less)
  have drop: "\<not> ?t x > ?t (ys ! n)" if x: "x \<in> set (drop (Suc n) ys)" for x
  proof -
    obtain k where "k < length (drop (Suc n) ys)" "x = drop (Suc n) ys ! k" using x by (metis in_set_conv_nth)
    moreover from this have "Suc n + k < length ys" by simp
    ultimately show ?thesis using le [of n "Suc n + k"] by simp
  qed
  have take: "?t x \<ge> ?t (ys ! n)" if x: "x \<in> set (take n ys)" for x
  proof -
    obtain k where "k < length (take n ys)" "x = take n ys ! k" using x by (metis in_set_conv_nth)
    then show ?thesis using le [of k n] assms(2) by simp
  qed
  have flt: "filter P ys = filter P (take n ys) @ (if P (ys ! n) then [ys ! n] else []) @ filter P (drop (Suc n) ys)" for P
    using arg_cong [OF split, of "filter P"] by simp
  have "filter (\<lambda>x. ?t x > ?t (ys ! n)) (drop (Suc n) ys) = []" using drop by (simp add: filter_empty_conv)
  then have "newer ys (ys ! n) = length (filter (\<lambda>x. ?t x > ?t (ys ! n)) (take n ys))"
    unfolding newer_def by (simp add: flt [of "\<lambda>x. ?t x > ?t (ys ! n)"])
  also have "\<dots> \<le> n" using assms(2) by (metis length_filter_le length_take min.absorb4)
  finally show "newer ys (ys ! n) \<le> n" .
  have "filter (\<lambda>x. ?t x \<ge> ?t (ys ! n)) (take n ys) = take n ys" using take by (simp add: filter_True)
  then have "at_least_as_new ys (ys ! n) = n + 1 + length (filter (\<lambda>x. ?t x \<ge> ?t (ys ! n)) (drop (Suc n) ys))"
    unfolding at_least_as_new_def using assms(2) by (simp add: flt [of "\<lambda>x. ?t x \<ge> ?t (ys ! n)"])
  then show "n < at_least_as_new ys (ys ! n)" by simp
qed

lemma k_smallest_length: "k_smallest_ok ks \<Longrightarrow> length (ks k xs) = min k (length xs)"
  unfolding k_smallest_ok_def by (metis length_take min.commute size_mset)

lemma latest_n_cases:
  assumes "k_smallest_ok ks"
  shows "if n < length items
    then \<exists>sn. latest_n ks items n = Inr sn \<and> sn \<in> set items \<and> newer items sn \<le> n \<and> n < at_least_as_new items sn
    else \<exists>msg. latest_n ks items n = Inl (RusticError ERepository msg)"
proof (cases "n < length items")
  case True
  obtain ys where ys: "mset ys = mset items"
      "sorted_wrt (\<lambda>a b. z_instant (sn_time b) \<le> z_instant (sn_time a)) ys" "ks (n + 1) items = take (n + 1) ys"
    using assms unfolding k_smallest_ok_def by blast
  have len: "length ys = length items" using ys(1) by (metis size_mset)
  have "latest_n ks items n = Inr (ys ! n)"
  proof -
    have "take (n + 1) ys = take n ys @ [ys ! n]" using True len by (simp add: take_Suc_conv_app_nth)
    then show ?thesis using True len by (simp add: latest_n_def latest_n_from_iter_def ys(3) [simplified] Let_def)
  qed
  moreover have "ys ! n \<in> set items" using True len ys(1) by (metis nth_mem set_mset_mset)
  moreover have "newer items (ys ! n) \<le> n" "n < at_least_as_new items (ys ! n)"
    using sorted_position [OF ys(2), of n] True len length_filter_mset [OF ys(1)]
    by (simp_all add: newer_def at_least_as_new_def)
  ultimately show ?thesis using True by auto
next
  case False
  then show ?thesis
    using k_smallest_length [OF assms, of "n + 1" items]
    by (auto simp: latest_n_def latest_n_from_iter_def Let_def)
qed

section \<open>Requests and their answers\<close>

definition starts_of :: "SnapshotRequest list \<Rightarrow> string list" where
  "starts_of rs = concat (map (\<lambda>r. case r of StartsWith s \<Rightarrow> [s] | _ \<Rightarrow> []) rs)"

definition ids_of :: "SnapshotRequest list \<Rightarrow> SnapshotId list" where
  "ids_of rs = concat (map (\<lambda>r. case r of ReqId i \<Rightarrow> [i] | _ \<Rightarrow> []) rs)"

definition no_latest :: "SnapshotRequest list \<Rightarrow> bool" where
  "no_latest rs \<longleftrightarrow> (\<forall>n. Latest n \<notin> set rs)"

lemma fold_add_request:
  "sr_starts_with (fold add_request rs s) = sr_starts_with s @ starts_of rs"
  "sr_ids (fold add_request rs s) = sr_ids s @ ids_of rs"
  "sr_requests (fold add_request rs s) = sr_requests s"
  "no_latest rs \<Longrightarrow> sr_max_n_latest (fold add_request rs s) = sr_max_n_latest s"
  by (induction rs arbitrary: s)
    (auto simp: add_request_def starts_of_def ids_of_def no_latest_def split: SnapshotRequest.splits)

lemma map_results_spec:
  assumes "map_results [] rs sw (ids_of rs) = Inr out" "list_all2 Q (starts_of rs) sw" "no_latest rs"
  shows "list_all2 (\<lambda>r x. case r of StartsWith s \<Rightarrow> Q s x | ReqId i \<Rightarrow> x = i | Latest n \<Rightarrow> False) rs out"
  using assms
proof (induction rs arbitrary: sw out)
  case (Cons r rs)
  have "no_latest rs" using Cons.prems(3) by (simp add: no_latest_def)
  note ih = Cons.IH [OF _ _ this]
  show ?case
  proof (cases r)
    case (StartsWith s)
    with Cons.prems(2) obtain x sw' where sw: "sw = x # sw'" "Q s x" "list_all2 Q (starts_of rs) sw'"
      by (auto simp: starts_of_def list_all2_Cons1)
    with Cons.prems(1) StartsWith obtain out' where "map_results [] rs sw' (ids_of rs) = Inr out'" "out = x # out'"
      by (auto simp: ids_of_def result_simps)
    with ih [OF this(1) sw(3)] StartsWith sw show ?thesis by simp
  next
    case (ReqId i)
    with Cons.prems(1) obtain out' where "map_results [] rs sw (ids_of rs) = Inr out'" "out = i # out'"
      by (auto simp: ids_of_def result_simps)
    with ih [OF this(1)] Cons.prems(2) ReqId show ?thesis by (simp add: starts_of_def)
  next
    case (Latest n)
    with Cons.prems(3) show ?thesis by (auto simp: no_latest_def)
  qed
qed (simp add: starts_of_def)

lemma fill_missing_all:
  assumes "fill_missing get [] ids (\<lambda>_. True) = Inr sns"
  shows "list_all2 (\<lambda>i sn. sn_id sn = i \<and> (\<exists>f. get i = Inr f \<and> sn = set_id (i, f))) ids sns"
proof -
  obtain res where res: "traverseR (\<lambda>i. bindR (get i) (\<lambda>sn. Inr (i, sn))) ids = Inr res"
    and sns: "sns = List.map_filter (\<lambda>i. map_option (\<lambda>sn. set_id (i, sn)) (fold (\<lambda>(i, sn) m. m(i \<mapsto> sn)) res Map.empty i)) ids"
    using assms by (auto simp: fill_missing_def Let_def result_simps)
  have r: "list_all2 (\<lambda>i x. \<exists>sn. get i = Inr sn \<and> x = (i, sn)) ids res"
    using res by (simp add: traverseR_eq_Inr_iff result_simps) (auto elim!: list_all2_mono)
  have val: "fold (\<lambda>(i, sn) m. m(i \<mapsto> sn)) res m i = (if i \<in> set ids then Some (THE f. get i = Inr f) else m i)" for i m
    using r
  proof (induction ids res arbitrary: m rule: list_all2_induct)
    case (Cons j ids x res)
    then obtain sn where "get j = Inr sn" "x = (j, sn)" by blast
    with Cons.IH show ?case by auto
  qed simp
  have g: "get i = Inr (THE f. get i = Inr f)" if "i \<in> set ids" for i
    using r that by (induction rule: list_all2_induct) auto
  have "sns = map (\<lambda>i. set_id (i, THE f. get i = Inr f)) ids"
    unfolding sns by (simp add: val map_filter_def)
  then show ?thesis using g by (auto simp: list_all2_map2 list_all2_same set_id_def)
qed

text \<open>A concrete \<open>k_smallest\<close>.\<close>

definition by_sorting :: "nat \<Rightarrow> SnapshotFile list \<Rightarrow> SnapshotFile list" where
  "by_sorting k xs = take k (sort_key (\<lambda>sn. - z_instant (sn_time sn)) xs)"

lemma by_sorting_ok: "k_smallest_ok by_sorting"
  unfolding k_smallest_ok_def
proof (intro allI)
  fix k and xs :: "SnapshotFile list"
  let ?ys = "sort_key (\<lambda>sn. - z_instant (sn_time sn)) xs"
  have "sorted_wrt (\<lambda>a b. z_instant (sn_time b) \<le> z_instant (sn_time a)) ?ys"
    using sorted_sort_key [of "\<lambda>sn. - z_instant (sn_time sn)" xs] by (simp add: sorted_wrt_map)
  then show "\<exists>ys. mset ys = mset xs \<and> sorted_wrt (\<lambda>a b. z_instant (sn_time b) \<le> z_instant (sn_time a)) ys \<and>
      by_sorting k xs = take k ys"
    by (intro exI [of _ ?ys]) (simp add: by_sorting_def)
qed

section \<open>Properties\<close>

text \<open>C35. Asking for \<open>latest~N\<close> returns a snapshot with at most N newer ones and at least N others as new,
  whenever there are more than N snapshots; with N or fewer it is an error of the repository.\<close>

theorem latest_n_correct:
  assumes "k_smallest_ok ks"
  shows "if n < length items
    then \<exists>sn. latest_n ks items n = Inr sn \<and> sn \<in> set items \<and> newer items sn \<le> n \<and> n < at_least_as_new items sn
    else \<exists>msg. latest_n ks items n = Inl (RusticError ERepository msg)"
  by (rule latest_n_cases [OF assms])

abbreviation ex_snap :: "nat \<Rightarrow> int \<Rightarrow> SnapshotFile" where
  "ex_snap i t \<equiv> (SnapshotFile_default [] \<lparr>z_instant = t, z_zone = []\<rparr>)\<lparr>sn_id := replicate 32 (of_nat i)\<rparr>"

theorem latest_n_correct_witness:
  "\<exists>sn. latest_n by_sorting [ex_snap 1 10, ex_snap 2 30, ex_snap 3 20] 1 = Inr sn \<and>
     newer [ex_snap 1 10, ex_snap 2 30, ex_snap 3 20] sn \<le> 1"
  using latest_n_correct [OF by_sorting_ok, of 1 "[ex_snap 1 10, ex_snap 2 30, ex_snap 3 20]"] by auto

text \<open>C36. Snapshots asked for by id or prefix are answered one by one, in order: the answer to a full id is
  the snapshot stored under it, and the answer to a prefix is the snapshot of the only listed id with
  that prefix.\<close>

theorem from_strs_answers:
  assumes "SnapshotFile_from_strs p be predicate strings = Inr sns"
    and "traverseR (SnapshotRequest_from_str (sp_parse_id p)) strings = Inr rs" "no_latest rs"
  shows "list_all2 (\<lambda>r sn. (\<exists>f. ss_get be (sn_id sn) = Inr f \<and> sn = set_id (sn_id sn, f)) \<and>
    (case r of
       ReqId i \<Rightarrow> sn_id sn = i
     | StartsWith v \<Rightarrow> (\<exists>ids. ss_list be = Inr ids \<and> filter (\<lambda>j. take (length v) (sp_to_hex p j) = v) ids = [sn_id sn])
     | Latest n \<Rightarrow> False)) rs sns"
proof -
  let ?Q = "\<lambda>v i. \<exists>ids. ss_list be = Inr ids \<and> filter (\<lambda>j. take (length v) (sp_to_hex p j) = v) ids = [i]"
  obtain sw all_ids where
    sw: "(if starts_of rs = [] then Inr []
          else bindR (ss_list be) (find_starts_with_from_iter (sp_to_hex p) (starts_of rs))) = Inr sw"
    and res: "map_results [] rs sw (ids_of rs) = Inr all_ids"
    and fill: "fill_missing (ss_get be) [] all_ids (\<lambda>_. True) = Inr sns"
    using assms
    by (auto simp: SnapshotFile_from_strs_def SnapshotRequests_from_strs_def fold_add_request result_simps cong: if_cong)
  have "list_all2 ?Q (starts_of rs) sw"
    using sw by (auto simp: find_starts_with_from_iter_def assert_found_iff result_simps split: if_splits elim: list_all2_mono)
  from map_results_spec [OF res this assms(3)] fill_missing_all [OF fill]
  show ?thesis
    by (rule list_all2_trans [rotated]) (auto split: SnapshotRequest.splits)
qed

definition ex_params :: snap_params where
  "ex_params = \<lparr>sp_parse_id = (\<lambda>_. Inr (replicate 32 2)), sp_to_hex = (\<lambda>i. if hd i = 1 then ''0101'' else ''0202''),
     sp_k_smallest = by_sorting, sp_default = SnapshotFile_default [] \<lparr>z_instant = 0, z_zone = []\<rparr>\<rparr>"

definition ex_source :: snap_source where
  "ex_source = \<lparr>ss_list = Inr [replicate 32 1, replicate 32 2], ss_get = (\<lambda>i. Inr (ex_snap 0 5)),
     ss_stream = Inr [Inr (replicate 32 1, ex_snap 0 10), Inr (replicate 32 2, ex_snap 0 30)]\<rparr>"

theorem from_strs_answers_witness:
  "\<exists>sn. SnapshotFile_from_strs ex_params ex_source (\<lambda>_. True) [''02''] = Inr [sn] \<and>
     filter (\<lambda>j. take 2 (sp_to_hex ex_params j) = ''02'') [replicate 32 1, replicate 32 2] = [sn_id sn]"
proof -
  have h: "LEN = 32" "HEX_LEN = 64" by (simp_all add: LEN_def HEX_LEN_def)
  have r: "traverseR (SnapshotRequest_from_str (sp_parse_id ex_params)) [''02''] = Inr [StartsWith ''02'']"
    by (simp add: SnapshotRequest_from_str_def strip_prefix_def h)
  have "\<exists>sn. SnapshotFile_from_strs ex_params ex_source (\<lambda>_. True) [''02''] = Inr [sn]"
    unfolding SnapshotFile_from_strs_def SnapshotRequests_from_strs_def r
    by (simp add: add_request_def ex_source_def ex_params_def find_starts_with_from_iter_def assert_found_def
        find_unique_multiple_def FindUniqueResults_new_def assert_found_one_def fill_missing_def map_filter_def)
  then obtain sn where sn: "SnapshotFile_from_strs ex_params ex_source (\<lambda>_. True) [''02''] = Inr [sn]" by blast
  have "no_latest [StartsWith ''02'']" by (simp add: no_latest_def)
  from from_strs_answers [OF sn r this] sn show ?thesis by (simp add: ex_source_def numeral_2_eq_2)
qed

text \<open>Mixing \<open>latest\<close> with ids gives wrong answers: an id that no readable snapshot has is answered with an
  empty default snapshot instead of an error.\<close>

theorem unknown_id_becomes_default:
  assumes "SnapshotRequests_from_strs (sp_parse_id p) strings =
      Inr \<lparr>sr_requests = [ReqId i, Latest 0], sr_max_n_latest = Some 0, sr_starts_with = [], sr_ids = [i]\<rparr>"
    and "ss_stream be = Inr st" "iter_all_from_backend predicate st = sns" "i \<notin> sn_id ` set sns" "sns \<noteq> []"
    and "k_smallest_ok (sp_k_smallest p)"
  shows "\<exists>sn. SnapshotFile_from_strs p be predicate strings = Inr [sp_default p, sn]"
proof -
  have "foldR (place_id [i]) sns v = Inr v" for v
    using assms(4) by (induction sns) (auto simp: place_id_def ids_index_def)
  moreover have "length (sp_k_smallest p 1 sns) = 1"
    using k_smallest_length [OF assms(6), of 1 sns] assms(5) by (cases sns) auto
  then obtain sn where "sp_k_smallest p 1 sns = [sn]" by (auto simp: length_Suc_conv)
  moreover have "card (dom (ids_index [i])) = 1" by (simp add: ids_index_def)
  ultimately show ?thesis
    using assms(1-3)
    by (simp add: SnapshotFile_from_strs_def Let_def latest_n_from_iter_def find_unique_multiple_spec assert_found_def)
qed

theorem unknown_id_becomes_default_witness:
  "\<exists>sn. SnapshotFile_from_strs (ex_params\<lparr>sp_parse_id := (\<lambda>_. Inr (replicate 32 7))\<rparr>) ex_source (\<lambda>_. True)
     [replicate 64 (CHR ''7''), ''latest''] = Inr [SnapshotFile_default [] \<lparr>z_instant = 0, z_zone = []\<rparr>, sn]"
proof -
  let ?p = "ex_params\<lparr>sp_parse_id := (\<lambda>_. Inr (replicate 32 7))\<rparr>"
  let ?sns = "map set_id [(replicate 32 1, ex_snap 0 10), (replicate 32 2, ex_snap 0 30)]"
  have h: "LEN = 32" "HEX_LEN = 64" by (simp_all add: LEN_def HEX_LEN_def)
  have "strip_prefix ''latest'' (replicate 64 (CHR ''7'')) = None" by (simp add: strip_prefix_def numeral_eq_Suc)
  moreover have "strip_prefix ''latest'' ''latest'' = Some []" by (simp add: strip_prefix_def)
  ultimately have r: "SnapshotRequests_from_strs (sp_parse_id ?p) [replicate 64 (CHR ''7''), ''latest''] =
      Inr \<lparr>sr_requests = [ReqId (replicate 32 7), Latest 0], sr_max_n_latest = Some 0, sr_starts_with = [], sr_ids = [replicate 32 7]\<rparr>"
    by (simp add: SnapshotRequests_from_strs_def SnapshotRequest_from_str_def h add_request_def)
  have i: "iter_all_from_backend (\<lambda>_. True) [Inr (replicate 32 1, ex_snap 0 10), Inr (replicate 32 2, ex_snap 0 30)] = ?sns"
    by (simp add: iter_all_from_backend_def map_filter_def)
  have n: "replicate 32 7 \<notin> sn_id ` set ?sns" by (simp add: set_id_def)
  have "k_smallest_ok (sp_k_smallest ?p)" using by_sorting_ok by (simp add: ex_params_def)
  from unknown_id_becomes_default [OF r _ i n _ this, of ex_source] show ?thesis
    by (simp add: ex_source_def ex_params_def)
qed

end
