(* ===== verification/Grouping.thy ===== *)
theory Grouping
  imports Snapshots "HOL-Library.Product_Lexorder"
begin

text \<open>
  Grouping of snapshots (crates/core/src/repofile/snapshotfile/grouping.rs): the criterion, the group of a
  snapshot, and the grouping of a list of items, which sorts them by their group and cuts the list where
  the group changes. Sorting leaves the order inside a group open and \<open>chunk_by\<close> is from the crate
  itertools; both are parameters with their documented behaviour.
\<close>

section \<open>Criteria and groups\<close>

record SnapshotGroupCriterion =
  gc_hostname :: bool
  gc_label :: bool
  gc_paths :: bool
  gc_tags :: bool

record SnapshotGroup =
  sg_hostname :: "string option"
  sg_label :: "string option"
  sg_paths :: "StringList option"
  sg_tags :: "StringList option"

definition Criterion_new :: SnapshotGroupCriterion where
  "Criterion_new = \<lparr>gc_hostname = False, gc_label = False, gc_paths = False, gc_tags = False\<rparr>"

definition Criterion_default :: SnapshotGroupCriterion where
  "Criterion_default = \<lparr>gc_hostname = True, gc_label = True, gc_paths = True, gc_tags = False\<rparr>"

definition Criterion_from_group :: "SnapshotGroup \<Rightarrow> SnapshotGroupCriterion" where
  "Criterion_from_group g =
     \<lparr>gc_hostname = sg_hostname g \<noteq> None, gc_label = sg_label g \<noteq> None, gc_paths = sg_paths g \<noteq> None, gc_tags = sg_tags g \<noteq> None\<rparr>"

definition add_criterion :: "string \<Rightarrow> SnapshotGroupCriterion \<Rightarrow> string + SnapshotGroupCriterion" where
  "add_criterion val crit =
     (if val = ''host'' then Inr (crit\<lparr>gc_hostname := True\<rparr>)
      else if val = ''label'' then Inr (crit\<lparr>gc_label := True\<rparr>)
      else if val = ''paths'' then Inr (crit\<lparr>gc_paths := True\<rparr>)
      else if val = ''tags'' then Inr (crit\<lparr>gc_tags := True\<rparr>)
      else if val = [] then Inr crit
      else Inl val)"

definition Criterion_from_str :: "string \<Rightarrow> string + SnapshotGroupCriterion" where
  "Criterion_from_str s = foldR add_criterion (split_char (CHR '','') s) Criterion_new"

definition Criterion_to_string :: "SnapshotGroupCriterion \<Rightarrow> string" where
  "Criterion_to_string c = join_char (CHR '','')
     ((if gc_hostname c then [''host''] else []) @ (if gc_label c then [''label''] else []) @
      (if gc_paths c then [''paths''] else []) @ (if gc_tags c then [''tags''] else []))"

definition Group_from_snapshot :: "SnapshotFile \<Rightarrow> SnapshotGroupCriterion \<Rightarrow> SnapshotGroup" where
  "Group_from_snapshot sn crit =
     \<lparr>sg_hostname = (if gc_hostname crit then Some (sn_hostname sn) else None),
      sg_label = (if gc_label crit then Some (sn_label sn) else None),
      sg_paths = (if gc_paths crit then Some (sn_paths sn) else None),
      sg_tags = (if gc_tags crit then Some (sn_tags sn) else None)\<rparr>"

definition group_matches :: "SnapshotGroup \<Rightarrow> SnapshotFile \<Rightarrow> bool" where
  "group_matches g sn \<longleftrightarrow>
     (case sg_hostname g of None \<Rightarrow> True | Some v \<Rightarrow> v = sn_hostname sn) \<and>
     (case sg_label g of None \<Rightarrow> True | Some v \<Rightarrow> v = sn_label sn) \<and>
     (case sg_paths g of None \<Rightarrow> True | Some v \<Rightarrow> v = sn_paths sn) \<and>
     (case sg_tags g of None \<Rightarrow> True | Some v \<Rightarrow> v = sn_tags sn)"

definition Group_default :: SnapshotGroup where
  "Group_default = \<lparr>sg_hostname = None, sg_label = None, sg_paths = None, sg_tags = None\<rparr>"

definition group_is_empty :: "SnapshotGroup \<Rightarrow> bool" where
  "group_is_empty g \<longleftrightarrow> g = Group_default"

text \<open>The order of groups: lexicographic in the four parts, \<open>None\<close> first; sets of strings are compared as
  their sorted lists.\<close>

definition opt_cmp :: "('a \<Rightarrow> 'a \<Rightarrow> Ordering) \<Rightarrow> 'a option \<Rightarrow> 'a option \<Rightarrow> Ordering" where
  "opt_cmp c a b = (case (a, b) of (None, None) \<Rightarrow> Equal | (None, Some _) \<Rightarrow> Less | (Some _, None) \<Rightarrow> Greater | (Some x, Some y) \<Rightarrow> c x y)"

definition group_cmp :: "SnapshotGroup \<Rightarrow> SnapshotGroup \<Rightarrow> Ordering" where
  "group_cmp a b =
     then_cmp (then_cmp (then_cmp
       (opt_cmp ord_cmp (sg_hostname a) (sg_hostname b))
       (opt_cmp ord_cmp (sg_label a) (sg_label b)))
       (opt_cmp (\<lambda>x y. ord_cmp (sorted_list_of_set x) (sorted_list_of_set y)) (sg_paths a) (sg_paths b)))
       (opt_cmp (\<lambda>x y. ord_cmp (sorted_list_of_set x) (sorted_list_of_set y)) (sg_tags a) (sg_tags b))"

section \<open>Grouped items\<close>

record ('k, 'a) Group =
  gr_key :: 'k
  gr_items :: "'a list"

record ('c, 'k, 'a) Grouped =
  gd_criterion :: 'c
  gd_groups :: "('k, 'a) Group list"

definition default_group :: "'a list \<Rightarrow> (SnapshotGroup, 'a) Group" where
  "default_group items = \<lparr>gr_key = Group_default, gr_items = items\<rparr>"

definition Grouped_new :: "'c \<Rightarrow> ('c, 'k, 'a) Grouped" where
  "Grouped_new crit = \<lparr>gd_criterion = crit, gd_groups = []\<rparr>"

definition from_items ::
    "(('a \<Rightarrow> 'k) \<Rightarrow> 'a list \<Rightarrow> 'a list) \<Rightarrow> (('a \<Rightarrow> 'k) \<Rightarrow> 'a list \<Rightarrow> ('k \<times> 'a list) list) \<Rightarrow> ('a \<Rightarrow> 'c \<Rightarrow> 'k)
     \<Rightarrow> 'a list \<Rightarrow> 'c \<Rightarrow> ('c, 'k, 'a) Grouped" where
  "from_items sort_by chunk_by get_group items crit =
     \<lparr>gd_criterion = crit,
      gd_groups = map (\<lambda>(k, xs). \<lparr>gr_key = k, gr_items = xs\<rparr>)
        (chunk_by (\<lambda>item. get_group item crit) (sort_by (\<lambda>item. get_group item crit) items))\<rparr>"

definition into_items :: "('c, 'k, 'a) Grouped \<Rightarrow> 'a list" where
  "into_items g = concat (map gr_items (gd_groups g))"

definition try_update_with ::
    "(('a \<Rightarrow> 'k) \<Rightarrow> 'a list \<Rightarrow> 'a list) \<Rightarrow> (('a \<Rightarrow> 'k) \<Rightarrow> 'a list \<Rightarrow> ('k \<times> 'a list) list) \<Rightarrow> ('a \<Rightarrow> 'c \<Rightarrow> 'k)
     \<Rightarrow> ('a list \<Rightarrow> 'e + 'a list) \<Rightarrow> ('c, 'k, 'a) Grouped \<Rightarrow> 'e + ('c, 'k, 'a) Grouped" where
  "try_update_with sort_by chunk_by get_group update g =
     bindR (update (into_items g)) (\<lambda>items. Inr (from_items sort_by chunk_by get_group items (gd_criterion g)))"

section \<open>Groups are the classes of equal keys\<close>

text \<open>What the grouping needs of the order of keys; sorting may be unstable, and \<^verbatim>\<open>chunk_by\<close> cuts a list into
  maximal runs of equal keys.\<close>

definition cmp_le :: "('k \<Rightarrow> 'k \<Rightarrow> Ordering) \<Rightarrow> 'k \<Rightarrow> 'k \<Rightarrow> bool" where
  "cmp_le cmp a b \<longleftrightarrow> cmp a b \<noteq> Greater"

definition sort_by_ok :: "('k \<Rightarrow> 'k \<Rightarrow> Ordering) \<Rightarrow> (('a \<Rightarrow> 'k) \<Rightarrow> 'a list \<Rightarrow> 'a list) \<Rightarrow> bool" where
  "sort_by_ok cmp sb \<longleftrightarrow> (\<forall>f xs. mset (sb f xs) = mset xs \<and> sorted_wrt (\<lambda>a b. cmp_le cmp (f a) (f b)) (sb f xs))"

definition chunk_by_ok :: "(('a \<Rightarrow> 'k) \<Rightarrow> 'a list \<Rightarrow> ('k \<times> 'a list) list) \<Rightarrow> bool" where
  "chunk_by_ok cb \<longleftrightarrow> (\<forall>f xs. concat (map snd (cb f xs)) = xs \<and>
     list_all (\<lambda>(k, ys). ys \<noteq> [] \<and> (\<forall>y \<in> set ys. f y = k)) (cb f xs) \<and> successively (\<lambda>a b. fst a \<noteq> fst b) (cb f xs))"

lemma sorted_concat_blocks:
  "sorted_wrt R (concat yss) \<Longrightarrow> sorted_wrt (\<lambda>a b. \<forall>x \<in> set a. \<forall>y \<in> set b. R x y) yss"
  by (induction yss) (auto simp: sorted_wrt_append)

lemma chunk_member:
  assumes "list_all (\<lambda>(k, ys). ys \<noteq> [] \<and> (\<forall>y \<in> set ys. f y = k)) cs" "c \<in> set cs"
  obtains y where "y \<in> set (snd c)" "f y = fst c"
proof -
  obtain k ys where c: "c = (k, ys)" by (cases c)
  then have "ys \<noteq> []" "\<forall>y \<in> set ys. f y = k" using assms by (auto simp: list_all_iff)
  then have "hd ys \<in> set (snd c)" "f (hd ys) = fst c" by (simp_all add: c)
  then show ?thesis by (rule that)
qed

locale key_order =
  fixes cmp :: "'k \<Rightarrow> 'k \<Rightarrow> Ordering" and key_ok :: "'k \<Rightarrow> bool"
  assumes le_trans: "\<lbrakk>key_ok a; key_ok b; key_ok c; cmp_le cmp a b; cmp_le cmp b c\<rbrakk> \<Longrightarrow> cmp_le cmp a c"
    and le_antisym: "\<lbrakk>key_ok a; key_ok b; cmp_le cmp a b; cmp_le cmp b a\<rbrakk> \<Longrightarrow> a = b"
begin

lemma chunk_keys_sorted:
  assumes "list_all (\<lambda>(k, ys). ys \<noteq> [] \<and> (\<forall>y \<in> set ys. f y = k)) cs"
    and "sorted_wrt (\<lambda>a b. cmp_le cmp (f a) (f b)) (concat (map snd cs))"
  shows "sorted_wrt (\<lambda>a b. cmp_le cmp (fst a) (fst b)) cs"
proof -
  have "sorted_wrt (\<lambda>a b. \<forall>x \<in> set (snd a). \<forall>y \<in> set (snd b). cmp_le cmp (f x) (f y)) cs"
    using sorted_concat_blocks [OF assms(2)] by (simp add: sorted_wrt_map)
  then show ?thesis
  proof (rule sorted_wrt_mono_rel [rotated])
    fix a b
    assume ab: "a \<in> set cs" "b \<in> set cs" "\<forall>x \<in> set (snd a). \<forall>y \<in> set (snd b). cmp_le cmp (f x) (f y)"
    obtain x where x: "x \<in> set (snd a)" "f x = fst a" using chunk_member [OF assms(1) ab(1)] .
    obtain y where y: "y \<in> set (snd b)" "f y = fst b" using chunk_member [OF assms(1) ab(2)] .
    show "cmp_le cmp (fst a) (fst b)" using bspec [OF bspec [OF ab(3) x(1)] y(1)] x(2) y(2) by simp
  qed
qed

lemma chunk_keys_distinct:
  assumes "sorted_wrt (\<lambda>a b. cmp_le cmp (fst a) (fst b)) cs" "successively (\<lambda>a b. fst a \<noteq> fst b) cs"
    and ok: "\<forall>c \<in> set cs. key_ok (fst c)"
  shows "distinct (map fst cs)"
proof -
  let ?lt = "\<lambda>a b. cmp_le cmp (fst a) (fst b) \<and> fst a \<noteq> fst b"
  have "successively (\<lambda>a b. cmp_le cmp (fst a) (fst b)) cs"
    using assms(1) by (rule successively_if_sorted_wrt)
  with assms(2) have "successively ?lt cs"
    by (induction cs rule: induct_list012) auto
  moreover have "?lt x z" if "x \<in> set cs" "y \<in> set cs" "z \<in> set cs" "?lt x y" "?lt y z" for x y z
    using that ok le_trans [of "fst x" "fst y" "fst z"] le_antisym [of "fst x" "fst y"] by metis
  ultimately have "sorted_wrt ?lt cs" using successively_iff_sorted_wrt_strong [of cs ?lt] by blast
  then show ?thesis by (induction cs) force+
qed

lemma from_items_groups:
  fixes sb :: "('a \<Rightarrow> 'k) \<Rightarrow> 'a list \<Rightarrow> 'a list"
  assumes "sort_by_ok cmp sb" "chunk_by_ok cb" "\<forall>x \<in> set items. key_ok (get_group x crit)"
  defines "g \<equiv> from_items sb cb get_group items crit"
  shows "mset (into_items g) = mset items" "distinct (map gr_key (gd_groups g))"
    "gr \<in> set (gd_groups g) \<Longrightarrow> gr_items gr \<noteq> [] \<and> (\<forall>x \<in> set (gr_items gr). get_group x crit = gr_key gr)"
proof -
  let ?f = "\<lambda>x. get_group x crit"
  let ?cs = "cb ?f (sb ?f items)"
  have cs: "concat (map snd ?cs) = sb ?f items" "list_all (\<lambda>(k, ys). ys \<noteq> [] \<and> (\<forall>y \<in> set ys. ?f y = k)) ?cs"
      "successively (\<lambda>a b. fst a \<noteq> fst b) ?cs"
    using assms(2) by (auto simp: chunk_by_ok_def)
  have srt: "mset (sb ?f items) = mset items" "sorted_wrt (\<lambda>a b. cmp_le cmp (?f a) (?f b)) (sb ?f items)"
    using assms(1) by (auto simp: sort_by_ok_def)
  have groups: "gd_groups g = map (\<lambda>(k, xs). \<lparr>gr_key = k, gr_items = xs\<rparr>) ?cs" by (simp add: g_def from_items_def)
  then have "map gr_items (gd_groups g) = map snd ?cs" "map gr_key (gd_groups g) = map fst ?cs" by auto
  then show "mset (into_items g) = mset items" by (simp add: into_items_def cs(1) srt(1))
  have "key_ok (fst c)" if c: "c \<in> set ?cs" for c
  proof -
    obtain y where y: "y \<in> set (snd c)" "?f y = fst c" using chunk_member [OF cs(2) c] .
    then have "y \<in> set (concat (map snd ?cs))" using c by auto
    then have "y \<in> set items" using cs(1) srt(1) by (metis set_mset_mset)
    then show ?thesis using y(2) assms(3) by metis
  qed
  then have "distinct (map fst ?cs)"
    using chunk_keys_distinct [OF chunk_keys_sorted [OF cs(2)] cs(3)] srt(2) cs(1) by simp
  then show "distinct (map gr_key (gd_groups g))" using \<open>map gr_key (gd_groups g) = map fst ?cs\<close> by simp
  show "gr_items gr \<noteq> [] \<and> (\<forall>x \<in> set (gr_items gr). get_group x crit = gr_key gr)" if "gr \<in> set (gd_groups g)"
    using that cs(2) by (auto simp: groups list_all_iff)
qed

lemma from_items_classes:
  fixes sb :: "('a \<Rightarrow> 'k) \<Rightarrow> 'a list \<Rightarrow> 'a list"
  assumes "sort_by_ok cmp sb" "chunk_by_ok cb" "\<forall>x \<in> set items. key_ok (get_group x crit)"
    and "gr \<in> set (gd_groups (from_items sb cb get_group items crit))"
  shows "mset (gr_items gr) = mset (filter (\<lambda>x. get_group x crit = gr_key gr) items)"
proof -
  note g = from_items_groups [where get_group = get_group and items = items and crit = crit, OF assms(1-3)]
  have "filter (\<lambda>x. get_group x crit = gr_key gr) (concat (map gr_items grs)) = gr_items gr"
    if "gr \<in> set grs" "distinct (map gr_key grs)"
      "\<forall>h \<in> set grs. \<forall>x \<in> set (gr_items h). get_group x crit = gr_key h" for grs
    using that
  proof (induction grs)
    case (Cons h hs)
    show ?case
    proof (cases "gr = h")
      case True
      then have k: "gr_key h' \<noteq> gr_key gr" if "h' \<in> set hs" for h' using Cons.prems(2) that True by (metis distinct.simps(2) image_eqI list.set_map list.simps(9))
      have i: "get_group x crit = gr_key h'" if "h' \<in> set hs" "x \<in> set (gr_items h')" for h' x
        using bspec [OF bspec [OF Cons.prems(3)] that(2)] that(1) by simp
      have "filter (\<lambda>x. get_group x crit = gr_key gr) (concat (map gr_items hs)) = []"
        unfolding filter_empty_conv set_concat set_map using k i by fastforce
      moreover have "filter (\<lambda>x. get_group x crit = gr_key gr) (gr_items h) = gr_items h"
        using Cons.prems(3) True by (auto intro: filter_True)
      ultimately show ?thesis using True by simp
    next
      case False
      then have "gr \<in> set hs" "gr_key h \<noteq> gr_key gr" using Cons.prems by auto
      moreover from this have "filter (\<lambda>x. get_group x crit = gr_key gr) (gr_items h) = []"
        using Cons.prems(3) by (auto simp: filter_empty_conv)
      ultimately show ?thesis using Cons by simp
    qed
  qed simp
  from this [OF assms(4) g(2)] have "filter (\<lambda>x. get_group x crit = gr_key gr) (into_items (from_items sb cb get_group items crit)) = gr_items gr"
    using g(3) by (auto simp: into_items_def)
  then show ?thesis using g(1) by (metis mset_filter)
qed

end

text \<open>Groups of snapshots are ordered; the sets of paths and tags are finite.\<close>

definition group_fin :: "SnapshotGroup \<Rightarrow> bool" where
  "group_fin g \<longleftrightarrow> pred_option finite (sg_paths g) \<and> pred_option finite (sg_tags g)"

definition opt_key :: "'a option \<Rightarrow> 'a list" where
  "opt_key a = (case a of None \<Rightarrow> [] | Some x \<Rightarrow> [x])"

definition group_key where
  "group_key g = (((opt_key (sg_hostname g), opt_key (sg_label g)),
     map sorted_list_of_set (opt_key (sg_paths g))), map sorted_list_of_set (opt_key (sg_tags g)))"

lemma list_single_less [simp]: "[x] < [y] \<longleftrightarrow> (x :: 'a::linorder) < y"
  by simp

lemma ord_cmp_single [simp]: "ord_cmp [x] [y] = ord_cmp x y" "ord_cmp [] [y] = Less" "ord_cmp [x] [] = Greater" "ord_cmp z z = Equal"
  by (simp_all add: ord_cmp_def)

lemma opt_cmp_ord: "opt_cmp (\<lambda>x y. ord_cmp (f x) (f y)) a b = ord_cmp (map f (opt_key a)) (map f (opt_key b))"
  by (cases a; cases b) (simp_all add: opt_cmp_def opt_key_def)

lemma ord_cmp_pair: "ord_cmp (a, b) (c, d) = then_cmp (ord_cmp a c) (ord_cmp b d)"
  by (auto simp: ord_cmp_def)

lemma group_cmp_key: "group_cmp a b = ord_cmp (group_key a) (group_key b)"
  using opt_cmp_ord [of id "sg_hostname a" "sg_hostname b"] opt_cmp_ord [of id "sg_label a" "sg_label b"]
  by (simp add: group_cmp_def group_key_def ord_cmp_pair opt_cmp_ord id_def)

lemma opt_key_inj: "opt_key a = opt_key b \<Longrightarrow> a = b"
  by (cases a; cases b) (simp_all add: opt_key_def)

lemma opt_key_set_inj:
  assumes "map sorted_list_of_set (opt_key a) = map sorted_list_of_set (opt_key b)" "pred_option finite a" "pred_option finite b"
  shows "a = b"
  using assms by (cases a; cases b) (auto simp: opt_key_def dest: sorted_list_of_set_inject)

lemma group_key_inj: "group_key a = group_key b \<Longrightarrow> group_fin a \<Longrightarrow> group_fin b \<Longrightarrow> a = b"
  by (auto simp: group_key_def group_fin_def intro!: SnapshotGroup.equality dest: opt_key_inj opt_key_set_inj)

lemma group_cmp_le: "cmp_le group_cmp a b \<longleftrightarrow> group_key a \<le> group_key b"
  by (auto simp: cmp_le_def group_cmp_key)

interpretation sg: key_order group_cmp group_fin
  by unfold_locales (auto simp: group_cmp_le intro: group_key_inj order.trans)

section \<open>Properties\<close>

text \<open>C34. Grouping loses and invents nothing, whatever the sort and the cutting into runs do beyond their
  contract: the groups have different keys, and the items of each group are exactly the items with that
  key. Snapshots of one group are the ones that match the group, so asking for the group again with the
  criterion it stands for gives the same answer.\<close>

theorem grouping_is_partition:
  assumes "sort_by_ok group_cmp sb" "chunk_by_ok cb" "\<forall>sn \<in> set sns. finite (sn_paths sn) \<and> finite (sn_tags sn)"
  shows "mset (into_items (from_items sb cb Group_from_snapshot sns crit)) = mset sns \<and>
    distinct (map gr_key (gd_groups (from_items sb cb Group_from_snapshot sns crit))) \<and>
    list_all (\<lambda>gr. gr_items gr \<noteq> [] \<and> mset (gr_items gr) = mset (filter (group_matches (gr_key gr)) sns))
      (gd_groups (from_items sb cb Group_from_snapshot sns crit))"
proof -
  have fin: "\<forall>sn \<in> set sns. group_fin (Group_from_snapshot sn crit)"
    using assms(3) by (simp add: group_fin_def Group_from_snapshot_def)
  note g = sg.from_items_groups [where get_group = Group_from_snapshot, OF assms(1,2) fin]
  have "gr_items gr \<noteq> [] \<and> mset (gr_items gr) = mset (filter (group_matches (gr_key gr)) sns)"
    if gr: "gr \<in> set (gd_groups (from_items sb cb Group_from_snapshot sns crit))" for gr
  proof -
    obtain x where x: "x \<in> set (gr_items gr)" "Group_from_snapshot x crit = gr_key gr"
      using g(3) [OF gr] by (metis hd_in_set)
    have "(Group_from_snapshot sn crit = gr_key gr) = group_matches (gr_key gr) sn" for sn
      unfolding x(2) [symmetric] by (auto simp: group_matches_def Group_from_snapshot_def)
    then show ?thesis
      using sg.from_items_classes [where get_group = Group_from_snapshot, OF assms(1,2) fin gr] g(3) [OF gr] by simp
  qed
  then show ?thesis using g(1,2) by (simp add: list_all_iff)
qed

text \<open>An instance: insertion sort and the obvious run splitting.\<close>

fun insert_by :: "('a \<Rightarrow> 'a \<Rightarrow> bool) \<Rightarrow> 'a \<Rightarrow> 'a list \<Rightarrow> 'a list" where
  "insert_by le x [] = [x]"
| "insert_by le x (y # ys) = (if le x y then x # y # ys else y # insert_by le x ys)"

definition isort_by :: "('a \<Rightarrow> 'a \<Rightarrow> bool) \<Rightarrow> 'a list \<Rightarrow> 'a list" where
  "isort_by le xs = foldr (insert_by le) xs []"

lemma insert_by_mset [simp]: "mset (insert_by le x ys) = add_mset x (mset ys)"
  by (induction ys) auto

lemma insert_by_set [simp]: "set (insert_by le x ys) = insert x (set ys)"
  by (induction ys) auto

lemma isort_by_mset [simp]: "mset (isort_by le xs) = mset xs"
  by (induction xs) (simp_all add: isort_by_def)

lemma isort_by_sorted:
  assumes "\<And>x y. le x y \<or> le y x" "\<And>x y z. le x y \<Longrightarrow> le y z \<Longrightarrow> le x z"
  shows "sorted_wrt le (isort_by le xs)"
proof (induction xs)
  case (Cons x xs)
  have "sorted_wrt le ys \<Longrightarrow> sorted_wrt le (insert_by le x ys)" for ys
    by (induction ys) (use assms in \<open>auto intro: assms(2)\<close>)
  with Cons show ?case by (simp add: isort_by_def)
qed (simp add: isort_by_def)

fun runs_by :: "('a \<Rightarrow> 'k) \<Rightarrow> 'a list \<Rightarrow> ('k \<times> 'a list) list" where
  "runs_by f [] = []"
| "runs_by f (x # xs) = (case runs_by f xs of
      [] \<Rightarrow> [(f x, [x])]
    | (k, ys) # cs \<Rightarrow> if f x = k then (k, x # ys) # cs else (f x, [x]) # (k, ys) # cs)"

lemma runs_by_ok: "chunk_by_ok (runs_by :: ('a \<Rightarrow> 'k) \<Rightarrow> 'a list \<Rightarrow> ('k \<times> 'a list) list)"
proof -
  have "concat (map snd (runs_by f xs)) = xs \<and>
     list_all (\<lambda>(k, ys). ys \<noteq> [] \<and> (\<forall>y \<in> set ys. f y = k)) (runs_by f xs) \<and>
     successively (\<lambda>a b. fst a \<noteq> fst b) (runs_by f xs)" for f :: "'a \<Rightarrow> 'k" and xs
    by (induction xs) (auto simp: successively_Cons split: list.splits)
  then show ?thesis by (simp add: chunk_by_ok_def)
qed

lemma isort_group_ok: "sort_by_ok group_cmp (\<lambda>f. isort_by (\<lambda>a b. cmp_le group_cmp (f a) (f b)))"
  unfolding sort_by_ok_def by (auto simp: group_cmp_le intro!: isort_by_sorted)

definition demo_sn :: "string \<Rightarrow> int \<Rightarrow> u8 \<Rightarrow> SnapshotFile" where
  "demo_sn host t i = (SnapshotFile_default [] \<lparr>z_instant = t, z_zone = []\<rparr>)\<lparr>sn_hostname := host, sn_id := replicate 32 i\<rparr>"

lemmas demo_sn_simps = demo_sn_def SnapshotFile_default_def

theorem grouping_is_partition_witness:
  "map (\<lambda>gr. (sg_hostname (gr_key gr), map sn_id (gr_items gr)))
     (gd_groups (from_items (\<lambda>f. isort_by (\<lambda>a b. cmp_le group_cmp (f a) (f b))) runs_by Group_from_snapshot
        [demo_sn ''b'' 1 1, demo_sn ''a'' 2 2, demo_sn ''b'' 3 3] Criterion_default)) =
     [(Some ''a'', [replicate 32 2]), (Some ''b'', [replicate 32 1, replicate 32 3])] \<and>
   distinct (map gr_key (gd_groups (from_items (\<lambda>f. isort_by (\<lambda>a b. cmp_le group_cmp (f a) (f b))) runs_by
     Group_from_snapshot [demo_sn ''b'' 1 1, demo_sn ''a'' 2 2, demo_sn ''b'' 3 3] Criterion_default)))"
proof -
  let ?sb = "\<lambda>f. isort_by (\<lambda>a b. cmp_le group_cmp (f a) (f b))"
  have "\<forall>sn \<in> set [demo_sn ''b'' 1 1, demo_sn ''a'' 2 2, demo_sn ''b'' 3 3]. finite (sn_paths sn) \<and> finite (sn_tags sn)"
    by (simp add: demo_sn_simps)
  from grouping_is_partition [OF isort_group_ok runs_by_ok this, of Criterion_default]
  have "distinct (map gr_key (gd_groups (from_items ?sb runs_by
     Group_from_snapshot [demo_sn ''b'' 1 1, demo_sn ''a'' 2 2, demo_sn ''b'' 3 3] Criterion_default)))" by blast
  moreover have "map (\<lambda>gr. (sg_hostname (gr_key gr), map sn_id (gr_items gr))) (gd_groups (from_items ?sb runs_by
     Group_from_snapshot [demo_sn ''b'' 1 1, demo_sn ''a'' 2 2, demo_sn ''b'' 3 3] Criterion_default)) =
     [(Some ''a'', [replicate 32 2]), (Some ''b'', [replicate 32 1, replicate 32 3])]"
    by (simp add: from_items_def isort_by_def group_cmp_le group_key_def opt_key_def Group_from_snapshot_def
        Criterion_default_def demo_sn_simps)
  ultimately show ?thesis by blast
qed

text \<open>A criterion that is printed and read back is the same criterion.\<close>

theorem criterion_roundtrip: "Criterion_from_str (Criterion_to_string c) = Inr c"
proof -
  have "split_char (CHR '','') (Criterion_to_string c) =
      (let parts = (if gc_hostname c then [''host''] else []) @ (if gc_label c then [''label''] else []) @
        (if gc_paths c then [''paths''] else []) @ (if gc_tags c then [''tags''] else [])
       in if parts = [] then [[]] else parts)"
    unfolding Criterion_to_string_def Let_def by (auto simp: split_join)
  then show ?thesis
    by (cases c) (auto simp: Criterion_from_str_def Criterion_new_def add_criterion_def)
qed

end
