(* ===== verification/Forget.thy ===== *)
theory Forget
  imports Grouping
begin

text \<open>
  The command forget (crates/core/src/commands/forget.rs): which snapshots of a group are kept and why. The
  keep options count down per kind of period; the loop runs over the snapshots from new to old. The fields
  of a zoned time and adding a span are those of the crate jiff and enter as parameters; the unstable sort
  is a parameter of which the code needs that it sorts.

  The main lemma is that the loop equals a specification without state: a snapshot is kept for a period if
  it starts one (seen from the new end) and fewer than the wanted number of starts came before it.
\<close>

section \<open>Forget groups and options\<close>

record ForgetSnapshot =
  fs_snapshot :: SnapshotFile
  fs_keep :: bool
  fs_reasons :: "string list"

type_synonym ForgetGroups = "(SnapshotGroup, ForgetSnapshot) Group list"

record KeepOptions =
  ko_tags :: "StringList list"
  ko_ids :: "string list"
  ko_last :: "int option"
  ko_minutely :: "int option"
  ko_hourly :: "int option"
  ko_daily :: "int option"
  ko_weekly :: "int option"
  ko_monthly :: "int option"
  ko_quarter_yearly :: "int option"
  ko_half_yearly :: "int option"
  ko_yearly :: "int option"
  ko_within :: "Span option"
  ko_within_minutely :: "Span option"
  ko_within_hourly :: "Span option"
  ko_within_daily :: "Span option"
  ko_within_weekly :: "Span option"
  ko_within_monthly :: "Span option"
  ko_within_quarter_yearly :: "Span option"
  ko_within_half_yearly :: "Span option"
  ko_within_yearly :: "Span option"
  ko_none :: bool
  ko_delete_unchanged :: bool

definition KeepOptions_default :: KeepOptions where
  "KeepOptions_default =
     \<lparr>ko_tags = [], ko_ids = [], ko_last = None, ko_minutely = None, ko_hourly = None, ko_daily = None,
      ko_weekly = None, ko_monthly = None, ko_quarter_yearly = None, ko_half_yearly = None, ko_yearly = None,
      ko_within = None, ko_within_minutely = None, ko_within_hourly = None, ko_within_daily = None,
      ko_within_weekly = None, ko_within_monthly = None, ko_within_quarter_yearly = None,
      ko_within_half_yearly = None, ko_within_yearly = None, ko_none = False, ko_delete_unchanged = False\<rparr>"

text \<open>What the code uses of jiff: fields of a zoned time, saturating addition of a span.\<close>

record jiff =
  j_year :: "Zoned \<Rightarrow> int"
  j_month :: "Zoned \<Rightarrow> int"
  j_iso_week :: "Zoned \<Rightarrow> int"
  j_day_of_year :: "Zoned \<Rightarrow> int"
  j_hour :: "Zoned \<Rightarrow> int"
  j_minute :: "Zoned \<Rightarrow> int"
  j_saturating_add :: "Zoned \<Rightarrow> Span \<Rightarrow> Zoned"

type_synonym CheckFunction = "SnapshotFile \<Rightarrow> SnapshotFile \<Rightarrow> bool"

definition always_false :: CheckFunction where
  "always_false sn1 sn2 = False"

definition equal_year :: "jiff \<Rightarrow> CheckFunction" where
  "equal_year j sn1 sn2 \<longleftrightarrow> j_year j (sn_time sn1) = j_year j (sn_time sn2)"

definition equal_half_year :: "jiff \<Rightarrow> CheckFunction" where
  "equal_half_year j sn1 sn2 \<longleftrightarrow>
     equal_year j sn1 sn2 \<and> (j_month j (sn_time sn1) - 1) div 6 = (j_month j (sn_time sn2) - 1) div 6"

definition equal_quarter_year :: "jiff \<Rightarrow> CheckFunction" where
  "equal_quarter_year j sn1 sn2 \<longleftrightarrow>
     equal_year j sn1 sn2 \<and> (j_month j (sn_time sn1) - 1) div 3 = (j_month j (sn_time sn2) - 1) div 3"

definition equal_month :: "jiff \<Rightarrow> CheckFunction" where
  "equal_month j sn1 sn2 \<longleftrightarrow> equal_year j sn1 sn2 \<and> j_month j (sn_time sn1) = j_month j (sn_time sn2)"

definition equal_week :: "jiff \<Rightarrow> CheckFunction" where
  "equal_week j sn1 sn2 \<longleftrightarrow> equal_year j sn1 sn2 \<and> j_iso_week j (sn_time sn1) = j_iso_week j (sn_time sn2)"

definition equal_day :: "jiff \<Rightarrow> CheckFunction" where
  "equal_day j sn1 sn2 \<longleftrightarrow> equal_year j sn1 sn2 \<and> j_day_of_year j (sn_time sn1) = j_day_of_year j (sn_time sn2)"

definition equal_hour :: "jiff \<Rightarrow> CheckFunction" where
  "equal_hour j sn1 sn2 \<longleftrightarrow> equal_day j sn1 sn2 \<and> j_hour j (sn_time sn1) = j_hour j (sn_time sn2)"

definition equal_minute :: "jiff \<Rightarrow> CheckFunction" where
  "equal_minute j sn1 sn2 \<longleftrightarrow> equal_half_year j sn1 sn2 \<and> j_minute j (sn_time sn1) = j_minute j (sn_time sn2)"

definition keep_is_valid :: "KeepOptions \<Rightarrow> bool" where
  "keep_is_valid self \<longleftrightarrow>
     ko_tags self \<noteq> [] \<or> ko_ids self \<noteq> [] \<or> ko_last self \<noteq> None \<or> ko_minutely self \<noteq> None \<or> ko_hourly self \<noteq> None \<or>
     ko_daily self \<noteq> None \<or> ko_weekly self \<noteq> None \<or> ko_monthly self \<noteq> None \<or> ko_quarter_yearly self \<noteq> None \<or>
     ko_half_yearly self \<noteq> None \<or> ko_within self \<noteq> None \<or> ko_yearly self \<noteq> None \<or> ko_within_minutely self \<noteq> None \<or>
     ko_within_hourly self \<noteq> None \<or> ko_within_daily self \<noteq> None \<or> ko_within_weekly self \<noteq> None \<or>
     ko_within_monthly self \<noteq> None \<or> ko_within_quarter_yearly self \<noteq> None \<or> ko_within_half_yearly self \<noteq> None \<or>
     ko_within_yearly self \<noteq> None \<or> ko_none self"

section \<open>Matching one snapshot\<close>

type_synonym MatchParameters = "CheckFunction \<times> int option \<times> string \<times> Span option \<times> string"

definition keep_checks :: "jiff \<Rightarrow> KeepOptions \<Rightarrow> MatchParameters list" where
  "keep_checks j self =
     [(always_false, ko_last self, ''last'', ko_within self, ''within''),
      (equal_minute j, ko_minutely self, ''minutely'', ko_within_minutely self, ''within minutely''),
      (equal_hour j, ko_hourly self, ''hourly'', ko_within_hourly self, ''within hourly''),
      (equal_day j, ko_daily self, ''daily'', ko_within_daily self, ''within daily''),
      (equal_week j, ko_weekly self, ''weekly'', ko_within_weekly self, ''within weekly''),
      (equal_month j, ko_monthly self, ''monthly'', ko_within_monthly self, ''within monthly''),
      (equal_quarter_year j, ko_quarter_yearly self, ''quarter-yearly'', ko_within_quarter_yearly self,
       ''within quarter-yearly''),
      (equal_half_year j, ko_half_yearly self, ''half-yearly'', ko_within_half_yearly self, ''within half-yearly''),
      (equal_year j, ko_yearly self, ''yearly'', ko_within_yearly self, ''within yearly'')]"

text \<open>The references to the counters: reading them all and writing them all bk.\<close>

definition put_counters :: "int option list \<Rightarrow> KeepOptions \<Rightarrow> KeepOptions" where
  "put_counters cs self =
     self\<lparr>ko_last := cs ! 0, ko_minutely := cs ! 1, ko_hourly := cs ! 2, ko_daily := cs ! 3, ko_weekly := cs ! 4,
          ko_monthly := cs ! 5, ko_quarter_yearly := cs ! 6, ko_half_yearly := cs ! 7, ko_yearly := cs ! 8\<rparr>"

text \<open>The body of the loop over the checks: the reasons and the new value of the counter.\<close>

definition keep_check ::
    "jiff \<Rightarrow> SnapshotFile \<Rightarrow> SnapshotFile option \<Rightarrow> bool \<Rightarrow> Zoned \<Rightarrow> MatchParameters \<Rightarrow> string list \<times> int option" where
  "keep_check j sn lst has_next latest_time m = (case m of (check_fun, counter, reason1, within, reason2) \<Rightarrow>
     if \<not> has_next \<or> lst = None \<or> \<not> check_fun sn (the lst) then
       let (rs1, counter') = (case counter of
             None \<Rightarrow> ([], None)
           | Some c \<Rightarrow> if c \<noteq> 0 then ([reason1], Some (if c > 0 then c - 1 else c)) else ([], Some c));
           rs2 = (case within of
             None \<Rightarrow> []
           | Some w \<Rightarrow> if z_instant (j_saturating_add j (sn_time sn) w) > z_instant latest_time then [reason2] else [])
       in (rs1 @ rs2, counter')
     else ([], counter))"

definition keep_matches ::
    "(Id \<Rightarrow> string) \<Rightarrow> jiff \<Rightarrow> KeepOptions \<Rightarrow> SnapshotFile \<Rightarrow> SnapshotFile option \<Rightarrow> bool \<Rightarrow> Zoned
     \<Rightarrow> string list \<times> KeepOptions" where
  "keep_matches to_hex j self sn lst has_next latest_time =
     (let by_id = (if list_ex (\<lambda>i. take (length i) (to_hex (sn_id sn)) = i) (ko_ids self) then [''id''] else []);
          by_tags = (if ko_tags self \<noteq> [] \<and> sl_matches (sn_tags sn) (ko_tags self) then [''tags''] else []);
          res = map (keep_check j sn lst has_next latest_time) (keep_checks j self)
      in (by_id @ by_tags @ concat (map fst res), put_counters (map snd res) self))"

section \<open>All snapshots of a group\<close>

fun keep_loop ::
    "(Id \<Rightarrow> string) \<Rightarrow> jiff \<Rightarrow> bool \<Rightarrow> Zoned \<Rightarrow> Zoned \<Rightarrow> KeepOptions \<Rightarrow> SnapshotFile option \<Rightarrow> SnapshotFile list
     \<Rightarrow> ForgetSnapshot list" where
  "keep_loop to_hex j delete_unchanged now latest_time group_keep lst [] = []"
| "keep_loop to_hex j delete_unchanged now latest_time group_keep lst (sn # iter) =
    (let (keep, reasons, group_keep) =
       (if must_keep now sn then (True, [''snapshot''], group_keep)
        else if must_delete now sn then (False, [''snapshot''], group_keep)
        else if delete_unchanged \<and> iter \<noteq> [] \<and> sn_tree (hd iter) = sn_tree sn then (False, [''unchanged''], group_keep)
        else let (reasons, group_keep) = keep_matches to_hex j group_keep sn lst (iter \<noteq> []) latest_time
             in (reasons \<noteq> [], reasons, group_keep))
     in \<lparr>fs_snapshot = sn, fs_keep = keep, fs_reasons = reasons\<rparr>
        # keep_loop to_hex j delete_unchanged now latest_time group_keep (Some sn) iter)"

definition keep_apply ::
    "(Id \<Rightarrow> string) \<Rightarrow> jiff \<Rightarrow> (SnapshotFile list \<Rightarrow> SnapshotFile list) \<Rightarrow> KeepOptions \<Rightarrow> SnapshotFile list \<Rightarrow> Zoned
     \<Rightarrow> ForgetSnapshot list rustic_result" where
  "keep_apply to_hex j sort_desc self snapshots now =
     (if \<not> keep_is_valid self
      then Inl (RusticError EInvalidInput
        ''Invalid keep options specified, please make sure to specify at least one keep-* option.'')
      else if snapshots = [] then Inr []
      else let snapshots = sort_desc snapshots
           in Inr (keep_loop to_hex j (ko_delete_unchanged self) now (sn_time (hd snapshots)) self None snapshots))"

definition from_grouped_snapshots_with_retention ::
    "(Id \<Rightarrow> string) \<Rightarrow> jiff \<Rightarrow> (SnapshotFile list \<Rightarrow> SnapshotFile list)
     \<Rightarrow> (SnapshotGroupCriterion, SnapshotGroup, SnapshotFile) Grouped \<Rightarrow> KeepOptions \<Rightarrow> Zoned
     \<Rightarrow> ForgetGroups rustic_result" where
  "from_grouped_snapshots_with_retention to_hex j sort_desc g keep now =
     traverseR (\<lambda>group. bindR (keep_apply to_hex j sort_desc keep (gr_items group) now)
       (\<lambda>items. Inr \<lparr>gr_key = gr_key group, gr_items = items\<rparr>)) (gd_groups g)"

definition from_snapshots :: "SnapshotFile list \<Rightarrow> Zoned \<Rightarrow> ForgetGroups" where
  "from_snapshots snapshots now =
     [default_group (map (\<lambda>sn. let keep = must_keep now sn in
        \<lparr>fs_snapshot = sn, fs_keep = keep, fs_reasons = [if keep then ''snapshot'' else ''if argument'']\<rparr>) snapshots)]"

definition into_forget_ids :: "ForgetGroups \<Rightarrow> SnapshotId list" where
  "into_forget_ids self =
     concat (map (\<lambda>fg. map (\<lambda>fsn. sn_id (fs_snapshot fsn)) (filter (\<lambda>fsn. \<not> fs_keep fsn) (gr_items fg))) self)"

section \<open>What the loop computes\<close>

text \<open>Position \<open>i\<close> of the snapshots from new to old starts a period if it is the newest, the oldest or in
  another period than its newer neighbour.\<close>

definition period_start :: "CheckFunction \<Rightarrow> SnapshotFile list \<Rightarrow> nat \<Rightarrow> bool" where
  "period_start f sns i \<longleftrightarrow> Suc i = length sns \<or> i = 0 \<or> \<not> f (sns ! i) (sns ! (i - 1))"

definition unchanged_at :: "KeepOptions \<Rightarrow> SnapshotFile list \<Rightarrow> nat \<Rightarrow> bool" where
  "unchanged_at opts sns i \<longleftrightarrow>
     ko_delete_unchanged opts \<and> Suc i < length sns \<and> sn_tree (sns ! Suc i) = sn_tree (sns ! i)"

definition evaluated :: "KeepOptions \<Rightarrow> Zoned \<Rightarrow> SnapshotFile list \<Rightarrow> nat \<Rightarrow> bool" where
  "evaluated opts now sns i \<longleftrightarrow>
     \<not> must_keep now (sns ! i) \<and> \<not> must_delete now (sns ! i) \<and> \<not> unchanged_at opts sns i"

definition starts_before :: "KeepOptions \<Rightarrow> Zoned \<Rightarrow> CheckFunction \<Rightarrow> SnapshotFile list \<Rightarrow> nat \<Rightarrow> nat" where
  "starts_before opts now f sns i = length (filter (\<lambda>k. evaluated opts now sns k \<and> period_start f sns k) [0..<i])"

definition period_reasons ::
    "jiff \<Rightarrow> KeepOptions \<Rightarrow> Zoned \<Rightarrow> SnapshotFile list \<Rightarrow> nat \<Rightarrow> MatchParameters \<Rightarrow> string list" where
  "period_reasons j opts now sns i m = (case m of (f, counter, reason1, within, reason2) \<Rightarrow>
     if period_start f sns i then
       (case counter of None \<Rightarrow> []
        | Some n \<Rightarrow> if n < 0 \<or> int (starts_before opts now f sns i) < n then [reason1] else []) @
       (case within of None \<Rightarrow> []
        | Some w \<Rightarrow> if z_instant (j_saturating_add j (sn_time (sns ! i)) w) > z_instant (sn_time (hd sns)) then [reason2] else [])
     else [])"

definition keep_reasons :: "(Id \<Rightarrow> string) \<Rightarrow> jiff \<Rightarrow> KeepOptions \<Rightarrow> Zoned \<Rightarrow> SnapshotFile list \<Rightarrow> nat \<Rightarrow> string list" where
  "keep_reasons to_hex j opts now sns i =
     (if list_ex (\<lambda>p. take (length p) (to_hex (sn_id (sns ! i))) = p) (ko_ids opts) then [''id''] else []) @
     (if ko_tags opts \<noteq> [] \<and> sl_matches (sn_tags (sns ! i)) (ko_tags opts) then [''tags''] else []) @
     concat (map (period_reasons j opts now sns i) (keep_checks j opts))"

definition forget_spec ::
    "(Id \<Rightarrow> string) \<Rightarrow> jiff \<Rightarrow> KeepOptions \<Rightarrow> Zoned \<Rightarrow> SnapshotFile list \<Rightarrow> nat \<Rightarrow> ForgetSnapshot" where
  "forget_spec to_hex j opts now sns i =
     (let (keep, reasons) =
        (if must_keep now (sns ! i) then (True, [''snapshot''])
         else if must_delete now (sns ! i) then (False, [''snapshot''])
         else if unchanged_at opts sns i then (False, [''unchanged''])
         else (keep_reasons to_hex j opts now sns i \<noteq> [], keep_reasons to_hex j opts now sns i))
      in \<lparr>fs_snapshot = sns ! i, fs_keep = keep, fs_reasons = reasons\<rparr>)"

text \<open>A counter after \<open>n\<close> starts, and the options after the positions before \<open>i\<close>.\<close>

definition count_down :: "nat \<Rightarrow> int option \<Rightarrow> int option" where
  "count_down n c = map_option (\<lambda>c. if c < 0 then c else max 0 (c - int n)) c"

definition counters_at :: "jiff \<Rightarrow> KeepOptions \<Rightarrow> Zoned \<Rightarrow> SnapshotFile list \<Rightarrow> nat \<Rightarrow> int option list" where
  "counters_at j opts now sns i =
     map (\<lambda>(f, c, _). count_down (starts_before opts now f sns i) c) (keep_checks j opts)"

lemma starts_before_Suc:
  "starts_before opts now f sns (Suc i) =
     starts_before opts now f sns i + (if evaluated opts now sns i \<and> period_start f sns i then 1 else 0)"
  by (simp add: starts_before_def)

lemma keep_check_counted:
  assumes "evaluated opts now sns i" "i < length sns" "lst = (if i = 0 then None else Some (sns ! (i - 1)))"
  shows "keep_check j (sns ! i) lst (Suc i < length sns) (sn_time (hd sns))
      (f, count_down (starts_before opts now f sns i) c, r1, w, r2) =
    (period_reasons j opts now sns i (f, c, r1, w, r2), count_down (starts_before opts now f sns (Suc i)) c)"
proof -
  have "(\<not> Suc i < length sns \<or> lst = None \<or> \<not> f (sns ! i) (the lst)) = period_start f sns i"
    using assms(2,3) by (auto simp: period_start_def)
  then show ?thesis using assms(1)
    by (cases c) (auto simp: keep_check_def period_reasons_def count_down_def starts_before_Suc split: option.splits)
qed

lemma keep_checks_put:
  "keep_checks j (put_counters (counters_at j opts now sns i) opts) =
     map (\<lambda>(f, c, r1, w, r2). (f, count_down (starts_before opts now f sns i) c, r1, w, r2)) (keep_checks j opts)"
  by (simp add: keep_checks_def put_counters_def counters_at_def)

lemma put_counters_put: "put_counters cs (put_counters ds opts) = put_counters cs opts"
  by (simp add: put_counters_def)

lemma put_counters_sel [simp]:
  "ko_ids (put_counters cs opts) = ko_ids opts" "ko_tags (put_counters cs opts) = ko_tags opts"
  by (simp_all add: put_counters_def)

lemma keep_matches_counted:
  assumes "evaluated opts now sns i" "i < length sns" "lst = (if i = 0 then None else Some (sns ! (i - 1)))"
  shows "keep_matches to_hex j (put_counters (counters_at j opts now sns i) opts) (sns ! i) lst (Suc i < length sns)
      (sn_time (hd sns)) =
    (keep_reasons to_hex j opts now sns i, put_counters (counters_at j opts now sns (Suc i)) opts)"
proof -
  have "map (keep_check j (sns ! i) lst (Suc i < length sns) (sn_time (hd sns)))
      (keep_checks j (put_counters (counters_at j opts now sns i) opts)) =
    map (\<lambda>m. (period_reasons j opts now sns i m, case m of (f, c, _) \<Rightarrow> count_down (starts_before opts now f sns (Suc i)) c))
      (keep_checks j opts)"
    unfolding keep_checks_put map_map
    by (rule map_cong [OF refl]) (clarsimp simp: keep_check_counted [OF assms] simp del: One_nat_def)
  then show ?thesis
    by (simp add: keep_matches_def put_counters_put keep_reasons_def counters_at_def comp_def Let_def)
qed

lemma counters_at_skip: "\<not> evaluated opts now sns i \<Longrightarrow> counters_at j opts now sns (Suc i) = counters_at j opts now sns i"
  by (simp add: counters_at_def starts_before_Suc)

lemma counters_at_0: "put_counters (counters_at j opts now sns 0) opts = opts"
  by (cases opts) (auto simp: put_counters_def counters_at_def keep_checks_def starts_before_def count_down_def
      option.map_ident_strong)

lemma keep_loop_spec:
  assumes "i \<le> length sns"
  shows "keep_loop to_hex j (ko_delete_unchanged opts) now (sn_time (hd sns))
      (put_counters (counters_at j opts now sns i) opts) (if i = 0 then None else Some (sns ! (i - 1))) (drop i sns) =
    map (forget_spec to_hex j opts now sns) [i..<length sns]"
  using assms
proof (induction i rule: inc_induct)
  case base
  then show ?case by simp
next
  case (step i)
  then have d: "drop i sns = sns ! i # drop (Suc i) sns" by (simp add: Cons_nth_drop_Suc)
  have ne: "(drop (Suc i) sns \<noteq> []) = (Suc i < length sns)" by auto
  have hd: "Suc i < length sns \<Longrightarrow> hd (drop (Suc i) sns) = sns ! Suc i" by (simp add: hd_drop_conv_nth)
  have u: "(ko_delete_unchanged opts \<and> drop (Suc i) sns \<noteq> [] \<and> sn_tree (hd (drop (Suc i) sns)) = sn_tree (sns ! i)) =
      unchanged_at opts sns i"
    by (auto simp: unchanged_at_def hd)
  have up: "[i..<length sns] = i # [Suc i..<length sns]" using step by (simp add: upt_conv_Cons)
  have "keep_loop to_hex j (ko_delete_unchanged opts) now (sn_time (hd sns))
      (put_counters (counters_at j opts now sns i) opts) (if i = 0 then None else Some (sns ! (i - 1))) (drop i sns) =
    forget_spec to_hex j opts now sns i #
    keep_loop to_hex j (ko_delete_unchanged opts) now (sn_time (hd sns))
      (put_counters (counters_at j opts now sns (Suc i)) opts) (Some (sns ! i)) (drop (Suc i) sns)"
  proof (cases "evaluated opts now sns i")
    case True
    have m: "keep_matches to_hex j (put_counters (counters_at j opts now sns i) opts) (sns ! i)
        (if i = 0 then None else Some (sns ! (i - 1))) (drop (Suc i) sns \<noteq> []) (sn_time (hd sns)) =
      (keep_reasons to_hex j opts now sns i, put_counters (counters_at j opts now sns (Suc i)) opts)"
      unfolding ne by (rule keep_matches_counted [OF True step.hyps(2) refl])
    show ?thesis using True
      unfolding d keep_loop.simps u m by (simp add: forget_spec_def evaluated_def)
  next
    case False
    then show ?thesis
      unfolding d keep_loop.simps u counters_at_skip [OF False] by (auto simp: forget_spec_def evaluated_def)
  qed
  with step.IH show ?case by (simp add: up)
qed

lemma keep_loop_all:
  "keep_loop to_hex j (ko_delete_unchanged opts) now (sn_time (hd sns)) opts None sns =
     map (forget_spec to_hex j opts now sns) [0..<length sns]"
  using keep_loop_spec [of 0 sns to_hex j opts now] by (simp add: counters_at_0)

section \<open>Properties\<close>

definition newest_first :: "SnapshotFile list \<Rightarrow> bool" where
  "newest_first = sorted_wrt (\<lambda>a b. z_instant (sn_time b) \<le> z_instant (sn_time a))"

definition sort_desc_ok :: "(SnapshotFile list \<Rightarrow> SnapshotFile list) \<Rightarrow> bool" where
  "sort_desc_ok srt \<longleftrightarrow> (\<forall>xs. mset (srt xs) = mset xs \<and> newest_first (srt xs))"

lemma keep_apply_cases:
  assumes "sort_desc_ok srt" "keep_apply to_hex j srt opts snapshots now = Inr res"
  obtains sns where "mset sns = mset snapshots" "newest_first sns"
    "res = map (forget_spec to_hex j opts now sns) [0..<length sns]"
proof
  show "mset (srt snapshots) = mset snapshots" "newest_first (srt snapshots)"
    using assms(1) by (auto simp: sort_desc_ok_def)
  then show "res = map (forget_spec to_hex j opts now (srt snapshots)) [0..<length (srt snapshots)]"
    using assms(2) by (auto simp: keep_apply_def keep_loop_all Let_def split: if_splits)
qed

lemma forget_spec_snapshot [simp]: "fs_snapshot (forget_spec to_hex j opts now sns i) = sns ! i"
  by (simp add: forget_spec_def Let_def)

lemma forget_spec_marked:
  "must_keep now (sns ! i) \<Longrightarrow> fs_keep (forget_spec to_hex j opts now sns i)"
  "must_delete now (sns ! i) \<Longrightarrow> \<not> fs_keep (forget_spec to_hex j opts now sns i)"
  by (auto simp: forget_spec_def must_keep_def must_delete_def split: DeleteOption.splits)

lemma keep_apply_snapshots:
  assumes "sort_desc_ok srt" "keep_apply to_hex j srt opts snapshots now = Inr res"
  shows "mset (map fs_snapshot res) = mset snapshots" "newest_first (map fs_snapshot res)"
    "fsn \<in> set res \<Longrightarrow> (must_keep now (fs_snapshot fsn) \<longrightarrow> fs_keep fsn) \<and> (must_delete now (fs_snapshot fsn) \<longrightarrow> \<not> fs_keep fsn)"
proof -
  obtain sns where sns: "mset sns = mset snapshots" "newest_first sns" "res = map (forget_spec to_hex j opts now sns) [0..<length sns]"
    using keep_apply_cases [OF assms] .
  have "map fs_snapshot res = sns" by (simp add: sns(3) comp_def map_nth)
  then show "mset (map fs_snapshot res) = mset snapshots" "newest_first (map fs_snapshot res)" using sns(1,2) by simp_all
  show "(must_keep now (fs_snapshot fsn) \<longrightarrow> fs_keep fsn) \<and> (must_delete now (fs_snapshot fsn) \<longrightarrow> \<not> fs_keep fsn)"
    if "fsn \<in> set res"
    using that unfolding sns(3) by (auto simp: forget_spec_marked)
qed

text \<open>C31. The loop over the snapshots of a group, with its counters that are decremented on the way, decides
  as the rule says: the snapshots are listed newest first, none is lost, and each is kept exactly if it is
  protected, or is not marked, not an unchanged repetition, and matches an id, a tag or, for some kind of
  period, starts a period of which fewer than the wanted number came before, or is near enough to the newest.\<close>

theorem keep_apply_by_rule:
  assumes "sort_desc_ok srt" "keep_is_valid opts"
  shows "\<exists>sns. mset sns = mset snapshots \<and> newest_first sns \<and>
    keep_apply to_hex j srt opts snapshots now = Inr (map (forget_spec to_hex j opts now sns) [0..<length sns])"
proof -
  have "\<exists>res. keep_apply to_hex j srt opts snapshots now = Inr res" using assms(2) by (simp add: keep_apply_def Let_def)
  then obtain res where r: "keep_apply to_hex j srt opts snapshots now = Inr res" by blast
  from keep_apply_cases [OF assms(1) this] show ?thesis using r by metis
qed

text \<open>A calendar for the instances: days of one hour, hours of sixty minutes.\<close>

definition toy_jiff :: jiff where
  "toy_jiff = \<lparr>j_year = (\<lambda>_. 2024), j_month = (\<lambda>_. 1), j_iso_week = (\<lambda>z. z_instant z div 420),
     j_day_of_year = (\<lambda>z. z_instant z div 60), j_hour = (\<lambda>_. 0), j_minute = (\<lambda>z. z_instant z mod 60),
     j_saturating_add = (\<lambda>z w. z\<lparr>z_instant := z_instant z + w\<rparr>)\<rparr>"

definition sort_newest :: "SnapshotFile list \<Rightarrow> SnapshotFile list" where
  "sort_newest = isort_by (\<lambda>a b. z_instant (sn_time b) \<le> z_instant (sn_time a))"

lemma sort_newest_ok: "sort_desc_ok sort_newest"
  unfolding sort_desc_ok_def newest_first_def sort_newest_def by (auto intro!: isort_by_sorted)

lemmas forget_eval = keep_apply_def keep_is_valid_def KeepOptions_default_def sort_newest_def isort_by_def
  must_keep_def must_delete_def keep_matches_def keep_checks_def keep_check_def put_counters_def always_false_def
  equal_minute_def equal_half_year_def equal_quarter_year_def equal_month_def equal_week_def equal_day_def
  equal_hour_def equal_year_def toy_jiff_def demo_sn_simps

theorem keep_apply_by_rule_witness:
  "(\<exists>sns. mset sns = mset [demo_sn [] 70 1, demo_sn [] 10 2, demo_sn [] 130 3, demo_sn [] 80 4] \<and> newest_first sns \<and>
    keep_apply (\<lambda>_. []) toy_jiff sort_newest (KeepOptions_default\<lparr>ko_daily := Some 2\<rparr>)
      [demo_sn [] 70 1, demo_sn [] 10 2, demo_sn [] 130 3, demo_sn [] 80 4] (sn_time (demo_sn [] 0 0)) =
    Inr (map (forget_spec (\<lambda>_. []) toy_jiff (KeepOptions_default\<lparr>ko_daily := Some 2\<rparr>) (sn_time (demo_sn [] 0 0)) sns) [0..<length sns])) \<and>
   map_sum id (map (\<lambda>f. (sn_id (fs_snapshot f) ! 0, fs_keep f, fs_reasons f)))
    (keep_apply (\<lambda>_. []) toy_jiff sort_newest (KeepOptions_default\<lparr>ko_daily := Some 2\<rparr>)
      [demo_sn [] 70 1, demo_sn [] 10 2, demo_sn [] 130 3, demo_sn [] 80 4] (sn_time (demo_sn [] 0 0))) =
    Inr [(3, True, [''daily'']), (4, True, [''daily'']), (1, False, []), (2, False, [])]"
  apply (rule conjI)
  subgoal by (rule keep_apply_by_rule [OF sort_newest_ok]) (simp add: keep_is_valid_def KeepOptions_default_def)
  subgoal by (simp add: forget_eval)
  done

text \<open>C32. Forgetting respects the marks of snapshots, whatever the keep options are: a protected snapshot is
  never among the ids to forget, one whose time is over always is, and only snapshots of the groups are.\<close>

theorem forget_respects_marks:
  assumes "sort_desc_ok srt" "from_grouped_snapshots_with_retention to_hex j srt g opts now = Inr fgs"
    and "inj_on sn_id (set (into_items g))" "sn \<in> set (into_items g)"
  shows "(must_keep now sn \<longrightarrow> sn_id sn \<notin> set (into_forget_ids fgs)) \<and>
    (must_delete now sn \<longrightarrow> sn_id sn \<in> set (into_forget_ids fgs)) \<and>
    set (into_forget_ids fgs) \<subseteq> sn_id ` set (into_items g)"
proof -
  have fgs: "list_all2 (\<lambda>group fg. \<exists>res. keep_apply to_hex j srt opts (gr_items group) now = Inr res \<and> gr_items fg = res)
      (gd_groups g) fgs"
    using assms(2) unfolding from_grouped_snapshots_with_retention_def traverseR_eq_Inr_iff
    by (rule list_all2_mono) (auto simp: result_simps)
  have bk: "fs_snapshot fsn \<in> set (into_items g) \<and> (must_keep now (fs_snapshot fsn) \<longrightarrow> fs_keep fsn)"
    if fsn: "fg \<in> set fgs" "fsn \<in> set (gr_items fg)" for fg fsn
  proof -
    obtain i where i: "i < length fgs" "fgs ! i = fg" using fsn(1) by (auto simp: in_set_conv_nth)
    define group where "group = gd_groups g ! i"
    have group: "group \<in> set (gd_groups g)" "keep_apply to_hex j srt opts (gr_items group) now = Inr (gr_items fg)"
      using fgs i by (auto simp: list_all2_conv_all_nth group_def)
    note k = keep_apply_snapshots [OF assms(1) group(2)]
    have "fs_snapshot fsn \<in> set (map fs_snapshot (gr_items fg))" using fsn(2) by simp
    then have "fs_snapshot fsn \<in> set (gr_items group)" using k(1) by (metis set_mset_mset)
    then show ?thesis using group(1) k(3) [OF fsn(2)] by (auto simp: into_items_def)
  qed
  have ids: "i \<in> set (into_forget_ids fgs) \<longleftrightarrow>
      (\<exists>fg \<in> set fgs. \<exists>fsn \<in> set (gr_items fg). \<not> fs_keep fsn \<and> i = sn_id (fs_snapshot fsn))" for i
    by (auto simp: into_forget_ids_def)
  have keep: "sn_id sn \<notin> set (into_forget_ids fgs)" if "must_keep now sn"
  proof
    assume "sn_id sn \<in> set (into_forget_ids fgs)"
    then obtain fg fsn where f: "fg \<in> set fgs" "fsn \<in> set (gr_items fg)" "\<not> fs_keep fsn" "sn_id sn = sn_id (fs_snapshot fsn)"
      unfolding ids by blast
    with bk [OF f(1,2)] assms(3,4) have "sn = fs_snapshot fsn" by (auto dest: inj_onD)
    with bk [OF f(1,2)] f(3) that show False by simp
  qed
  have del: "sn_id sn \<in> set (into_forget_ids fgs)" if "must_delete now sn"
  proof -
    obtain group where group: "group \<in> set (gd_groups g)" "sn \<in> set (gr_items group)"
      using assms(4) by (auto simp: into_items_def)
    then obtain i where i: "i < length (gd_groups g)" "gd_groups g ! i = group" by (auto simp: in_set_conv_nth)
    define fg where "fg = fgs ! i"
    have fg: "fg \<in> set fgs" "keep_apply to_hex j srt opts (gr_items group) now = Inr (gr_items fg)"
      using fgs i by (auto simp: list_all2_conv_all_nth fg_def)
    note k = keep_apply_snapshots [OF assms(1) fg(2)]
    have "sn \<in> set (map fs_snapshot (gr_items fg))" using group(2) k(1) by (metis set_mset_mset)
    then obtain fsn where "fsn \<in> set (gr_items fg)" "fs_snapshot fsn = sn" by auto
    then show ?thesis unfolding ids using fg(1) k(3) that by blast
  qed
  have "set (into_forget_ids fgs) \<subseteq> sn_id ` set (into_items g)" unfolding subset_iff ids using bk by blast
  with keep del show ?thesis by blast
qed

definition demo_marked :: "SnapshotFile list" where
  "demo_marked = [(demo_sn [] 5 1)\<lparr>sn_delete := Never\<rparr>, (demo_sn [] 7 2)\<lparr>sn_delete := After \<lparr>z_instant = 9, z_zone = []\<rparr>\<rparr>, demo_sn [] 6 3]"

theorem forget_respects_marks_witness:
  "\<exists>fgs. from_grouped_snapshots_with_retention (\<lambda>_. []) toy_jiff sort_newest
      \<lparr>gd_criterion = Criterion_new, gd_groups = [default_group demo_marked]\<rparr> (KeepOptions_default\<lparr>ko_last := Some 0\<rparr>)
      \<lparr>z_instant = 10, z_zone = []\<rparr> = Inr fgs \<and>
    replicate 32 1 \<notin> set (into_forget_ids fgs) \<and> replicate 32 2 \<in> set (into_forget_ids fgs)"
proof -
  let ?g = "\<lparr>gd_criterion = Criterion_new, gd_groups = [default_group demo_marked]\<rparr>"
  let ?now = "\<lparr>z_instant = 10, z_zone = []\<rparr>"
  have "\<exists>fgs. from_grouped_snapshots_with_retention (\<lambda>_. []) toy_jiff sort_newest ?g
      (KeepOptions_default\<lparr>ko_last := Some 0\<rparr>) ?now = Inr fgs"
    by (simp add: from_grouped_snapshots_with_retention_def keep_apply_def keep_is_valid_def KeepOptions_default_def Let_def)
  then obtain fgs where r: "from_grouped_snapshots_with_retention (\<lambda>_. []) toy_jiff sort_newest ?g
      (KeepOptions_default\<lparr>ko_last := Some 0\<rparr>) ?now = Inr fgs" by blast
  have items: "into_items ?g = demo_marked" by (simp add: into_items_def default_group_def)
  have inj: "inj_on sn_id (set (into_items ?g))" unfolding items
    by (simp add: demo_marked_def demo_sn_simps inj_on_def numeral_eq_Suc)
  note f = forget_respects_marks [OF sort_newest_ok r inj]
  have "sn_id (demo_marked ! 0) \<notin> set (into_forget_ids fgs)"
    using f [of "demo_marked ! 0"] unfolding items by (simp add: demo_marked_def must_keep_def demo_sn_simps)
  moreover have "sn_id (demo_marked ! 1) \<in> set (into_forget_ids fgs)"
    using f [of "demo_marked ! 1"] unfolding items by (simp add: demo_marked_def must_delete_def demo_sn_simps)
  ultimately show ?thesis using r by (auto simp: demo_marked_def demo_sn_simps)
qed

text \<open>The snapshots the rules decide about: those without a delete mark that are not dropped as unchanged.\<close>

definition due :: "KeepOptions \<Rightarrow> ForgetSnapshot \<Rightarrow> bool" where
  "due opts f \<longleftrightarrow> sn_delete (fs_snapshot f) = NotSet \<and> \<not> (ko_delete_unchanged opts \<and> fs_reasons f = [''unchanged''])"

lemma keep_reasons_unchanged: "keep_reasons to_hex j opts now sns i \<noteq> [''unchanged'']"
proof
  assume "keep_reasons to_hex j opts now sns i = [''unchanged'']"
  then have "''unchanged'' \<in> set (keep_reasons to_hex j opts now sns i)" by simp
  then show False
    by (auto simp: keep_reasons_def keep_checks_def period_reasons_def split: if_splits option.splits)
qed

lemma evaluated_due: "due opts (forget_spec to_hex j opts now sns i) = evaluated opts now sns i"
  by (auto simp: due_def evaluated_def forget_spec_def must_keep_def must_delete_def unchanged_at_def keep_reasons_unchanged
      split: DeleteOption.splits)

lemma take_filter_upt: "i \<in> set (take k (filter E [0..<m])) \<Longrightarrow> E i \<and> i < m \<and> length (filter E [0..<i]) < k"
proof -
  assume a: "i \<in> set (take k (filter E [0..<m]))"
  then have i: "E i" "i < m" by (auto dest: in_set_takeD)
  then have "[0..<m] = [0..<i] @ [i..<m]" by (metis less_imp_le upt_add_eq_append le0 le_add_diff_inverse)
  then have split: "filter E [0..<m] = filter E [0..<i] @ filter E [i..<m]" by simp
  have "length (filter E [0..<i]) < k"
  proof (rule ccontr)
    assume "\<not> length (filter E [0..<i]) < k"
    then have "take k (filter E [0..<m]) = take k (filter E [0..<i])" unfolding split by simp
    with a show False by (auto dest: in_set_takeD)
  qed
  with i show ?thesis by blast
qed

text \<open>C33. With \<open>keep-last N\<close> the N newest of the snapshots that carry no delete mark are kept, and all of them when
  N is negative, whatever the other options and however many marked snapshots are between them. Snapshots that the
  option to delete unchanged ones drops, those with the tree of the next older one, do not count.\<close>

theorem keep_last_keeps_newest:
  assumes "sort_desc_ok srt" "keep_apply to_hex j srt opts snapshots now = Inr res" "ko_last opts = Some n"
  shows "newest_first (map fs_snapshot res) \<and>
    list_all fs_keep (take (if n < 0 then length res else nat n) (filter (due opts) res))"
proof -
  obtain sns where sns: "res = map (forget_spec to_hex j opts now sns) [0..<length sns]"
    using keep_apply_cases [OF assms(1,2)] by blast
  let ?k = "if n < 0 then length res else nat n"
  have "fs_keep (forget_spec to_hex j opts now sns i)"
    if i: "i \<in> set (take ?k (filter (evaluated opts now sns) [0..<length sns]))" for i
  proof -
    from take_filter_upt [OF i] have e: "evaluated opts now sns i" "n < 0 \<or> int (starts_before opts now always_false sns i) < n"
      by (auto simp: starts_before_def period_start_def always_false_def split: if_splits)
    then have "keep_reasons to_hex j opts now sns i \<noteq> []"
      by (simp add: keep_reasons_def keep_checks_def period_reasons_def period_start_def always_false_def assms(3))
    then show ?thesis using e(1) by (simp add: forget_spec_def evaluated_def)
  qed
  moreover have "filter (due opts) res = map (forget_spec to_hex j opts now sns) (filter (evaluated opts now sns) [0..<length sns])"
    by (simp add: sns filter_map comp_def evaluated_due)
  ultimately have "list_all fs_keep (take ?k (filter (due opts) res))" by (simp add: list_all_iff take_map)
  with keep_apply_snapshots(2) [OF assms(1,2)] show ?thesis by blast
qed

theorem keep_last_keeps_newest_witness:
  "\<exists>res. keep_apply (\<lambda>_. []) toy_jiff sort_newest (KeepOptions_default\<lparr>ko_last := Some 1\<rparr>) demo_marked \<lparr>z_instant = 10, z_zone = []\<rparr> = Inr res \<and>
     map (\<lambda>f. (sn_id (fs_snapshot f) ! 0, fs_keep f)) res = [(2, False), (3, True), (1, True)] \<and>
     list_all fs_keep (take 1 (filter (due (KeepOptions_default\<lparr>ko_last := Some 1\<rparr>)) res))"
proof -
  let ?apply = "keep_apply (\<lambda>_. []) toy_jiff sort_newest (KeepOptions_default\<lparr>ko_last := Some 1\<rparr>) demo_marked \<lparr>z_instant = 10, z_zone = []\<rparr>"
  have m: "map_sum id (map (\<lambda>f. (sn_id (fs_snapshot f) ! 0, fs_keep f))) ?apply = Inr [(2, False), (3, True), (1, True)]"
    by (simp add: demo_marked_def forget_eval)
  then obtain res where r: "?apply = Inr res" "map (\<lambda>f. (sn_id (fs_snapshot f) ! 0, fs_keep f)) res = [(2, False), (3, True), (1, True)]"
    by (cases ?apply) auto
  from keep_last_keeps_newest [OF sort_newest_ok r(1), of 1] r show ?thesis by (simp add: KeepOptions_default_def)
qed

text \<open>The minutely rule drops snapshots it should keep: two snapshots count as taken in the same minute
  when year, half of the year and the minute within the hour agree, whatever day and hour they are from.
  With \<open>keep-minutely\<close> alone, and any number for it, the older of two such snapshots is forgotten.\<close>

theorem minutely_ignores_hour_and_day:
  assumes "sort_desc_ok srt"
    and "z_instant (sn_time c) < z_instant (sn_time b)" "z_instant (sn_time b) < z_instant (sn_time a)"
    and "j_year j (sn_time b) = j_year j (sn_time a)" "j_month j (sn_time b) = j_month j (sn_time a)"
    and "j_minute j (sn_time b) = j_minute j (sn_time a)"
    and "\<forall>sn \<in> {a, b, c}. sn_delete sn = NotSet"
  shows "\<exists>A B C. keep_apply to_hex j srt (KeepOptions_default\<lparr>ko_minutely := Some n\<rparr>) [a, b, c] now = Inr [A, B, C] \<and>
    fs_snapshot B = b \<and> \<not> fs_keep B"
proof -
  have m: "mset (srt [a, b, c]) = mset [a, b, c]" "newest_first (srt [a, b, c])"
    using assms(1) by (auto simp: sort_desc_ok_def)
  have s: "srt [a, b, c] = [a, b, c]"
  proof (rule sorted_key_mset_unique [OF m(1), where f = "\<lambda>sn. - z_instant (sn_time sn)"])
    show "sorted (map (\<lambda>sn. - z_instant (sn_time sn)) (srt [a, b, c]))"
      using m(2) by (simp add: newest_first_def sorted_map)
    have "set (srt [a, b, c]) = {a, b, c}" using m(1) by (metis set_mset_mset list.set(1,2))
    then show "inj_on (\<lambda>sn. - z_instant (sn_time sn)) (set (srt [a, b, c]))" using assms(2,3) by (auto simp: inj_on_def)
  qed (use assms(2,3) in auto)
  show ?thesis using assms(4-7)
    by (simp add: keep_apply_def keep_is_valid_def KeepOptions_default_def s must_keep_def must_delete_def keep_matches_def
        keep_checks_def keep_check_def put_counters_def equal_minute_def equal_half_year_def equal_year_def Let_def)
qed

theorem minutely_ignores_hour_and_day_witness:
  "\<not> equal_day toy_jiff (demo_sn [] 90 1) (demo_sn [] 30 2) \<and>
   (\<exists>A B C. keep_apply (\<lambda>_. []) toy_jiff sort_newest (KeepOptions_default\<lparr>ko_minutely := Some (- 1)\<rparr>)
      [demo_sn [] 90 1, demo_sn [] 30 2, demo_sn [] 0 3] (sn_time (demo_sn [] 0 0)) = Inr [A, B, C] \<and>
    fs_snapshot B = demo_sn [] 30 2 \<and> \<not> fs_keep B)"
proof
  show "\<not> equal_day toy_jiff (demo_sn [] 90 1) (demo_sn [] 30 2)"
    by (simp add: equal_day_def toy_jiff_def demo_sn_simps)
qed (rule minutely_ignores_hour_and_day [OF sort_newest_ok]; simp add: toy_jiff_def demo_sn_simps)

end
