(* ===== verification/Utf8.thy ===== *)
theory Utf8
  imports Rust_Prelude
begin

text \<open>
  Strings of Rust as the code uses them: a string is a list of scalar values, an \<^verbatim>\<open>OsStr\<close> a list of bytes;
  \<^verbatim>\<open>str::from_utf8\<close> of the standard library with its error positions, \<^verbatim>\<open>char::encode_utf8\<close>,
  \<^verbatim>\<open>String::from_utf8_lossy\<close> and \<^verbatim>\<open>from_str_radix\<close> with base 16.
\<close>

section \<open>Encoding and decoding\<close>

type_synonym rstr = "nat list"
type_synonym OsStr = bytes

definition encode_utf8 :: "nat \<Rightarrow> bytes" where
  "encode_utf8 c =
     (if c < 0x80 then [of_nat c]
      else if c < 0x800 then [of_nat (0xC0 + c div 64), of_nat (0x80 + c mod 64)]
      else if c < 0x10000 then [of_nat (0xE0 + c div 4096), of_nat (0x80 + c div 64 mod 64), of_nat (0x80 + c mod 64)]
      else [of_nat (0xF0 + c div 262144), of_nat (0x80 + c div 4096 mod 64), of_nat (0x80 + c div 64 mod 64), of_nat (0x80 + c mod 64)])"

definition str_bytes :: "rstr \<Rightarrow> bytes" where
  "str_bytes s = concat (map encode_utf8 s)"

definition char_from_u32 :: "nat \<Rightarrow> nat option" where
  "char_from_u32 n = (if n < 0xD800 \<or> (0xE000 \<le> n \<and> n < 0x110000) then Some n else None)"

text \<open>The first character of a nonempty byte string with its width, or why it is not valid: \<open>Some n\<close> when \<open>n\<close>
  bytes are wrong, \<open>None\<close> when the input ends too early.\<close>

datatype utf8_item = UChar nat nat | UInvalid "nat option"

definition cont :: "u8 \<Rightarrow> bool" where
  "cont b \<longleftrightarrow> 0x80 \<le> unat b \<and> unat b < 0xC0"

definition second_ok :: "nat \<Rightarrow> nat \<Rightarrow> bool" where
  "second_ok b c \<longleftrightarrow>
     (if b = 0xE0 then 0xA0 \<le> c \<and> c < 0xC0 else if b = 0xED then 0x80 \<le> c \<and> c < 0xA0
      else if b = 0xF0 then 0x90 \<le> c \<and> c < 0xC0 else if b = 0xF4 then 0x80 \<le> c \<and> c < 0x90
      else 0x80 \<le> c \<and> c < 0xC0)"

definition utf8_next :: "u8 \<Rightarrow> bytes \<Rightarrow> utf8_item" where
  "utf8_next b r =
     (if unat b < 0x80 then UChar (unat b) 1
      else if 0xC2 \<le> unat b \<and> unat b < 0xE0 then
        (case r of [] \<Rightarrow> UInvalid None
         | c # _ \<Rightarrow> if cont c then UChar ((unat b - 0xC0) * 64 + (unat c - 0x80)) 2 else UInvalid (Some 1))
      else if 0xE0 \<le> unat b \<and> unat b < 0xF0 then
        (case r of [] \<Rightarrow> UInvalid None
         | c # r \<Rightarrow> if \<not> second_ok (unat b) (unat c) then UInvalid (Some 1)
           else case r of [] \<Rightarrow> UInvalid None
           | d # _ \<Rightarrow> if cont d then UChar ((unat b - 0xE0) * 4096 + (unat c - 0x80) * 64 + (unat d - 0x80)) 3 else UInvalid (Some 2))
      else if 0xF0 \<le> unat b \<and> unat b < 0xF5 then
        (case r of [] \<Rightarrow> UInvalid None
         | c # r \<Rightarrow> if \<not> second_ok (unat b) (unat c) then UInvalid (Some 1)
           else case r of [] \<Rightarrow> UInvalid None
           | d # r \<Rightarrow> if \<not> cont d then UInvalid (Some 2)
             else case r of [] \<Rightarrow> UInvalid None
             | e # _ \<Rightarrow> if cont e then UChar ((unat b - 0xF0) * 262144 + (unat c - 0x80) * 4096 + (unat d - 0x80) * 64 + (unat e - 0x80)) 4
               else UInvalid (Some 3))
      else UInvalid (Some 1))"

lemma utf8_next_width: "utf8_next b r = UChar c n \<Longrightarrow> 0 < n \<and> n \<le> Suc (length r)"
  by (auto simp: utf8_next_def split: if_splits list.splits)

lemma utf8_next_invalid: "utf8_next b r = UInvalid (Some n) \<Longrightarrow> 0 < n \<and> n \<le> Suc (length r)"
  by (auto simp: utf8_next_def split: if_splits list.splits)

text \<open>\<^verbatim>\<open>from_utf8\<close>: the string, or \<^verbatim>\<open>valid_up_to\<close> and \<^verbatim>\<open>error_len\<close>.\<close>

function from_utf8 :: "bytes \<Rightarrow> (nat \<times> nat option) + rstr" where
  "from_utf8 [] = Inr []"
| "from_utf8 (b # r) = (case utf8_next b r of
     UInvalid e \<Rightarrow> Inl (0, e)
   | UChar c n \<Rightarrow> (case from_utf8 (drop n (b # r)) of Inr s \<Rightarrow> Inr (c # s) | Inl (v, e) \<Rightarrow> Inl (n + v, e)))"
  by pat_completeness auto
termination by (relation "measure length") (auto dest: utf8_next_width)

text \<open>\<^verbatim>\<open>from_utf8_lossy\<close>: invalid sequences become U+FFFD.\<close>

function from_utf8_lossy :: "bytes \<Rightarrow> rstr" where
  "from_utf8_lossy [] = []"
| "from_utf8_lossy (b # r) = (case utf8_next b r of
     UChar c n \<Rightarrow> c # from_utf8_lossy (drop n (b # r))
   | UInvalid (Some n) \<Rightarrow> 0xFFFD # from_utf8_lossy (drop n (b # r))
   | UInvalid None \<Rightarrow> [0xFFFD])"
  by pat_completeness auto
termination by (relation "measure length") (auto dest: utf8_next_width utf8_next_invalid)

lemma of_nat_unat_eq: "n = unat (b :: u8) \<Longrightarrow> of_nat n = b"
  by simp

lemma encode_utf8_next: "utf8_next b r = UChar c n \<Longrightarrow> encode_utf8 c = take n (b # r)"
proof -
  assume u: "utf8_next b r = UChar c n"
  have dm: "(x * 64 + y) div 64 = x" "(x * 64 + y) mod 64 = y" if "y < 64" for x y :: nat
    using that by (simp_all add: mod_less mult.commute [of x 64])
  consider (1) "unat b < 0x80" "c = unat b" "n = 1"
    | (2) d r' where "0xC2 \<le> unat b" "unat b < 0xE0" "r = d # r'" "cont d" "c = (unat b - 0xC0) * 64 + (unat d - 0x80)" "n = 2"
    | (3) d e r' where "0xE0 \<le> unat b" "unat b < 0xF0" "r = d # e # r'" "second_ok (unat b) (unat d)" "cont e"
        "c = (unat b - 0xE0) * 4096 + (unat d - 0x80) * 64 + (unat e - 0x80)" "n = 3"
    | (4) d e f r' where "0xF0 \<le> unat b" "unat b < 0xF5" "r = d # e # f # r'" "second_ok (unat b) (unat d)" "cont e" "cont f"
        "c = (unat b - 0xF0) * 262144 + (unat d - 0x80) * 4096 + (unat e - 0x80) * 64 + (unat f - 0x80)" "n = 4"
    using u by (auto simp: utf8_next_def split: if_splits list.splits)
  then show ?thesis
  proof cases
    case 1
    then show ?thesis by (simp add: encode_utf8_def)
  next
    case 2
    obtain x where x: "unat b = 0xC0 + x" "2 \<le> x" "x < 32" using 2(1,2) by (intro that [of "unat b - 0xC0"]) simp_all
    obtain y where y: "unat d = 0x80 + y" "y < 64" using 2(4) by (intro that [of "unat d - 0x80"]) (auto simp: cont_def)
    have c: "c = x * 64 + y" using 2(5) x y by simp
    then have "0x80 \<le> c" "c < 0x800" "c div 64 = x" "c mod 64 = y" using x y by simp_all
    then show ?thesis using 2(3,6) x(1) y(1)
      by (simp add: encode_utf8_def of_nat_unat_eq [of _ b] of_nat_unat_eq [of _ d] del: of_nat_add)
  next
    case 3
    obtain x where x: "unat b = 0xE0 + x" "x < 16" using 3(1,2) by (intro that [of "unat b - 0xE0"]) simp_all
    obtain y where y: "unat d = 0x80 + y" "y < 64" "x = 0 \<longrightarrow> 32 \<le> y"
      using 3(4) x by (intro that [of "unat d - 0x80"]) (auto simp: second_ok_def split: if_splits)
    obtain z where z: "unat e = 0x80 + z" "z < 64" using 3(5) by (intro that [of "unat e - 0x80"]) (auto simp: cont_def)
    have c: "c = (x * 64 + y) * 64 + z" using 3(6) x y z by simp
    note d = dm [OF z(2), of "x * 64 + y", folded c]
    have "c div 64 = x * 64 + y" "c mod 64 = z" by (fact d)+
    moreover have "c div 4096 = x" "(x * 64 + y) mod 64 = y"
      using dm [OF y(2), of x] d div_mult2_eq [of c 64 64] by simp_all
    moreover have "0x800 \<le> c" "c < 0x10000" using c x y z by (cases "x = 0"; simp)+
    ultimately show ?thesis using 3(3,7) x(1) y(1) z(1)
      by (simp add: encode_utf8_def of_nat_unat_eq [of _ b] of_nat_unat_eq [of _ d] of_nat_unat_eq [of _ e] del: of_nat_add)
  next
    case 4
    obtain x where x: "unat b = 0xF0 + x" "x < 5" using 4(1,2) by (intro that [of "unat b - 0xF0"]) simp_all
    obtain y where y: "unat d = 0x80 + y" "y < 64" "x = 0 \<longrightarrow> 16 \<le> y"
      using 4(4) x by (intro that [of "unat d - 0x80"]) (auto simp: second_ok_def split: if_splits)
    obtain z where z: "unat e = 0x80 + z" "z < 64" using 4(5) by (intro that [of "unat e - 0x80"]) (auto simp: cont_def)
    obtain w where w: "unat f = 0x80 + w" "w < 64" using 4(6) by (intro that [of "unat f - 0x80"]) (auto simp: cont_def)
    have c: "c = ((x * 64 + y) * 64 + z) * 64 + w" using 4(7) x y z w by simp
    note d = dm [OF w(2), of "(x * 64 + y) * 64 + z", folded c]
    note e = dm [OF z(2), of "x * 64 + y"]
    have "c div 64 = (x * 64 + y) * 64 + z" "c mod 64 = w" by (fact d)+
    moreover have d2: "c div 4096 = x * 64 + y" using d e div_mult2_eq [of c 64 64] by simp
    moreover have "c div 262144 = x" using d2 dm [OF y(2), of x] div_mult2_eq [of c 4096 64] by simp
    moreover have "(x * 64 + y) mod 64 = y" "((x * 64 + y) * 64 + z) mod 64 = z" using dm [OF y(2), of x] e by simp_all
    moreover have "0x10000 \<le> c" using c x y z w by (cases "x = 0"; simp)
    ultimately show ?thesis using 4(3,8) x(1) y(1) z(1) w(1)
      by (simp add: encode_utf8_def of_nat_unat_eq [of _ b] of_nat_unat_eq [of _ d] of_nat_unat_eq [of _ e]
          of_nat_unat_eq [of _ f] del: of_nat_add)
  qed
qed

lemma utf8_next_take: "utf8_next b r = UChar c n \<Longrightarrow> n \<le> m \<Longrightarrow> utf8_next b (take (m - 1) r) = UChar c n"
  by (auto simp: utf8_next_def take_Cons' split: if_splits list.splits)

text \<open>A valid byte string is the encoding of what it is decoded to.\<close>

lemma from_utf8_encode: "from_utf8 xs = Inr s \<Longrightarrow> str_bytes s = xs"
proof (induction xs arbitrary: s rule: from_utf8.induct)
  case (2 b r)
  from "2.prems" obtain c n t where u: "utf8_next b r = UChar c n" "from_utf8 (drop n (b # r)) = Inr t" "s = c # t"
    by (auto split: utf8_item.splits sum.splits)
  then have "str_bytes t = drop n (b # r)" using "2.IH" by blast
  then show ?case using encode_utf8_next [OF u(1)] u(3) by (simp add: str_bytes_def)
qed (simp add: str_bytes_def)

lemma from_utf8_prefix:
  "from_utf8 xs = Inl (v, e) \<Longrightarrow> \<exists>s. from_utf8 (take v xs) = Inr s \<and> v < length xs \<and>
     (\<forall>n. e = Some n \<longrightarrow> 0 < n \<and> v + n \<le> length xs)"
proof (induction xs arbitrary: v rule: from_utf8.induct)
  case (2 b r)
  show ?case
  proof (cases "utf8_next b r")
    case (UInvalid e')
    then show ?thesis using "2.prems" utf8_next_invalid [of b r] by auto
  next
    case (UChar c n)
    then obtain v' where v': "from_utf8 (drop n (b # r)) = Inl (v', e)" "v = n + v'"
      using "2.prems" by (auto split: sum.splits)
    obtain s where s: "from_utf8 (take v' (drop n (b # r))) = Inr s" "v' < length (drop n (b # r))"
        "\<forall>k. e = Some k \<longrightarrow> 0 < k \<and> v' + k \<le> length (drop n (b # r))"
      using "2.IH" [OF UChar v'(1)] by blast
    have n: "0 < n" "n \<le> Suc (length r)" using utf8_next_width [OF UChar] by auto
    then obtain m where m: "v = Suc m" using v'(2) n(1) by (metis add_gr_0 gr0_implies_Suc)
    have "utf8_next b (take m r) = UChar c n" using utf8_next_take [OF UChar, of "Suc m"] v'(2) m by simp
    moreover have "drop n (b # take m r) = take v' (drop n (b # r))"
      using m v'(2) by (metis add_diff_cancel_left' drop_take take_Suc_Cons)
    ultimately have "from_utf8 (take v (b # r)) = Inr (c # s)" using s(1) m by simp
    then show ?thesis using s(2,3) v'(2) n(2) by auto
  qed
qed simp

section \<open>Hexadecimal numbers\<close>

definition hex_digit :: "nat \<Rightarrow> nat option" where
  "hex_digit c =
     (if 0x30 \<le> c \<and> c \<le> 0x39 then Some (c - 0x30)
      else if 0x61 \<le> c \<and> c \<le> 0x66 then Some (c - 0x57)
      else if 0x41 \<le> c \<and> c \<le> 0x46 then Some (c - 0x37) else None)"

fun hex_value :: "nat \<Rightarrow> rstr \<Rightarrow> nat option" where
  "hex_value acc [] = Some acc"
| "hex_value acc (c # s) = (case hex_digit c of None \<Rightarrow> None | Some d \<Rightarrow> hex_value (16 * acc + d) s)"

text \<open>\<^verbatim>\<open>from_str_radix(s, 16)\<close> for an unsigned type of \<open>w\<close> bits: a plus sign is allowed.\<close>

definition from_str_radix16 :: "nat \<Rightarrow> rstr \<Rightarrow> nat option" where
  "from_str_radix16 w s =
     (let ds = (case s of c # r \<Rightarrow> if c = 0x2B then r else s | [] \<Rightarrow> []) in
      if ds = [] then None
      else case hex_value 0 ds of None \<Rightarrow> None | Some n \<Rightarrow> if n < 2 ^ w then Some n else None)"

text \<open>The format \<^verbatim>\<open>{:02x}\<close> of a byte.\<close>

definition hex_char :: "nat \<Rightarrow> nat" where
  "hex_char d = (if d < 10 then 0x30 + d else 0x57 + d)"

definition hex2 :: "u8 \<Rightarrow> rstr" where
  "hex2 b = [hex_char (unat b div 16), hex_char (unat b mod 16)]"

lemma hex_digit_char: "d < 16 \<Longrightarrow> hex_digit (hex_char d) = Some d"
  by (simp add: hex_digit_def hex_char_def)

lemma from_str_radix16_hex2: "from_str_radix16 8 (hex2 b) = Some (unat b)"
proof -
  have b: "unat b < 256" using unsigned_less [of b, where ?'a = nat] by simp
  then have "unat b div 16 < 16" by simp
  moreover from this have "hex_char (unat b div 16) \<noteq> 0x2B" by (simp add: hex_char_def)
  ultimately show ?thesis using b by (simp add: from_str_radix16_def hex2_def hex_digit_char)
qed

end
