(* ===== verification/Node.thy ===== *)
theory Node
  imports Utf8 PackFile
begin

text \<open>
  Nodes of trees (crates/core/src/backend/node.rs and node/modification.rs, not on Windows): types, metadata,
  the escaping of file names that are not unicode, link targets, and the modification of metadata. Time
  stamps are integers. The escaped name is shown to give the file name back for every byte string.
\<close>

section \<open>File names\<close>

datatype NodeErrorKind = UnexpectedEOF | InvalidUnicode | UnrecognizedEscape | ParsingHexFailed | ParsingUnicodeFailed

definition escape_char :: "nat \<Rightarrow> rstr" where
  "escape_char c =
     (if c = 0x5C then [0x5C, 0x5C]
      else if c = 0x22 then [0x5C, 0x22]
      else if c = 0x07 then [0x5C, 0x61]
      else if c = 0x08 then [0x5C, 0x62]
      else if c = 0x0C then [0x5C, 0x66]
      else if c = 0x0A then [0x5C, 0x6E]
      else if c = 0x0D then [0x5C, 0x72]
      else if c = 0x09 then [0x5C, 0x74]
      else if c = 0x0B then [0x5C, 0x76]
      else [c])"

definition escape_push :: "rstr \<Rightarrow> rstr \<Rightarrow> rstr" where
  "escape_push s p = s @ concat (map escape_char p)"

definition escape_bytes :: "rstr \<Rightarrow> bytes \<Rightarrow> rstr" where
  "escape_bytes s bs = s @ concat (map (\<lambda>b. [0x5C, 0x78] @ hex2 b) bs)"

function escape_loop :: "bytes \<Rightarrow> rstr \<Rightarrow> rstr rustic_result" where
  "escape_loop input s = (case from_utf8 input of
     Inr valid \<Rightarrow> Inr (escape_push s valid)
   | Inl (valid_up_to, error_len) \<Rightarrow>
       let valid = take valid_up_to input; after_valid = drop valid_up_to input in
       (case from_utf8 valid of
          Inl _ \<Rightarrow> Inl (Panic ''called Result::unwrap() on an Err value'')
        | Inr v \<Rightarrow>
            let s = escape_push s v in
            (case error_len of
               Some invalid_sequence_length \<Rightarrow>
                 escape_loop (drop invalid_sequence_length after_valid)
                   (escape_bytes s (take invalid_sequence_length after_valid))
             | None \<Rightarrow> Inr (escape_bytes s after_valid))))"
  by pat_completeness auto
termination by (relation "measure (\<lambda>(input, s). length input)") (auto dest!: from_utf8_prefix)

declare escape_loop.simps [simp del]

definition escape_filename :: "OsStr \<Rightarrow> rstr rustic_result" where
  "escape_filename name = escape_loop name []"

text \<open>Taking characters from the iterator; missing ones are the character 0.\<close>

definition take_chars :: "nat \<Rightarrow> rstr \<Rightarrow> rstr \<times> rstr" where
  "take_chars n cs = (take n cs @ replicate (n - length cs) 0, drop n cs)"

definition unescape_simple :: "nat \<Rightarrow> u8 option" where
  "unescape_simple c =
     (if c = 0x5C then Some 0x5C else if c = 0x22 then Some 0x22 else if c = 0x27 then Some 0x27
      else if c = 0x60 then Some 0x60 else if c = 0x61 then Some 0x07 else if c = 0x62 then Some 0x08
      else if c = 0x66 then Some 0x0C else if c = 0x6E then Some 0x0A else if c = 0x72 then Some 0x0D
      else if c = 0x74 then Some 0x09 else if c = 0x76 then Some 0x0B else None)"

definition unescape_unicode :: "nat \<Rightarrow> rstr \<Rightarrow> NodeErrorKind + bytes \<times> rstr" where
  "unescape_unicode n chars =
     (let (hex, chars) = take_chars n chars in
      case from_str_radix16 32 hex of
        None \<Rightarrow> Inl ParsingUnicodeFailed
      | Some v \<Rightarrow> (case char_from_u32 v of None \<Rightarrow> Inl InvalidUnicode | Some c \<Rightarrow> Inr (encode_utf8 c, chars)))"

text \<open>One turn of the loop after the backslash.\<close>

definition unescape_escape :: "rstr \<Rightarrow> NodeErrorKind + bytes \<times> rstr" where
  "unescape_escape chars = (case chars of
     [] \<Rightarrow> Inl UnexpectedEOF
   | c # chars \<Rightarrow>
       (case unescape_simple c of
          Some b \<Rightarrow> Inr ([b], chars)
        | None \<Rightarrow>
            if c = 0x78 then
              (let (hex, chars) = take_chars 2 chars in
               case from_str_radix16 8 hex of None \<Rightarrow> Inl ParsingHexFailed | Some v \<Rightarrow> Inr ([of_nat v], chars))
            else if c = 0x75 then unescape_unicode 4 chars
            else if c = 0x55 then unescape_unicode 8 chars
            else Inl UnrecognizedEscape))"

lemma unescape_escape_shorter: "unescape_escape chars = Inr (u, rest) \<Longrightarrow> length rest < length chars"
  by (auto simp: unescape_escape_def unescape_unicode_def take_chars_def split: list.splits option.splits if_splits)

function unescape_loop :: "rstr \<Rightarrow> bytes \<Rightarrow> NodeErrorKind + bytes" where
  "unescape_loop [] u = Inr u"
| "unescape_loop (c # chars) u =
    (if c = 0x5C then
       (case unescape_escape chars of Inl e \<Rightarrow> Inl e | Inr (bs, rest) \<Rightarrow> unescape_loop rest (u @ bs))
     else unescape_loop chars (u @ encode_utf8 c))"
  by pat_completeness auto
termination by (relation "measure (\<lambda>(chars, u). length chars)") (auto dest: unescape_escape_shorter)

definition unescape_filename :: "rstr \<Rightarrow> NodeErrorKind + OsStr" where
  "unescape_filename s = (if 0x5C \<notin> set s then Inr (str_bytes s) else unescape_loop s [])"

section \<open>Nodes\<close>

type_synonym Timestamp = int
type_synonym DataId = Id

datatype NodeType =
  File
| Dir
| Symlink rstr "bytes option"
| Dev u64
| Chardev u64
| Fifo
| Socket

definition from_link :: "OsStr \<Rightarrow> NodeType" where
  "from_link target = (case from_utf8 target of
     Inl _ \<Rightarrow> Symlink (from_utf8_lossy target) (Some target)
   | Inr t \<Rightarrow> Symlink t None)"

definition to_link :: "NodeType \<Rightarrow> OsStr rustic_result" where
  "to_link t = (case t of
     Symlink linktarget linktarget_raw \<Rightarrow> Inr (case linktarget_raw of None \<Rightarrow> str_bytes linktarget | Some t \<Rightarrow> t)
   | _ \<Rightarrow> Inl (Panic ''called method to_link on non-symlink!''))"

record ExtendedAttribute =
  ea_name :: rstr
  ea_value :: "bytes option"

record Metadata =
  m_mode :: "u32 option"
  m_mtime :: "Timestamp option"
  m_atime :: "Timestamp option"
  m_ctime :: "Timestamp option"
  m_uid :: "u32 option"
  m_gid :: "u32 option"
  m_user :: "rstr option"
  m_group :: "rstr option"
  m_inode :: u64
  m_device_id :: u64
  m_size :: u64
  m_links :: u64
  m_extended_attributes :: "ExtendedAttribute list"

definition Metadata_default :: Metadata where
  "Metadata_default = \<lparr>m_mode = None, m_mtime = None, m_atime = None, m_ctime = None, m_uid = None, m_gid = None,
     m_user = None, m_group = None, m_inode = 0, m_device_id = 0, m_size = 0, m_links = 0, m_extended_attributes = []\<rparr>"

record Node =
  n_name :: rstr
  n_type :: NodeType
  n_meta :: Metadata
  n_content :: "DataId list option"
  n_subtree :: "Id option"

definition new_node :: "OsStr \<Rightarrow> NodeType \<Rightarrow> Metadata \<Rightarrow> Node rustic_result" where
  "new_node name t m = bindR (escape_filename name) (\<lambda>s.
     Inr \<lparr>n_name = s, n_type = t, n_meta = m, n_content = None, n_subtree = None\<rparr>)"

definition is_dir :: "Node \<Rightarrow> bool" where
  "is_dir n \<longleftrightarrow> n_type n = Dir"

definition is_file :: "Node \<Rightarrow> bool" where
  "is_file n \<longleftrightarrow> n_type n = File"

definition is_symlink :: "Node \<Rightarrow> bool" where
  "is_symlink n = (case n_type n of Symlink _ _ \<Rightarrow> True | _ \<Rightarrow> False)"

definition is_special :: "Node \<Rightarrow> bool" where
  "is_special n = (case n_type n of Symlink _ _ \<Rightarrow> True | Dev _ \<Rightarrow> True | Chardev _ \<Rightarrow> True | Fifo \<Rightarrow> True | Socket \<Rightarrow> True | _ \<Rightarrow> False)"

definition node_name :: "Node \<Rightarrow> OsStr" where
  "node_name n = (case unescape_filename (n_name n) of Inr s \<Rightarrow> s | Inl _ \<Rightarrow> str_bytes (n_name n))"

text \<open>The order of optional time stamps: \<open>None\<close> first.\<close>

definition last_modified_node :: "Node \<Rightarrow> Node \<Rightarrow> Ordering" where
  "last_modified_node a b = (case (m_mtime (n_meta a), m_mtime (n_meta b)) of
     (None, None) \<Rightarrow> Equal | (None, Some _) \<Rightarrow> Less | (Some _, None) \<Rightarrow> Greater | (Some x, Some y) \<Rightarrow> ord_cmp x y)"

section \<open>Modification\<close>

datatype TimeOption = TimeYes | TimeMtime | TimeNo
datatype DevIdOption = DevIdYes | DevIdHardlink | DevIdNo
datatype BlockdevOption = BlockdevSpecial | BlockdevFile
datatype XattrOption = XattrYes | XattrNo

definition TimeOption_map_or_else :: "TimeOption \<Rightarrow> Timestamp option \<Rightarrow> Timestamp option \<Rightarrow> Timestamp option" where
  "TimeOption_map_or_else t default_time mtime = (case t of TimeYes \<Rightarrow> default_time | TimeMtime \<Rightarrow> mtime | TimeNo \<Rightarrow> None)"

definition DevIdOption_map_or_else :: "DevIdOption \<Rightarrow> u64 \<Rightarrow> bool \<Rightarrow> u64" where
  "DevIdOption_map_or_else d dev_id hardlink =
     (case d of DevIdYes \<Rightarrow> dev_id | DevIdHardlink \<Rightarrow> if hardlink then dev_id else 0 | DevIdNo \<Rightarrow> 0)"

definition XattrOption_map_or_else :: "XattrOption \<Rightarrow> ExtendedAttribute list \<Rightarrow> ExtendedAttribute list" where
  "XattrOption_map_or_else x attrs = (case x of XattrYes \<Rightarrow> attrs | XattrNo \<Rightarrow> [])"

record NodeModification =
  nm_set_atime :: "TimeOption option"
  nm_set_ctime :: "TimeOption option"
  nm_set_devid :: "DevIdOption option"
  nm_set_xattrs :: "XattrOption option"

definition unwrap_or :: "'a \<Rightarrow> 'a option \<Rightarrow> 'a" where
  "unwrap_or d m = (case m of None \<Rightarrow> d | Some x \<Rightarrow> x)"

definition modify_node :: "NodeModification \<Rightarrow> Node \<Rightarrow> bool \<times> Node" where
  "modify_node self n =
     (let meta = n_meta n; mtime = m_mtime meta;
          meta = meta\<lparr>m_atime := TimeOption_map_or_else (unwrap_or TimeMtime (nm_set_atime self)) (m_atime meta) mtime\<rparr>;
          meta = meta\<lparr>m_ctime := TimeOption_map_or_else (unwrap_or TimeYes (nm_set_ctime self)) (m_ctime meta) mtime\<rparr>;
          meta = meta\<lparr>m_device_id := DevIdOption_map_or_else (unwrap_or DevIdHardlink (nm_set_devid self)) (m_device_id meta)
            (m_links meta > 1 \<and> \<not> is_dir n)\<rparr>;
          meta = meta\<lparr>m_extended_attributes :=
            XattrOption_map_or_else (unwrap_or XattrYes (nm_set_xattrs self)) (m_extended_attributes meta)\<rparr>
      in (n_meta n \<noteq> meta, n\<lparr>n_meta := meta\<rparr>))"

record SaveOptions =
  sv_set_atime :: "TimeOption option"
  sv_set_ctime :: "TimeOption option"
  sv_set_devid :: "DevIdOption option"
  sv_set_blockdev :: "BlockdevOption option"
  sv_set_xattrs :: "XattrOption option"

definition into_restore :: "SaveOptions \<Rightarrow> Node \<Rightarrow> Node" where
  "into_restore opts n =
     (let meta = n_meta n;
          meta = meta\<lparr>m_atime := (case unwrap_or TimeMtime (sv_set_atime opts) of
            TimeYes \<Rightarrow> m_atime meta | TimeMtime \<Rightarrow> m_mtime meta | TimeNo \<Rightarrow> None)\<rparr>;
          meta = meta\<lparr>m_ctime := (case unwrap_or TimeYes (sv_set_ctime opts) of
            TimeYes \<Rightarrow> m_ctime meta | TimeMtime \<Rightarrow> m_mtime meta | TimeNo \<Rightarrow> None)\<rparr>;
          meta = meta\<lparr>m_device_id := (case unwrap_or DevIdHardlink (sv_set_devid opts) of
            DevIdYes \<Rightarrow> m_device_id meta
          | DevIdHardlink \<Rightarrow> if m_links meta > 1 \<and> \<not> is_dir n then m_device_id meta else 0
          | DevIdNo \<Rightarrow> 0)\<rparr>;
          meta = meta\<lparr>m_extended_attributes := (case unwrap_or XattrYes (sv_set_xattrs opts) of
            XattrYes \<Rightarrow> m_extended_attributes meta | XattrNo \<Rightarrow> [])\<rparr>;
          node_type = (case n_type n of
            Dev device \<Rightarrow> if unwrap_or BlockdevSpecial (sv_set_blockdev opts) = BlockdevFile then File else Dev device
          | other \<Rightarrow> other)
      in n\<lparr>n_type := node_type, n_meta := meta\<rparr>)"

section \<open>Escaping is undone by unescaping\<close>

lemma str_bytes_simps [simp]: "str_bytes [] = []" "str_bytes (c # s) = encode_utf8 c @ str_bytes s"
  "str_bytes (s @ t) = str_bytes s @ str_bytes t"
  by (simp_all add: str_bytes_def)

lemma unescape_loop_char: "unescape_loop (escape_char c @ rest) u = unescape_loop rest (u @ encode_utf8 c)"
  by (simp add: escape_char_def unescape_escape_def unescape_simple_def encode_utf8_def)

lemma unescape_loop_chars: "unescape_loop (concat (map escape_char s) @ rest) u = unescape_loop rest (u @ str_bytes s)"
  by (induction s arbitrary: u) (simp_all add: unescape_loop_char)

lemma unescape_loop_hex: "unescape_loop ([0x5C, 0x78] @ hex2 b @ rest) u = unescape_loop rest (u @ [b])"
proof -
  have "take_chars 2 (hex2 b @ rest) = (hex2 b, rest)" by (simp add: take_chars_def hex2_def numeral_2_eq_2)
  then show ?thesis
    by (simp add: unescape_escape_def unescape_simple_def from_str_radix16_hex2)
qed

lemma unescape_loop_bytes:
  "unescape_loop (concat (map (\<lambda>b. [0x5C, 0x78] @ hex2 b) bs) @ rest) u = unescape_loop rest (u @ bs)"
proof (induction bs arbitrary: u)
  case (Cons b bs)
  then show ?case
    using unescape_loop_hex [of b "concat (map (\<lambda>b. [0x5C, 0x78] @ hex2 b) bs) @ rest" u] by simp
qed simp

lemma unescape_loop_plain: "0x5C \<notin> set s \<Longrightarrow> unescape_loop s u = Inr (u @ str_bytes s)"
  by (induction s arbitrary: u) auto

text \<open>The loop appends an escape of its input; \<open>escapes s bs\<close> says that \<open>s\<close> reads as \<open>bs\<close> wherever it stands.\<close>

definition escapes :: "rstr \<Rightarrow> bytes \<Rightarrow> bool" where
  "escapes s bs \<longleftrightarrow> (\<forall>rest u. unescape_loop (s @ rest) u = unescape_loop rest (u @ bs))"

lemma escapes_append: "escapes s bs \<Longrightarrow> escapes t cs \<Longrightarrow> escapes (s @ t) (bs @ cs)"
  by (simp add: escapes_def)

lemma escapes_push: "escapes s bs \<Longrightarrow> escapes (escape_push s p) (bs @ str_bytes p)"
  unfolding escape_push_def by (erule escapes_append) (simp add: escapes_def unescape_loop_chars)

lemma escapes_bytes: "escapes s bs \<Longrightarrow> escapes (escape_bytes s cs) (bs @ cs)"
  unfolding escape_bytes_def by (erule escapes_append) (simp only: escapes_def unescape_loop_bytes simp_thms)

lemma escape_loop_escapes: "escapes s bs \<Longrightarrow> \<exists>t. escape_loop input s = Inr t \<and> escapes t (bs @ input)"
proof (induction input s arbitrary: bs rule: escape_loop.induct)
  case (1 input s)
  show ?case
  proof (cases "from_utf8 input")
    case (Inr valid)
    then show ?thesis
      using escapes_push [OF "1.prems", of valid] from_utf8_encode [OF Inr] by (simp add: escape_loop.simps [of input])
  next
    case (Inl ve)
    obtain v e where ve: "ve = (v, e)" by (cases ve)
    obtain p where p: "from_utf8 (take v input) = Inr p" using from_utf8_prefix Inl ve by blast
    have sp: "escapes (escape_push s p) (bs @ take v input)"
      using escapes_push [OF "1.prems", of p] from_utf8_encode [OF p] by simp
    show ?thesis
    proof (cases e)
      case None
      then show ?thesis
        using escapes_bytes [OF sp, of "drop v input"] by (simp add: escape_loop.simps [of input] Inl ve p)
    next
      case (Some n)
      let ?a = "drop v input"
      have "\<exists>t. escape_loop (drop n ?a) (escape_bytes (escape_push s p) (take n ?a)) = Inr t \<and>
          escapes t ((bs @ take v input @ take n ?a) @ drop n ?a)"
        by (rule "1.IH" [OF Inl ve [symmetric] refl refl p refl Some]) (use escapes_bytes [OF sp, of "take n ?a"] in simp)
      moreover have "take v input @ take n ?a @ drop n ?a = input" by (metis append_take_drop_id)
      ultimately show ?thesis by (simp add: escape_loop.simps [of input] Inl ve p Some Let_def del: drop_drop)
    qed
  qed
qed

lemma escape_filename_inverse: "\<exists>s. escape_filename name = Inr s \<and> unescape_filename s = Inr name"
proof -
  have "escapes [] []" by (simp add: escapes_def)
  then obtain s where s: "escape_filename name = Inr s" "escapes s name"
    using escape_loop_escapes unfolding escape_filename_def by fastforce
  then have "unescape_loop s [] = Inr name" unfolding escapes_def by (metis append.right_neutral append_Nil unescape_loop.simps(1))
  then have "unescape_filename s = Inr name"
    using unescape_loop_plain [of s "[]"] by (auto simp: unescape_filename_def)
  then show ?thesis using s(1) by blast
qed

lemma new_node_ok:
  "\<exists>n. new_node name t m = Inr n \<and> node_name n = name \<and> n_type n = t \<and> n_meta n = m \<and> n_content n = None \<and> n_subtree n = None"
  using escape_filename_inverse [of name] by (auto simp: new_node_def node_name_def)

text \<open>C19. Every file name survives being written to a tree: escaping never panics, whatever bytes the name
  consists of, and unescaping the result gives exactly these bytes. So the name of a new node is the name it
  was made with.\<close>

theorem filename_roundtrip:
  "\<exists>s. escape_filename name = Inr s \<and> unescape_filename s = Inr name \<and>
     (\<forall>t m. \<exists>n. new_node name t m = Inr n \<and> node_name n = name)"
  using escape_filename_inverse [of name] by (auto simp: new_node_def node_name_def)

text \<open>A link target is read back as it was, also when it is not unicode.\<close>

theorem link_roundtrip: "to_link (from_link target) = Inr target"
  by (auto simp: from_link_def to_link_def from_utf8_encode split: sum.splits)

text \<open>Modifying the metadata of a node twice is the same as once: the second time reports no change.\<close>

lemma map_or_else_twice [simp]:
  "TimeOption_map_or_else t (TimeOption_map_or_else t x y) y = TimeOption_map_or_else t x y"
  "DevIdOption_map_or_else d (DevIdOption_map_or_else d i h) h = DevIdOption_map_or_else d i h"
  "XattrOption_map_or_else a (XattrOption_map_or_else a as) = XattrOption_map_or_else a as"
  by (auto simp: TimeOption_map_or_else_def DevIdOption_map_or_else_def XattrOption_map_or_else_def
      split: TimeOption.splits DevIdOption.splits XattrOption.splits)

lemma modify_node_twice: "modify_node m n = (changed, n') \<Longrightarrow> modify_node m n' = (False, n')"
  by (cases "n_meta n") (auto simp: modify_node_def is_dir_def Let_def)

text \<open>Both ways of applying the options, when saving and when rewriting, treat the metadata alike.\<close>

lemma into_restore_modifies:
  "n_meta (into_restore opts n) = n_meta (snd (modify_node \<lparr>nm_set_atime = sv_set_atime opts, nm_set_ctime = sv_set_ctime opts,
     nm_set_devid = sv_set_devid opts, nm_set_xattrs = sv_set_xattrs opts\<rparr> n))"
  by (cases "n_meta n") (auto simp: into_restore_def modify_node_def TimeOption_map_or_else_def
      DevIdOption_map_or_else_def XattrOption_map_or_else_def Let_def split: TimeOption.splits DevIdOption.splits XattrOption.splits)

end
