(* ===== verification/Tree.thy ===== *)
theory Tree
  imports Node BinarySorted Snapshots
begin

text \<open>
  Trees (crates/core/src/blob/tree.rs): paths, loading a tree through the index, finding nodes by path, and
  streaming nodes or trees. Trees are stored as JSON, whose parser and printer are parameters. Functions that
  walk over trees take the loading of a tree as an argument, which is \<open>Tree_from_backend\<close> in the code.

  The stream of trees is produced by worker threads: it is a step relation in which any requested tree may
  arrive next.
\<close>

section \<open>Paths\<close>

text \<open>A path is the list of its components, as \<^verbatim>\<open>std::path\<close> compares and iterates it on Unix.\<close>

datatype Component = RootDir | CurDir | ParentDir | Normal OsStr

type_synonym Path = "Component list"

definition component_of :: "OsStr \<Rightarrow> Component" where
  "component_of s = (if s = [0x2E] then CurDir else if s = [0x2E, 0x2E] then ParentDir else Normal s)"

definition components :: "OsStr \<Rightarrow> Path" where
  "components p =
     (let cs = map component_of (filter (\<lambda>s. s \<noteq> []) (split_char 0x2F p))
      in if p \<noteq> [] \<and> hd p = 0x2F then RootDir # filter (\<lambda>c. c \<noteq> CurDir) cs
         else (case cs of [] \<Rightarrow> [] | c # cs \<Rightarrow> c # filter (\<lambda>c. c \<noteq> CurDir) cs))"

definition path_join :: "Path \<Rightarrow> OsStr \<Rightarrow> Path" where
  "path_join p s =
     (if s \<noteq> [] \<and> hd s = 0x2F then components s
      else if p = [] then components s
      else p @ filter (\<lambda>c. c \<noteq> CurDir) (components s))"

definition path_pop :: "Path \<Rightarrow> Path" where
  "path_pop p = (if p = [] \<or> last p = RootDir then p else butlast p)"

text \<open>File names as the operating system has them: one component.\<close>

definition plain_name :: "OsStr \<Rightarrow> bool" where
  "plain_name s \<longleftrightarrow> s \<noteq> [] \<and> 0x2F \<notin> set s \<and> s \<noteq> [0x2E] \<and> s \<noteq> [0x2E, 0x2E]"

lemma path_join_plain: "plain_name s \<Longrightarrow> path_join p s = p @ [Normal s]"
  by (cases s) (auto simp: plain_name_def path_join_def components_def component_of_def split_char_single Let_def)

lemma path_pop_snoc [simp]: "path_pop (p @ [Normal s]) = p"
  by (simp add: path_pop_def)

datatype TreeErrorKind = ContainsCurrentOrParentDirectory

definition comp_to_osstr :: "Component \<Rightarrow> TreeErrorKind + OsStr option" where
  "comp_to_osstr c = (case c of
     RootDir \<Rightarrow> Inr None
   | Normal p \<Rightarrow> Inr (Some p)
   | _ \<Rightarrow> Inl ContainsCurrentOrParentDirectory)"

section \<open>Trees\<close>

record Tree =
  t_nodes :: "Node list"

definition Tree_new :: Tree where
  "Tree_new = \<lparr>t_nodes = []\<rparr>"

definition Tree_add :: "Node \<Rightarrow> Tree \<Rightarrow> Tree" where
  "Tree_add node t = t\<lparr>t_nodes := t_nodes t @ [node]\<rparr>"

definition Tree_serialize :: "(Tree \<Rightarrow> bytes) \<Rightarrow> (bytes \<Rightarrow> Id) \<Rightarrow> Tree \<Rightarrow> bytes \<times> TreeId" where
  "Tree_serialize to_vec hash t = (let chunk = to_vec t @ [0x0A] in (chunk, hash chunk))"

definition Tree_from_backend ::
    "(bytes \<Rightarrow> Tree option) \<Rightarrow> (IndexEntry \<Rightarrow> bytes rustic_result) \<Rightarrow> (BlobType \<Rightarrow> BlobId \<Rightarrow> IndexEntry option) \<Rightarrow> TreeId
     \<Rightarrow> Tree rustic_result" where
  "Tree_from_backend from_slice read get_id i =
     bindR (ok_or (RusticError EInternal ''Tree ID `{tree_id}` not found in index'') (get_tree get_id i)) (\<lambda>e.
     bindR (read e) (\<lambda>data.
     ok_or (RusticError EInternal ''Failed to deserialize tree from JSON.'') (from_slice data)))"

definition subtrees :: "Tree \<Rightarrow> TreeId set" where
  "subtrees t = {i. \<exists>n \<in> set (t_nodes t). n_subtree n = Some i}"

section \<open>Nodes by path\<close>

definition path_component :: "Component \<Rightarrow> OsStr option rustic_result" where
  "path_component c = map_err (\<lambda>_. RusticError EInternal ''Failed to convert Path component `{path}` to OsString.'') (comp_to_osstr c)"

definition node_step :: "(TreeId \<Rightarrow> Tree rustic_result) \<Rightarrow> Component \<Rightarrow> Node \<Rightarrow> Node rustic_result" where
  "node_step load c node =
     bindR (path_component c) (\<lambda>p. case p of
       None \<Rightarrow> Inr node
     | Some p \<Rightarrow>
         bindR (ok_or (RusticError EInternal ''Node `{node}` is not a directory.'') (n_subtree node)) (\<lambda>i.
         bindR (load i) (\<lambda>tree.
         ok_or (RusticError EInternal ''Node `{node}` not found in tree.'') (List.find (\<lambda>n. node_name n = p) (t_nodes tree)))))"

definition node_from_path :: "(TreeId \<Rightarrow> Tree rustic_result) \<Rightarrow> TreeId \<Rightarrow> Path \<Rightarrow> Node rustic_result" where
  "node_from_path load i path =
     bindR (new_node [] Dir Metadata_default) (\<lambda>node. foldR (node_step load) path (node\<lparr>n_subtree := Some i\<rparr>))"

text \<open>The search in many trees shares its results: per position in the path a map from tree ids, and the
  list of different nodes found (a map from nodes to their number, in the order of the numbers).\<close>

record FindState =
  fi_cache :: "(TreeId \<rightharpoonup> nat option) list"
  fi_nodes :: "Node list"

definition node_entry :: "Node \<Rightarrow> Node list \<Rightarrow> nat \<times> Node list" where
  "node_entry node nodes =
     (case List.find (\<lambda>k. nodes ! k = node) [0..<length nodes] of
        Some k \<Rightarrow> (k, nodes) | None \<Rightarrow> (length nodes, nodes @ [node]))"

fun find_node_from_component ::
    "(TreeId \<Rightarrow> Tree rustic_result) \<Rightarrow> TreeId \<Rightarrow> OsStr list \<Rightarrow> nat \<Rightarrow> FindState \<Rightarrow> (nat option \<times> FindState) rustic_result" where
  "find_node_from_component load tree_id [] idx st = Inl (Panic ''index out of bounds'')"
| "find_node_from_component load tree_id (p # path_comp) idx st =
    (case (fi_cache st ! idx) tree_id of
       Some result \<Rightarrow> Inr (result, st)
     | None \<Rightarrow>
         bindR (load tree_id) (\<lambda>tree.
         bindR
           (case List.find (\<lambda>n. node_name n = p) (t_nodes tree) of
              Some node \<Rightarrow>
                if path_comp = [] then
                  let (k, nodes) = node_entry node (fi_nodes st) in Inr (Some k, st\<lparr>fi_nodes := nodes\<rparr>)
                else
                  bindR (ok_or (RusticError EInternal ''Subtree ID not found for node `{node}`'') (n_subtree node)) (\<lambda>i.
                  find_node_from_component load i path_comp (idx + 1) st)
            | None \<Rightarrow> Inr (None, st))
           (\<lambda>(result, st). Inr (result, st\<lparr>fi_cache := (fi_cache st)[idx := (fi_cache st ! idx)(tree_id \<mapsto> result)]\<rparr>))))"

record FindNode =
  fn_nodes :: "Node list"
  fn_matches :: "nat option list"

fun find_in_trees ::
    "(TreeId \<Rightarrow> Tree rustic_result) \<Rightarrow> OsStr list \<Rightarrow> TreeId list \<Rightarrow> FindState \<Rightarrow> (nat option list \<times> FindState) rustic_result" where
  "find_in_trees load path_comp [] st = Inr ([], st)"
| "find_in_trees load path_comp (i # ids) st =
    bindR (find_node_from_component load i path_comp 0 st) (\<lambda>(m, st).
    bindR (find_in_trees load path_comp ids st) (\<lambda>(ms, st). Inr (m # ms, st)))"

definition find_nodes_from_path ::
    "(TreeId \<Rightarrow> Tree rustic_result) \<Rightarrow> TreeId list \<Rightarrow> Path \<Rightarrow> FindNode rustic_result" where
  "find_nodes_from_path load ids path =
     bindR (traverseR path_component path) (\<lambda>comps.
     let path_comp = List.map_filter (\<lambda>c. c) comps in
     bindR (find_in_trees load path_comp ids \<lparr>fi_cache = replicate (length path_comp) Map.empty, fi_nodes = []\<rparr>) (\<lambda>(ms, st).
     Inr \<lparr>fn_nodes = fi_nodes st, fn_matches = ms\<rparr>))"

section \<open>The search finds what the path leads to\<close>

text \<open>The specification without the shared results.\<close>

fun lookup_path :: "(TreeId \<Rightarrow> Tree rustic_result) \<Rightarrow> TreeId \<Rightarrow> OsStr list \<Rightarrow> Node option rustic_result" where
  "lookup_path load i [] = Inl (Panic ''index out of bounds'')"
| "lookup_path load i (p # ps) =
    bindR (load i) (\<lambda>tree. case List.find (\<lambda>n. node_name n = p) (t_nodes tree) of
      None \<Rightarrow> Inr None
    | Some node \<Rightarrow> if ps = [] then Inr (Some node)
        else bindR (ok_or (RusticError EInternal ''Subtree ID not found for node `{node}`'') (n_subtree node)) (\<lambda>j. lookup_path load j ps))"

text \<open>What the shared results must satisfy: each records the answer for the rest of the path. Nodes are only
  added, so numbers stay valid.\<close>

definition answer :: "Node list \<Rightarrow> nat option \<Rightarrow> Node option \<Rightarrow> bool" where
  "answer nodes m r \<longleftrightarrow> (case (m, r) of (None, None) \<Rightarrow> True | (Some k, Some n) \<Rightarrow> k < length nodes \<and> nodes ! k = n | _ \<Rightarrow> False)"

definition cache_ok :: "(TreeId \<Rightarrow> Tree rustic_result) \<Rightarrow> OsStr list \<Rightarrow> FindState \<Rightarrow> bool" where
  "cache_ok load path st \<longleftrightarrow> length (fi_cache st) = length path \<and> distinct (fi_nodes st) \<and>
     (\<forall>idx < length path. \<forall>i m. (fi_cache st ! idx) i = Some m \<longrightarrow>
        (\<exists>r. lookup_path load i (drop idx path) = Inr r \<and> answer (fi_nodes st) m r))"

definition extends :: "Node list \<Rightarrow> Node list \<Rightarrow> bool" where
  "extends xs ys \<longleftrightarrow> (\<exists>zs. ys = xs @ zs)"

lemma extends_refl [simp]: "extends xs xs"
  by (simp add: extends_def)

lemma extends_trans: "extends xs ys \<Longrightarrow> extends ys zs \<Longrightarrow> extends xs zs"
  by (auto simp: extends_def)

lemma answer_extends: "answer xs m r \<Longrightarrow> extends xs ys \<Longrightarrow> answer ys m r"
  by (auto simp: answer_def extends_def nth_append split: option.splits)

lemma find_Some_nth: "List.find P xs = Some x \<Longrightarrow> x \<in> set xs \<and> P x"
  by (induction xs) (auto split: if_splits)

lemma node_entry_spec:
  assumes "node_entry node nodes = (k, nodes')" "distinct nodes"
  shows "k < length nodes' \<and> nodes' ! k = node \<and> extends nodes nodes' \<and> distinct nodes'"
proof (cases "List.find (\<lambda>k. nodes ! k = node) [0..<length nodes]")
  case None
  then have "node \<notin> set nodes" by (auto simp: find_None_iff in_set_conv_nth)
  then show ?thesis using assms None by (auto simp: node_entry_def extends_def)
next
  case (Some j)
  then show ?thesis using assms find_Some_nth [OF Some] by (auto simp: node_entry_def)
qed

lemma cache_ok_store:
  assumes "cache_ok load path st" "idx < length path" "lookup_path load i (drop idx path) = Inr r" "answer (fi_nodes st) m r"
  shows "cache_ok load path (st\<lparr>fi_cache := (fi_cache st)[idx := (fi_cache st ! idx)(i \<mapsto> m)]\<rparr>)"
  using assms unfolding cache_ok_def by (auto simp: nth_list_update)

lemma cache_ok_nodes:
  assumes "cache_ok load path st" "extends (fi_nodes st) nodes" "distinct nodes"
  shows "cache_ok load path (st\<lparr>fi_nodes := nodes\<rparr>)"
  using assms answer_extends unfolding cache_ok_def by simp blast

lemma find_node_from_component_spec:
  assumes "cache_ok load path st" "ps = drop idx path" "ps \<noteq> []"
  shows "case lookup_path load i ps of
      Inl e \<Rightarrow> find_node_from_component load i ps idx st = Inl e
    | Inr r \<Rightarrow> \<exists>m st'. find_node_from_component load i ps idx st = Inr (m, st') \<and> cache_ok load path st' \<and>
        extends (fi_nodes st) (fi_nodes st') \<and> answer (fi_nodes st') m r"
  using assms
proof (induction load i ps idx st rule: find_node_from_component.induct)
  case (2 load i p ps idx st)
  have idx: "idx < length path" "ps = drop (Suc idx) path" using "2.prems"(2)
    by (metis drop_all list.distinct(1) not_le, metis drop_Suc list.sel(3) tl_drop)
  show ?case
  proof (cases "(fi_cache st ! idx) i")
    case (Some m)
    then obtain r where "lookup_path load i (drop idx path) = Inr r" "answer (fi_nodes st) m r"
      using "2.prems"(1) idx(1) unfolding cache_ok_def by blast
    then show ?thesis using Some "2.prems"(1) by (simp add: "2.prems"(2) [symmetric])
  next
    case None
    show ?thesis
    proof (cases "load i")
      case (Inl e)
      then show ?thesis using None by simp
    next
      case (Inr tree)
      let ?store = "\<lambda>m st. st\<lparr>fi_cache := (fi_cache st)[idx := (fi_cache st ! idx)(i \<mapsto> m)]\<rparr>"
      have store: "cache_ok load path (?store m st')"
        if "cache_ok load path st'" "lookup_path load i (p # ps) = Inr r" "answer (fi_nodes st') m r" for m st' r
        using cache_ok_store [OF that(1) idx(1) _ that(3)] that(2) "2.prems"(2) by simp
      consider (none) "List.find (\<lambda>n. node_name n = p) (t_nodes tree) = None"
        | (last) node where "List.find (\<lambda>n. node_name n = p) (t_nodes tree) = Some node" "ps = []"
        | (no_dir) node where "List.find (\<lambda>n. node_name n = p) (t_nodes tree) = Some node" "ps \<noteq> []" "n_subtree node = None"
        | (deeper) node j where "List.find (\<lambda>n. node_name n = p) (t_nodes tree) = Some node" "ps \<noteq> []" "n_subtree node = Some j"
        by (metis option.exhaust)
      then show ?thesis
      proof cases
        case none
        then have l: "lookup_path load i (p # ps) = Inr None" using Inr by simp
        show ?thesis using None Inr none l "2.prems"(1) store [OF "2.prems"(1) l, of None] by (simp add: answer_def)
      next
        case last
        then have l: "lookup_path load i (p # ps) = Inr (Some node)" using Inr by simp
        obtain k nodes where e: "node_entry node (fi_nodes st) = (k, nodes)" by (cases "node_entry node (fi_nodes st)")
        have "distinct (fi_nodes st)" using "2.prems"(1) by (simp add: cache_ok_def)
        note ne = node_entry_spec [OF e this]
        have "cache_ok load path (st\<lparr>fi_nodes := nodes\<rparr>)" using cache_ok_nodes [OF "2.prems"(1)] ne by blast
        from store [OF this l, of "Some k"] show ?thesis using None Inr last l e ne by (simp add: answer_def)
      next
        case no_dir
        then show ?thesis using None Inr by simp
      next
        case deeper
        have IH: "case lookup_path load j ps of
            Inl e \<Rightarrow> find_node_from_component load j ps (idx + 1) st = Inl e
          | Inr r \<Rightarrow> \<exists>m st'. find_node_from_component load j ps (idx + 1) st = Inr (m, st') \<and> cache_ok load path st' \<and>
              extends (fi_nodes st) (fi_nodes st') \<and> answer (fi_nodes st') m r"
          by (rule "2.IH" [OF None deeper(1,2)]) (use deeper "2.prems"(1) idx in simp_all)
        have l: "lookup_path load i (p # ps) = lookup_path load j ps" using Inr deeper by simp
        show ?thesis
        proof (cases "lookup_path load j ps")
          case (Inl e)
          then show ?thesis using IH None Inr deeper \<open>load i = Inr tree\<close> l by simp
        next
          case (Inr r)
          then obtain m st' where f: "find_node_from_component load j ps (idx + 1) st = Inr (m, st')" "cache_ok load path st'"
              "extends (fi_nodes st) (fi_nodes st')" "answer (fi_nodes st') m r" using IH by auto
          show ?thesis
            using f None deeper \<open>load i = Inr tree\<close> l Inr store [OF f(2) _ f(4)] by simp
        qed
      qed
    qed
  qed
qed simp

lemma find_in_trees_spec:
  assumes "cache_ok load path st" "path \<noteq> []"
  shows "case traverseR (\<lambda>i. lookup_path load i path) ids of
      Inl e \<Rightarrow> find_in_trees load path ids st = Inl e
    | Inr rs \<Rightarrow> \<exists>ms st'. find_in_trees load path ids st = Inr (ms, st') \<and> distinct (fi_nodes st') \<and>
        extends (fi_nodes st) (fi_nodes st') \<and> list_all2 (answer (fi_nodes st')) ms rs"
  using assms(1)
proof (induction ids arbitrary: st)
  case Nil
  then show ?case by (simp add: cache_ok_def)
next
  case (Cons i ids)
  note f = find_node_from_component_spec [OF Cons.prems, of path 0 i]
  show ?case
  proof (cases "lookup_path load i path")
    case (Inl e)
    then show ?thesis using f assms(2) by simp
  next
    case (Inr r)
    then obtain m st' where m: "find_node_from_component load i path 0 st = Inr (m, st')" "cache_ok load path st'"
        "extends (fi_nodes st) (fi_nodes st')" "answer (fi_nodes st') m r" using f assms(2) by auto
    note ih = Cons.IH [OF m(2)]
    show ?thesis
    proof (cases "traverseR (\<lambda>i. lookup_path load i path) ids")
      case (Inl e)
      then show ?thesis using ih m Inr by simp
    next
      case (Inr rs)
      then obtain ms st'' where ms: "find_in_trees load path ids st' = Inr (ms, st'')" "distinct (fi_nodes st'')"
          "extends (fi_nodes st') (fi_nodes st'')" "list_all2 (answer (fi_nodes st'')) ms rs" using ih by auto
      then show ?thesis
        using m Inr \<open>lookup_path load i path = Inr r\<close> answer_extends [OF m(4) ms(3)] extends_trans [OF m(3) ms(3)] by simp
    qed
  qed
qed

text \<open>C20. The search for a path in many trees, which shares results between trees and numbers the different
  nodes it finds, answers for every tree what walking down the path in this tree alone gives, with the same
  error if one of the walks fails; the nodes are listed once each.\<close>

theorem find_nodes_from_path_correct:
  assumes "traverseR path_component path = Inr comps" "List.map_filter (\<lambda>c. c) comps \<noteq> []"
  shows "case traverseR (\<lambda>i. lookup_path load i (List.map_filter (\<lambda>c. c) comps)) ids of
      Inl e \<Rightarrow> find_nodes_from_path load ids path = Inl e
    | Inr rs \<Rightarrow> \<exists>f. find_nodes_from_path load ids path = Inr f \<and> distinct (fn_nodes f) \<and>
        list_all2 (answer (fn_nodes f)) (fn_matches f) rs"
proof -
  let ?p = "List.map_filter (\<lambda>c. c) comps"
  have "cache_ok load ?p \<lparr>fi_cache = replicate (length ?p) Map.empty, fi_nodes = []\<rparr>" by (simp add: cache_ok_def)
  from find_in_trees_spec [OF this assms(2), of ids] show ?thesis
    unfolding find_nodes_from_path_def by (auto simp: assms(1) Let_def split: sum.splits)
qed

definition demo_tree :: "TreeId \<Rightarrow> Tree rustic_result" where
  "demo_tree i =
     (let dir = (\<lambda>s j. \<lparr>n_name = [s], n_type = Dir, n_meta = Metadata_default, n_content = None, n_subtree = Some j\<rparr>);
          file = (\<lambda>s bs. \<lparr>n_name = [s], n_type = File, n_meta = Metadata_default, n_content = Some bs, n_subtree = None\<rparr>)
      in if i = [1] then Inr \<lparr>t_nodes = [file 97 [[10], [11]], dir 98 [2]]\<rparr>
         else if i = [2] then Inr \<lparr>t_nodes = [file 99 [[10]]]\<rparr>
         else if i = [3] then Inr \<lparr>t_nodes = [dir 98 [2]]\<rparr>
         else Inl (RusticError EInternal ''Tree ID `{tree_id}` not found in index''))"

lemmas demo_tree_eval = demo_tree_def node_name_def unescape_filename_def encode_utf8_def path_component_def comp_to_osstr_def
  Let_def

theorem find_nodes_from_path_correct_witness:
  "\<exists>f. find_nodes_from_path demo_tree [[1], [3], [2]] [RootDir, Normal [98], Normal [99]] = Inr f \<and>
     length (fn_nodes f) = 1 \<and> fn_matches f = [Some 0, Some 0, None]"
proof -
  let ?n = "\<lparr>n_name = [99], n_type = File, n_meta = Metadata_default, n_content = Some [[10]], n_subtree = None\<rparr>"
  have c: "traverseR path_component [RootDir, Normal [98], Normal [99]] = Inr [None, Some [98], Some [99]]"
    by (simp add: path_component_def comp_to_osstr_def)
  have p: "List.map_filter (\<lambda>c. c) [None, Some [98], Some [99]] = [[98], [99 :: u8]]" by (simp add: map_filter_def)
  have r: "traverseR (\<lambda>i. lookup_path demo_tree i [[98], [99]]) [[1], [3], [2]] = Inr [Some ?n, Some ?n, None]"
    by (simp add: demo_tree_eval)
  obtain f where f: "find_nodes_from_path demo_tree [[1], [3], [2]] [RootDir, Normal [98], Normal [99]] = Inr f"
      "distinct (fn_nodes f)" "list_all2 (answer (fn_nodes f)) (fn_matches f) [Some ?n, Some ?n, None]"
    using find_nodes_from_path_correct [OF c, unfolded p, of demo_tree "[[1], [3], [2]]", unfolded r sum.case] by blast
  have "find_nodes_from_path demo_tree [[1], [3], [2]] [RootDir, Normal [98], Normal [99]] =
      Inr \<lparr>fn_nodes = [?n], fn_matches = [Some 0, Some 0, None]\<rparr>"
    by (simp add: find_nodes_from_path_def c p demo_tree_eval node_entry_def map_filter_def)
  with f(1) show ?thesis by auto
qed

end
