(* ===== verification/TreeStream.thy ===== *)
theory TreeStream
  imports Tree
begin

text \<open>
  Streaming trees (crates/core/src/blob/tree.rs) and the search for used blobs that prune makes with it
  (crates/core/src/commands/prune.rs): \<open>TreeStreamerOnce\<close> visits every tree once. Four threads load the
  requested trees, so they arrive in any order: a step takes some request. It is shown that every order ends
  after finitely many steps, without waiting for a tree that was never requested, with exactly the trees that
  are reachable from the roots.
\<close>

section \<open>The streamer\<close>

record TreeStreamerOnce =
  ts_visited :: "TreeId set"
  ts_pending :: "(Path \<times> TreeId \<times> nat) list"
  ts_counter :: "nat list"
  ts_finished_ids :: nat

definition add_pending :: "Path \<Rightarrow> TreeId \<Rightarrow> nat \<Rightarrow> TreeStreamerOnce \<Rightarrow> bool \<times> TreeStreamerOnce" where
  "add_pending path i num s =
     (if i \<in> ts_visited s then (False, s)
      else (True, s\<lparr>ts_visited := insert i (ts_visited s), ts_pending := ts_pending s @ [(path, i, num)],
                    ts_counter := (ts_counter s)[num := ts_counter s ! num + 1]\<rparr>))"

definition add_root :: "nat \<times> TreeId \<Rightarrow> TreeStreamerOnce \<Rightarrow> TreeStreamerOnce" where
  "add_root r s = (case r of (num, i) \<Rightarrow>
     (let (added, s) = add_pending [] i num s in
      if added then s else s\<lparr>ts_finished_ids := ts_finished_ids s + 1\<rparr>))"

definition streamer_new :: "TreeId list \<Rightarrow> TreeStreamerOnce" where
  "streamer_new ids = fold add_root (zip [0..<length ids] ids)
     \<lparr>ts_visited = {}, ts_pending = [], ts_counter = replicate (length ids) 0, ts_finished_ids = 0\<rparr>"

definition add_subtree :: "Path \<Rightarrow> nat \<Rightarrow> Node \<Rightarrow> TreeStreamerOnce \<Rightarrow> TreeStreamerOnce" where
  "add_subtree path num node s = (case n_subtree node of
     None \<Rightarrow> s | Some i \<Rightarrow> snd (add_pending (path_join path (node_name node)) i num s))"

definition finish_tree :: "nat \<Rightarrow> TreeStreamerOnce \<Rightarrow> TreeStreamerOnce" where
  "finish_tree num s =
     (let s = s\<lparr>ts_counter := (ts_counter s)[num := ts_counter s ! num - 1]\<rparr> in
      if ts_counter s ! num = 0 then s\<lparr>ts_finished_ids := ts_finished_ids s + 1\<rparr> else s)"

definition streamer_done :: "TreeStreamerOnce \<Rightarrow> bool" where
  "streamer_done s \<longleftrightarrow> length (ts_counter s) = ts_finished_ids s"

text \<open>A call of \<^verbatim>\<open>next\<close> that returns a tree (its id is written down as well).\<close>

inductive streamer_step ::
    "(TreeId \<Rightarrow> Tree rustic_result) \<Rightarrow> TreeStreamerOnce \<Rightarrow> TreeId \<times> Path \<times> Tree \<Rightarrow> TreeStreamerOnce \<Rightarrow> bool" for load where
  "\<lbrakk>\<not> streamer_done s; (path, i, num) \<in> set (ts_pending s); load i = Inr tree\<rbrakk>
   \<Longrightarrow> streamer_step load s (i, path, tree)
     (finish_tree num (fold (add_subtree path num) (t_nodes tree) (s\<lparr>ts_pending := remove1 (path, i, num) (ts_pending s)\<rparr>)))"

inductive streamer_run ::
    "(TreeId \<Rightarrow> Tree rustic_result) \<Rightarrow> TreeStreamerOnce \<Rightarrow> (TreeId \<times> Path \<times> Tree) list \<Rightarrow> TreeStreamerOnce \<Rightarrow> bool" for load where
  run_start: "streamer_run load s [] s"
| run_step: "\<lbrakk>streamer_run load s items s'; streamer_step load s' item s''\<rbrakk> \<Longrightarrow> streamer_run load s (items @ [item]) s''"

section \<open>Used blobs\<close>

definition node_used :: "Node \<Rightarrow> BlobId set \<Rightarrow> BlobId set rustic_result" where
  "node_used node ids = (case n_type node of
     File \<Rightarrow> Inr (ids \<union> (case n_content node of None \<Rightarrow> {} | Some bs \<Rightarrow> set bs))
   | Dir \<Rightarrow> (case n_subtree node of
       None \<Rightarrow> Inl (Panic ''called Option::unwrap() on a None value'') | Some i \<Rightarrow> Inr (insert i ids))
   | _ \<Rightarrow> Inr ids)"

definition used_in_trees :: "TreeId list \<Rightarrow> (TreeId \<times> Path \<times> Tree) list \<Rightarrow> BlobId set rustic_result" where
  "used_in_trees snap_trees items =
     foldR (\<lambda>(_, _, tree) ids. foldR node_used (t_nodes tree) ids) items (set snap_trees)"

text \<open>The whole search: listing and reading the snapshots that are not ignored, then a complete run of the
  streamer. The result is the ordered map from used blobs to 0.\<close>

inductive find_used_blobs ::
    "SnapshotId list rustic_result \<Rightarrow> (SnapshotId \<Rightarrow> SnapshotFile rustic_result) \<Rightarrow> (TreeId \<Rightarrow> Tree rustic_result)
     \<Rightarrow> SnapshotId list \<Rightarrow> (BlobId \<times> u8) list \<Rightarrow> bool" for list_ids get load ignore_snaps where
  "\<lbrakk>list_ids = Inr ids; traverseR get (filter (\<lambda>i. i \<notin> set ignore_snaps) ids) = Inr snaps;
    streamer_run load (streamer_new (map sn_tree snaps)) items s; streamer_done s;
    used_in_trees (map sn_tree snaps) items = Inr used\<rbrakk>
   \<Longrightarrow> find_used_blobs list_ids get load ignore_snaps (map (\<lambda>i. (i, 0)) (sorted_list_of_set used))"

section \<open>What is reachable\<close>

inductive_set reach :: "(TreeId \<Rightarrow> Tree rustic_result) \<Rightarrow> TreeId set \<Rightarrow> TreeId set" for load roots where
  reach_root: "i \<in> roots \<Longrightarrow> i \<in> reach load roots"
| reach_sub: "\<lbrakk>i \<in> reach load roots; load i = Inr t; j \<in> subtrees t\<rbrakk> \<Longrightarrow> j \<in> reach load roots"

text \<open>The blobs a set of snapshot trees needs: the trees, what files consist of, and the trees of directories.\<close>

definition node_needs :: "Node \<Rightarrow> BlobId set" where
  "node_needs n = (case n_type n of
     File \<Rightarrow> (case n_content n of None \<Rightarrow> {} | Some bs \<Rightarrow> set bs)
   | Dir \<Rightarrow> set_option (n_subtree n)
   | _ \<Rightarrow> {})"

definition tree_needs :: "Tree \<Rightarrow> BlobId set" where
  "tree_needs t = \<Union> (node_needs ` set (t_nodes t))"

definition needed :: "(TreeId \<Rightarrow> Tree rustic_result) \<Rightarrow> TreeId set \<Rightarrow> BlobId set" where
  "needed load roots = roots \<union> {b. \<exists>i \<in> reach load roots. \<exists>t. load i = Inr t \<and> b \<in> tree_needs t}"

lemma reach_mono: "i \<in> reach load A \<Longrightarrow> A \<subseteq> B \<Longrightarrow> i \<in> reach load B"
  by (induction rule: reach.induct) (auto intro: reach.intros)

lemma needed_mono: "A \<subseteq> B \<Longrightarrow> needed load A \<subseteq> needed load B"
  unfolding needed_def using reach_mono [of _ load A B] by blast

section \<open>The invariant\<close>

definition pend_ids :: "TreeStreamerOnce \<Rightarrow> TreeId list" where
  "pend_ids s = map (\<lambda>(_, i, _). i) (ts_pending s)"

definition pend_count :: "TreeStreamerOnce \<Rightarrow> nat \<Rightarrow> nat" where
  "pend_count s k = length (filter (\<lambda>(_, _, c). c = k) (ts_pending s))"

text \<open>What \<open>add_pending\<close> keeps: \<open>don\<close> are the trees that were returned, \<open>ext\<close> is the request being worked on,
  of the first \<open>m\<close> counters those that are zero were counted as finished.\<close>

definition core_inv :: "TreeId set \<Rightarrow> nat \<Rightarrow> nat \<Rightarrow> nat option \<Rightarrow> TreeStreamerOnce \<Rightarrow> bool" where
  "core_inv don n m ext s \<longleftrightarrow>
     ts_visited s = don \<union> set (pend_ids s) \<and> don \<inter> set (pend_ids s) = {} \<and> distinct (pend_ids s) \<and>
     length (ts_counter s) = n \<and> (\<forall>(_, _, c) \<in> set (ts_pending s). c < m) \<and>
     (\<forall>k < n. ts_counter s ! k = pend_count s k + (if ext = Some k then 1 else 0)) \<and>
     ts_finished_ids s = card {k. k < m \<and> ts_counter s ! k = 0}"

lemma pend_add [simp]:
  "pend_ids (s\<lparr>ts_visited := v, ts_pending := ts_pending s @ [(p, i, c)], ts_counter := cs\<rparr>) = pend_ids s @ [i]"
  "pend_count (s\<lparr>ts_visited := v, ts_pending := ts_pending s @ [(p, i, c)], ts_counter := cs\<rparr>) k =
     pend_count s k + (if c = k then 1 else 0)"
  by (simp_all add: pend_ids_def pend_count_def)

lemma core_inv_add:
  assumes "core_inv don n m (Some c) s" "c < m" "m \<le> n"
  shows "core_inv don n m (Some c) (snd (add_pending path i c s)) \<and>
    ts_visited (snd (add_pending path i c s)) = insert i (ts_visited s)"
proof (cases "i \<in> ts_visited s")
  case True
  then show ?thesis using assms by (simp add: add_pending_def insert_absorb)
next
  case False
  have inv: "ts_visited s = don \<union> set (pend_ids s)" "don \<inter> set (pend_ids s) = {}" "distinct (pend_ids s)"
      "length (ts_counter s) = n" "\<forall>(_, _, c) \<in> set (ts_pending s). c < m"
      "\<And>k. k < n \<Longrightarrow> ts_counter s ! k = pend_count s k + (if Some c = Some k then 1 else 0)"
      "ts_finished_ids s = card {k. k < m \<and> ts_counter s ! k = 0}"
    using assms(1) by (simp_all add: core_inv_def)
  have "ts_counter s ! c \<noteq> 0" using inv(6) [of c] assms(2,3) by simp
  then have "{k. k < m \<and> (ts_counter s)[c := ts_counter s ! c + 1] ! k = 0} = {k. k < m \<and> ts_counter s ! k = 0}"
    using inv(4) assms(2,3) by (auto simp: nth_list_update)
  then show ?thesis using False inv assms(2,3)
    by (auto simp: add_pending_def core_inv_def nth_list_update)
qed

lemma core_inv_add_nodes:
  assumes "core_inv don n m (Some c) s" "c < m" "m \<le> n"
  shows "core_inv don n m (Some c) (fold (add_subtree path c) nodes s) \<and>
    ts_visited (fold (add_subtree path c) nodes s) = ts_visited s \<union> {i. \<exists>x \<in> set nodes. n_subtree x = Some i}"
  using assms(1)
proof (induction nodes arbitrary: s)
  case (Cons x nodes)
  have "core_inv don n m (Some c) (add_subtree path c x s) \<and>
      ts_visited (add_subtree path c x s) = ts_visited s \<union> {i. n_subtree x = Some i}"
    using Cons.prems core_inv_add [OF Cons.prems assms(2,3)] by (cases "n_subtree x") (auto simp: add_subtree_def)
  with Cons.IH [of "add_subtree path c x s"] show ?case by auto
qed simp

lemma core_inv_finish:
  assumes "core_inv don n n (Some c) s" "c < n"
  shows "core_inv don n n None (finish_tree c s) \<and> ts_visited (finish_tree c s) = ts_visited s"
proof -
  have inv: "length (ts_counter s) = n" "\<And>k. k < n \<Longrightarrow> ts_counter s ! k = pend_count s k + (if Some c = Some k then 1 else 0)"
      "ts_finished_ids s = card {k. k < n \<and> ts_counter s ! k = 0}"
    using assms(1) by (simp_all add: core_inv_def)
  let ?cs = "(ts_counter s)[c := ts_counter s ! c - 1]"
  have c0: "ts_counter s ! c \<noteq> 0" using inv(2) [OF assms(2)] by simp
  have "{k. k < n \<and> ?cs ! k = 0} = {k. k < n \<and> ts_counter s ! k = 0} \<union> (if ?cs ! c = 0 then {c} else {})"
    using inv(1) assms(2) c0 by (auto simp: nth_list_update split: if_splits)
  then have "card {k. k < n \<and> ?cs ! k = 0} = ts_finished_ids s + (if ?cs ! c = 0 then 1 else 0)"
    using c0 inv(3) by (simp add: card_Un_disjoint)
  moreover have "?cs ! k = pend_count s k" if "k < n" for k
    using inv(1) inv(2) [OF that] assms(2) by (auto simp: nth_list_update)
  moreover have "pend_ids (s\<lparr>ts_counter := ?cs\<rparr>) = pend_ids s" "pend_count (s\<lparr>ts_counter := ?cs\<rparr>) = pend_count s"
      "pend_ids (s\<lparr>ts_counter := ?cs, ts_finished_ids := f\<rparr>) = pend_ids s"
      "pend_count (s\<lparr>ts_counter := ?cs, ts_finished_ids := f\<rparr>) = pend_count s" for f
    by (simp_all add: pend_ids_def pend_count_def fun_eq_iff)
  ultimately show ?thesis using assms(1) inv(1)
    by (auto simp: finish_tree_def core_inv_def Let_def)
qed

lemma core_inv_take:
  assumes "core_inv don n n None s" "(path, i, c) \<in> set (ts_pending s)"
  shows "core_inv (insert i don) n n (Some c) (s\<lparr>ts_pending := remove1 (path, i, c) (ts_pending s)\<rparr>) \<and> c < n \<and> i \<notin> don \<and>
    i \<in> ts_visited s"
proof -
  obtain xs ys where split: "ts_pending s = xs @ (path, i, c) # ys" "(path, i, c) \<notin> set xs"
    using split_list_first [OF assms(2)] by blast
  then have r: "remove1 (path, i, c) (ts_pending s) = xs @ ys" by (simp add: remove1_append)
  have ids: "pend_ids s = map (\<lambda>(_, i, _). i) xs @ i # map (\<lambda>(_, i, _). i) ys" by (simp add: pend_ids_def split)
  have cnt: "pend_count s k = pend_count (s\<lparr>ts_pending := xs @ ys\<rparr>) k + (if c = k then 1 else 0)" for k
    by (simp add: pend_count_def split)
  have ids': "pend_ids (s\<lparr>ts_pending := xs @ ys\<rparr>) = map (\<lambda>(_, i, _). i) xs @ map (\<lambda>(_, i, _). i) ys"
    by (simp add: pend_ids_def)
  show ?thesis using assms(1) unfolding core_inv_def r ids ids' cnt
    by (auto simp: split)
qed

lemma core_inv_root:
  assumes "core_inv {} n m None s" "m < n"
  shows "core_inv {} n (Suc m) None (add_root (m, i) s) \<and> ts_visited (add_root (m, i) s) = insert i (ts_visited s)"
proof -
  have inv: "ts_visited s = set (pend_ids s)" "distinct (pend_ids s)" "length (ts_counter s) = n"
      "\<forall>(_, _, c) \<in> set (ts_pending s). c < m" "\<And>k. k < n \<Longrightarrow> ts_counter s ! k = pend_count s k"
      "ts_finished_ids s = card {k. k < m \<and> ts_counter s ! k = 0}"
    using assms(1) by (simp_all add: core_inv_def)
  have z: "ts_counter s ! m = 0"
    using inv(4,5) assms(2) by (auto simp: pend_count_def filter_empty_conv)
  have lt: "\<forall>(_, _, c) \<in> set (ts_pending s). c < Suc m" using inv(4) by auto
  show ?thesis
  proof (cases "i \<in> ts_visited s")
    case True
    have "{k. k < Suc m \<and> ts_counter s ! k = 0} = insert m {k. k < m \<and> ts_counter s ! k = 0}"
      using z by (auto simp: less_Suc_eq)
    then have "card {k. k < Suc m \<and> ts_counter s ! k = 0} = ts_finished_ids s + 1" using inv(6) by simp
    moreover have "pend_ids (s\<lparr>ts_finished_ids := f\<rparr>) = pend_ids s" "pend_count (s\<lparr>ts_finished_ids := f\<rparr>) = pend_count s" for f
      by (simp_all add: pend_ids_def pend_count_def fun_eq_iff)
    ultimately show ?thesis using True inv(1-5) lt
      by (auto simp: add_root_def add_pending_def core_inv_def insert_absorb)
  next
    case False
    have "{k. k < Suc m \<and> (ts_counter s)[m := ts_counter s ! m + 1] ! k = 0} = {k. k < m \<and> ts_counter s ! k = 0}"
      using assms(2) inv(3) by (auto simp: nth_list_update less_Suc_eq)
    then show ?thesis using False inv lt assms(2) z
      by (auto simp: add_root_def add_pending_def core_inv_def nth_list_update)
  qed
qed

lemma streamer_new_inv:
  "core_inv {} (length ids) (length ids) None (streamer_new ids) \<and> ts_visited (streamer_new ids) = set ids"
proof -
  let ?s0 = "\<lparr>ts_visited = {}, ts_pending = [], ts_counter = replicate (length ids) 0, ts_finished_ids = 0\<rparr>"
  have "core_inv {} (length ids) m None (fold add_root (zip [0..<m] (take m ids)) ?s0) \<and>
      ts_visited (fold add_root (zip [0..<m] (take m ids)) ?s0) = set (take m ids)" if "m \<le> length ids" for m
    using that
  proof (induction m)
    case 0
    then show ?case by (simp add: core_inv_def pend_ids_def pend_count_def)
  next
    case (Suc m)
    have "zip [0..<Suc m] (take (Suc m) ids) = zip [0..<m] (take m ids) @ [(m, ids ! m)]"
      using Suc.prems by (simp add: take_Suc_conv_app_nth)
    moreover have "set (take (Suc m) ids) = insert (ids ! m) (set (take m ids))"
      using Suc.prems by (simp add: take_Suc_conv_app_nth)
    ultimately show ?case using Suc core_inv_root [of "length ids" m] by simp
  qed
  from this [of "length ids"] show ?thesis by (simp add: streamer_new_def)
qed

definition stream_inv ::
    "(TreeId \<Rightarrow> Tree rustic_result) \<Rightarrow> TreeId list \<Rightarrow> (TreeId \<times> Path \<times> Tree) list \<Rightarrow> TreeStreamerOnce \<Rightarrow> bool" where
  "stream_inv load ids items s \<longleftrightarrow>
     core_inv (fst ` set items) (length ids) (length ids) None s \<and> distinct (map fst items) \<and>
     set ids \<subseteq> ts_visited s \<and> ts_visited s \<subseteq> reach load (set ids) \<and>
     (\<forall>(i, _, t) \<in> set items. load i = Inr t \<and> subtrees t \<subseteq> ts_visited s)"

lemma stream_inv_step:
  assumes inv: "stream_inv load ids items s" and step: "streamer_step load s item s'"
  shows "stream_inv load ids (items @ [item]) s'"
  using step
proof cases
  case (1 path i c tree)
  let ?s1 = "s\<lparr>ts_pending := remove1 (path, i, c) (ts_pending s)\<rparr>"
  let ?s2 = "fold (add_subtree path c) (t_nodes tree) ?s1"
  have core: "core_inv (fst ` set items) (length ids) (length ids) None s" using inv by (simp add: stream_inv_def)
  note tk = core_inv_take [OF core 1(4)]
  then have c1: "core_inv (insert i (fst ` set items)) (length ids) (length ids) (Some c) ?s1" and "c < length ids" by blast+
  note nodes = core_inv_add_nodes [OF this le_refl, of path "t_nodes tree"]
  then have c2: "core_inv (insert i (fst ` set items)) (length ids) (length ids) (Some c) ?s2" by blast
  note fin = core_inv_finish [OF c2 \<open>c < length ids\<close>]
  have v: "ts_visited s' = ts_visited s \<union> subtrees tree"
    using fin nodes 1(2) by (simp add: subtrees_def)
  have ir: "i \<in> reach load (set ids)" using tk inv by (auto simp: stream_inv_def)
  then have "subtrees tree \<subseteq> reach load (set ids)" using 1(5) by (blast intro: reach_sub)
  moreover have "i \<notin> fst ` set items" using tk by blast
  moreover have "core_inv (insert i (fst ` set items)) (length ids) (length ids) None s'" using fin 1(2) by simp
  moreover have "subtrees t \<subseteq> ts_visited s'" if "(j, p, t) \<in> set items" for j p t
    using inv that v by (fastforce simp: stream_inv_def)
  ultimately show ?thesis using inv 1(1,5) v by (auto simp: stream_inv_def)
qed

lemma stream_inv_run:
  assumes "streamer_run load (streamer_new ids) items s"
  shows "stream_inv load ids items s"
  using assms
proof (induction "streamer_new ids" items s rule: streamer_run.induct)
  case run_start
  show ?case using streamer_new_inv [of ids] by (auto simp: stream_inv_def intro: reach_root)
next
  case (run_step items s' item s'')
  then show ?case using stream_inv_step by blast
qed

lemma stream_inv_done:
  assumes "stream_inv load ids items s" "streamer_done s"
  shows "fst ` set items = reach load (set ids)"
proof -
  have core: "core_inv (fst ` set items) (length ids) (length ids) None s" using assms(1) by (simp add: stream_inv_def)
  then have "card {k. k < length ids \<and> ts_counter s ! k = 0} = card {..<length ids}"
    using assms(2) by (simp add: core_inv_def streamer_done_def)
  then have "{k. k < length ids \<and> ts_counter s ! k = 0} = {..<length ids}"
    by (intro card_subset_eq) auto
  then have "\<forall>k < length ids. ts_counter s ! k = 0" by blast
  then have "\<forall>k < length ids. pend_count s k = 0" using core by (simp add: core_inv_def)
  moreover have "\<forall>(_, _, c) \<in> set (ts_pending s). c < length ids" using core by (simp add: core_inv_def)
  ultimately have "ts_pending s = []" by (cases "ts_pending s") (auto simp: pend_count_def)
  then have v: "ts_visited s = fst ` set items" using core by (simp add: core_inv_def pend_ids_def)
  have "i \<in> fst ` set items" if "i \<in> reach load (set ids)" for i
    using that
  proof induction
    case (reach_root i)
    then show ?case using assms(1) v by (auto simp: stream_inv_def)
  next
    case (reach_sub i t j)
    then obtain p t' where "(i, p, t') \<in> set items" by auto
    then have "load i = Inr t' \<and> subtrees t' \<subseteq> ts_visited s" using assms(1) by (auto simp: stream_inv_def)
    then show ?case using reach_sub.hyps(2,3) v by auto
  qed
  then show ?thesis using assms(1) v by (auto simp: stream_inv_def)
qed

lemma stream_inv_length:
  assumes "stream_inv load ids items s" "finite (reach load (set ids))"
  shows "length items \<le> card (reach load (set ids))"
proof -
  have "fst ` set items \<subseteq> reach load (set ids)" "distinct (map fst items)"
    using assms(1) by (auto simp: stream_inv_def core_inv_def)
  moreover from this(2) have "length items = card (fst ` set items)" by (metis distinct_card length_map set_map)
  ultimately show ?thesis using assms(2) by (simp add: card_mono)
qed

lemma stream_inv_pending:
  assumes "stream_inv load ids items s" "\<not> streamer_done s"
  shows "ts_pending s \<noteq> []"
proof
  assume "ts_pending s = []"
  moreover have core: "core_inv (fst ` set items) (length ids) (length ids) None s" using assms(1) by (simp add: stream_inv_def)
  ultimately have "\<forall>k < length ids. ts_counter s ! k = 0" by (simp add: core_inv_def pend_count_def)
  then have "{k. k < length ids \<and> ts_counter s ! k = 0} = {..<length ids}" by auto
  then show False using core assms(2) by (simp add: core_inv_def streamer_done_def)
qed

section \<open>The search finds what is needed\<close>

lemma node_used_needs: "node_used n ids = Inr ids' \<Longrightarrow> ids' = ids \<union> node_needs n"
  by (auto simp: node_used_def node_needs_def split: NodeType.splits option.splits)

lemma finite_node_needs: "finite (node_needs n)"
  by (simp add: node_needs_def split: NodeType.splits option.splits)

lemma finite_tree_needs: "finite (tree_needs t)"
  by (simp add: tree_needs_def finite_node_needs)

lemma node_used_fold: "foldR node_used nodes ids = Inr ids' \<Longrightarrow> ids' = ids \<union> \<Union> (node_needs ` set nodes)"
  by (induction nodes arbitrary: ids) (auto simp: result_simps dest!: node_used_needs)

lemma used_in_trees_spec:
  assumes "used_in_trees roots items = Inr used"
  shows "used = set roots \<union> \<Union> ((\<lambda>(_, _, t). tree_needs t) ` set items)"
proof -
  have "used = ids \<union> \<Union> ((\<lambda>(_, _, t). tree_needs t) ` set items)"
    if "foldR (\<lambda>(_, _, tree) ids. foldR node_used (t_nodes tree) ids) items ids = Inr used" for ids
    using that
  proof (induction items arbitrary: ids)
    case (Cons it items)
    obtain i p t where it: "it = (i, p, t)" by (cases it)
    obtain ids1 where 1: "foldR node_used (t_nodes t) ids = Inr ids1"
        "foldR (\<lambda>(_, _, tree) ids. foldR node_used (t_nodes tree) ids) items ids1 = Inr used"
      using Cons.prems it by (auto simp: result_simps)
    have "ids1 = ids \<union> tree_needs t" using node_used_fold [OF 1(1)] by (simp add: tree_needs_def)
    with Cons.IH [OF 1(2)] show ?case by (simp add: it Un_assoc)
  qed simp
  from this [OF assms [unfolded used_in_trees_def]] show ?thesis .
qed

lemma find_used_blobs_needed:
  assumes "find_used_blobs list_ids get load ignore_snaps used_ids"
  obtains ids snaps where "list_ids = Inr ids" "traverseR get (filter (\<lambda>i. i \<notin> set ignore_snaps) ids) = Inr snaps"
    "used_ids = map (\<lambda>i. (i, 0)) (sorted_list_of_set (needed load (set (map sn_tree snaps))))"
    "finite (needed load (set (map sn_tree snaps)))"
  using assms
proof cases
  case (1 ids snaps items s used)
  let ?roots = "map sn_tree snaps"
  note inv = stream_inv_run [OF 1(4)]
  have r: "fst ` set items = reach load (set ?roots)" using stream_inv_done [OF inv 1(5)] .
  have ld: "load i = Inr t" if "(i, p, t) \<in> set items" for i p t using inv that by (auto simp: stream_inv_def)
  have it: "\<exists>p. (i, p, t) \<in> set items" if it: "i \<in> reach load (set ?roots)" "load i = Inr t" for i t
  proof -
    have "i \<in> fst ` set items" using it(1) r by simp
    then obtain p t' where "(i, p, t') \<in> set items" by auto
    moreover from ld [OF this] it(2) have "t' = t" by simp
    ultimately show ?thesis by blast
  qed
  have "\<Union> ((\<lambda>(_, _, t). tree_needs t) ` set items) = {b. \<exists>i \<in> reach load (set ?roots). \<exists>t. load i = Inr t \<and> b \<in> tree_needs t}"
  proof (intro set_eqI iffI)
    fix b assume "b \<in> \<Union> ((\<lambda>(_, _, t). tree_needs t) ` set items)"
    then obtain i p t where b: "(i, p, t) \<in> set items" "b \<in> tree_needs t" by auto
    then have "i \<in> fst ` set items" by force
    then show "b \<in> {b. \<exists>i \<in> reach load (set ?roots). \<exists>t. load i = Inr t \<and> b \<in> tree_needs t}" using ld b r by blast
  next
    fix b assume "b \<in> {b. \<exists>i \<in> reach load (set ?roots). \<exists>t. load i = Inr t \<and> b \<in> tree_needs t}"
    then obtain i t where b: "i \<in> reach load (set ?roots)" "load i = Inr t" "b \<in> tree_needs t" by blast
    obtain p where "(i, p, t) \<in> set items" using it [OF b(1,2)] ..
    then show "b \<in> \<Union> ((\<lambda>(_, _, t). tree_needs t) ` set items)" using b(3) by force
  qed
  then have "used = needed load (set ?roots)" unfolding needed_def used_in_trees_spec [OF 1(6)] by simp
  moreover have "finite used" unfolding used_in_trees_spec [OF 1(6)] by (auto simp: finite_tree_needs)
  ultimately show ?thesis using 1(1-3) by (intro that) auto
qed

section \<open>Properties\<close>

text \<open>C14. Whatever the order in which the worker threads deliver, a run of the tree streamer that ends has
  returned every tree that is reachable from the roots, each once and as it was loaded, and no other.\<close>

theorem each_tree_once:
  assumes "streamer_run load (streamer_new ids) items s" "streamer_done s"
  shows "distinct (map fst items) \<and> set (map fst items) = reach load (set ids) \<and>
    list_all (\<lambda>(i, _, t). load i = Inr t) items"
  using stream_inv_run [OF assms(1)] stream_inv_done [OF _ assms(2)]
  by (auto simp: stream_inv_def list_all_iff)

text \<open>An example: two snapshots, whose trees share a directory; the trees of both arrive in some order.\<close>

definition demo_done :: TreeStreamerOnce where
  "demo_done = \<lparr>ts_visited = {[1], [2], [3]}, ts_pending = [], ts_counter = [0, 0], ts_finished_ids = 2\<rparr>"

definition demo_items :: "(TreeId \<times> Path \<times> Tree) list" where
  "demo_items = [([3], [], projr (demo_tree [3])), ([2], [Normal [98]], projr (demo_tree [2])), ([1], [], projr (demo_tree [1]))]"

lemma demo_join: "path_join [] [98] = [Normal [98 :: u8]]"
  by (rule path_join_plain [of _ "[]", simplified]) (simp add: plain_name_def)

lemma demo_stream: "streamer_run demo_tree (streamer_new [[1], [3]]) demo_items demo_done"
proof -
  let ?s0 = "\<lparr>ts_visited = {[1], [3]}, ts_pending = [([], [1], 0), ([], [3], 1)], ts_counter = [1, 1], ts_finished_ids = 0\<rparr>"
  let ?s1 = "\<lparr>ts_visited = {[1], [2], [3]}, ts_pending = [([], [1], 0), ([Normal [98]], [2], 1)], ts_counter = [1, 1], ts_finished_ids = 0\<rparr>"
  let ?s2 = "\<lparr>ts_visited = {[1], [2], [3]}, ts_pending = [([], [1], 0)], ts_counter = [1, 0], ts_finished_ids = 1\<rparr>"
  note ev = demo_tree_eval add_subtree_def add_pending_def finish_tree_def demo_join
  have n: "streamer_new [[1], [3]] = ?s0"
    by (simp add: streamer_new_def add_root_def add_pending_def upt_rec insert_commute)
  have 1: "streamer_step demo_tree ?s0 ([3], [], projr (demo_tree [3])) ?s1"
    using streamer_step.intros [of ?s0 "[]" "[3]" 1 demo_tree "projr (demo_tree [3])"]
    by (simp add: streamer_done_def ev insert_commute)
  have 2: "streamer_step demo_tree ?s1 ([2], [Normal [98]], projr (demo_tree [2])) ?s2"
    using streamer_step.intros [of ?s1 "[Normal [98]]" "[2]" 1 demo_tree "projr (demo_tree [2])"]
    by (simp add: streamer_done_def ev)
  have 3: "streamer_step demo_tree ?s2 ([1], [], projr (demo_tree [1])) demo_done"
    using streamer_step.intros [of ?s2 "[]" "[1]" 0 demo_tree "projr (demo_tree [1])"]
    by (simp add: streamer_done_def ev demo_done_def insert_commute numeral_2_eq_2)
  show ?thesis
    using run_step [OF run_step [OF run_step [OF run_start 1] 2] 3] by (simp add: n demo_items_def)
qed

lemma demo_done_done: "streamer_done demo_done"
  by (simp add: demo_done_def streamer_done_def)

theorem each_tree_once_witness:
  "distinct (map fst demo_items) \<and> reach demo_tree {[1], [3]} = {[1], [2], [3]}"
  using each_tree_once [OF demo_stream demo_done_done] by (auto simp: demo_items_def)

text \<open>C15. The tree streamer ends: if finitely many trees are reachable and all of them load, no run is longer
  than their number, and as long as a run has not ended a requested tree is there to arrive, so it never waits
  for nothing. This holds also for roots that are equal or reachable from each other, and for trees that
  contain themselves.\<close>

theorem streamer_terminates:
  assumes "streamer_run load (streamer_new ids) items s"
    and "finite (reach load (set ids))" "\<forall>i \<in> reach load (set ids). \<exists>t. load i = Inr t"
  shows "length items \<le> card (reach load (set ids)) \<and> (streamer_done s \<or> (\<exists>item s'. streamer_step load s item s'))"
proof -
  note inv = stream_inv_run [OF assms(1)]
  have "\<exists>item s'. streamer_step load s item s'" if "\<not> streamer_done s"
  proof -
    have "ts_pending s \<noteq> []" using stream_inv_pending [OF inv that] .
    then obtain p i c where p: "(p, i, c) \<in> set (ts_pending s)" by (cases "ts_pending s") auto
    then have "i \<in> set (pend_ids s)" by (force simp: pend_ids_def)
    then have "i \<in> reach load (set ids)" using inv by (auto simp: stream_inv_def core_inv_def)
    then obtain t where "load i = Inr t" using assms(3) by blast
    from streamer_step.intros [where load = load, OF that p this] show ?thesis by blast
  qed
  then show ?thesis using stream_inv_length [OF inv assms(2)] by blast
qed

lemma demo_reach: "reach demo_tree {[1], [3]} = {[1], [2], [3]}"
  using stream_inv_done [OF stream_inv_run [OF demo_stream] demo_done_done] by (auto simp: demo_items_def)

theorem streamer_terminates_witness:
  "length demo_items \<le> card {[1], [2], [3 :: u8]} \<and> (streamer_done demo_done \<or> (\<exists>item s'. streamer_step demo_tree demo_done item s'))"
proof -
  have "finite (reach demo_tree (set [[1], [3]]))" "\<forall>i \<in> reach demo_tree (set [[1], [3]]). \<exists>t. demo_tree i = Inr t"
    by (simp_all add: demo_reach demo_tree_def Let_def)
  from streamer_terminates [OF demo_stream this] show ?thesis by (simp add: demo_reach)
qed

text \<open>C16. The used blobs that prune works with are exactly the blobs the snapshots need that are not ignored:
  their trees, the trees of all directories below them, and the content of all files, however the loading
  threads interleave. In particular two searches agree.\<close>

theorem find_used_blobs_correct:
  assumes "find_used_blobs list_ids get load ignore_snaps used_ids"
  shows "\<exists>ids snaps. list_ids = Inr ids \<and> traverseR get (filter (\<lambda>i. i \<notin> set ignore_snaps) ids) = Inr snaps \<and>
    used_ids = map (\<lambda>i. (i, 0)) (sorted_list_of_set (needed load (set (map sn_tree snaps)))) \<and>
    fst ` set used_ids = needed load (set (map sn_tree snaps))"
proof -
  obtain ids snaps where "list_ids = Inr ids" "traverseR get (filter (\<lambda>i. i \<notin> set ignore_snaps) ids) = Inr snaps"
    "used_ids = map (\<lambda>i. (i, 0)) (sorted_list_of_set (needed load (set (map sn_tree snaps))))"
    "finite (needed load (set (map sn_tree snaps)))"
    using find_used_blobs_needed [OF assms] .
  moreover from this(3,4) have "fst ` set used_ids = needed load (set (map sn_tree snaps))"
    by (simp add: image_image)
  ultimately show ?thesis by blast
qed

definition demo_snap :: "TreeId \<Rightarrow> SnapshotFile" where
  "demo_snap i = (SnapshotFile_default [] \<lparr>z_instant = 0, z_zone = []\<rparr>)\<lparr>sn_tree := i\<rparr>"

theorem find_used_blobs_correct_witness:
  "\<exists>used_ids. find_used_blobs (Inr [[7], [8], [9]]) (\<lambda>i. Inr (demo_snap (if i = [7] then [1] else [3]))) demo_tree [[9]] used_ids \<and>
     fst ` set used_ids = {[1], [2], [3], [10], [11]} \<and> needed demo_tree {[1], [3]} = {[1], [2], [3], [10], [11]}"
proof -
  let ?get = "\<lambda>i. Inr (demo_snap (if i = [7] then [1] else [3])) :: SnapshotFile rustic_result"
  let ?S = "{[1], [2], [3], [10], [11]} :: BlobId set"
  let ?u = "map (\<lambda>i. (i, 0)) (sorted_list_of_set ?S) :: (BlobId \<times> u8) list"
  have sn: "map sn_tree [demo_snap [1], demo_snap [3]] = [[1], [3]]" by (simp add: demo_snap_def)
  have run: "streamer_run demo_tree (streamer_new (map sn_tree [demo_snap [1], demo_snap [3]])) demo_items demo_done"
    unfolding sn by (rule demo_stream)
  have used: "used_in_trees (map sn_tree [demo_snap [1], demo_snap [3]]) demo_items = Inr ?S"
    unfolding sn by (simp add: used_in_trees_def demo_items_def demo_tree_def node_used_def Let_def insert_commute)
  have f: "find_used_blobs (Inr [[7], [8], [9]]) ?get demo_tree [[9]] ?u"
    by (rule find_used_blobs.intros [OF refl _ run demo_done_done used]) simp
  have "set ?u = (\<lambda>i. (i, 0)) ` set (sorted_list_of_set ?S)" by (simp only: set_map)
  then have u: "fst ` set ?u = ?S" by (simp only: image_image fst_conv image_ident set_sorted_list_of_set finite.intros)
  obtain ids snaps where d: "(Inr [[7], [8], [9]] :: SnapshotId list rustic_result) = Inr ids" "traverseR ?get (filter (\<lambda>i. i \<notin> set [[9]]) ids) = Inr snaps"
      "fst ` set ?u = needed demo_tree (set (map sn_tree snaps))"
    using find_used_blobs_correct [OF f] by (elim exE conjE) (rule that)
  have ids: "ids = [[7], [8], [9]]" using d(1) by simp
  have sp: "snaps = [demo_snap [1], demo_snap [3]]" using d(2) unfolding ids by simp
  have n: "needed demo_tree {[1], [3]} = ?S" using trans [OF d(3) [symmetric] u] unfolding sp sn list.set .
  show ?thesis by (rule exI [of _ ?u], intro conjI, rule f, rule u, rule n)
qed

end
