(* ===== verification/TreeMerge.thy ===== *)
theory TreeMerge
  imports Tree
begin

text \<open>
  Merging trees (\<open>merge_trees\<close> and \<open>merge_nodes\<close> of crates/core/src/blob/tree.rs). The binary heap of the
  standard library is the list of its elements; which of several smallest ones it pops is left open there, so
  it is chosen by a parameter. Saving a tree is a parameter, too. The recursion goes down the directories, its
  depth is bounded by fuel.

  For trees whose nodes are sorted by the stored names the merged tree is shown to be one again. The names are
  compared as they are stored, that is escaped; trees are sorted by the real names, and the last section shows
  what then goes wrong.
\<close>

section \<open>Merging\<close>

type_synonym merge_heap = "(Node \<times> nat) list"

text \<open>\<^verbatim>\<open>BinaryHeap::pop\<close>.\<close>

definition heap_pop :: "(merge_heap \<Rightarrow> nat) \<Rightarrow> merge_heap \<Rightarrow> ((Node \<times> nat) \<times> merge_heap) option" where
  "heap_pop pick heap =
     (if heap = [] then None
      else let k = min (pick heap) (length heap - 1) in Some (heap ! k, take k heap @ drop (Suc k) heap))"

lemma heap_pop_length: "heap_pop pick heap = Some (x, heap') \<Longrightarrow> length heap = Suc (length heap')"
  by (cases heap) (auto simp: heap_pop_def Let_def min_def split: if_splits)

text \<open>The next node of one of the iterators goes to the heap.\<close>

definition push_next :: "nat \<Rightarrow> Node list list \<Rightarrow> merge_heap \<Rightarrow> Node list list \<times> merge_heap" where
  "push_next num iters heap =
     (if num < length iters then
        (case iters ! num of [] \<Rightarrow> (iters, heap) | n # ns \<Rightarrow> (iters[num := ns], heap @ [(n, num)]))
      else (iters, heap))"

definition merge_left :: "Node list list \<Rightarrow> merge_heap \<Rightarrow> nat" where
  "merge_left iters heap = sum_list (map length iters) + length heap"

lemma sum_list_update_nat: "k < length xs \<Longrightarrow> sum_list (xs[k := y :: nat]) + xs ! k = sum_list xs + y"
  by (induction xs arbitrary: k) (auto split: nat.splits)

lemma push_next_left: "push_next num iters heap = (iters', heap') \<Longrightarrow> merge_left iters' heap' = merge_left iters heap"
  using sum_list_update_nat [of num "map length iters" "length (iters ! num) - 1"]
  by (auto simp: push_next_def merge_left_def map_update split: if_splits list.splits)

text \<open>The loop, with the merging of the nodes of one name as an argument.\<close>

type_synonym merge_fun = "Node list \<Rightarrow> SnapshotSummary \<Rightarrow> (Node \<times> SnapshotSummary) rustic_result"

function merge_loop ::
    "(merge_heap \<Rightarrow> nat) \<Rightarrow> merge_fun \<Rightarrow> Node list list \<Rightarrow> merge_heap \<Rightarrow> Node \<Rightarrow> nat \<Rightarrow> Node list \<Rightarrow> Tree \<Rightarrow> SnapshotSummary
     \<Rightarrow> (Tree \<times> SnapshotSummary) rustic_result" where
  "merge_loop pick merge_nodes iters heap node num nodes tree summary =
     (case push_next num iters heap of (iters, heap) \<Rightarrow>
      case heap_pop pick heap of
        None \<Rightarrow> bindR (merge_nodes (nodes @ [node]) summary) (\<lambda>(n, summary). Inr (Tree_add n tree, summary))
      | Some ((next_node, next_num), heap) \<Rightarrow>
          if n_name node \<noteq> n_name next_node then
            bindR (merge_nodes (nodes @ [node]) summary) (\<lambda>(n, summary).
            merge_loop pick merge_nodes iters heap next_node next_num [] (Tree_add n tree) summary)
          else merge_loop pick merge_nodes iters heap next_node next_num (nodes @ [node]) tree summary)"
  by pat_completeness auto
termination
  by (relation "measure (\<lambda>(_, _, iters, heap, _). merge_left iters heap)")
    (auto dest!: push_next_left [OF sym] heap_pop_length simp: merge_left_def)

declare merge_loop.simps [simp del]

text \<open>The heap is filled with the first node of every tree.\<close>

definition fill_heap :: "Node list list \<Rightarrow> Node list list \<times> merge_heap" where
  "fill_heap iters = (map tl iters, List.map_filter (\<lambda>(num, ns). case ns of [] \<Rightarrow> None | n # _ \<Rightarrow> Some (n, num)) (zip [0..<length iters] iters))"

definition merge_level ::
    "(merge_heap \<Rightarrow> nat) \<Rightarrow> merge_fun \<Rightarrow> (Tree \<Rightarrow> (TreeId \<times> u64) rustic_result) \<Rightarrow> (TreeId \<Rightarrow> Tree rustic_result)
     \<Rightarrow> TreeId list \<Rightarrow> SnapshotSummary \<Rightarrow> (TreeId \<times> SnapshotSummary) rustic_result" where
  "merge_level pick merge_nodes save load trees summary =
     bindR (traverseR load trees) (\<lambda>ts.
     case fill_heap (map t_nodes ts) of (iters, heap) \<Rightarrow>
     case heap_pop pick heap of
       None \<Rightarrow>
         bindR (save Tree_new) (\<lambda>(i, size). Inr (i, summary\<lparr>su_dirs_unmodified := su_dirs_unmodified summary + 1,
           su_total_dirs_processed := su_total_dirs_processed summary + 1,
           su_total_dirsize_processed := su_total_dirsize_processed summary + size\<rparr>))
     | Some ((node, num), heap) \<Rightarrow>
         bindR (merge_loop pick merge_nodes iters heap node num [] Tree_new summary) (\<lambda>(tree, summary).
         bindR (save tree) (\<lambda>(i, size).
         let summary = (if i \<in> set trees then summary\<lparr>su_dirs_unmodified := su_dirs_unmodified summary + 1\<rparr>
                        else summary\<lparr>su_dirs_changed := su_dirs_changed summary + 1\<rparr>)
         in Inr (i, summary\<lparr>su_total_dirs_processed := su_total_dirs_processed summary + 1,
           su_total_dirsize_processed := su_total_dirsize_processed summary + size\<rparr>))))"

text \<open>\<^verbatim>\<open>max_by\<close> returns the last of several maximal elements.\<close>

definition max_by :: "('a \<Rightarrow> 'a \<Rightarrow> Ordering) \<Rightarrow> 'a list \<Rightarrow> 'a option" where
  "max_by cmp xs = (case xs of [] \<Rightarrow> None | x # xs \<Rightarrow> Some (fold (\<lambda>y m. if cmp m y = Greater then m else y) xs x))"

definition merge_nodes_with ::
    "(TreeId list \<Rightarrow> SnapshotSummary \<Rightarrow> (TreeId \<times> SnapshotSummary) rustic_result) \<Rightarrow> (Node \<Rightarrow> Node \<Rightarrow> Ordering) \<Rightarrow> merge_fun" where
  "merge_nodes_with merge_trees cmp nodes summary =
     bindR (traverseR (\<lambda>n. ok_or (Panic ''called Option::unwrap() on a None value'') (n_subtree n)) (filter is_dir nodes)) (\<lambda>trees.
     bindR (ok_or (Panic ''called Option::unwrap() on a None value'') (max_by cmp nodes)) (\<lambda>node.
     if is_dir node then
       bindR (merge_trees trees summary) (\<lambda>(i, summary). Inr (node\<lparr>n_subtree := Some i\<rparr>, summary))
     else Inr (node, summary\<lparr>su_files_unmodified := su_files_unmodified summary + 1,
       su_total_files_processed := su_total_files_processed summary + 1,
       su_total_bytes_processed := su_total_bytes_processed summary + m_size (n_meta node)\<rparr>)))"

fun merge_trees ::
    "nat \<Rightarrow> (merge_heap \<Rightarrow> nat) \<Rightarrow> (Node \<Rightarrow> Node \<Rightarrow> Ordering) \<Rightarrow> (Tree \<Rightarrow> (TreeId \<times> u64) rustic_result)
     \<Rightarrow> (TreeId \<Rightarrow> Tree rustic_result) \<Rightarrow> TreeId list \<Rightarrow> SnapshotSummary \<Rightarrow> (TreeId \<times> SnapshotSummary) rustic_result" where
  "merge_trees 0 pick cmp save load trees summary = Inl (Panic ''stack overflow'')"
| "merge_trees (Suc fuel) pick cmp save load trees summary =
     merge_level pick (merge_nodes_with (merge_trees fuel pick cmp save load) cmp) save load trees summary"

definition merge_nodes ::
    "nat \<Rightarrow> (merge_heap \<Rightarrow> nat) \<Rightarrow> (Node \<Rightarrow> Node \<Rightarrow> Ordering) \<Rightarrow> (Tree \<Rightarrow> (TreeId \<times> u64) rustic_result)
     \<Rightarrow> (TreeId \<Rightarrow> Tree rustic_result) \<Rightarrow> merge_fun" where
  "merge_nodes fuel pick cmp save load = merge_nodes_with (merge_trees fuel pick cmp save load) cmp"

section \<open>Sorted trees\<close>

text \<open>A tree is well formed if the stored names are strictly increasing.\<close>

definition sorted_nodes :: "Node list \<Rightarrow> bool" where
  "sorted_nodes ns \<longleftrightarrow> sorted_wrt (<) (map n_name ns)"

definition pick_ok :: "(merge_heap \<Rightarrow> nat) \<Rightarrow> bool" where
  "pick_ok pick \<longleftrightarrow> (\<forall>heap. heap \<noteq> [] \<longrightarrow> pick heap < length heap \<and>
     (\<forall>x \<in> set heap. n_name (fst (heap ! pick heap)) \<le> n_name (fst x)))"

lemma heap_pop_min:
  assumes "pick_ok pick" "heap_pop pick heap = Some (x, heap')"
  shows "mset heap = add_mset x (mset heap') \<and> (\<forall>y \<in> set heap. n_name (fst x) \<le> n_name (fst y))"
proof -
  have ne: "heap \<noteq> []" using assms(2) by (auto simp: heap_pop_def)
  let ?k = "pick heap"
  have k: "?k < length heap" "\<forall>y \<in> set heap. n_name (fst (heap ! ?k)) \<le> n_name (fst y)"
    using assms(1) ne by (auto simp: pick_ok_def)
  then have "x = heap ! ?k" "heap' = take ?k heap @ drop (Suc ?k) heap"
    using assms(2) ne by (auto simp: heap_pop_def Let_def min_def)
  moreover have "mset heap = mset (take ?k heap @ heap ! ?k # drop (Suc ?k) heap)"
    using id_take_nth_drop [OF k(1)] by simp
  ultimately show ?thesis using k(2) by simp
qed

text \<open>The nodes of one name are merged one name after the other.\<close>

fun merge_groups :: "merge_fun \<Rightarrow> Node list list \<Rightarrow> SnapshotSummary \<Rightarrow> (Node list \<times> SnapshotSummary) rustic_result" where
  "merge_groups mn [] s = Inr ([], s)"
| "merge_groups mn (g # gs) s = bindR (mn g s) (\<lambda>(n, s). bindR (merge_groups mn gs s) (\<lambda>(ns, s). Inr (n # ns, s)))"

text \<open>What is left to merge, and the invariant of the loop: the current node comes first, each iterator is sorted
  and, if it is not empty, lies behind a node of its tree that is in the heap or current.\<close>

definition all_left :: "Node list list \<Rightarrow> merge_heap \<Rightarrow> Node multiset" where
  "all_left iters heap = mset (concat iters) + mset (map fst heap)"

definition merge_inv :: "Node list list \<Rightarrow> merge_heap \<Rightarrow> Node \<Rightarrow> nat \<Rightarrow> bool" where
  "merge_inv iters heap node num \<longleftrightarrow>
     (\<forall>k < length iters. sorted_nodes (iters ! k)) \<and>
     (\<forall>k < length iters. iters ! k \<noteq> [] \<longrightarrow>
        (\<exists>n. (n, k) \<in> insert (node, num) (set heap) \<and> (\<forall>m \<in> set (iters ! k). n_name n < n_name m))) \<and>
     (\<forall>x \<in> set heap. n_name node \<le> n_name (fst x))"

lemma push_next_all_left:
  assumes "push_next num iters heap = (iters', heap')"
  shows "all_left iters' heap' = all_left iters heap"
proof -
  consider "iters' = iters" "heap' = heap"
    | (push) n ns where "num < length iters" "iters ! num = n # ns" "iters' = iters[num := ns]" "heap' = heap @ [(n, num)]"
    using assms by (auto simp: push_next_def split: if_splits list.splits)
  then show ?thesis
  proof cases
    case push
    have "iters = take num iters @ (n # ns) # drop (Suc num) iters"
      using id_take_nth_drop [OF push(1)] push(2) by simp
    then have "mset (concat iters) = mset (concat (take num iters)) + mset (n # ns) + mset (concat (drop (Suc num) iters))"
      by (metis (no_types, lifting) concat.simps(2) concat_append mset_append union_assoc)
    moreover have "mset (concat iters') = mset (concat (take num iters)) + mset ns + mset (concat (drop (Suc num) iters))"
      using push(1,3) by (simp add: upd_conv_take_nth_drop)
    ultimately show ?thesis using push(4) by (simp add: all_left_def)
  qed simp
qed

lemma push_next_inv:
  assumes inv: "merge_inv iters heap node num" and p: "push_next num iters heap = (iters', heap')"
  shows "length iters' = length iters" "all_left iters' heap' = all_left iters heap"
    "\<forall>k < length iters'. sorted_nodes (iters' ! k)" "\<forall>x \<in> set heap'. n_name node \<le> n_name (fst x)"
    "\<forall>k < length iters'. iters' ! k \<noteq> [] \<longrightarrow> (\<exists>n. (n, k) \<in> set heap' \<and> (\<forall>m \<in> set (iters' ! k). n_name n < n_name m))"
proof -
  have wit: "\<exists>n. (n, k) \<in> insert (node, num) (set heap) \<and> (\<forall>m \<in> set (iters ! k). n_name n < n_name m)"
    if "k < length iters" "iters ! k \<noteq> []" for k using inv that by (simp add: merge_inv_def)
  have le: "n_name node \<le> n_name (fst x)" if "x \<in> set heap" for x using inv that by (simp add: merge_inv_def)
  have srt: "sorted_nodes (iters ! k)" if "k < length iters" for k using inv that by (simp add: merge_inv_def)
  consider (same) "iters' = iters" "heap' = heap" "num < length iters \<longrightarrow> iters ! num = []"
    | (push) n ns where "num < length iters" "iters ! num = n # ns" "iters' = iters[num := ns]" "heap' = heap @ [(n, num)]"
    using p by (auto simp: push_next_def split: if_splits list.splits)
  note cs = this
  from cs show "length iters' = length iters" by cases auto
  show "all_left iters' heap' = all_left iters heap" by (rule push_next_all_left [OF p])
  from cs show "\<forall>k < length iters'. sorted_nodes (iters' ! k)"
  proof cases
    case push
    then show ?thesis using srt srt [OF push(1)] by (auto simp: nth_list_update sorted_nodes_def)
  qed (simp add: srt)
  from cs show "\<forall>x \<in> set heap'. n_name node \<le> n_name (fst x)"
  proof cases
    case push
    obtain m where m: "(m, num) \<in> insert (node, num) (set heap)" "n_name m < n_name n" using wit [OF push(1)] push(2) by auto
    then have "n_name node \<le> n_name m" using le by auto
    then show ?thesis using push(4) le m(2) by auto
  qed (simp add: le)
  from cs show "\<forall>k < length iters'. iters' ! k \<noteq> [] \<longrightarrow>
      (\<exists>n. (n, k) \<in> set heap' \<and> (\<forall>m \<in> set (iters' ! k). n_name n < n_name m))"
  proof cases
    case same
    then show ?thesis using wit by fastforce
  next
    case push
    have "\<forall>m \<in> set ns. n_name n < n_name m" using srt [OF push(1)] push(2) by (auto simp: sorted_nodes_def)
    then show ?thesis using push wit by (auto simp: nth_list_update) fastforce+
  qed
qed

definition groups_ok :: "Node list list \<Rightarrow> bool" where
  "groups_ok gs \<longleftrightarrow> (\<forall>g \<in> set gs. g \<noteq> [] \<and> (\<forall>n \<in> set g. n_name n = n_name (hd g))) \<and>
     sorted_wrt (<) (map (\<lambda>g. n_name (hd g)) gs)"

lemma groups_ok_Cons:
  assumes "groups_ok (g # gs)" "g0 \<noteq> []" "n_name (hd g0) < n_name (hd g)" "\<forall>n \<in> set g0. n_name n = n_name (hd g0)"
  shows "groups_ok (g0 # g # gs)"
proof -
  have g: "sorted_wrt (<) (map (\<lambda>g. n_name (hd g)) (g # gs))" "\<forall>h \<in> set (g # gs). h \<noteq> [] \<and> (\<forall>n \<in> set h. n_name n = n_name (hd h))"
    using assms(1) unfolding groups_ok_def by blast+
  have "n_name (hd g0) < n_name (hd h)" if "h \<in> set (g # gs)" for h
    using g(1) assms(3) that by (cases "h = g") (simp_all, metis order.strict_trans)
  then have "sorted_wrt (<) (map (\<lambda>g. n_name (hd g)) (g0 # g # gs))" using g(1) by simp
  moreover have "h \<noteq> [] \<and> (\<forall>n \<in> set h. n_name n = n_name (hd h))" if "h \<in> set (g0 # g # gs)" for h
  proof (cases "h = g0")
    case True
    show ?thesis unfolding True using assms(2,4) by blast
  next
    case False
    then have "h \<in> set (g # gs)" using that by simp
    from bspec [OF g(2) this] show ?thesis .
  qed
  ultimately show ?thesis unfolding groups_ok_def by blast
qed

lemma merge_loop_groups:
  assumes "pick_ok pick" "merge_inv iters heap node num" "\<forall>n \<in> set nodes. n_name n = n_name node"
  shows "\<exists>g gs. groups_ok (g # gs) \<and> n_name (hd g) = n_name node \<and>
    mset (concat (g # gs)) = mset nodes + {#node#} + all_left iters heap \<and>
    (\<forall>mn tree s. merge_loop pick mn iters heap node num nodes tree s =
       bindR (merge_groups mn (g # gs) s) (\<lambda>(ns, s). Inr (tree\<lparr>t_nodes := t_nodes tree @ ns\<rparr>, s)))"
  using assms(2,3)
proof (induction "merge_left iters heap" arbitrary: iters heap node num nodes rule: less_induct)
  case less
  obtain iters1 heap1 where p: "push_next num iters heap = (iters1, heap1)" by (cases "push_next num iters heap")
  note pi = push_next_inv [OF less.prems(1) p]
  have hd0: "n_name (hd (nodes @ [node])) = n_name node" using less.prems(2) by (cases nodes) auto
  have g0: "\<forall>n \<in> set (nodes @ [node]). n_name n = n_name (hd (nodes @ [node]))" unfolding hd0 using less.prems(2) by simp
  show ?case
  proof (cases "heap_pop pick heap1")
    case None
    then have "heap1 = []" by (simp add: heap_pop_def Let_def split: if_splits)
    then have "\<forall>k < length iters1. iters1 ! k = []" using pi(5) by auto
    then have "concat iters1 = []" by (auto simp: in_set_conv_nth)
    then have "all_left iters1 heap1 = {#}" unfolding all_left_def \<open>heap1 = []\<close> by simp
    then have e: "all_left iters heap = {#}" using pi(2) by simp
    have "merge_loop pick mn iters heap node num nodes tree s =
       bindR (merge_groups mn [nodes @ [node]] s) (\<lambda>(ns, s). Inr (tree\<lparr>t_nodes := t_nodes tree @ ns\<rparr>, s))" for mn tree s
      by (cases "mn (nodes @ [node]) s") (auto simp: merge_loop.simps [of pick mn iters] p None Tree_add_def)
    moreover have "groups_ok [nodes @ [node]]" using g0 by (simp add: groups_ok_def)
    ultimately show ?thesis using e hd0 by (intro exI [of _ "nodes @ [node]"] exI [of _ "[]"]) simp
  next
    case (Some r)
    obtain n2 k2 heap2 where r: "r = ((n2, k2), heap2)" by (metis prod.collapse)
    note pop = heap_pop_min [OF assms(1) Some [unfolded r]]
    have sh: "set heap1 = insert (n2, k2) (set heap2)" using pop by (metis set_mset_add_mset_insert set_mset_mset)
    have left: "merge_left iters1 heap2 < merge_left iters heap"
      using push_next_left [OF p] heap_pop_length [OF Some [unfolded r]] by (simp add: merge_left_def)
    have inv2: "merge_inv iters1 heap2 n2 k2" using pi(3,5) pop sh by (auto simp: merge_inv_def)
    have all: "all_left iters heap = add_mset n2 (all_left iters1 heap2)"
    proof -
      have "mset (map fst heap1) = add_mset n2 (mset (map fst heap2))" using pop by (metis fst_conv image_mset_add_mset mset_map)
      then show ?thesis using pi(2) by (simp add: all_left_def)
    qed
    have le: "n_name node \<le> n_name n2" using pi(4) sh by force
    show ?thesis
    proof (cases "n_name node = n_name n2")
      case True
      have nm: "\<forall>n \<in> set (nodes @ [node]). n_name n = n_name n2" using less.prems(2) True by auto
      obtain g gs where g: "groups_ok (g # gs)" "n_name (hd g) = n_name n2"
          "mset (concat (g # gs)) = mset (nodes @ [node]) + {#n2#} + all_left iters1 heap2"
          "\<And>mn tree s. merge_loop pick mn iters1 heap2 n2 k2 (nodes @ [node]) tree s =
             bindR (merge_groups mn (g # gs) s) (\<lambda>(ns, s). Inr (tree\<lparr>t_nodes := t_nodes tree @ ns\<rparr>, s))"
        using less.hyps [OF left inv2 nm] by blast
      have "merge_loop pick mn iters heap node num nodes tree s =
          merge_loop pick mn iters1 heap2 n2 k2 (nodes @ [node]) tree s" for mn tree s
        by (simp add: merge_loop.simps [of pick mn iters] p Some r True)
      then show ?thesis using g True all by (intro exI [of _ g] exI [of _ gs]) simp
    next
      case False
      obtain g gs where g: "groups_ok (g # gs)" "n_name (hd g) = n_name n2"
          "mset (concat (g # gs)) = mset [] + {#n2#} + all_left iters1 heap2"
          "\<And>mn tree s. merge_loop pick mn iters1 heap2 n2 k2 [] tree s =
             bindR (merge_groups mn (g # gs) s) (\<lambda>(ns, s). Inr (tree\<lparr>t_nodes := t_nodes tree @ ns\<rparr>, s))"
        using less.hyps [OF left inv2, of "[]"] by auto
      let ?g0 = "nodes @ [node]"
      have lt: "n_name (hd ?g0) < n_name (hd g)" using le False hd0 g(2) by simp
      have ok: "groups_ok (?g0 # g # gs)" by (rule groups_ok_Cons [OF g(1) _ lt g0]) simp
      have "merge_loop pick mn iters heap node num nodes tree s =
          bindR (merge_groups mn (?g0 # g # gs) s) (\<lambda>(ns, s). Inr (tree\<lparr>t_nodes := t_nodes tree @ ns\<rparr>, s))" for mn tree s
      proof (cases "mn ?g0 s")
        case (Inl e)
        then show ?thesis by (simp add: merge_loop.simps [of pick mn iters] p Some r False)
      next
        case (Inr ns)
        obtain n s' where ns: "ns = (n, s')" by (cases ns)
        show ?thesis
          by (cases "merge_groups mn (g # gs) s'")
            (auto simp: merge_loop.simps [of pick mn iters] p Some r False Inr ns g(4) Tree_add_def simp del: merge_groups.simps(2),
             auto simp: Inr ns)
      qed
      then show ?thesis using ok g(3) all hd0 by (intro exI [of _ ?g0] exI [of _ "g # gs"]) simp
    qed
  qed
qed

text \<open>The start: the heap holds the first node of every tree.\<close>

lemma fill_heap_spec:
  assumes "fill_heap its = (iters, heap)"
  shows "iters = map tl its" "(n, k) \<in> set heap \<longleftrightarrow> k < length its \<and> its ! k \<noteq> [] \<and> hd (its ! k) = n"
    "all_left iters heap = mset (concat its)"
proof -
  let ?f = "\<lambda>(num, ns). case ns of [] \<Rightarrow> None | n # _ \<Rightarrow> Some (n, num)"
  have it: "iters = map tl its" and heap: "heap = List.map_filter ?f (zip [0..<length its] its)"
    using assms by (simp_all add: fill_heap_def)
  show "iters = map tl its" by fact
  have mf: "y \<in> set (List.map_filter g xs) \<longleftrightarrow> (\<exists>x \<in> set xs. g x = Some y)" for y and g :: "nat \<times> Node list \<Rightarrow> _" and xs
    by (induction xs) (auto simp: map_filter_def)
  have f: "?f x = Some (n, k) \<longleftrightarrow> fst x = k \<and> snd x \<noteq> [] \<and> hd (snd x) = n" for x
    by (cases x; cases "snd x") auto
  have z: "x \<in> set (zip [0..<length its] its) \<longleftrightarrow> fst x < length its \<and> snd x = its ! fst x" for x
    by (cases x) (auto simp: in_set_zip intro: exI [of _ "fst x"])
  show "(n, k) \<in> set heap \<longleftrightarrow> k < length its \<and> its ! k \<noteq> [] \<and> hd (its ! k) = n"
    unfolding heap mf Bex_def z f by (intro iffI, fastforce, intro exI [of _ "(k, its ! k)"], simp)
  have "mset (map fst (List.map_filter ?f (zip ks its))) + mset (concat (map tl its)) = mset (concat its)"
    if "length ks = length its" for ks :: "nat list"
    using that
  proof (induction ks its rule: list_induct2)
    case (Cons k ks x xs)
    then show ?case by (cases x) (auto simp: map_filter_def)
  qed (simp add: map_filter_def)
  from this [of "[0..<length its]"] show "all_left iters heap = mset (concat its)"
    by (simp add: all_left_def it heap add.commute)
qed

lemma fill_heap_inv:
  assumes "pick_ok pick" "fill_heap its = (iters, heap)" "heap_pop pick heap = Some ((node, num), heap')"
    and srt: "\<forall>ns \<in> set its. sorted_nodes ns"
  shows "merge_inv iters heap' node num" "add_mset node (all_left iters heap') = mset (concat its)"
proof -
  note f = fill_heap_spec [OF assms(2)]
  note pop = heap_pop_min [OF assms(1,3)]
  have sh: "set heap = insert (node, num) (set heap')" using pop by (metis set_mset_add_mset_insert set_mset_mset)
  have tl: "sorted_nodes (tl ns) \<and> (\<forall>m \<in> set (tl ns). n_name (hd ns) < n_name m)" if "sorted_nodes ns" for ns
    using that by (cases ns) (auto simp: sorted_nodes_def)
  have tls: "sorted_nodes (iters ! k)" "iters ! k \<noteq> [] \<longrightarrow> (hd (its ! k), k) \<in> insert (node, num) (set heap') \<and>
      (\<forall>m \<in> set (iters ! k). n_name (hd (its ! k)) < n_name m)" if k: "k < length iters" for k
  proof -
    have "k < length its" "iters ! k = tl (its ! k)" using k f(1) by simp_all
    moreover from this have "sorted_nodes (its ! k)" using srt by simp
    moreover have "(hd (its ! k), k) \<in> insert (node, num) (set heap')" if "tl (its ! k) \<noteq> []"
    proof -
      have "its ! k \<noteq> []" using that by auto
      then show ?thesis using f(2) \<open>k < length its\<close> unfolding sh [symmetric] by simp
    qed
    ultimately show "sorted_nodes (iters ! k)" "iters ! k \<noteq> [] \<longrightarrow> (hd (its ! k), k) \<in> insert (node, num) (set heap') \<and>
      (\<forall>m \<in> set (iters ! k). n_name (hd (its ! k)) < n_name m)" using tl [of "its ! k"] by simp_all
  qed
  have "\<forall>x \<in> set heap'. n_name node \<le> n_name (fst x)" using pop sh by simp
  with tls show "merge_inv iters heap' node num" unfolding merge_inv_def by blast
  have "mset (map fst heap) = add_mset node (mset (map fst heap'))" using pop by (metis fst_conv image_mset_add_mset mset_map)
  then show "add_mset node (all_left iters heap') = mset (concat its)" using f(3) by (simp add: all_left_def)
qed

lemma merge_level_groups:
  assumes "pick_ok pick" "traverseR load trees = Inr ts" "\<forall>t \<in> set ts. sorted_nodes (t_nodes t)"
    and "merge_level pick mn save load trees s = Inr (i, s')"
  shows "\<exists>gs ns s1 size. groups_ok gs \<and> mset (concat gs) = mset (concat (map t_nodes ts)) \<and>
    merge_groups mn gs s = Inr (ns, s1) \<and> save \<lparr>t_nodes = ns\<rparr> = Inr (i, size)"
proof -
  let ?its = "map t_nodes ts"
  obtain iters heap where f: "fill_heap ?its = (iters, heap)" by (cases "fill_heap ?its")
  have srt: "\<forall>ns \<in> set ?its. sorted_nodes ns" using assms(3) by simp
  show ?thesis
  proof (cases "heap_pop pick heap")
    case None
    then have "heap = []" by (simp add: heap_pop_def Let_def split: if_splits)
    then have "\<forall>k < length ?its. ?its ! k = []" using fill_heap_spec(2) [OF f] by fastforce
    then have "concat ?its = []" by (auto simp: in_set_conv_nth)
    then have "mset (concat []) = mset (concat ?its)" by simp
    moreover have "groups_ok []" by (simp add: groups_ok_def)
    ultimately show ?thesis using assms(2,4) f None
      by (intro exI [of _ "[]"]) (auto simp: merge_level_def Tree_new_def result_simps)
  next
    case (Some r)
    obtain node num heap' where r: "r = ((node, num), heap')" by (metis prod.collapse)
    note inv = fill_heap_inv [OF assms(1) f Some [unfolded r] srt]
    obtain g gs where g: "groups_ok (g # gs)" "mset (concat (g # gs)) = mset [] + {#node#} + all_left iters heap'"
        "\<And>mn tree s. merge_loop pick mn iters heap' node num [] tree s =
           bindR (merge_groups mn (g # gs) s) (\<lambda>(ns, s). Inr (tree\<lparr>t_nodes := t_nodes tree @ ns\<rparr>, s))"
      using merge_loop_groups [OF assms(1) inv(1), of "[]"] by auto
    have m: "mset (concat (g # gs)) = mset (concat ?its)" using g(2) inv(2) by simp
    obtain ns s1 size where "merge_groups mn (g # gs) s = Inr (ns, s1)" "save \<lparr>t_nodes = ns\<rparr> = Inr (i, size)"
      using assms(2,4) f Some r g(3)
      by (auto simp: merge_level_def Tree_new_def result_simps Let_def simp del: merge_groups.simps)
    with g(1) m show ?thesis by blast
  qed
qed

lemma max_by_in: "max_by cmp xs = Some x \<Longrightarrow> x \<in> set xs"
proof -
  have "fold (\<lambda>y m. if cmp m y = Greater then m else y) ys z \<in> insert z (set ys)" for ys z
    by (induction ys arbitrary: z) auto
  then show "max_by cmp xs = Some x \<Longrightarrow> x \<in> set xs" by (auto simp: max_by_def split: list.splits)
qed

lemma merge_nodes_name: "merge_nodes_with mt cmp g s = Inr (n, s') \<Longrightarrow> \<exists>m \<in> set g. n_name n = n_name m"
  by (auto simp: merge_nodes_with_def result_simps dest!: max_by_in split: if_splits)

lemma merge_groups_spec:
  assumes "merge_groups mn gs s = Inr (ns, s')"
  shows "list_all2 (\<lambda>g n. \<exists>s1 s2. mn g s1 = Inr (n, s2)) gs ns"
  using assms
proof (induction gs arbitrary: s ns)
  case (Cons g gs)
  then obtain n s1 ns' where "mn g s = Inr (n, s1)" "merge_groups mn gs s1 = Inr (ns', s')" "ns = n # ns'"
    by (auto simp: result_simps)
  then show ?case using Cons.IH by auto
qed simp

lemma groups_filter:
  assumes "groups_ok gs" "g \<in> set gs"
  shows "mset g = mset (filter (\<lambda>m. n_name m = n_name (hd g)) (concat gs))"
proof -
  have f: "filter (\<lambda>m. n_name m = n_name (hd g)) h = (if n_name (hd h) = n_name (hd g) then h else [])" if h: "h \<in> set gs" for h
  proof -
    have nm: "n_name n = n_name (hd h)" if "n \<in> set h" for n using assms(1) h that unfolding groups_ok_def by blast
    show ?thesis
    proof (cases "n_name (hd h) = n_name (hd g)")
      case True
      with nm have "filter (\<lambda>m. n_name m = n_name (hd g)) h = h" by (intro filter_True) simp
      with True show ?thesis by simp
    next
      case False
      with nm have "filter (\<lambda>m. n_name m = n_name (hd g)) h = []" unfolding filter_empty_conv by metis
      with False show ?thesis by simp
    qed
  qed
  have d: "distinct (map (\<lambda>g. n_name (hd g)) gs)" using assms(1) by (simp add: groups_ok_def strict_sorted_iff)
  have "filter (\<lambda>m. n_name m = n_name (hd g)) (concat hs) = (if g \<in> set hs then g else [])"
    if "set hs \<subseteq> set gs" "distinct (map (\<lambda>g. n_name (hd g)) hs)" for hs
    using that
  proof (induction hs)
    case (Cons h hs)
    have h: "h \<in> set gs" "n_name (hd h) \<notin> (\<lambda>g. n_name (hd g)) ` set hs" using Cons.prems by auto
    show ?case
    proof (cases "g \<in> set hs")
      case True
      then have "n_name (hd h) \<noteq> n_name (hd g)" using h(2) by (metis image_eqI)
      then show ?thesis using Cons True f [OF h(1)] by simp
    next
      case False
      show ?thesis
      proof (cases "h = g")
        case True
        then show ?thesis using Cons False f [OF h(1)] by simp
      next
        case neq: False
        have "n_name (hd h) \<noteq> n_name (hd g)"
          using d h(1) assms(2) neq by (metis (mono_tags, lifting) distinct_map inj_onD)
        then show ?thesis using Cons False neq f [OF h(1)] by simp
      qed
    qed
  qed simp
  from this [OF subset_refl d] assms(2) show ?thesis by simp
qed

section \<open>Enough fuel\<close>

text \<open>If trees do not contain themselves, which hashing guarantees, fuel beyond the depth changes nothing.\<close>

lemma heap_pop_sub: "heap_pop pick heap = Some (x, heap') \<Longrightarrow> x \<in> set heap \<and> set heap' \<subseteq> set heap"
proof -
  assume p: "heap_pop pick heap = Some (x, heap')"
  let ?k = "min (pick heap) (length heap - 1)"
  have "heap \<noteq> []" "x = heap ! ?k" "heap' = take ?k heap @ drop (Suc ?k) heap"
    using p by (auto simp: heap_pop_def Let_def split: if_splits)
  moreover from this(1) have "?k < length heap" by (cases heap) auto
  ultimately show ?thesis using set_take_subset [of ?k heap] set_drop_subset [of "Suc ?k" heap] by auto
qed

lemma merge_loop_cong:
  assumes "\<And>g s. set g \<subseteq> N \<Longrightarrow> mn g s = mn' g s"
    and "set (concat iters) \<union> fst ` set heap \<union> insert node (set nodes) \<subseteq> N"
  shows "merge_loop pick mn iters heap node num nodes tree s = merge_loop pick mn' iters heap node num nodes tree s"
  using assms(2)
proof (induction "merge_left iters heap" arbitrary: iters heap node num nodes tree s rule: less_induct)
  case less
  obtain iters1 heap1 where p: "push_next num iters heap = (iters1, heap1)" by (cases "push_next num iters heap")
  have sub1: "set (concat iters1) \<union> fst ` set heap1 \<subseteq> N"
  proof -
    have "set_mset (all_left iters1 heap1) = set_mset (all_left iters heap)" by (simp only: push_next_all_left [OF p])
    then have "set (concat iters1) \<union> fst ` set heap1 = set (concat iters) \<union> fst ` set heap" by (simp add: all_left_def)
    then show ?thesis using less.prems by blast
  qed
  have c: "mn (nodes @ [node]) s = mn' (nodes @ [node]) s" for s using less.prems by (intro assms(1)) auto
  show ?case
  proof (cases "heap_pop pick heap1")
    case None
    then show ?thesis by (simp add: merge_loop.simps [of pick mn iters] merge_loop.simps [of pick mn' iters] p c)
  next
    case (Some r)
    obtain n2 k2 heap2 where r: "r = ((n2, k2), heap2)" by (metis prod.collapse)
    have left: "merge_left iters1 heap2 < merge_left iters heap"
      using push_next_left [OF p] heap_pop_length [OF Some [unfolded r]] by (simp add: merge_left_def)
    have "set heap2 \<subseteq> set heap1 \<and> (n2, k2) \<in> set heap1" using heap_pop_sub [OF Some [unfolded r]] by blast
    moreover from this have "n2 \<in> fst ` set heap1" by (metis fst_conv image_eqI)
    ultimately have "fst ` set heap2 \<subseteq> N" "n2 \<in> N" using sub1 by (blast, blast)
    have ih: "merge_loop pick mn iters1 heap2 n2 k2 ns t s = merge_loop pick mn' iters1 heap2 n2 k2 ns t s"
      if "set ns \<subseteq> N" for ns t s
    proof (rule less.hyps [OF left])
      show "set (concat iters1) \<union> fst ` set heap2 \<union> insert n2 (set ns) \<subseteq> N"
        using sub1 \<open>fst ` set heap2 \<subseteq> N\<close> \<open>n2 \<in> N\<close> that by (simp only: Un_subset_iff insert_subset simp_thms)
    qed
    have "set (nodes @ [node]) \<subseteq> N" using less.prems by auto
    then show ?thesis
      by (cases "mn' (nodes @ [node]) s")
        (simp_all add: merge_loop.simps [of pick mn iters] merge_loop.simps [of pick mn' iters] p c Some r ih split_beta)
  qed
qed

lemma merge_level_cong:
  assumes "\<And>ts g s. traverseR load trees = Inr ts \<Longrightarrow> set g \<subseteq> set (concat (map t_nodes ts)) \<Longrightarrow> mn g s = mn' g s"
  shows "merge_level pick mn save load trees s = merge_level pick mn' save load trees s"
proof (cases "traverseR load trees")
  case (Inl e)
  then show ?thesis by (simp add: merge_level_def)
next
  case (Inr ts)
  let ?N = "set (concat (map t_nodes ts))"
  obtain iters heap where f: "fill_heap (map t_nodes ts) = (iters, heap)" by (cases "fill_heap (map t_nodes ts)")
  have "set_mset (all_left iters heap) = ?N" using fill_heap_spec(3) [OF f] by (metis set_mset_mset)
  then have N: "set (concat iters) \<union> fst ` set heap \<subseteq> ?N" by (auto simp: all_left_def)
  show ?thesis
  proof (cases "heap_pop pick heap")
    case None
    then show ?thesis by (simp add: merge_level_def Inr f)
  next
    case (Some r)
    obtain node num heap' where r: "r = ((node, num), heap')" by (metis prod.collapse)
    have "fst ` set heap' \<subseteq> ?N" "node \<in> ?N" using heap_pop_sub [OF Some [unfolded r]] N by force+
    then have "set (concat iters) \<union> fst ` set heap' \<union> insert node (set []) \<subseteq> ?N" using N by simp
    from merge_loop_cong [of ?N mn mn', OF assms [OF Inr] this] show ?thesis by (simp add: merge_level_def Inr f Some r)
  qed
qed

lemma merge_trees_fuel:
  assumes rank: "\<And>i t j. load i = Inr t \<Longrightarrow> j \<in> subtrees t \<Longrightarrow> r j < (r i :: nat)"
  shows "0 < fuel \<Longrightarrow> \<forall>i \<in> set trees. r i < fuel \<Longrightarrow> fuel \<le> fuel' \<Longrightarrow>
    merge_trees fuel pick cmp save load trees s = merge_trees fuel' pick cmp save load trees s"
proof (induction fuel arbitrary: fuel' trees s)
  case (Suc fuel)
  obtain f' where f': "fuel' = Suc f'" "fuel \<le> f'" using Suc.prems(3) by (cases fuel') auto
  let ?mt = "merge_trees fuel pick cmp save load" and ?mt' = "merge_trees f' pick cmp save load"
  have "merge_nodes_with ?mt cmp g s = merge_nodes_with ?mt' cmp g s"
    if ts: "traverseR load trees = Inr ts" "set g \<subseteq> set (concat (map t_nodes ts))" for ts g s
  proof (cases "traverseR (\<lambda>n. ok_or (Panic ''called Option::unwrap() on a None value'') (n_subtree n)) (filter is_dir g)")
    case (Inl e)
    then show ?thesis by (simp add: merge_nodes_with_def)
  next
    case (Inr js)
    have js: "list_all2 (\<lambda>n j. n_subtree n = Some j) (filter is_dir g) js"
      using Inr by (simp add: traverseR_eq_Inr_iff ok_or_eq_Inr_iff)
    have low: "r j < fuel" if "j \<in> set js" for j
    proof -
      obtain n where n: "n \<in> set (filter is_dir g)" "n_subtree n = Some j"
        using list_all2_right [OF js \<open>j \<in> set js\<close>] by blast
      then obtain t where t: "t \<in> set ts" "n \<in> set (t_nodes t)" using ts(2) by auto
      then obtain i where i: "i \<in> set trees" "load i = Inr t"
        using list_all2_right [OF ts(1) [unfolded traverseR_eq_Inr_iff] t(1)] by blast
      have "r j < r i" using rank [OF i(2)] t(2) n(2) by (auto simp: subtrees_def)
      then show ?thesis using Suc.prems(2) i(1) by fastforce
    qed
    have "?mt js s = ?mt' js s" if "is_dir n" "max_by cmp g = Some n" for n s
    proof -
      have "filter is_dir g \<noteq> []" using that max_by_in by (fastforce simp: filter_empty_conv)
      then have "js \<noteq> []" using js by (metis list_all2_Nil2)
      then have "0 < fuel" using low by (cases js) (simp, fastforce)
      then show ?thesis using Suc.IH [of js f'] low f'(2) by blast
    qed
    then show ?thesis by (cases "max_by cmp g") (auto simp: merge_nodes_with_def Inr)
  qed
  then show ?case unfolding f' merge_trees.simps by (rule merge_level_cong)
qed simp

section \<open>Properties\<close>

text \<open>C21. Merging keeps trees well formed: if the stored names of all trees are strictly increasing, so are
  those of the tree that is saved, whichever equal element the heap pops first. The names are those of all
  trees, and every node is what \<open>merge_nodes\<close> makes of all nodes with its name.\<close>

theorem merge_trees_well_formed:
  assumes "pick_ok pick" "traverseR load trees = Inr ts" "\<forall>t \<in> set ts. sorted_nodes (t_nodes t)"
    and "merge_trees (Suc fuel) pick cmp save load trees s = Inr (i, s')"
  shows "\<exists>ns size. save \<lparr>t_nodes = ns\<rparr> = Inr (i, size) \<and> sorted_nodes ns \<and>
    n_name ` set ns = n_name ` set (concat (map t_nodes ts)) \<and>
    (\<forall>n \<in> set ns. \<exists>g s1 s2. mset g = mset (filter (\<lambda>m. n_name m = n_name n) (concat (map t_nodes ts))) \<and>
       merge_nodes fuel pick cmp save load g s1 = Inr (n, s2))"
proof -
  let ?mn = "merge_nodes fuel pick cmp save load" and ?all = "concat (map t_nodes ts)"
  have "merge_level pick ?mn save load trees s = Inr (i, s')" using assms(4) by (simp add: merge_nodes_def)
  from merge_level_groups [OF assms(1-3) this] obtain gs ns s1 size where
    gs: "groups_ok gs" "mset (concat gs) = mset ?all" "merge_groups ?mn gs s = Inr (ns, s1)" "save \<lparr>t_nodes = ns\<rparr> = Inr (i, size)"
    by blast
  have l: "list_all2 (\<lambda>g n. \<exists>s1 s2. ?mn g s1 = Inr (n, s2)) gs ns" by (rule merge_groups_spec [OF gs(3)])
  have nm: "n_name n = n_name (hd g)" if "g \<in> set gs" "?mn g s1 = Inr (n, s2)" for g n s1 s2
    using merge_nodes_name [of _ cmp g s1 n s2] that gs(1) by (metis groups_ok_def merge_nodes_def)
  have names: "map n_name ns = map (\<lambda>g. n_name (hd g)) gs"
    using l nm by (auto simp: list_all2_conv_all_nth list_eq_iff_nth_eq)
  have srt: "sorted_nodes ns" unfolding sorted_nodes_def names using gs(1) by (simp add: groups_ok_def)
  have "n_name ` set (concat gs) = (\<lambda>g. n_name (hd g)) ` set gs"
  proof (intro set_eqI iffI)
    fix x assume "x \<in> n_name ` set (concat gs)"
    then obtain g n where "g \<in> set gs" "n \<in> set g" "x = n_name n" by auto
    moreover from this have "n_name n = n_name (hd g)" using gs(1) unfolding groups_ok_def by blast
    ultimately show "x \<in> (\<lambda>g. n_name (hd g)) ` set gs" by blast
  next
    fix x assume "x \<in> (\<lambda>g. n_name (hd g)) ` set gs"
    then obtain g where "g \<in> set gs" "x = n_name (hd g)" by auto
    moreover have "g \<noteq> []" using gs(1) calculation(1) by (simp add: groups_ok_def)
    ultimately have "hd g \<in> set (concat gs)" unfolding set_concat by (metis UN_I hd_in_set)
    then show "x \<in> n_name ` set (concat gs)" using \<open>x = n_name (hd g)\<close> by blast
  qed
  moreover have "set (concat gs) = set ?all" using gs(2) by (metis set_mset_mset)
  moreover have "n_name ` set ns = (\<lambda>g. n_name (hd g)) ` set gs" using names by (metis set_map)
  ultimately have n: "n_name ` set ns = n_name ` set ?all" by simp
  have "\<exists>g s1 s2. mset g = mset (filter (\<lambda>m. n_name m = n_name n) ?all) \<and> ?mn g s1 = Inr (n, s2)" if "n \<in> set ns" for n
  proof -
    obtain g s1 s2 where g: "g \<in> set gs" "?mn g s1 = Inr (n, s2)"
      using list_all2_right [OF l \<open>n \<in> set ns\<close>] by blast
    have "mset g = mset (filter (\<lambda>m. n_name m = n_name n) (concat gs))"
      using groups_filter [OF gs(1) g(1)] nm [OF g] by simp
    also have "\<dots> = mset (filter (\<lambda>m. n_name m = n_name n) ?all)" using gs(2) by (metis mset_filter)
    finally show ?thesis using g(2) by blast
  qed
  with gs(4) srt n show ?thesis by blast
qed

definition first_min :: "merge_heap \<Rightarrow> nat" where
  "first_min heap = hd (filter (\<lambda>k. list_all (\<lambda>x. n_name (fst (heap ! k)) \<le> n_name (fst x)) heap) [0..<length heap])"

lemma first_min_ok: "pick_ok first_min"
proof -
  have "first_min heap < length heap \<and> (\<forall>x \<in> set heap. n_name (fst (heap ! first_min heap)) \<le> n_name (fst x))"
    if "heap \<noteq> []" for heap
  proof -
    let ?m = "Min ((\<lambda>x. n_name (fst x)) ` set heap)"
    have "?m \<in> (\<lambda>x. n_name (fst x)) ` set heap" using that by (intro Min_in) auto
    then obtain k where k: "k < length heap" "n_name (fst (heap ! k)) = ?m" by (auto simp: in_set_conv_nth)
    then have "k \<in> set (filter (\<lambda>k. list_all (\<lambda>x. n_name (fst (heap ! k)) \<le> n_name (fst x)) heap) [0..<length heap])"
      by (auto simp: list_all_iff)
    then have "first_min heap \<in> set (filter (\<lambda>k. list_all (\<lambda>x. n_name (fst (heap ! k)) \<le> n_name (fst x)) heap) [0..<length heap])"
      unfolding first_min_def by (metis hd_in_set list.set(1) empty_iff)
    then show ?thesis by (auto simp: list_all_iff)
  qed
  then show ?thesis by (simp add: pick_ok_def)
qed

definition plain_file :: "rstr \<Rightarrow> Node" where
  "plain_file s = \<lparr>n_name = s, n_type = File, n_meta = Metadata_default, n_content = None, n_subtree = None\<rparr>"

text \<open>Saving for the examples: the id says whether the real names are different.\<close>

definition save_checked :: "Tree \<Rightarrow> (TreeId \<times> u64) rustic_result" where
  "save_checked t = Inr (if distinct (map node_name (t_nodes t)) then [0] else [1], 0)"

lemmas merge_eval = merge_level_def fill_heap_def heap_pop_def first_min_def push_next_def merge_nodes_with_def
  max_by_def plain_file_def is_dir_def Tree_new_def Tree_add_def map_filter_def

theorem merge_trees_well_formed_witness:
  "\<forall>s. \<exists>i s' ns size. merge_trees 1 first_min last_modified_node save_checked
      (\<lambda>i. Inr \<lparr>t_nodes = if i = [1] then [plain_file [97], plain_file [98]] else [plain_file [98]]\<rparr>) [[1], [2]] s = Inr (i, s') \<and>
    save_checked \<lparr>t_nodes = ns\<rparr> = Inr (i, size) \<and> n_name ` set ns = {[97], [98]} \<and> sorted_nodes ns" (is "\<forall>s. ?P s")
proof
  fix s
  let ?load = "\<lambda>i :: TreeId. Inr \<lparr>t_nodes = if i = [1] then [plain_file [97], plain_file [98]] else [plain_file [98]]\<rparr> :: Tree rustic_result"
  let ?ts = "[\<lparr>t_nodes = [plain_file [97], plain_file [98]]\<rparr>, \<lparr>t_nodes = [plain_file [98]]\<rparr>]"
  have ts: "traverseR ?load [[1], [2]] = Inr ?ts" "\<forall>t \<in> set ?ts. sorted_nodes (t_nodes t)"
    by (simp_all add: sorted_nodes_def plain_file_def)
  have "\<exists>r. merge_trees (Suc 0) first_min last_modified_node save_checked ?load [[1], [2]] s = Inr r"
    by (simp add: merge_eval save_checked_def Let_def upt_conv_Cons last_modified_node_def Metadata_default_def,
        subst merge_loop.simps, simp add: merge_eval Let_def upt_conv_Cons,
        subst merge_loop.simps, simp add: merge_eval Let_def upt_conv_Cons,
        subst merge_loop.simps, simp add: merge_eval Let_def upt_conv_Cons last_modified_node_def Metadata_default_def)
  then obtain i s' where r: "merge_trees (Suc 0) first_min last_modified_node save_checked ?load [[1], [2]] s = Inr (i, s')" by auto
  from merge_trees_well_formed [OF first_min_ok ts r] obtain ns size where
    "save_checked \<lparr>t_nodes = ns\<rparr> = Inr (i, size)" "sorted_nodes ns" "n_name ` set ns = n_name ` set (concat (map t_nodes ?ts))" by blast
  moreover from this(3) have "n_name ` set ns = {[97], [98]}" by (simp add: plain_file_def)
  ultimately show "?P s" using r by auto
qed

text \<open>Merging can give a tree with the same name twice: trees are sorted by the real names, merging compares
  the stored, escaped ones. A file whose name contains a line feed comes first in a directory but its stored
  name does not, so the file behind it is merged with its counterpart from the other tree too late.\<close>

theorem merge_duplicates_names:
  "\<exists>t1 t2 s'. sorted_wrt (<) (map node_name (t_nodes t1)) \<and> sorted_wrt (<) (map node_name (t_nodes t2)) \<and>
     merge_trees 1 first_min last_modified_node save_checked (\<lambda>i. Inr (if i = [1] then t1 else t2)) [[1], [2]] s = Inr ([1], s')"
proof -
  let ?t1 = "\<lparr>t_nodes = [plain_file [97, 92, 110], plain_file [97, 90]]\<rparr>" and ?t2 = "\<lparr>t_nodes = [plain_file [97, 90]]\<rparr>"
  have n: "node_name (plain_file [97, 92, 110]) = [97, 10]" "node_name (plain_file [97, 90]) = [97, 90]"
    by (simp_all add: node_name_def plain_file_def unescape_filename_def unescape_escape_def unescape_simple_def encode_utf8_def)
  have "\<exists>s'. merge_trees 1 first_min last_modified_node save_checked (\<lambda>i. Inr (if i = [1] then ?t1 else ?t2)) [[1], [2]] s = Inr ([1], s')"
    by (simp add: merge_eval save_checked_def Let_def upt_conv_Cons,
        subst merge_loop.simps, simp add: merge_eval Let_def upt_conv_Cons,
        subst merge_loop.simps, simp add: merge_eval Let_def upt_conv_Cons,
        subst merge_loop.simps, simp add: merge_eval Let_def upt_conv_Cons n [unfolded plain_file_def])
  then show ?thesis using n by (intro exI [of _ ?t1] exI [of _ ?t2]) simp
qed

end
