(* ===== verification/TreeIter.thy ===== *)
theory TreeIter
  imports Tree "HOL-Library.Sublist"
begin

text \<open>
  The source of a backup as a sequence of events (crates/core/src/archiver/tree.rs, the \<^verbatim>\<open>File\<close> of
  crates/core/src/backend.rs, \<^verbatim>\<open>join_force\<close> of crates/core/src/lib.rs): entries of a source become paths and
  nodes, and the \<open>TreeIterator\<close> opens and closes the directories between them.
\<close>

section \<open>Entries of a source\<close>

record SourceFile =
  f_path :: Path
  f_name :: rstr
  f_type :: NodeType
  f_meta :: Metadata

definition is_Normal :: "Component \<Rightarrow> bool" where
  "is_Normal c = (case c of Normal _ \<Rightarrow> True | _ \<Rightarrow> False)"

definition path_file_name :: "Path \<Rightarrow> OsStr option" where
  "path_file_name p = (if p = [] then None else case last p of Normal s \<Rightarrow> Some s | _ \<Rightarrow> None)"

text \<open>\<^verbatim>\<open>parent\<close> of a path, or the empty path where the code falls back to it.\<close>

definition path_parent :: "Path \<Rightarrow> Path" where
  "path_parent p = (if p = [] \<or> last p = RootDir then [] else butlast p)"

text \<open>\<^verbatim>\<open>File::new\<close>: the name is converted with \<^verbatim>\<open>to_string_lossy\<close>; \<open>None\<close> is the error of a path without name.\<close>

definition File_new :: "Path \<Rightarrow> NodeType \<Rightarrow> Metadata \<Rightarrow> SourceFile option" where
  "File_new path t m = (case path_file_name path of
     None \<Rightarrow> None
   | Some name \<Rightarrow> Some \<lparr>f_path = path, f_name = from_utf8_lossy name, f_type = t, f_meta = m\<rparr>)"

definition File_node :: "SourceFile \<Rightarrow> Node rustic_result" where
  "File_node f = new_node (str_bytes (f_name f)) (f_type f) (f_meta f)"

definition File_into_tree :: "SourceFile \<Rightarrow> (Path \<times> Node) rustic_result" where
  "File_into_tree f = bindR (File_node f) (\<lambda>n. Inr (f_path f, n))"

definition path_push :: "Path \<Rightarrow> Component \<Rightarrow> Path" where
  "path_push p c = (case c of
     RootDir \<Rightarrow> [RootDir]
   | CurDir \<Rightarrow> if p = [] then [CurDir] else p
   | _ \<Rightarrow> p @ [c])"

definition join_force :: "Path \<Rightarrow> Path \<Rightarrow> Path" where
  "join_force base p = foldl path_push base (filter (\<lambda>c. c \<noteq> RootDir) p)"

text \<open>What \<^verbatim>\<open>Archiver::archive\<close> makes of an entry: the path of the directory it is in (for a directory its own
  path), its node and the path to open.\<close>

definition archive_item :: "Path option \<Rightarrow> SourceFile \<Rightarrow> (Path \<times> Node \<times> Path option) rustic_result" where
  "archive_item as_path f =
     (let dir = (f_type f = Dir);
          src_path = (if dir then None else Some (f_path f));
          snapshot_path = (case as_path of Some a \<Rightarrow> join_force a (f_path f) | None \<Rightarrow> f_path f)
      in bindR (File_into_tree f) (\<lambda>(_, node).
         Inr (if dir then snapshot_path else path_parent snapshot_path, node, src_path)))"

section \<open>The iterator\<close>

datatype ('t, 'u) TreeType = NewTree "Path \<times> Node \<times> 'u" | EndTree | Other "Path \<times> Node \<times> 't"

record 't TreeIterator =
  ti_iter :: "(Path \<times> Node \<times> 't) list"
  ti_path :: Path
  ti_item :: "(Path \<times> Node \<times> 't) option"

definition iter_next :: "'a list \<Rightarrow> 'a option \<times> 'a list" where
  "iter_next xs = (case xs of [] \<Rightarrow> (None, []) | x # xs \<Rightarrow> (Some x, xs))"

definition TreeIterator_new :: "(Path \<times> Node \<times> 't) list \<Rightarrow> 't TreeIterator" where
  "TreeIterator_new iter = (case iter_next iter of (item, iter) \<Rightarrow> \<lparr>ti_iter = iter, ti_path = [], ti_item = item\<rparr>)"

definition TreeIterator_pop :: "Path \<Rightarrow> bool \<times> Path" where
  "TreeIterator_pop path = (case dropWhile (\<lambda>c. \<not> is_Normal c) (rev path) of
     [] \<Rightarrow> (False, path) | _ # comps \<Rightarrow> (True, rev comps))"

fun strip_prefix :: "Path \<Rightarrow> Path \<Rightarrow> Path option" where
  "strip_prefix [] path = Some path"
| "strip_prefix (b # bs) [] = None"
| "strip_prefix (b # bs) (c # cs) = (if b = c then strip_prefix bs cs else None)"

text \<open>The loop over the missing directories: components are pushed up to the first that has a name.\<close>

fun push_missing :: "Path \<Rightarrow> Component list \<Rightarrow> Path \<times> OsStr option" where
  "push_missing path [] = (path, None)"
| "push_missing path (c # comps) =
    (let path = path_push path c in
     case comp_to_osstr c of Inr (Some p) \<Rightarrow> (path, Some p) | _ \<Rightarrow> push_missing path comps)"

definition ti_advance :: "'t TreeIterator \<Rightarrow> 't TreeIterator" where
  "ti_advance it = (case iter_next (ti_iter it) of (item, iter) \<Rightarrow> it\<lparr>ti_item := item, ti_iter := iter\<rparr>)"

text \<open>Mode 755 in octal digits is 493.\<close>

definition missing_dir :: "OsStr \<Rightarrow> Node rustic_result" where
  "missing_dir p = new_node p Dir (Metadata_default\<lparr>m_mode := Some 493\<rparr>)"

definition TreeIterator_next :: "'t TreeIterator \<Rightarrow> (('t, OsStr) TreeType option \<times> 't TreeIterator) rustic_result" where
  "TreeIterator_next it = (case ti_item it of
     None \<Rightarrow> (case TreeIterator_pop (ti_path it) of (popped, path) \<Rightarrow>
       Inr (if popped then Some EndTree else None, it\<lparr>ti_path := path\<rparr>))
   | Some (path, node, open) \<Rightarrow>
       (case strip_prefix (ti_path it) path of
          None \<Rightarrow> Inr (Some EndTree, it\<lparr>ti_path := snd (TreeIterator_pop (ti_path it))\<rparr>)
        | Some missing_dirs \<Rightarrow>
            (case push_missing (ti_path it) missing_dirs of
               (self_path, Some p) \<Rightarrow>
                 if is_dir node \<and> path = self_path
                 then Inr (Some (NewTree (path, node, node_name node)), ti_advance (it\<lparr>ti_path := self_path\<rparr>))
                 else bindR (missing_dir p) (\<lambda>n. Inr (Some (NewTree (self_path, n, p)), it\<lparr>ti_path := self_path\<rparr>))
             | (self_path, None) \<Rightarrow> Inr (Some (Other (path, node, open)), ti_advance (it\<lparr>ti_path := self_path\<rparr>)))))"

text \<open>All events of the iterator. Not returning is None.\<close>

partial_function (option) collect_types :: "'t TreeIterator \<Rightarrow> ('t, OsStr) TreeType list rustic_result option" where
  "collect_types it = (case TreeIterator_next it of
     Inl e \<Rightarrow> Some (Inl e)
   | Inr (None, it) \<Rightarrow> Some (Inr [])
   | Inr (Some x, it) \<Rightarrow> Option.bind (collect_types it) (\<lambda>r. Some (bindR r (\<lambda>xs. Inr (x # xs)))))"

section \<open>What the events say\<close>

text \<open>The directory a path names: its components that are names.\<close>

definition normals :: "Path \<Rightarrow> OsStr list" where
  "normals p = List.map_filter (\<lambda>c. case c of Normal s \<Rightarrow> Some s | _ \<Rightarrow> None) p"

text \<open>The next item is below a directory; a directory item, if it is the next, is not that directory itself.\<close>

definition leads_to :: "OsStr list \<Rightarrow> (Path \<times> Node \<times> 't) list \<Rightarrow> bool" where
  "leads_to names items = (case items of
     [] \<Rightarrow> False
   | (p, n, _) # _ \<Rightarrow> prefix names (normals p) \<and> (is_dir n \<longrightarrow> normals p \<noteq> names))"

text \<open>The events announce the items one after the other, each inside the directory of its path: \<open>names\<close> is
  what is open before the first event, and in the end everything is closed. Directories that no item announces
  are made up, each on the way to the next item.\<close>

inductive announces :: "OsStr list \<Rightarrow> ('t, OsStr) TreeType list \<Rightarrow> (Path \<times> Node \<times> 't) list \<Rightarrow> bool" where
  an_done: "announces [] [] []"
| an_item: "normals p = names \<Longrightarrow> announces names es items \<Longrightarrow> announces names (Other (p, n, x) # es) ((p, n, x) # items)"
| an_dir: "is_dir n \<Longrightarrow> normals p = names @ [s] \<Longrightarrow> announces (names @ [s]) es items
    \<Longrightarrow> announces names (NewTree (p, n, node_name n) # es) ((p, n, x) # items)"
| an_missing: "missing_dir s = Inr n \<Longrightarrow> normals p = names @ [s] \<Longrightarrow> leads_to (names @ [s]) items \<Longrightarrow> announces (names @ [s]) es items
    \<Longrightarrow> announces names (NewTree (p, n, s) # es) items"
| an_end: "announces names es items \<Longrightarrow> announces (names @ [s]) (EndTree # es) items"

lemma normals_simps [simp]:
  "normals [] = []" "normals (Normal s # p) = s # normals p" "normals (p @ q) = normals p @ normals q"
  "normals (map Normal ss) = ss"
  by (induction ss) (simp_all add: normals_def map_filter_def)

text \<open>Paths of one kind: all below the root, all below the current directory, or plain.\<close>

definition anchor :: "Path \<Rightarrow> bool" where
  "anchor a \<longleftrightarrow> (\<forall>c \<in> set a. \<not> is_Normal c) \<and> RootDir \<notin> set (tl a) \<and> CurDir \<notin> set (tl a)"

definition anchored :: "Path \<Rightarrow> Path \<Rightarrow> bool" where
  "anchored a p \<longleftrightarrow> (\<exists>names. p = a @ map Normal names)"

lemma normals_anchor: "anchor a \<Longrightarrow> normals a = []"
proof -
  assume "anchor a"
  then have "\<forall>c \<in> set a. \<not> is_Normal c" by (simp add: anchor_def)
  then show ?thesis
    by (induction a) (auto simp: normals_def map_filter_def is_Normal_def split: Component.splits)
qed

lemma comp_not_Normal: "\<not> is_Normal c \<Longrightarrow> comp_to_osstr c \<noteq> Inr (Some s)"
  by (simp add: comp_to_osstr_def is_Normal_def split: Component.splits)

lemma push_missing_normals:
  "push_missing path (map Normal names) = (case names of [] \<Rightarrow> (path, None) | s # _ \<Rightarrow> (path @ [Normal s], Some s))"
  by (cases names) (simp_all add: comp_to_osstr_def path_push_def)

lemma push_missing_plain:
  assumes "\<forall>c \<in> set a. \<not> is_Normal c" "RootDir \<notin> set a" "CurDir \<notin> set a"
  shows "push_missing path (a @ rest) = push_missing (path @ a) rest"
  using assms
proof (induction a arbitrary: path)
  case (Cons c a)
  then have "c = ParentDir" by (cases c) (simp_all add: is_Normal_def)
  with Cons show ?case by (simp add: comp_to_osstr_def path_push_def)
qed simp

lemma push_missing_anchor:
  assumes "anchor a" shows "push_missing [] (a @ rest) = push_missing a rest"
proof (cases a)
  case (Cons c b)
  with assms have "\<forall>c \<in> set b. \<not> is_Normal c" "RootDir \<notin> set b" "CurDir \<notin> set b" "\<not> is_Normal c"
    by (auto simp: anchor_def)
  moreover from this(4) have "path_push [] c = [c]" by (simp add: path_push_def split: Component.splits)
  ultimately show ?thesis using comp_not_Normal [of c] push_missing_plain [of b "[c]" rest]
    by (simp add: Cons Let_def split: sum.splits option.splits)
qed simp

lemma strip_prefix_append [simp]: "strip_prefix p (p @ q) = Some q"
  by (induction p) simp_all

lemma strip_prefix_Some: "strip_prefix p q = Some r \<longleftrightarrow> q = p @ r"
  by (induction p q rule: strip_prefix.induct) auto

lemma pop_snoc [simp]: "TreeIterator_pop (p @ [Normal s]) = (True, p)"
  by (simp add: TreeIterator_pop_def is_Normal_def)

lemma pop_anchor: "anchor a \<Longrightarrow> TreeIterator_pop a = (False, a)"
proof -
  assume "anchor a"
  then have "dropWhile (\<lambda>c. \<not> is_Normal c) (rev a) = []" by (simp add: anchor_def)
  then show ?thesis unfolding TreeIterator_pop_def by (simp only: list.case)
qed

text \<open>Where the iterator stands: the names of the open directories.\<close>

definition ti_open :: "Path \<Rightarrow> 't TreeIterator \<Rightarrow> OsStr list \<Rightarrow> bool" where
  "ti_open a it names \<longleftrightarrow> ti_path it = a @ map Normal names \<or> ti_path it = [] \<and> names = []"

definition ti_items :: "'t TreeIterator \<Rightarrow> (Path \<times> Node \<times> 't) list" where
  "ti_items it = (case ti_item it of None \<Rightarrow> [] | Some x \<Rightarrow> x # ti_iter it)"

definition ti_exact :: "'t TreeIterator \<Rightarrow> bool" where
  "ti_exact it \<longleftrightarrow> (ti_item it = None \<longrightarrow> ti_iter it = [])"

lemma ti_items_path [simp]: "ti_items (it\<lparr>ti_path := p\<rparr>) = ti_items it"
  by (cases "ti_item it") (simp_all add: ti_items_def)

lemma ti_advance_sel [simp]:
  "ti_item it = Some x \<Longrightarrow> ti_items (ti_advance it) = tl (ti_items it)" "ti_path (ti_advance it) = ti_path it" "ti_exact (ti_advance it)"
  by (auto simp: ti_advance_def ti_items_def iter_next_def ti_exact_def split: list.splits)

text \<open>The measure of one item: directories to close while the path is not yet below it, else those to open.\<close>

definition ti_work :: "'t TreeIterator \<Rightarrow> nat" where
  "ti_work it = (case ti_item it of
     None \<Rightarrow> length (ti_path it)
   | Some (p, _) \<Rightarrow> if strip_prefix (ti_path it) p = None then length (ti_path it) + length p + 1
       else length p - length (ti_path it))"

lemma prefix_names: "a @ map Normal xs = p @ r \<Longrightarrow> p = a @ map Normal ys \<Longrightarrow> \<exists>zs. r = map Normal zs \<and> xs = ys @ zs"
proof -
  assume "a @ map Normal xs = p @ r" "p = a @ map Normal ys"
  then have m: "map Normal xs = map Normal ys @ r" by simp
  then obtain us vs where "xs = us @ vs" "map Normal us = map Normal ys" "map Normal vs = r"
    unfolding map_eq_append_conv by metis
  moreover from this(2) have "us = ys" by (rule map_injective) (simp add: inj_def)
  ultimately show ?thesis by blast
qed

text \<open>One step: an event that fits, a state that fits the rest, and less to do.\<close>

definition ti_step :: "Path \<Rightarrow> OsStr list \<Rightarrow> 't TreeIterator \<Rightarrow> ('t, OsStr) TreeType \<Rightarrow> 't TreeIterator \<Rightarrow> bool" where
  "ti_step a names it e it' \<longleftrightarrow> ti_exact it' \<and>
     (\<exists>names'. ti_open a it' names' \<and>
       (\<forall>es. announces names' es (ti_items it') \<longrightarrow> announces names (e # es) (ti_items it))) \<and>
     (length (ti_items it') < length (ti_items it) \<or> ti_items it' = ti_items it \<and> ti_work it' < ti_work it)"

lemma next_none:
  assumes "anchor a" "ti_exact it" "ti_open a it names" "ti_item it = None"
  shows "(\<exists>it'. TreeIterator_next it = Inr (None, it')) \<and> names = [] \<and> ti_items it = [] \<or>
    (\<exists>e it'. TreeIterator_next it = Inr (Some e, it') \<and> ti_step a names it e it')"
proof (cases names rule: rev_cases)
  case Nil
  then have "TreeIterator_pop (ti_path it) = (False, ti_path it)"
    using assms pop_anchor [of a] by (auto simp: ti_open_def TreeIterator_pop_def)
  then show ?thesis using assms Nil by (simp add: TreeIterator_next_def ti_items_def)
next
  case (snoc ns s)
  then have p: "ti_path it = (a @ map Normal ns) @ [Normal s]" using assms(3) by (simp add: ti_open_def)
  let ?it = "it\<lparr>ti_path := a @ map Normal ns\<rparr>"
  have "TreeIterator_next it = Inr (Some EndTree, ?it)"
    using assms(4) by (simp only: TreeIterator_next_def p pop_snoc) simp
  moreover have "ti_step a names it EndTree ?it"
    using assms(2,4) p snoc by (auto simp: ti_step_def ti_exact_def ti_open_def ti_items_def ti_work_def intro: an_end)
  ultimately show ?thesis by blast
qed

lemma next_some:
  assumes "anchor a" "ti_exact it" "ti_open a it names" "ti_item it = Some (p, n, x)" "anchored a p"
  shows "\<exists>e it'. TreeIterator_next it = Inr (Some e, it') \<and> ti_step a names it e it'"
proof (cases "strip_prefix (ti_path it) p")
  case None
  then have "ti_path it \<noteq> []" by auto
  then have pa: "ti_path it = a @ map Normal names" using assms(3) by (simp add: ti_open_def)
  have "names \<noteq> []" using None assms(5) unfolding pa anchored_def by auto
  then obtain ns s where ns: "names = ns @ [s]" using rev_exhaust by metis
  with pa have p: "ti_path it = (a @ map Normal ns) @ [Normal s]" by simp
  let ?it = "it\<lparr>ti_path := a @ map Normal ns\<rparr>"
  have "TreeIterator_next it = Inr (Some EndTree, ?it)"
    using None assms(4) by (simp only: TreeIterator_next_def p pop_snoc) simp
  moreover have "ti_step a names it EndTree ?it"
    using assms(2,4) None p ns by (auto simp: ti_step_def ti_exact_def ti_open_def ti_items_def ti_work_def intro: an_end)
  ultimately show ?thesis by blast
next
  case (Some missing)
  then have pm: "p = ti_path it @ missing" by (simp add: strip_prefix_Some)
  obtain ps where ps: "p = a @ map Normal ps" using assms(5) by (auto simp: anchored_def)
  have "\<exists>ms. push_missing (ti_path it) missing = push_missing (a @ map Normal names) (map Normal ms) \<and> ps = names @ ms"
  proof (cases "ti_path it = a @ map Normal names")
    case True
    from prefix_names [OF _ True, of ps missing] pm ps True show ?thesis by auto
  next
    case False
    then show ?thesis using assms(1,3) pm ps push_missing_anchor [of a "map Normal ps"]
      by (intro exI [of _ ps]) (simp add: ti_open_def)
  qed
  then obtain ms where ms: "push_missing (ti_path it) missing = push_missing (a @ map Normal names) (map Normal ms)"
    "ps = names @ ms" by blast
  have np: "normals p = names @ ms" using ps ms(2) normals_anchor [OF assms(1)] by simp
  have items: "ti_items it = (p, n, x) # ti_iter it" using assms(4) by (simp add: ti_items_def)
  show ?thesis
  proof (cases ms)
    case Nil
    let ?it = "ti_advance (it\<lparr>ti_path := a @ map Normal names\<rparr>)"
    have "TreeIterator_next it = Inr (Some (Other (p, n, x)), ?it)"
      using assms(4) Some ms Nil by (simp add: TreeIterator_next_def push_missing_normals)
    moreover have "ti_step a names it (Other (p, n, x)) ?it"
      using assms(4) np Nil by (auto simp: ti_step_def ti_open_def items intro!: exI [of _ names] an_item)
    ultimately show ?thesis by blast
  next
    case (Cons s rest)
    let ?path = "a @ map Normal (names @ [s])"
    have push: "push_missing (ti_path it) missing = (?path, Some s)" using ms(1) push_missing_normals [of "a @ map Normal names" ms] Cons by (simp del: push_missing.simps)
    show ?thesis
    proof (cases "is_dir n \<and> p = ?path")
      case True
      let ?it = "ti_advance (it\<lparr>ti_path := ?path\<rparr>)"
      have "TreeIterator_next it = Inr (Some (NewTree (p, n, node_name n)), ?it)"
        using assms(4) Some push True by (simp add: TreeIterator_next_def)
      moreover have "normals p = names @ [s]" using True normals_anchor [OF assms(1)] by simp
      moreover from this have "ti_step a names it (NewTree (p, n, node_name n)) ?it"
        using assms(4) True by (auto simp: ti_step_def ti_open_def items intro!: exI [of _ "names @ [s]"] an_dir)
      ultimately show ?thesis by blast
    next
      case False
      obtain m where m: "missing_dir s = Inr m" using new_node_ok [of s] by (fastforce simp: missing_dir_def)
      let ?it = "it\<lparr>ti_path := ?path\<rparr>"
      have "TreeIterator_next it = Inr (Some (NewTree (?path, m, s)), ?it)"
        using assms(4) Some push m by (simp add: TreeIterator_next_def) (use False in auto)
      moreover have "strip_prefix ?path p = Some (map Normal rest)" using ps ms(2) Cons by (simp add: strip_prefix_Some)
      moreover have len: "length p = length a + length names + 1 + length rest" "length (ti_path it) \<le> length a + length names"
        using ps ms(2) Cons assms(3) by (auto simp: ti_open_def)
      moreover have "leads_to (names @ [s]) (ti_items it)"
        using False normals_anchor [OF assms(1)] ps ms(2) Cons by (auto simp: items leads_to_def)
      moreover from calculation have "ti_step a names it (NewTree (?path, m, s)) ?it"
        using assms(2,4) Some m normals_anchor [OF assms(1)] pm ps ms(2) Cons unfolding ti_step_def
        by (intro conjI exI [of _ "names @ [s]"]) (auto simp: ti_exact_def ti_open_def ti_items_def ti_work_def intro!: an_missing)
      ultimately show ?thesis by blast
    qed
  qed
qed

lemma next_step:
  assumes "anchor a" "ti_exact it" "ti_open a it names" "\<forall>(p, n, x) \<in> set (ti_items it). anchored a p"
  shows "(\<exists>it'. TreeIterator_next it = Inr (None, it')) \<and> names = [] \<and> ti_items it = [] \<or>
    (\<exists>e it'. TreeIterator_next it = Inr (Some e, it') \<and> ti_step a names it e it')"
proof (cases "ti_item it")
  case None
  with next_none assms(1-3) show ?thesis by blast
next
  case (Some y)
  then obtain p n x where "ti_item it = Some (p, n, x)" by (cases y) auto
  with next_some [OF assms(1-3) this] assms(4) show ?thesis by (auto simp: ti_items_def)
qed

lemma next_sub: "TreeIterator_next it = Inr (e, it') \<Longrightarrow> set (ti_items it') \<subseteq> set (ti_items it)"
  by (auto simp: TreeIterator_next_def ti_items_def ti_advance_def iter_next_def bindR_eq_Inr_iff
      split: option.splits prod.splits if_splits list.splits)

lemma collect_step: "TreeIterator_next it = Inr (Some e, it') \<Longrightarrow> collect_types it' = Some (Inr es) \<Longrightarrow> collect_types it = Some (Inr (e # es))"
  by (subst collect_types.simps) simp

lemma collect_announces:
  assumes "anchor a"
  shows "ti_exact it \<Longrightarrow> ti_open a it names \<Longrightarrow> \<forall>(p, n, x) \<in> set (ti_items it). anchored a p
    \<Longrightarrow> \<exists>es. collect_types it = Some (Inr es) \<and> announces names es (ti_items it)"
proof (induction "(length (ti_items it), ti_work it)" arbitrary: it names rule: wf_induct_rule [OF wf_lex_prod [OF wf_less_than wf_less_than]])
  case (1 it)
  from next_step [OF assms 1(2-4)] show ?case
  proof (elim disjE exE conjE)
    fix it' assume "TreeIterator_next it = Inr (None, it')" "names = []" "ti_items it = []"
    then show ?thesis by (subst collect_types.simps) (simp add: an_done)
  next
    fix e it' assume n: "TreeIterator_next it = Inr (Some e, it')" and st: "ti_step a names it e it'"
    from st obtain names' where n': "ti_exact it'" "ti_open a it' names'"
      "\<forall>es. announces names' es (ti_items it') \<longrightarrow> announces names (e # es) (ti_items it)"
      "length (ti_items it') < length (ti_items it) \<or> ti_items it' = ti_items it \<and> ti_work it' < ti_work it"
      unfolding ti_step_def by blast
    have sub: "set (ti_items it') \<subseteq> set (ti_items it)"
      using next_sub [OF n] .
    have "((length (ti_items it'), ti_work it'), (length (ti_items it), ti_work it)) \<in> less_than <*lex*> less_than"
      using n'(4) by auto
    from 1(1) [OF this n'(1,2)] 1(4) sub obtain es where "collect_types it' = Some (Inr es)" "announces names' es (ti_items it')"
      by blast
    then show ?thesis using collect_step [OF n] n'(3) by blast
  qed
qed

lemma tree_announced:
  assumes "anchor a" "\<forall>(p, n, x) \<in> set items. anchored a p"
  shows "\<exists>es. collect_types (TreeIterator_new items) = Some (Inr es) \<and> announces [] es items"
proof -
  let ?it = "TreeIterator_new items"
  have it: "ti_items ?it = items" "ti_exact ?it" "ti_open a ?it []"
    by (auto simp: TreeIterator_new_def iter_next_def ti_items_def ti_exact_def ti_open_def split: list.splits)
  from collect_announces [OF assms(1) it(2,3)] assms(2) show ?thesis unfolding it(1) by blast
qed

text \<open>C17. The iterator turns any sequence of entries into well nested directories: it ends, every entry is announced
  exactly once, in order and inside the directory of its path, directories that were not listed are made up on the
  way to the next entry, and
  every directory that is opened is closed again. The paths must be of one kind: all below the root, all plain, or
  all below the current directory.\<close>

theorem tree_iterator_announces:
  assumes "anchor a" "\<forall>(p, n, x) \<in> set items. anchored a p"
  shows "\<exists>es. collect_types (TreeIterator_new items) = Some (Inr es) \<and> announces [] es items"
  by (rule tree_announced [OF assms])

text \<open>The instance: a file without its directory, a listed directory with a file in it, and a file beside them.\<close>

definition demo_node :: "rstr \<Rightarrow> NodeType \<Rightarrow> Node" where
  "demo_node name t = \<lparr>n_name = name, n_type = t, n_meta = Metadata_default, n_content = None, n_subtree = None\<rparr>"

definition demo_entries :: "(Path \<times> Node \<times> Path option) list" where
  "demo_entries =
    [([RootDir, Normal [97]], demo_node [120] File, Some [RootDir, Normal [97], Normal [120]]),
     ([RootDir, Normal [98]], demo_node [98] Dir, None),
     ([RootDir, Normal [98]], demo_node [121] File, Some [RootDir, Normal [98], Normal [121]])]"

lemma demo_anchored: "\<forall>(p, n, x) \<in> set demo_entries. anchored [RootDir] p"
proof -
  have "anchored [RootDir] [RootDir, Normal s]" for s unfolding anchored_def by (rule exI [of _ "[s]"]) simp
  then show ?thesis by (simp add: demo_entries_def)
qed

theorem tree_iterator_announces_witness:
  "\<exists>es. collect_types (TreeIterator_new demo_entries) = Some (Inr es) \<and> announces [] es demo_entries"
  by (rule tree_iterator_announces [of "[RootDir]", OF _ demo_anchored]) (simp add: anchor_def is_Normal_def)

section \<open>Where it does not hold\<close>

lemma collect_forever:
  assumes "\<forall>it. B it \<longrightarrow> (\<exists>e it'. TreeIterator_next it = Inr (Some e, it') \<and> B it')" "B it"
  shows "collect_types it = None"
proof (rule ccontr)
  assume "collect_types it \<noteq> None"
  then obtain y where "collect_types it = Some y" by blast
  then have "\<not> B it"
  proof (rule collect_types.raw_induct [rotated])
    fix f it y
    assume IH: "\<And>it y. f it = Some y \<Longrightarrow> \<not> B it"
      and f: "(case TreeIterator_next it of Inl e \<Rightarrow> Some (Inl e) | Inr (None, it) \<Rightarrow> Some (Inr [])
        | Inr (Some x, it) \<Rightarrow> Option.bind (f it) (\<lambda>r. Some (bindR r (\<lambda>xs. Inr (x # xs))))) = Some y"
    show "\<not> B it"
    proof
      assume "B it"
      with assms(1) obtain e it' where n: "TreeIterator_next it = Inr (Some e, it')" "B it'" by blast
      with f obtain r where "f it' = Some r" by (auto simp: bind_eq_Some_conv)
      with IH n(2) show False by blast
    qed
  qed
  with assms(2) show False by blast
qed

lemma root_anchor: "anchor [RootDir]"
  by (simp add: anchor_def is_Normal_def)

lemma mixed_second:
  assumes "ti_exact it" "ti_item it = Some (map Normal qs, m, y)" "ti_path it = RootDir # map Normal names"
  shows "\<exists>e it'. TreeIterator_next it = Inr (Some e, it') \<and> ti_exact it' \<and> ti_item it' = Some (map Normal qs, m, y) \<and>
    (\<exists>names. ti_path it' = RootDir # map Normal names)"
proof -
  have "strip_prefix (ti_path it) (map Normal qs) = None" by (cases qs) (simp_all add: assms(3))
  moreover have "\<exists>ns. snd (TreeIterator_pop (ti_path it)) = RootDir # map Normal ns"
  proof (cases names rule: rev_cases)
    case Nil
    then show ?thesis using pop_anchor [OF root_anchor] assms(3) by simp
  next
    case (snoc ns s)
    then show ?thesis using pop_snoc [of "RootDir # map Normal ns" s] assms(3) by auto
  qed
  ultimately show ?thesis using assms(1,2) by (auto simp: TreeIterator_next_def ti_exact_def)
qed

lemma root_path:
  assumes "strip_prefix (ti_path it) (RootDir # p) = Some missing" "push_missing (ti_path it) missing = (path, r)"
  shows "path \<noteq> []"
proof -
  have "path_push q c \<noteq> []" for q c by (simp add: path_push_def split: Component.splits)
  then have push: "push_missing q cs = (path, r) \<Longrightarrow> q \<noteq> [] \<or> cs \<noteq> [] \<Longrightarrow> path \<noteq> []" for q cs
    by (induction q cs rule: push_missing.induct) (auto simp: Let_def split: sum.splits option.splits)
  show ?thesis using push [OF assms(2)] assms(1) by (cases "ti_path it") auto
qed

lemma mixed_first:
  assumes "ti_exact it" "ti_item it = Some (RootDir # map Normal ps, n, x)" "ti_open [RootDir] it names"
    and "ti_iter it = (map Normal qs, m, y) # rest"
  shows "\<exists>e it'. TreeIterator_next it = Inr (Some e, it') \<and> ti_exact it' \<and>
    (ti_item it' = Some (RootDir # map Normal ps, n, x) \<and> (\<exists>names. ti_open [RootDir] it' names) \<and> ti_iter it' = (map Normal qs, m, y) # rest \<or>
     ti_item it' = Some (map Normal qs, m, y) \<and> (\<exists>names. ti_path it' = RootDir # map Normal names))"
proof -
  have "anchored [RootDir] (RootDir # map Normal ps)" unfolding anchored_def by auto
  from next_some [OF root_anchor assms(1,3,2) this] obtain e it' where n: "TreeIterator_next it = Inr (Some e, it')"
    and st: "ti_step [RootDir] names it e it'" by blast
  have "ti_item it' = ti_item it \<and> ti_iter it' = ti_iter it \<or>
      ti_item it' = Some (map Normal qs, m, y) \<and> ti_path it' \<noteq> []"
    using n assms(2,4) root_path [of it "map Normal ps"] by (auto simp: TreeIterator_next_def ti_advance_def iter_next_def bindR_eq_Inr_iff
      split: option.splits prod.splits if_splits)
  then show ?thesis using n st assms(2,4) unfolding ti_step_def ti_open_def by fastforce
qed

text \<open>Entries below the root mixed with relative ones keep the iterator busy forever: once everything below the
  root is closed, it returns the end of a directory again and again, because the root itself cannot be popped.\<close>

theorem mixed_paths_never_end:
  "collect_types (TreeIterator_new ((RootDir # map Normal ps, n, x) # (map Normal qs, m, y) # rest)) = None"
proof (rule collect_forever [where B = "\<lambda>it. ti_exact it \<and>
    (ti_item it = Some (RootDir # map Normal ps, n, x) \<and> (\<exists>names. ti_open [RootDir] it names) \<and> ti_iter it = (map Normal qs, m, y) # rest \<or>
     ti_item it = Some (map Normal qs, m, y) \<and> (\<exists>names. ti_path it = RootDir # map Normal names))"])
  let ?x = "(RootDir # map Normal ps, n, x)" and ?y = "(map Normal qs, m, y)"
  show "\<forall>it. ti_exact it \<and> (ti_item it = Some ?x \<and> (\<exists>names. ti_open [RootDir] it names) \<and> ti_iter it = ?y # rest \<or>
      ti_item it = Some ?y \<and> (\<exists>names. ti_path it = RootDir # map Normal names)) \<longrightarrow>
    (\<exists>e it'. TreeIterator_next it = Inr (Some e, it') \<and> ti_exact it' \<and> (ti_item it' = Some ?x \<and> (\<exists>names. ti_open [RootDir] it' names) \<and>
       ti_iter it' = ?y # rest \<or> ti_item it' = Some ?y \<and> (\<exists>names. ti_path it' = RootDir # map Normal names)))"
    by (meson mixed_first mixed_second)
qed (simp add: TreeIterator_new_def iter_next_def ti_exact_def ti_open_def)

text \<open>Names that are no unicode are changed: \<open>File_new\<close> replaces what it cannot decode, so two files of a directory can
  end up under one name, which is the name of neither.\<close>

lemma lossy_names_collide:
  "\<exists>f g. File_new [Normal [0xFF]] File m = Some f \<and> File_new [Normal [0xFE]] File m = Some g \<and> f_path f \<noteq> f_path g \<and>
     f_name f = f_name g \<and> str_bytes (f_name f) \<noteq> [0xFF]"
proof -
  have "from_utf8_lossy [b] = [0xFFFD]" if "b \<in> {0xFF, 0xFE}" for b :: u8
    using that by (subst from_utf8_lossy.simps) (auto simp: utf8_next_def from_utf8_lossy.simps)
  then show ?thesis by (simp add: File_new_def path_file_name_def str_bytes_def encode_utf8_def)
qed

end
