(* ===== verification/Parent.thy ===== *)
theory Parent
  imports TreeIter
begin

text \<open>
  The parent snapshots of a backup (crates/core/src/archiver/parent.rs): while the source is walked, the trees of
  the parents are walked along with it. Each open tree has a position that only moves forward, so that all
  lookups in it together read it once. Loading a tree is an argument, as is the index.
\<close>

section \<open>State and results\<close>

datatype 't ParentResult = PMatched 't | PNotFound | PNotMatched

fun ParentResult_map :: "('t \<Rightarrow> 'r) \<Rightarrow> 't ParentResult \<Rightarrow> 'r ParentResult" where
  "ParentResult_map f (PMatched t) = PMatched (f t)"
| "ParentResult_map f PNotFound = PNotFound"
| "ParentResult_map f PNotMatched = PNotMatched"

record Parent =
  pa_tree_ids :: "TreeId list"
  pa_trees :: "(Tree \<times> nat) list"
  pa_stack :: "(Tree \<times> nat) list list"
  pa_ignore_ctime :: bool
  pa_ignore_inode :: bool

datatype TreeStackEmptyError = TreeStackEmptyError

text \<open>Trees that cannot be loaded are left out (with a warning).\<close>

definition load_ok :: "(TreeId \<Rightarrow> Tree rustic_result) \<Rightarrow> TreeId \<Rightarrow> (Tree \<times> TreeId) option" where
  "load_ok load i = (case load i of Inr t \<Rightarrow> Some (t, i) | Inl _ \<Rightarrow> None)"

definition Parent_new :: "(TreeId \<Rightarrow> Tree rustic_result) \<Rightarrow> TreeId list \<Rightarrow> bool \<Rightarrow> bool \<Rightarrow> Parent" where
  "Parent_new load tree_id ignore_ctime ignore_inode =
     (let loaded = List.map_filter (load_ok load) tree_id in
      \<lparr>pa_tree_ids = map snd loaded, pa_trees = map (\<lambda>(t, _). (t, 0)) loaded, pa_stack = [],
       pa_ignore_ctime = ignore_ctime, pa_ignore_inode = ignore_inode\<rparr>)"

section \<open>Looking up a name\<close>

text \<open>The loop of \<^verbatim>\<open>p_node\<close> in one tree.\<close>

function scan_node :: "OsStr \<Rightarrow> Node list \<Rightarrow> nat \<Rightarrow> nat \<times> Node option" where
  "scan_node name p_nodes idx =
    (if idx < length p_nodes then
       case ord_cmp (node_name (p_nodes ! idx)) name of
         Less \<Rightarrow> scan_node name p_nodes (Suc idx)
       | Equal \<Rightarrow> (idx, Some (p_nodes ! idx))
       | Greater \<Rightarrow> (idx, None)
     else (idx, None))"
  by pat_completeness auto
termination by (relation "measure (\<lambda>(name, p_nodes, idx). length p_nodes - idx)") auto

declare scan_node.simps [simp del]

definition p_node_in :: "OsStr \<Rightarrow> Tree \<times> nat \<Rightarrow> (Tree \<times> nat) \<times> Node option" where
  "p_node_in name ti = (case ti of (tree, idx) \<Rightarrow>
     (case scan_node name (t_nodes tree) idx of (idx, r) \<Rightarrow> ((tree, idx), r)))"

definition unchanged :: "bool \<Rightarrow> bool \<Rightarrow> Node \<Rightarrow> Node \<Rightarrow> bool" where
  "unchanged ignore_ctime ignore_inode node p_node =
     (let p_meta = n_meta p_node; meta = n_meta node;
          match_ctime = ignore_ctime \<or> (case (m_ctime p_meta, m_ctime meta) of (Some x, Some y) \<Rightarrow> x = y | _ \<Rightarrow> True);
          match_inode = \<not> ignore_inode \<or> m_inode p_meta = 0 \<or> m_inode meta = 0 \<or> m_inode p_meta = m_inode meta
      in n_type p_node = n_type node \<and> m_size p_meta = m_size meta \<and> m_mtime p_meta = m_mtime meta \<and> match_ctime \<and> match_inode)"

text \<open>The nodes are produced on demand: \<^verbatim>\<open>find\<close> stops at the first that matches, and the positions in the trees
  behind it do not move.\<close>

fun find_parent :: "(Node \<Rightarrow> bool) \<Rightarrow> OsStr \<Rightarrow> bool \<Rightarrow> (Tree \<times> nat) list \<Rightarrow> Node ParentResult \<times> (Tree \<times> nat) list" where
  "find_parent P name seen [] = (if seen then PNotMatched else PNotFound, [])"
| "find_parent P name seen (ti # trees) = (case p_node_in name ti of (ti, r) \<Rightarrow>
     (case r of
        Some p_node \<Rightarrow>
          if P p_node then (PMatched p_node, ti # trees)
          else (case find_parent P name True trees of (res, trees) \<Rightarrow> (res, ti # trees))
      | None \<Rightarrow> (case find_parent P name seen trees of (res, trees) \<Rightarrow> (res, ti # trees))))"

definition is_parent :: "Node \<Rightarrow> OsStr \<Rightarrow> Parent \<Rightarrow> Node ParentResult \<times> Parent" where
  "is_parent node name self =
     (case find_parent (unchanged (pa_ignore_ctime self) (pa_ignore_inode self) node) name False (pa_trees self) of
        (res, trees) \<Rightarrow> (res, self\<lparr>pa_trees := trees\<rparr>))"

section \<open>Directories\<close>

definition subtree_of :: "Node option \<Rightarrow> TreeId option" where
  "subtree_of r = Option.bind r n_subtree"

definition set_dir :: "(TreeId \<Rightarrow> Tree rustic_result) \<Rightarrow> OsStr \<Rightarrow> Parent \<Rightarrow> Parent" where
  "set_dir load name self =
     (let scanned = map (p_node_in name) (pa_trees self);
          new_ids = remdups_adj (sort (List.map_filter (\<lambda>(_, r). subtree_of r) scanned));
          new_tree = map (\<lambda>(t, _). (t, 0)) (List.map_filter (load_ok load) new_ids)
      in self\<lparr>pa_trees := new_tree, pa_stack := map fst scanned # pa_stack self\<rparr>)"

definition finish_dir :: "Parent \<Rightarrow> TreeStackEmptyError + Parent" where
  "finish_dir self = (case pa_stack self of
     [] \<Rightarrow> Inl TreeStackEmptyError
   | tree # stack \<Rightarrow> Inr (self\<lparr>pa_trees := tree, pa_stack := stack\<rparr>))"

definition Parent_tree_id :: "Parent \<Rightarrow> TreeId option" where
  "Parent_tree_id self = (case pa_tree_ids self of [] \<Rightarrow> None | i # _ \<Rightarrow> Some i)"

type_synonym 'o ItemWithParent = "('o \<times> unit ParentResult, TreeId ParentResult) TreeType"

text \<open>The outer error is the panic of \<^verbatim>\<open>unwrap\<close> on a matched directory without a subtree.\<close>

definition matched_subtree :: "Node ParentResult \<Rightarrow> TreeId ParentResult rustic_result" where
  "matched_subtree r = (case r of
     PMatched n \<Rightarrow> (case n_subtree n of
       Some i \<Rightarrow> Inr (PMatched i) | None \<Rightarrow> Inl (Panic ''called `Option::unwrap()` on a `None` value''))
   | PNotFound \<Rightarrow> Inr PNotFound | PNotMatched \<Rightarrow> Inr PNotMatched)"

definition take_content :: "(DataId \<Rightarrow> bool) \<Rightarrow> Node ParentResult \<Rightarrow> Node \<Rightarrow> unit ParentResult \<times> Node" where
  "take_content known parent node = (case parent of
     PMatched p_node \<Rightarrow>
       if \<forall>i \<in> set (concat (case n_content p_node of None \<Rightarrow> [] | Some ids \<Rightarrow> [ids])). known i
       then (PMatched (), node\<lparr>n_content := n_content p_node\<rparr>) else (PNotFound, node)
   | r \<Rightarrow> (ParentResult_map (\<lambda>_. ()) r, node))"

definition Parent_process ::
    "(TreeId \<Rightarrow> Tree rustic_result) \<Rightarrow> (DataId \<Rightarrow> bool) \<Rightarrow> ('o, OsStr) TreeType \<Rightarrow> Parent
     \<Rightarrow> ((TreeStackEmptyError + 'o ItemWithParent) \<times> Parent) rustic_result" where
  "Parent_process load known item self = (case item of
     NewTree (path, node, tree) \<Rightarrow>
       (case is_parent node tree self of (r, self) \<Rightarrow>
        bindR (matched_subtree r) (\<lambda>parent_result. Inr (Inr (NewTree (path, node, parent_result)), set_dir load tree self)))
   | EndTree \<Rightarrow> (case finish_dir self of Inl e \<Rightarrow> Inr (Inl e, self) | Inr self \<Rightarrow> Inr (Inr EndTree, self))
   | Other (path, node, open) \<Rightarrow>
       (case is_parent node (node_name node) self of (r, self) \<Rightarrow>
        case take_content known r node of (parent, node) \<Rightarrow> Inr (Inr (Other (path, node, (open, parent))), self)))"

section \<open>The walk finds what a search would find\<close>

definition named :: "OsStr \<Rightarrow> Tree \<Rightarrow> Node option" where
  "named name t = List.find (\<lambda>n. node_name n = name) (t_nodes t)"

text \<open>A tree is ready for a name when its nodes are sorted by their real names and none that was passed is needed
  again.\<close>

definition ready :: "OsStr \<Rightarrow> Tree \<times> nat \<Rightarrow> bool" where
  "ready name ti \<longleftrightarrow> sorted_wrt (<) (map node_name (t_nodes (fst ti))) \<and>
     (\<forall>n \<in> set (take (snd ti) (t_nodes (fst ti))). node_name n < name)"

lemma find_prefix: "\<forall>n \<in> set xs. \<not> P n \<Longrightarrow> List.find P (xs @ ys) = List.find P ys"
  by (induction xs) simp_all

lemma find_here: "xs = as @ y # bs \<Longrightarrow> \<forall>n \<in> set as. \<not> P n \<Longrightarrow> P y \<Longrightarrow> List.find P xs = Some y"
  by (simp add: find_prefix)

lemma scan_node_spec:
  assumes "sorted_wrt (<) (map node_name ns)" "\<forall>n \<in> set (take idx ns). node_name n < name"
  shows "snd (scan_node name ns idx) = List.find (\<lambda>n. node_name n = name) ns \<and>
    (\<forall>n \<in> set (take (fst (scan_node name ns idx)) ns). node_name n < name)"
  using assms
proof (induction name ns idx rule: scan_node.induct)
  case (1 name ns idx)
  show ?case
  proof (cases "idx < length ns")
    case False
    with 1(3) have "\<forall>n \<in> set ns. node_name n < name" by simp
    then have "List.find (\<lambda>n. node_name n = name) ns = None" by (auto simp: find_None_iff)
    then show ?thesis using 1(3) False by (simp add: scan_node.simps [of name ns idx])
  next
    case True
    note split = id_take_nth_drop [OF True]
    have pre: "\<forall>n \<in> set (take idx ns). node_name n \<noteq> name" using 1(3) by auto
    show ?thesis
    proof (cases "ord_cmp (node_name (ns ! idx)) name")
      case Less
      then have "\<forall>n \<in> set (take (Suc idx) ns). node_name n < name" using 1(3) True by (auto simp: take_Suc_conv_app_nth)
      from 1(1) [OF True Less 1(2) this] show ?thesis using True by (simp add: scan_node.simps [of name ns idx] Less)
    next
      case Equal
      then have "List.find (\<lambda>n. node_name n = name) ns = Some (ns ! idx)" by (intro find_here [OF split pre]) simp
      then show ?thesis using True 1(3) by (simp add: scan_node.simps [of name ns idx] Equal del: ord_cmp_simps)
    next
      case Greater
      have "sorted_wrt (<) (map node_name (take idx ns @ ns ! idx # drop (Suc idx) ns))" using 1(2) split by simp
      then have "\<forall>n \<in> set (drop (Suc idx) ns). node_name (ns ! idx) < node_name n" by (simp add: sorted_wrt_append)
      then have "\<forall>n \<in> set (ns ! idx # drop (Suc idx) ns). node_name n \<noteq> name" using Greater by fastforce
      with pre have "\<forall>n \<in> set ns. node_name n \<noteq> name" by (subst split) auto
      then have "List.find (\<lambda>n. node_name n = name) ns = None" by (simp add: find_None_iff)
      then show ?thesis using True 1(3) by (simp add: scan_node.simps [of name ns idx] Greater)
    qed
  qed
qed

lemma p_node_in_spec:
  assumes "ready name ti" "p_node_in name ti = (ti', r)"
  shows "r = named name (fst ti) \<and> fst ti' = fst ti \<and> ready name ti'"
  using scan_node_spec [of "t_nodes (fst ti)" "snd ti" name] assms
  by (auto simp: ready_def p_node_in_def named_def split: prod.splits)

lemma ready_mono: "ready name ti \<Longrightarrow> name \<le> name' \<Longrightarrow> ready name' ti"
  unfolding ready_def using less_le_trans by blast

text \<open>What a search through all trees answers.\<close>

definition parent_spec :: "(Node \<Rightarrow> bool) \<Rightarrow> OsStr \<Rightarrow> bool \<Rightarrow> Tree list \<Rightarrow> Node ParentResult" where
  "parent_spec P name seen trees =
     (let found = List.map_filter (named name) trees in
      case List.find P found of
        Some n \<Rightarrow> PMatched n | None \<Rightarrow> if seen \<or> found \<noteq> [] then PNotMatched else PNotFound)"

lemma find_parent_spec:
  "\<forall>ti \<in> set trees. ready name ti \<Longrightarrow> find_parent P name seen trees = (r, trees') \<Longrightarrow>
   r = parent_spec P name seen (map fst trees) \<and> map fst trees' = map fst trees \<and> (\<forall>ti \<in> set trees'. ready name ti)"
proof (induction trees arbitrary: seen r trees')
  case (Cons ti trees)
  obtain ti' m where p: "p_node_in name ti = (ti', m)" by (cases "p_node_in name ti")
  from p_node_in_spec [OF _ p] Cons.prems(1) have ti: "m = named name (fst ti)" "fst ti' = fst ti" "ready name ti'" by simp_all
  show ?case
  proof (cases "\<exists>n. m = Some n \<and> P n")
    case True
    then show ?thesis using Cons.prems p ti by (auto simp: parent_spec_def map_filter_def)
  next
    case False
    let ?seen = "seen \<or> m \<noteq> None"
    obtain r2 trees2 where f: "find_parent P name ?seen trees = (r2, trees2)" by (cases "find_parent P name ?seen trees")
    then have "r = r2 \<and> trees' = ti' # trees2" using Cons.prems(2) p False by (auto split: option.splits)
    moreover from Cons.IH [OF _ f] Cons.prems(1) have
      "r2 = parent_spec P name ?seen (map fst trees) \<and> map fst trees2 = map fst trees \<and> (\<forall>ti \<in> set trees2. ready name ti)" by simp
    moreover have "parent_spec P name ?seen (map fst trees) = parent_spec P name seen (map fst (ti # trees))"
      using False ti(1) by (auto simp: parent_spec_def map_filter_def Let_def split: option.splits)
    ultimately show ?thesis using ti by auto
  qed
qed (simp add: parent_spec_def map_filter_def)

text \<open>C18. Walking along finds what searching would find: as long as the trees of the parents are sorted by name and
  names are asked in increasing order, a lookup answers with the first unchanged node of that name in any of the
  trees, says whether there was a node of that name at all, and stays ready for the names that come later.\<close>

theorem is_parent_searches:
  assumes "\<forall>ti \<in> set (pa_trees self). ready name ti" "is_parent node name self = (r, self')"
  shows "r = parent_spec (unchanged (pa_ignore_ctime self) (pa_ignore_inode self) node) name False (map fst (pa_trees self)) \<and>
    map fst (pa_trees self') = map fst (pa_trees self) \<and>
    (\<forall>name'. name \<le> name' \<longrightarrow> (\<forall>ti \<in> set (pa_trees self'). ready name' ti))"
proof -
  obtain trees' where f: "find_parent (unchanged (pa_ignore_ctime self) (pa_ignore_inode self) node) name False (pa_trees self) = (r, trees')"
    and self': "self' = self\<lparr>pa_trees := trees'\<rparr>" using assms(2) by (auto simp: is_parent_def split: prod.splits)
  have sel: "pa_trees self' = trees'" by (simp add: self')
  from find_parent_spec [OF assms(1) f] have "r = parent_spec (unchanged (pa_ignore_ctime self) (pa_ignore_inode self) node) name False (map fst (pa_trees self))"
    "map fst trees' = map fst (pa_trees self)" and rd: "\<forall>ti \<in> set trees'. ready name ti" by blast+
  moreover have "\<forall>name'. name \<le> name' \<longrightarrow> (\<forall>ti \<in> set trees'. ready name' ti)" using rd ready_mono by blast
  ultimately show ?thesis unfolding sel by blast
qed

theorem is_parent_searches_witness:
  "fst (is_parent (demo_node [98] File) [98] (Parent_new (\<lambda>_. Inr \<lparr>t_nodes = [demo_node [97] File, demo_node [98] File]\<rparr>) [[1]] False False))
     = PMatched (demo_node [98] File)"
proof -
  let ?load = "\<lambda>_. Inr \<lparr>t_nodes = [demo_node [97] File, demo_node [98] File]\<rparr> :: Tree rustic_result"
  let ?self = "Parent_new ?load [[1]] False False"
  have nm: "node_name (demo_node [c] File) = [of_nat c]" if "c \<in> {97, 98}" for c
    using that by (auto simp: node_name_def demo_node_def unescape_filename_def encode_utf8_def)
  have un: "unchanged (pa_ignore_ctime ?self) (pa_ignore_inode ?self) (demo_node [98] File) (demo_node [98] File)"
    by (simp add: unchanged_def demo_node_def Metadata_default_def)
  have trees: "pa_trees ?self = [(\<lparr>t_nodes = [demo_node [97] File, demo_node [98] File]\<rparr>, 0)]" "\<not> pa_ignore_ctime ?self" "\<not> pa_ignore_inode ?self"
    by (simp_all add: Parent_new_def load_ok_def map_filter_def)
  have "\<forall>ti \<in> set (pa_trees ?self). ready [98] ti" unfolding trees by (simp add: ready_def nm)
  moreover obtain r self' where r: "is_parent (demo_node [98] File) [98] ?self = (r, self')" by (cases "is_parent (demo_node [98] File) [98] ?self")
  ultimately have "r = parent_spec (unchanged (pa_ignore_ctime ?self) (pa_ignore_inode ?self) (demo_node [98] File)) [98] False (map fst (pa_trees ?self))"
    using is_parent_searches by blast
  then have "r = PMatched (demo_node [98] File)"
    by (simp add: trees(1) parent_spec_def named_def nm map_filter_def un Let_def)
  then show ?thesis using r by simp
qed

text \<open>The option to ignore inode numbers works the wrong way round: without it, inode numbers are not looked at;
  with it, a file whose inode number has changed counts as changed.\<close>

lemma inode_option_inverted:
  "unchanged ic False node (p\<lparr>n_meta := (n_meta p)\<lparr>m_inode := i\<rparr>\<rparr>) = unchanged ic False node p"
  "i \<noteq> 0 \<Longrightarrow> m_inode (n_meta node) \<noteq> 0 \<Longrightarrow> i \<noteq> m_inode (n_meta node)
    \<Longrightarrow> \<not> unchanged ic True node (p\<lparr>n_meta := (n_meta p)\<lparr>m_inode := i\<rparr>\<rparr>)"
  by (simp_all add: unchanged_def Let_def)

text \<open>A matched file is only taken over when the index has all of its content.\<close>

lemma take_content_matched:
  "take_content known r node = (PMatched (), node') \<Longrightarrow>
   \<exists>p. r = PMatched p \<and> node' = node\<lparr>n_content := n_content p\<rparr> \<and> (\<forall>ids. n_content p = Some ids \<longrightarrow> (\<forall>i \<in> set ids. known i))"
  by (cases r) (auto simp: take_content_def split: if_splits)

lemma take_content_other:
  "take_content known r node = (parent, node') \<Longrightarrow> parent \<noteq> PMatched () \<Longrightarrow> node' = node"
  by (cases r) (auto simp: take_content_def split: if_splits)

end
