(* ===== verification/Archiver.thy ===== *)
theory Archiver
  imports Parent Chunker Packer
begin

text \<open>
  The archiver (crates/core/src/archiver.rs, archiver/file_archiver.rs, archiver/tree_archiver.rs): files are cut
  into chunks, chunks and trees go to their packers, and every directory that is closed becomes a tree and a node
  in the directory around it.

  The code runs the stages as a chain of iterators, the file archiver on several threads that keep the order of
  the items. Here each stage processes the whole sequence; the blobs of different files reach the channel of the
  data packer in the order of the files, which is one of the orders of the threads.
\<close>

section \<open>Handing blobs to a packer\<close>

text \<open>The sending end of the channel of a packer: what was sent, and whether the receiver is still there for the
  next blob.\<close>

record Sender =
  ch_open :: "nat \<Rightarrow> bool"
  ch_sent :: "(bytes \<times> BlobId) list"

definition Packer_add :: "bytes \<Rightarrow> BlobId \<Rightarrow> Sender \<Rightarrow> unit rustic_result \<times> Sender" where
  "Packer_add data i q =
     (if ch_open q (length (ch_sent q)) then (Inr (), q\<lparr>ch_sent := ch_sent q @ [(data, i)]\<rparr>)
      else (Inl (RusticError EInternal ''Sending crossbeam message failed: `id`: `{id}`''), q))"

definition PackerStats_apply :: "PackerStats \<Rightarrow> BlobType \<Rightarrow> SnapshotSummary \<Rightarrow> SnapshotSummary" where
  "PackerStats_apply st t s =
     (let s = s\<lparr>su_data_added := su_data_added s + pst_data st,
                su_data_added_packed := su_data_added_packed s + pst_data_packed st\<rparr>
      in case t of
        BlobType.Tree \<Rightarrow> s\<lparr>su_tree_blobs := su_tree_blobs s + pst_blobs st,
          su_data_added_trees := su_data_added_trees s + pst_data st,
          su_data_added_trees_packed := su_data_added_trees_packed s + pst_data_packed st\<rparr>
      | BlobType.Data \<Rightarrow> s\<lparr>su_data_blobs := su_data_blobs s + pst_blobs st,
          su_data_added_files := su_data_added_files s + pst_data st,
          su_data_added_files_packed := su_data_added_files_packed s + pst_data_packed st\<rparr>)"

section \<open>The file archiver\<close>

text \<open>What is outside: the source, the polynomial and the rolling hash made of it, SHA-256, and the index.\<close>

record 'h FileArchiver =
  fa_known :: "DataId \<Rightarrow> bool"
  fa_config :: ConfigFile
  fa_open_read :: "Path \<Rightarrow> Reader option"
  fa_polynom :: "u64 \<Rightarrow> 'h"
  fa_poly :: "u64 rustic_result"
  fa_rolling :: "'h rolling"
  fa_hash :: "bytes \<Rightarrow> Id"

text \<open>The loop over the chunks of a file: each is hashed and, unless the index has it, sent. It stops at the first
  error; not returning is None.\<close>

partial_function (option) backup_chunks ::
    "('s \<Rightarrow> bytes rustic_result option \<times> 's) \<Rightarrow> (bytes \<Rightarrow> Id) \<Rightarrow> (DataId \<Rightarrow> bool) \<Rightarrow> 's \<Rightarrow> Sender
     \<Rightarrow> ((DataId \<times> u64) list rustic_result \<times> Sender) option" where
  "backup_chunks next hash known it q =
    (case next it of
       (None, _) \<Rightarrow> Some (Inr [], q)
     | (Some (Inl e), _) \<Rightarrow> Some (Inl e, q)
     | (Some (Inr chunk), it) \<Rightarrow>
         (case (if known (hash chunk) then (Inr (), q) else Packer_add chunk (hash chunk) q) of
            (Inl e, q) \<Rightarrow> Some (Inl e, q)
          | (Inr _, q) \<Rightarrow> Option.bind (backup_chunks next hash known it q) (\<lambda>(r, q).
              Some (bindR r (\<lambda>chunks. Inr ((hash chunk, word_of_nat (length chunk)) # chunks)), q))))"

definition backup_reader ::
    "'h FileArchiver \<Rightarrow> Reader \<Rightarrow> Node \<Rightarrow> Sender \<Rightarrow> ((Node \<times> u64) rustic_result \<times> Sender) option" where
  "backup_reader self r node q =
     (case ChunkIter_from_config (fa_polynom self) (fa_poly self) (fa_config self) r (unat (m_size (n_meta node))) of
        Inl e \<Rightarrow> Some (Inl e, q)
      | Inr it \<Rightarrow> Option.bind (backup_chunks (ChunkIter_next (fa_rolling self)) (fa_hash self) (fa_known self) it q) (\<lambda>(r, q).
          Some (bindR r (\<lambda>chunks. Inr (node\<lparr>n_content := Some (map fst chunks)\<rparr>, sum_list (map snd chunks))), q)))"

definition prepend_guidance_line :: "string \<Rightarrow> rustic_error \<Rightarrow> rustic_error" where
  "prepend_guidance_line line e = (case e of RusticError k g \<Rightarrow> RusticError k (line @ [CHR 0x0A] @ g) | Panic m \<Rightarrow> Panic m)"

type_synonym TreeItem = "(unit ParentResult \<times> u64, TreeId ParentResult) TreeType"

definition process_file ::
    "'h FileArchiver \<Rightarrow> Path option \<Rightarrow> Node \<Rightarrow> unit ParentResult \<Rightarrow> Sender \<Rightarrow> ((Node \<times> u64) rustic_result \<times> Sender) option" where
  "process_file self src_path node parent q =
     (if parent = PMatched () then Some (Inr (node, m_size (n_meta node)), q)
      else if n_type node = File then
        (case src_path of
           None \<Rightarrow> Some (Inl (RusticError EInternal ''Failed to unpack tree type optional at `{path}`. Option should contain a value, but contained `None`.''), q)
         | Some p \<Rightarrow>
             (case fa_open_read self p of
                None \<Rightarrow> Some (Inl (RusticError EInputOutput ''Failed to open `{path}` for reading''), q)
              | Some r \<Rightarrow> map_option (\<lambda>(res, q). (map_err (prepend_guidance_line ''Error while backing up `{path}`'') res, q))
                  (backup_reader self r node q)))
      else Some (Inr (node, 0), q))"

definition FileArchiver_process ::
    "'h FileArchiver \<Rightarrow> Path option ItemWithParent \<Rightarrow> Sender \<Rightarrow> (TreeItem rustic_result \<times> Sender) option" where
  "FileArchiver_process self item q = (case item of
     NewTree x \<Rightarrow> Some (Inr (NewTree x), q)
   | EndTree \<Rightarrow> Some (Inr EndTree, q)
   | Other (path, node, (src_path, parent)) \<Rightarrow>
       map_option (\<lambda>(res, q). (bindR res (\<lambda>(node, filesize). Inr (Other (path, node, (parent, filesize)))), q))
         (process_file self src_path node parent q))"

section \<open>The tree archiver\<close>

record TreeArchiver =
  ta_tree :: Tree
  ta_stack :: "(Path \<times> Node \<times> TreeId ParentResult \<times> Tree) list"
  ta_packer :: Sender
  ta_summary :: SnapshotSummary

definition TreeArchiver_new :: "Sender \<Rightarrow> SnapshotSummary \<Rightarrow> TreeArchiver" where
  "TreeArchiver_new q summary = \<lparr>ta_tree = Tree_new, ta_stack = [], ta_packer = q, ta_summary = summary\<rparr>"

definition add_file :: "Node \<Rightarrow> unit ParentResult \<Rightarrow> u64 \<Rightarrow> TreeArchiver \<Rightarrow> TreeArchiver" where
  "add_file node parent sz self =
     (let s = ta_summary self;
          s = (case parent of
                 PMatched _ \<Rightarrow> s\<lparr>su_files_unmodified := su_files_unmodified s + 1\<rparr>
               | PNotMatched \<Rightarrow> s\<lparr>su_files_changed := su_files_changed s + 1\<rparr>
               | PNotFound \<Rightarrow> s\<lparr>su_files_new := su_files_new s + 1\<rparr>);
          s = s\<lparr>su_total_files_processed := su_total_files_processed s + 1,
                su_total_bytes_processed := su_total_bytes_processed s + sz\<rparr>
      in self\<lparr>ta_summary := s, ta_tree := Tree_add node (ta_tree self)\<rparr>)"

text \<open>\<open>ser\<close> is the serialisation of a tree with its id (\<open>Tree_serialize\<close>), \<open>known\<close> what trees the index has.\<close>

definition backup_tree ::
    "(Tree \<Rightarrow> bytes \<times> TreeId) \<Rightarrow> (TreeId \<Rightarrow> bool) \<Rightarrow> TreeId ParentResult \<Rightarrow> TreeArchiver \<Rightarrow> (TreeId \<times> TreeArchiver) rustic_result" where
  "backup_tree ser known parent self =
     (case ser (ta_tree self) of (chunk, i) \<Rightarrow>
        let s = ta_summary self; dirsize = word_of_nat (length chunk);
            s = s\<lparr>su_total_dirs_processed := su_total_dirs_processed s + 1,
                  su_total_dirsize_processed := su_total_dirsize_processed s + dirsize\<rparr>
        in if parent = PMatched i then Inr (i, self\<lparr>ta_summary := s\<lparr>su_dirs_unmodified := su_dirs_unmodified s + 1\<rparr>\<rparr>)
           else
             let s = (if parent = PNotFound then s\<lparr>su_dirs_new := su_dirs_new s + 1\<rparr> else s\<lparr>su_dirs_changed := su_dirs_changed s + 1\<rparr>);
                 self = self\<lparr>ta_summary := s\<rparr>
             in if known i then Inr (i, self)
                else (case Packer_add chunk i (ta_packer self) of (r, q) \<Rightarrow> bindR r (\<lambda>_. Inr (i, self\<lparr>ta_packer := q\<rparr>))))"

definition TreeArchiver_add ::
    "(Tree \<Rightarrow> bytes \<times> TreeId) \<Rightarrow> (TreeId \<Rightarrow> bool) \<Rightarrow> TreeItem \<Rightarrow> TreeArchiver \<Rightarrow> TreeArchiver rustic_result" where
  "TreeArchiver_add ser known item self = (case item of
     NewTree (path, node, parent) \<Rightarrow>
       Inr (self\<lparr>ta_tree := Tree_new, ta_stack := (path, node, parent, ta_tree self) # ta_stack self\<rparr>)
   | EndTree \<Rightarrow>
       (case ta_stack self of
          [] \<Rightarrow> Inl (RusticError EInternal ''Tree stack is empty.'')
        | (path, node, parent, tree) # stack \<Rightarrow>
            bindR (backup_tree ser known parent (self\<lparr>ta_stack := stack\<rparr>)) (\<lambda>(i, self).
            Inr (self\<lparr>ta_tree := Tree_add (node\<lparr>n_subtree := Some i\<rparr>) tree\<rparr>)))
   | Other (path, node, (parent, sz)) \<Rightarrow> Inr (add_file node parent sz self))"

definition TreeArchiver_finalize ::
    "(Tree \<Rightarrow> bytes \<times> TreeId) \<Rightarrow> (TreeId \<Rightarrow> bool) \<Rightarrow> PackerStats rustic_result \<Rightarrow> TreeId option \<Rightarrow> TreeArchiver
     \<Rightarrow> (TreeId \<times> SnapshotSummary \<times> Sender) rustic_result" where
  "TreeArchiver_finalize ser known packer_finalize parent_tree self =
     bindR (backup_tree ser known (case parent_tree of None \<Rightarrow> PNotFound | Some i \<Rightarrow> PMatched i) self) (\<lambda>(i, self).
     bindR packer_finalize (\<lambda>stats.
     Inr (i, PackerStats_apply stats BlobType.Tree (ta_summary self), ta_packer self)))"

section \<open>The archiver\<close>

text \<open>The entries of the source; those that cannot be fetched are counted as errors.\<close>

fun scan_source :: "Path option \<Rightarrow> (unit + SourceFile) list \<Rightarrow> ((Path \<times> Node \<times> Path option) list \<times> u64) rustic_result" where
  "scan_source as_path [] = Inr ([], 0)"
| "scan_source as_path (Inl _ # src) = bindR (scan_source as_path src) (\<lambda>(items, errors). Inr (items, errors + 1))"
| "scan_source as_path (Inr f # src) =
    bindR (archive_item as_path f) (\<lambda>item. bindR (scan_source as_path src) (\<lambda>(items, errors). Inr (item # items, errors)))"

text \<open>Items for which the parent has nothing to close are dropped with a warning.\<close>

fun parent_stage ::
    "(TreeId \<Rightarrow> Tree rustic_result) \<Rightarrow> (DataId \<Rightarrow> bool) \<Rightarrow> ('o, OsStr) TreeType list \<Rightarrow> Parent \<Rightarrow> 'o ItemWithParent list rustic_result" where
  "parent_stage load known [] self = Inr []"
| "parent_stage load known (e # es) self =
    bindR (Parent_process load known e self) (\<lambda>(r, self).
    bindR (parent_stage load known es self) (\<lambda>items. Inr (case r of Inl _ \<Rightarrow> items | Inr item \<Rightarrow> item # items)))"

text \<open>Items that cannot be archived are left out and counted; a panic ends the backup.\<close>

fun file_stage ::
    "'h FileArchiver \<Rightarrow> Path option ItemWithParent list \<Rightarrow> Sender \<Rightarrow> ((TreeItem list \<times> u64) rustic_result \<times> Sender) option" where
  "file_stage fa [] q = Some (Inr ([], 0), q)"
| "file_stage fa (item # items) q =
    Option.bind (FileArchiver_process fa item q) (\<lambda>(r, q). case r of
      Inl (Panic m) \<Rightarrow> Some (Inl (Panic m), q)
    | Inl _ \<Rightarrow> map_option (\<lambda>(r, q). (bindR r (\<lambda>(xs, errors). Inr (xs, errors + 1)), q)) (file_stage fa items q)
    | Inr x \<Rightarrow> map_option (\<lambda>(r, q). (bindR r (\<lambda>(xs, errors). Inr (x # xs, errors)), q)) (file_stage fa items q))"

record Archiver =
  ar_parent :: Parent
  ar_snap :: SnapshotFile
  ar_data :: Sender
  ar_trees :: TreeArchiver

definition Archiver_new :: "Zoned \<Rightarrow> Sender \<Rightarrow> Sender \<Rightarrow> Parent \<Rightarrow> SnapshotFile \<Rightarrow> Archiver" where
  "Archiver_new now data_packer tree_packer parent snap =
     (let summary = (case sn_summary snap of Some s \<Rightarrow> s | None \<Rightarrow> SnapshotSummary_default now)\<lparr>su_backup_start := now\<rparr>
      in \<lparr>ar_parent = parent, ar_snap = snap\<lparr>sn_summary := None\<rparr>, ar_data = data_packer,
          ar_trees = TreeArchiver_new tree_packer summary\<rparr>)"

text \<open>The end of a backup: both packers and the indexer are finished (their results are arguments), the snapshot
  gets its tree and summary, and it is saved unless it is identical to the parent and that is to be skipped. The
  durations of the summary are left out.\<close>

definition finish_archive ::
    "Zoned \<Rightarrow> PackerStats \<Rightarrow> unit rustic_result \<Rightarrow> (SnapshotFile \<Rightarrow> SnapshotId rustic_result) \<Rightarrow> bool \<Rightarrow> TreeId option
     \<Rightarrow> u64 \<Rightarrow> TreeId \<times> SnapshotSummary \<times> Sender \<Rightarrow> SnapshotFile \<Rightarrow> SnapshotFile rustic_result" where
  "finish_archive now stats indexer_finalize save_file skip_identical_parent parent_tree errors t snap =
     (case t of (i, summary, _) \<Rightarrow>
        let summary = (PackerStats_apply stats BlobType.Data summary)\<lparr>su_error_count := errors\<rparr>; snap = snap\<lparr>sn_tree := i\<rparr>
        in bindR indexer_finalize (\<lambda>_.
           let snap = snap\<lparr>sn_summary := Some (summary\<lparr>su_backup_end := now\<rparr>)\<rparr>
           in if \<not> skip_identical_parent \<or> Some (sn_tree snap) \<noteq> parent_tree
              then bindR (save_file snap) (\<lambda>sid. Inr (snap\<lparr>sn_id := sid\<rparr>))
              else Inr snap))"

definition Archiver_archive ::
    "(TreeId \<Rightarrow> Tree rustic_result) \<Rightarrow> (Tree \<Rightarrow> bytes \<times> TreeId) \<Rightarrow> (TreeId \<Rightarrow> bool) \<Rightarrow> 'h FileArchiver
     \<Rightarrow> Zoned \<Rightarrow> PackerStats rustic_result \<Rightarrow> PackerStats rustic_result \<Rightarrow> unit rustic_result \<Rightarrow> (SnapshotFile \<Rightarrow> SnapshotId rustic_result)
     \<Rightarrow> (unit + SourceFile) list \<Rightarrow> Path option \<Rightarrow> bool \<Rightarrow> Archiver \<Rightarrow> (SnapshotFile \<times> Sender \<times> Sender) rustic_result option" where
  "Archiver_archive load ser known_tree fa now data_finalize tree_finalize indexer_finalize save_file src as_path skip self =
     (case scan_source as_path src of
        Inl e \<Rightarrow> Some (Inl e)
      | Inr (items, scan_errors) \<Rightarrow>
     Option.bind (collect_types (TreeIterator_new items)) (\<lambda>r. case r of
        Inl e \<Rightarrow> Some (Inl e)
      | Inr es \<Rightarrow>
     (case parent_stage load (fa_known fa) es (ar_parent self) of
        Inl e \<Rightarrow> Some (Inl e)
      | Inr with_parent \<Rightarrow>
     map_option (\<lambda>(r, data_q).
        bindR r (\<lambda>(tree_items, file_errors).
        bindR (foldR (TreeArchiver_add ser known_tree) tree_items (ar_trees self)) (\<lambda>ta.
        bindR data_finalize (\<lambda>stats.
        bindR (TreeArchiver_finalize ser known_tree tree_finalize (Parent_tree_id (ar_parent self)) ta) (\<lambda>t.
        bindR (finish_archive now stats indexer_finalize save_file skip (Parent_tree_id (ar_parent self)) (scan_errors + file_errors) t (ar_snap self)) (\<lambda>snap.
        Inr (snap, data_q, snd (snd t))))))))
       (file_stage fa with_parent (ar_data self)))))"

section \<open>What the stored trees hold\<close>

text \<open>The nodes below a stored tree, by the names of the directories they are in.\<close>

inductive at_path :: "(TreeId \<Rightarrow> Tree rustic_result) \<Rightarrow> TreeId \<Rightarrow> OsStr list \<Rightarrow> Node \<Rightarrow> bool" for load where
  at_here: "load i = Inr t \<Longrightarrow> n \<in> set (t_nodes t) \<Longrightarrow> at_path load i [] n"
| at_below: "load i = Inr t \<Longrightarrow> d \<in> set (t_nodes t) \<Longrightarrow> n_subtree d = Some j \<Longrightarrow> at_path load j ps n
    \<Longrightarrow> at_path load i (node_name d # ps) n"

inductive_simps at_path_unfold: "at_path load i ps n"

text \<open>The same for a tree that is still in memory.\<close>

definition tree_at :: "(TreeId \<Rightarrow> Tree rustic_result) \<Rightarrow> Tree \<Rightarrow> OsStr list \<Rightarrow> Node \<Rightarrow> bool" where
  "tree_at load t ps n \<longleftrightarrow> ps = [] \<and> n \<in> set (t_nodes t) \<or>
     (\<exists>d \<in> set (t_nodes t). \<exists>j qs. ps = node_name d # qs \<and> n_subtree d = Some j \<and> at_path load j qs n)"

lemma at_path_load: "load i = Inr t \<Longrightarrow> at_path load i ps n \<longleftrightarrow> tree_at load t ps n"
  by (subst at_path_unfold) (auto simp: tree_at_def)

lemma tree_at_new [simp]: "\<not> tree_at load Tree_new ps n"
  by (simp add: tree_at_def Tree_new_def)

lemma tree_at_add: "tree_at load (Tree_add d t) ps n \<longleftrightarrow> tree_at load t ps n \<or> ps = [] \<and> n = d \<or>
    (\<exists>j qs. ps = node_name d # qs \<and> n_subtree d = Some j \<and> at_path load j qs n)"
  by (auto simp: tree_at_def Tree_add_def)

lemma node_name_subtree [simp]: "node_name (n\<lparr>n_subtree := i\<rparr>) = node_name n"
  by (simp add: node_name_def split: sum.splits)

text \<open>The open trees of the archiver with the names that lead to them.\<close>

fun stack_names :: "(Path \<times> Node \<times> TreeId ParentResult \<times> Tree) list \<Rightarrow> OsStr list" where
  "stack_names [] = []"
| "stack_names ((_, n, _, _) # st) = stack_names st @ [node_name n]"

fun lower :: "(Path \<times> Node \<times> TreeId ParentResult \<times> Tree) list \<Rightarrow> (OsStr list \<times> Tree) set" where
  "lower [] = {}"
| "lower ((_, _, _, t) # st) = insert (stack_names st, t) (lower st)"

definition ta_holds :: "(TreeId \<Rightarrow> Tree rustic_result) \<Rightarrow> TreeArchiver \<Rightarrow> OsStr list \<Rightarrow> Node \<Rightarrow> bool" where
  "ta_holds load ta ps n \<longleftrightarrow> (\<exists>(names, t) \<in> insert (stack_names (ta_stack ta), ta_tree ta) (lower (ta_stack ta)).
     \<exists>qs. ps = names @ qs \<and> tree_at load t qs n)"

text \<open>What a sequence of items puts where: the items themselves, the directories they open, each in the directory
  around it, and which directories are open after it.\<close>

fun leaves :: "OsStr list \<Rightarrow> TreeItem list \<Rightarrow> (OsStr list \<times> Node) set" where
  "leaves names [] = {}"
| "leaves names (NewTree (_, n, _) # xs) = leaves (names @ [node_name n]) xs"
| "leaves names (EndTree # xs) = leaves (butlast names) xs"
| "leaves names (Other (_, n, _) # xs) = insert (names, n) (leaves names xs)"

fun dirs :: "OsStr list \<Rightarrow> TreeItem list \<Rightarrow> (OsStr list \<times> Node) set" where
  "dirs names [] = {}"
| "dirs names (NewTree (_, n, _) # xs) = insert (names, n) (dirs (names @ [node_name n]) xs)"
| "dirs names (EndTree # xs) = dirs (butlast names) xs"
| "dirs names (Other _ # xs) = dirs names xs"

fun walk :: "OsStr list \<Rightarrow> TreeItem list \<Rightarrow> OsStr list" where
  "walk names [] = names"
| "walk names (NewTree (_, n, _) # xs) = walk (names @ [node_name n]) xs"
| "walk names (EndTree # xs) = walk (butlast names) xs"
| "walk names (Other _ # xs) = walk names xs"

fun tree_item_ok :: "(TreeId \<Rightarrow> bool) \<Rightarrow> TreeItem \<Rightarrow> bool" where
  "tree_item_ok known (NewTree (_, n, r)) = (n_subtree n = None \<and> (\<forall>i. r = PMatched i \<longrightarrow> known i))"
| "tree_item_ok known (Other (_, n, _)) = (n_subtree n = None)"
| "tree_item_ok known EndTree = True"

text \<open>The trees that were sent or that the index has can be loaded under their ids.\<close>

definition trees_readable :: "(Tree \<Rightarrow> bytes \<times> TreeId) \<Rightarrow> (TreeId \<Rightarrow> bool) \<Rightarrow> (TreeId \<Rightarrow> Tree rustic_result) \<Rightarrow> Sender \<Rightarrow> bool" where
  "trees_readable ser known load q \<longleftrightarrow>
     (\<forall>t. ser t \<in> set (ch_sent q) \<or> known (snd (ser t)) \<longrightarrow> load (snd (ser t)) = Inr t)"

lemma trees_readable_mono: "trees_readable ser known load q \<Longrightarrow> set (ch_sent q') \<subseteq> set (ch_sent q) \<Longrightarrow> trees_readable ser known load q'"
  unfolding trees_readable_def by blast

lemma Packer_add_sent: "Packer_add data i q = (Inr (), q') \<Longrightarrow> ch_sent q' = ch_sent q @ [(data, i)]"
  by (auto simp: Packer_add_def split: if_splits)

lemma backup_tree_spec:
  assumes "backup_tree ser known parent ta = Inr (i, ta')"
  shows "i = snd (ser (ta_tree ta)) \<and> ta_tree ta' = ta_tree ta \<and> ta_stack ta' = ta_stack ta \<and>
    set (ch_sent (ta_packer ta)) \<subseteq> set (ch_sent (ta_packer ta')) \<and>
    (parent = PMatched i \<or> known i \<or> ser (ta_tree ta) \<in> set (ch_sent (ta_packer ta')))"
  using assms Packer_add_sent by (auto simp: backup_tree_def Let_def result_simps split: prod.splits if_splits)

lemma backup_tree_readable:
  assumes "backup_tree ser known parent ta = Inr (i, ta')" "\<forall>j. parent = PMatched j \<longrightarrow> known j"
    and "trees_readable ser known load (ta_packer ta')"
  shows "load i = Inr (ta_tree ta)"
  using backup_tree_spec [OF assms(1)] assms(2,3) unfolding trees_readable_def by blast

lemma add_file_sel [simp]:
  "ta_tree (add_file n r sz ta) = Tree_add n (ta_tree ta)" "ta_stack (add_file n r sz ta) = ta_stack ta"
  "ta_packer (add_file n r sz ta) = ta_packer ta"
  by (simp_all add: add_file_def Let_def)

lemma TreeArchiver_add_sent:
  "TreeArchiver_add ser known x ta = Inr ta' \<Longrightarrow> set (ch_sent (ta_packer ta)) \<subseteq> set (ch_sent (ta_packer ta'))"
  by (auto simp: TreeArchiver_add_def result_simps dest!: backup_tree_spec split: TreeType.splits prod.splits list.splits)

lemma TreeArchiver_fold_sent:
  "foldR (TreeArchiver_add ser known) xs ta = Inr ta' \<Longrightarrow> set (ch_sent (ta_packer ta)) \<subseteq> set (ch_sent (ta_packer ta'))"
  by (induction xs arbitrary: ta) (auto simp: result_simps dest!: TreeArchiver_add_sent)

definition stack_ok :: "(TreeId \<Rightarrow> bool) \<Rightarrow> TreeArchiver \<Rightarrow> bool" where
  "stack_ok known ta \<longleftrightarrow>
     (\<forall>x \<in> set (ta_stack ta). n_subtree (fst (snd x)) = None \<and> (\<forall>i. fst (snd (snd x)) = PMatched i \<longrightarrow> known i))"

text \<open>One item: the names, and what is held.\<close>

lemma add_NewTree:
  assumes "TreeArchiver_add ser known (NewTree (p, n, r)) ta = Inr ta'"
  shows "stack_names (ta_stack ta') = stack_names (ta_stack ta) @ [node_name n] \<and> ta_holds load ta' ps m = ta_holds load ta ps m"
proof -
  have "ta' = ta\<lparr>ta_tree := Tree_new, ta_stack := (p, n, r, ta_tree ta) # ta_stack ta\<rparr>"
    using assms by (simp add: TreeArchiver_add_def)
  then show ?thesis by (simp add: ta_holds_def)
qed

lemma add_Other:
  assumes "TreeArchiver_add ser known (Other (p, n, r)) ta = Inr ta'" "n_subtree n = None"
  shows "stack_names (ta_stack ta') = stack_names (ta_stack ta) \<and>
    (ta_holds load ta' ps m \<longleftrightarrow> ta_holds load ta ps m \<or> ps = stack_names (ta_stack ta) \<and> m = n)"
proof -
  have "ta_tree ta' = Tree_add n (ta_tree ta)" "ta_stack ta' = ta_stack ta"
    using assms(1) by (auto simp: TreeArchiver_add_def split: prod.splits)
  then show ?thesis using assms(2) by (auto simp: ta_holds_def tree_at_add)
qed

lemma add_EndTree:
  assumes "TreeArchiver_add ser known EndTree ta = Inr ta'" "stack_ok known ta" "trees_readable ser known load (ta_packer ta')"
  obtains p n r t st i where "ta_stack ta = (p, n, r, t) # st" "ta_stack ta' = st" "n_subtree n = None"
    "load i = Inr (ta_tree ta)"
    "\<forall>ps m. ta_holds load ta' ps m \<longleftrightarrow> ta_holds load ta ps m \<or> ps = stack_names st \<and> m = n\<lparr>n_subtree := Some i\<rparr>"
proof -
  from assms(1) obtain p n r t st where st: "ta_stack ta = (p, n, r, t) # st"
    by (cases "ta_stack ta") (auto simp: TreeArchiver_add_def)
  with assms(1) obtain i ta1 where b: "backup_tree ser known r (ta\<lparr>ta_stack := st\<rparr>) = Inr (i, ta1)"
    and ta': "ta' = ta1\<lparr>ta_tree := Tree_add (n\<lparr>n_subtree := Some i\<rparr>) t\<rparr>"
    by (auto simp: TreeArchiver_add_def result_simps)
  have st': "ta_stack ta1 = st" using backup_tree_spec [OF b] by simp
  have ld: "load i = Inr (ta_tree ta)"
    using backup_tree_readable [OF b] assms(2,3) st ta' by (auto simp: stack_ok_def)
  have at: "at_path load i qs m = tree_at load (ta_tree ta) qs m" for qs m
    using ld by (rule at_path_load)
  have "n_subtree n = None" using assms(2) st by (simp add: stack_ok_def)
  moreover have "ta_holds load ta' ps m \<longleftrightarrow> ta_holds load ta ps m \<or> ps = stack_names st \<and> m = n\<lparr>n_subtree := Some i\<rparr>" for ps m
    by (auto simp: ta_holds_def st st' ta' tree_at_add at)
  ultimately show thesis using that [of p n r t st i] st st' ta' ld by simp
qed

text \<open>The directories: those in the trees, without the ids of their own trees, and those still open.\<close>

definition bare :: "Node \<Rightarrow> Node" where
  "bare n = n\<lparr>n_subtree := None\<rparr>"

lemma bare_simps [simp]: "n_subtree n = None \<Longrightarrow> bare n = n" "bare (n\<lparr>n_subtree := i\<rparr>) = bare n"
  by (cases n; simp add: bare_def)+

lemma bare_insert:
  "n_subtree d \<noteq> None \<Longrightarrow> {(ps, bare m) | ps m. (P ps m \<or> ps = q \<and> m = d) \<and> n_subtree m \<noteq> None} =
     insert (q, bare d) {(ps, bare m) | ps m. P ps m \<and> n_subtree m \<noteq> None}"
  by (auto simp del: bare_simps)

fun opened :: "(Path \<times> Node \<times> TreeId ParentResult \<times> Tree) list \<Rightarrow> (OsStr list \<times> Node) set" where
  "opened [] = {}"
| "opened ((_, n, _, _) # st) = insert (stack_names st, n) (opened st)"

definition ta_dirs :: "(TreeId \<Rightarrow> Tree rustic_result) \<Rightarrow> TreeArchiver \<Rightarrow> (OsStr list \<times> Node) set" where
  "ta_dirs load ta = {(ps, bare m) | ps m. ta_holds load ta ps m \<and> n_subtree m \<noteq> None} \<union> opened (ta_stack ta)"

text \<open>The trees of the directories can be loaded.\<close>

definition ta_loads :: "(TreeId \<Rightarrow> Tree rustic_result) \<Rightarrow> TreeArchiver \<Rightarrow> bool" where
  "ta_loads load ta \<longleftrightarrow> (\<forall>ps m i. ta_holds load ta ps m \<and> n_subtree m = Some i \<longrightarrow> (\<exists>t. load i = Inr t))"

definition ta_leaves :: "(TreeId \<Rightarrow> Tree rustic_result) \<Rightarrow> TreeArchiver \<Rightarrow> (OsStr list \<times> Node) set" where
  "ta_leaves load ta = {(ps, m). ta_holds load ta ps m \<and> n_subtree m = None}"

text \<open>One item, and then all.\<close>

definition ta_grows ::
    "(TreeId \<Rightarrow> Tree rustic_result) \<Rightarrow> TreeItem list \<Rightarrow> TreeArchiver \<Rightarrow> TreeArchiver \<Rightarrow> bool" where
  "ta_grows load xs ta ta' \<longleftrightarrow> stack_names (ta_stack ta') = walk (stack_names (ta_stack ta)) xs \<and>
     ta_leaves load ta' = ta_leaves load ta \<union> leaves (stack_names (ta_stack ta)) xs \<and>
     ta_dirs load ta' = ta_dirs load ta \<union> dirs (stack_names (ta_stack ta)) xs \<and>
     (ta_loads load ta \<longrightarrow> ta_loads load ta')"

lemma add_grows:
  assumes "TreeArchiver_add ser known x ta = Inr ta'" "stack_ok known ta" "trees_readable ser known load (ta_packer ta')"
    and "tree_item_ok known x"
  shows "ta_grows load [x] ta ta'"
proof (cases x)
  case (NewTree y)
  obtain p n r where y: "y = (p, n, r)" by (cases y)
  note a = add_NewTree [OF assms(1) [unfolded NewTree y], of load]
  have "ta_stack ta' = (p, n, r, ta_tree ta) # ta_stack ta" using assms(1) by (auto simp: TreeArchiver_add_def NewTree y)
  then show ?thesis using a by (auto simp: ta_grows_def ta_leaves_def ta_dirs_def ta_loads_def NewTree y)
next
  case EndTree
  obtain p n r t st i where e: "ta_stack ta = (p, n, r, t) # st" "ta_stack ta' = st" "n_subtree n = None"
    "load i = Inr (ta_tree ta)"
    "\<forall>ps m. ta_holds load ta' ps m \<longleftrightarrow> ta_holds load ta ps m \<or> ps = stack_names st \<and> m = n\<lparr>n_subtree := Some i\<rparr>"
    using add_EndTree [OF assms(1) [unfolded EndTree] assms(2,3)] .
  have T: "ta_holds load ta' = (\<lambda>ps m. ta_holds load ta ps m \<or> ps = stack_names st \<and> m = n\<lparr>n_subtree := Some i\<rparr>)"
    by (intro ext) (rule e(5) [rule_format])
  have "{(ps, bare m) | ps m. ta_holds load ta' ps m \<and> n_subtree m \<noteq> None} =
      insert (stack_names st, bare (n\<lparr>n_subtree := Some i\<rparr>)) {(ps, bare m) | ps m. ta_holds load ta ps m \<and> n_subtree m \<noteq> None}"
    unfolding T by (rule bare_insert) simp
  then have "ta_dirs load ta' = ta_dirs load ta"
    using e(3) by (simp add: ta_dirs_def e(1,2))
  moreover have "ta_leaves load ta' = ta_leaves load ta" by (auto simp: ta_leaves_def T)
  moreover have "ta_loads load ta \<longrightarrow> ta_loads load ta'" using e(4) by (auto simp: ta_loads_def T)
  ultimately show ?thesis by (simp add: ta_grows_def EndTree e(1,2))
next
  case (Other y)
  obtain p n r where y: "y = (p, n, r)" by (cases y)
  have n: "n_subtree n = None" using assms(4) by (simp add: Other y)
  note a = add_Other [OF assms(1) [unfolded Other y] n, of load]
  have "ta_stack ta' = ta_stack ta" using assms(1) by (auto simp: TreeArchiver_add_def Other y split: prod.splits)
  then show ?thesis using a n by (auto simp: ta_grows_def ta_leaves_def ta_dirs_def ta_loads_def Other y)
qed

lemma ta_grows_Cons: "ta_grows load [x] ta ta1 \<Longrightarrow> ta_grows load xs ta1 ta' \<Longrightarrow> ta_grows load (x # xs) ta ta'"
  by (cases "(stack_names (ta_stack ta), x # xs)" rule: leaves.cases) (auto simp: ta_grows_def)

lemma fold_grows:
  assumes "foldR (TreeArchiver_add ser known) xs ta = Inr ta'" "trees_readable ser known load (ta_packer ta')"
    and "stack_ok known ta" "\<forall>x \<in> set xs. tree_item_ok known x"
  shows "ta_grows load xs ta ta'"
  using assms
proof (induction xs arbitrary: ta)
  case (Cons x xs)
  from Cons.prems(1) obtain ta1 where x: "TreeArchiver_add ser known x ta = Inr ta1"
    and xs: "foldR (TreeArchiver_add ser known) xs ta1 = Inr ta'" by (auto simp: result_simps)
  have rd: "trees_readable ser known load (ta_packer ta1)"
    by (rule trees_readable_mono [OF Cons.prems(2) TreeArchiver_fold_sent [OF xs]])
  have ok: "stack_ok known ta1"
    using x Cons.prems(3,4) by (auto simp: stack_ok_def TreeArchiver_add_def result_simps dest!: backup_tree_spec
      split: TreeType.splits prod.splits list.splits)
  have "ta_grows load [x] ta ta1" using add_grows [OF x Cons.prems(3) rd] Cons.prems(4) by simp
  then show ?case using Cons.IH [OF xs Cons.prems(2) ok] Cons.prems(4) ta_grows_Cons by simp
qed (simp add: ta_grows_def)

text \<open>The whole run of the tree archiver: the nodes without a tree are the items, those with one the directories, and
  the tree of each directory can be loaded.\<close>

lemma tree_archiver_exact:
  assumes "foldR (TreeArchiver_add ser known) xs (TreeArchiver_new q summary) = Inr ta" "walk [] xs = []"
    and "TreeArchiver_finalize ser known fin parent_tree ta = Inr (i, s, q')" "\<forall>j. parent_tree = Some j \<longrightarrow> known j"
    and "trees_readable ser known load q'" "\<forall>x \<in> set xs. tree_item_ok known x"
  shows "{(ps, n). at_path load i ps n \<and> n_subtree n = None} = leaves [] xs"
    and "{(ps, bare n) | ps n. at_path load i ps n \<and> n_subtree n \<noteq> None} = dirs [] xs"
    and "at_path load i ps n \<Longrightarrow> n_subtree n = Some j \<Longrightarrow> \<exists>t. load j = Inr t" and "\<exists>t. load i = Inr t"
proof -
  obtain ta1 where b: "backup_tree ser known (case parent_tree of None \<Rightarrow> PNotFound | Some i \<Rightarrow> PMatched i) ta = Inr (i, ta1)"
    and q: "q' = ta_packer ta1" using assms(3) by (auto simp: TreeArchiver_finalize_def result_simps)
  have ld: "load i = Inr (ta_tree ta)"
    by (rule backup_tree_readable [OF b]) (use assms(4,5) q in \<open>auto split: option.splits\<close>)
  have rd: "trees_readable ser known load (ta_packer ta)"
    by (rule trees_readable_mono [OF assms(5)]) (use backup_tree_spec [OF b] q in blast)
  have new: "stack_ok known (TreeArchiver_new q summary)" "stack_names (ta_stack (TreeArchiver_new q summary)) = []"
    "ta_leaves load (TreeArchiver_new q summary) = {}" "ta_dirs load (TreeArchiver_new q summary) = {}"
    "ta_loads load (TreeArchiver_new q summary)"
    by (simp_all add: TreeArchiver_new_def stack_ok_def ta_holds_def ta_leaves_def ta_dirs_def ta_loads_def)
  from fold_grows [OF assms(1) rd new(1) assms(6)] new(2-5) assms(2) have g: "stack_names (ta_stack ta) = []"
    "ta_leaves load ta = leaves [] xs" "ta_dirs load ta = dirs [] xs" "ta_loads load ta"
    by (simp_all add: ta_grows_def)
  from g(1) have st: "ta_stack ta = []" by (cases "ta_stack ta") auto
  have "ta_holds load ta ps m = tree_at load (ta_tree ta) ps m" for ps m unfolding ta_holds_def st by simp
  moreover have "at_path load i ps m = tree_at load (ta_tree ta) ps m" for ps m using ld by (rule at_path_load)
  ultimately have at: "at_path load i ps m = ta_holds load ta ps m" for ps m by simp
  show "{(ps, n). at_path load i ps n \<and> n_subtree n = None} = leaves [] xs" using g(2) by (simp add: ta_leaves_def at)
  show "{(ps, bare n) | ps n. at_path load i ps n \<and> n_subtree n \<noteq> None} = dirs [] xs" using g(3) by (simp add: ta_dirs_def at st)
  show "at_path load i ps n \<Longrightarrow> n_subtree n = Some j \<Longrightarrow> \<exists>t. load j = Inr t" using g(4) unfolding ta_loads_def at by blast
  show "\<exists>t. load i = Inr t" using ld by blast
qed

section \<open>What the file archiver saves\<close>

lemma cons_result: "(case x of Inl e \<Rightarrow> Inl e | Inr vs \<Rightarrow> Inr (v # vs)) = Inr ys \<longleftrightarrow> (\<exists>vs. x = Inr vs \<and> ys = v # vs)"
  by (cases x) auto

lemma collect_chunks_cases:
  assumes "collect_chunks nxt it = Some (Inr chunks)"
  obtains (none) it' where "nxt it = (None, it')" "chunks = []"
  | (some) c cs it' where "nxt it = (Some (Inr c), it')" "chunks = c # cs" "collect_chunks nxt it' = Some (Inr cs)"
proof -
  obtain x it' where n: "nxt it = (x, it')" by (cases "nxt it")
  have "collect_chunks nxt it = (case x of None \<Rightarrow> Some (Inr []) | Some (Inl e) \<Rightarrow> Some (Inl e)
    | Some (Inr v) \<Rightarrow> Option.bind (collect_chunks nxt it') (\<lambda>x. Some (case x of Inl e \<Rightarrow> Inl e | Inr vs \<Rightarrow> Inr (v # vs))))"
    by (subst collect_chunks.simps) (simp add: n split: option.splits)
  with assms n none some show thesis
    by (cases x rule: option.exhaust; cases "the x") (auto simp: bind_eq_Some_conv cons_result)
qed

text \<open>When the chunks can be collected, the loop ends, and unless sending fails it records their hashes in order and
  leaves no chunk behind.\<close>

lemma backup_chunks_ends:
  "collect_chunks nxt it = Some (Inr chunks) \<Longrightarrow> \<exists>r. backup_chunks nxt hash known it q = Some r"
proof (induction chunks arbitrary: it q)
  case Nil
  then show ?case by (rule collect_chunks_cases) (auto simp: backup_chunks.simps)
next
  case (Cons c cs)
  from Cons.prems show ?case
  proof (rule collect_chunks_cases)
    fix c' cs' it' assume n: "nxt it = (Some (Inr c'), it')" "c # cs = c' # cs'" "collect_chunks nxt it' = Some (Inr cs')"
    obtain r1 q1 where a: "(if known (hash c') then (Inr (), q) else Packer_add c' (hash c') q) = (r1, q1)"
      by (cases "if known (hash c') then (Inr (), q) else Packer_add c' (hash c') q")
    obtain r2 q2 where "backup_chunks nxt hash known it' q1 = Some (r2, q2)" using Cons.IH n by (metis list.inject surj_pair)
    then show ?thesis using n(1) a by (subst backup_chunks.simps) (cases r1; simp)
  qed simp
qed

lemma backup_chunks_saves:
  "collect_chunks nxt it = Some (Inr chunks) \<Longrightarrow> backup_chunks nxt hash known it q = Some (Inr cs, q') \<Longrightarrow>
   map fst cs = map hash chunks \<and> set (ch_sent q) \<subseteq> set (ch_sent q') \<and>
   (\<forall>c \<in> set chunks. known (hash c) \<or> (c, hash c) \<in> set (ch_sent q'))"
proof (induction chunks arbitrary: it q cs)
  case Nil
  from Nil.prems(1) show ?case
    by (rule collect_chunks_cases) (use Nil.prems(2) in \<open>auto simp: backup_chunks.simps\<close>)
next
  case (Cons c cs')
  from Cons.prems(1) show ?case
  proof (rule collect_chunks_cases)
    fix d ds it' assume n: "nxt it = (Some (Inr d), it')" "c # cs' = d # ds" "collect_chunks nxt it' = Some (Inr ds)"
    obtain r1 q1 where a: "(if known (hash c) then (Inr (), q) else Packer_add c (hash c) q) = (r1, q1)"
      by (cases "if known (hash c) then (Inr (), q) else Packer_add c (hash c) q")
    then have q1: "r1 = Inr () \<longrightarrow> set (ch_sent q) \<subseteq> set (ch_sent q1) \<and> (known (hash c) \<or> (c, hash c) \<in> set (ch_sent q1))"
      using Packer_add_sent by (fastforce split: if_splits)
    from Cons.prems(2) n a obtain cs1 where r: "r1 = Inr ()" "backup_chunks nxt hash known it' q1 = Some (Inr cs1, q')"
      "cs = (hash c, word_of_nat (length c)) # cs1"
      by (subst (asm) backup_chunks.simps) (auto simp: bind_eq_Some_conv result_simps split: sum.splits)
    from Cons.IH [OF _ r(2)] n(2,3) have "map fst cs1 = map hash cs' \<and> set (ch_sent q1) \<subseteq> set (ch_sent q') \<and>
      (\<forall>c \<in> set cs'. known (hash c) \<or> (c, hash c) \<in> set (ch_sent q'))" by simp
    then show ?thesis using r q1 by auto
  qed simp
qed

text \<open>The files of the source can be read without errors, and the configuration cuts them.\<close>

definition source_ok :: "'h FileArchiver \<Rightarrow> bool" where
  "source_ok fa \<longleftrightarrow> chunkable (fa_config fa) \<and> prefill_ok (fa_rolling fa) \<and>
     (\<forall>p r. fa_open_read fa p = Some r \<longrightarrow> reader_ok r)"

text \<open>How a node of the source may be saved: with the content of an unchanged file of a parent, all of which the
  index has; as it is when it is no file; or with the ids of chunks that make up the file and that are in the
  index or on the way to it.\<close>

definition saved_as :: "'h FileArchiver \<Rightarrow> (Node \<Rightarrow> Node \<Rightarrow> bool) \<Rightarrow> Sender \<Rightarrow> Node \<Rightarrow> Path option \<Rightarrow> Node \<Rightarrow> bool" where
  "saved_as fa same q n src n' \<longleftrightarrow>
     (\<exists>p. same n p \<and> n' = n\<lparr>n_content := n_content p\<rparr> \<and> (\<forall>ids. n_content p = Some ids \<longrightarrow> (\<forall>i \<in> set ids. fa_known fa i))) \<or>
     n_type n \<noteq> File \<and> n' = n \<or>
     n_type n = File \<and> (\<exists>path r chunks. src = Some path \<and> fa_open_read fa path = Some r \<and>
       n' = n\<lparr>n_content := Some (map (fa_hash fa) chunks)\<rparr> \<and> concat chunks = reader_bytes r \<and>
       (\<forall>c \<in> set chunks. fa_known fa (fa_hash fa c) \<or> (c, fa_hash fa c) \<in> set (ch_sent q)))"

lemma saved_as_mono: "saved_as fa same q n src n' \<Longrightarrow> set (ch_sent q) \<subseteq> set (ch_sent q') \<Longrightarrow> saved_as fa same q' n src n'"
  unfolding saved_as_def by blast

lemma backup_reader_saves:
  assumes "source_ok fa" "fa_open_read fa path = Some r" "backup_reader fa r n q = Some (Inr (n', sz), q')"
  shows "set (ch_sent q) \<subseteq> set (ch_sent q') \<and> (\<exists>chunks. n' = n\<lparr>n_content := Some (map (fa_hash fa) chunks)\<rparr> \<and>
    concat chunks = reader_bytes r \<and> (\<forall>c \<in> set chunks. fa_known fa (fa_hash fa c) \<or> (c, fa_hash fa c) \<in> set (ch_sent q')))"
proof -
  from assms(3) obtain it cs where
    it: "ChunkIter_from_config (fa_polynom fa) (fa_poly fa) (fa_config fa) r (unat (m_size (n_meta n))) = Inr it"
    and b: "backup_chunks (ChunkIter_next (fa_rolling fa)) (fa_hash fa) (fa_known fa) it q = Some (Inr cs, q')"
    and n': "n' = n\<lparr>n_content := Some (map fst cs)\<rparr>"
    by (auto simp: backup_reader_def bind_eq_Some_conv result_simps split: sum.splits)
  have ok: "chunkable (fa_config fa)" "prefill_ok (fa_rolling fa)" "reader_ok r"
    using assms(1,2) by (auto simp: source_ok_def)
  note c = from_config_chunks [OF it ok, of undefined]
  from backup_chunks_saves [OF c b] show ?thesis using n' split_by_concat by metis
qed

text \<open>Reading ends for every file that can be read.\<close>

lemma backup_reader_ends:
  assumes "source_ok fa" "fa_open_read fa path = Some r"
  shows "\<exists>res. backup_reader fa r n q = Some res"
proof (cases "ChunkIter_from_config (fa_polynom fa) (fa_poly fa) (fa_config fa) r (unat (m_size (n_meta n)))")
  case (Inr it)
  have ok: "chunkable (fa_config fa)" "prefill_ok (fa_rolling fa)" "reader_ok r"
    using assms by (auto simp: source_ok_def)
  from backup_chunks_ends [OF from_config_chunks [OF Inr ok, of undefined]] obtain res
    where "backup_chunks (ChunkIter_next (fa_rolling fa)) (fa_hash fa) (fa_known fa) it q = Some res" by blast
  then show ?thesis by (cases res) (simp add: backup_reader_def Inr)
qed (simp add: backup_reader_def)

text \<open>What the parent says of an item.\<close>

definition parent_ok :: "'h FileArchiver \<Rightarrow> (Node \<Rightarrow> Node \<Rightarrow> bool) \<Rightarrow> Node \<Rightarrow> Node \<Rightarrow> unit ParentResult \<Rightarrow> bool" where
  "parent_ok fa same n n' r \<longleftrightarrow>
     (if r = PMatched () then \<exists>p. same n p \<and> n' = n\<lparr>n_content := n_content p\<rparr> \<and>
        (\<forall>ids. n_content p = Some ids \<longrightarrow> (\<forall>i \<in> set ids. fa_known fa i)) else n' = n)"

lemma process_file_saves:
  assumes "source_ok fa" "parent_ok fa same n n1 r" "process_file fa src n1 r q = Some (Inr (n', sz), q')"
  shows "set (ch_sent q) \<subseteq> set (ch_sent q') \<and> saved_as fa same q' n src n'"
proof (cases "r = PMatched ()")
  case True
  then have "n' = n1" "q' = q" using assms(3) by (auto simp: process_file_def)
  moreover obtain p where "same n p" "n1 = n\<lparr>n_content := n_content p\<rparr>" "\<forall>ids. n_content p = Some ids \<longrightarrow> (\<forall>i \<in> set ids. fa_known fa i)"
    using assms(2) True unfolding parent_ok_def by auto
  ultimately show ?thesis unfolding saved_as_def by blast
next
  case False
  then have n1: "n1 = n" using assms(2) by (simp add: parent_ok_def)
  show ?thesis
  proof (cases "n_type n = File")
    case True
    from assms(3) False True n1 obtain path rd where "src = Some path" "fa_open_read fa path = Some rd"
      and "backup_reader fa rd n q = Some (Inr (n', sz), q')"
      by (auto simp: process_file_def map_err_eq_Inr_iff split: option.splits)
    note s = backup_reader_saves [OF assms(1) this(2,3)]
    then have "saved_as fa same q' n src n'" unfolding saved_as_def using True \<open>src = Some path\<close> \<open>fa_open_read fa path = Some rd\<close>
      by (intro disjI2) blast
    with s show ?thesis by blast
  next
    case nf: False
    then have "n' = n" "q' = q" using assms(3) False n1 by (auto simp: process_file_def)
    then show ?thesis using nf by (simp add: saved_as_def)
  qed
qed

lemma process_file_ends: "source_ok fa \<Longrightarrow> \<exists>r. process_file fa src n p q = Some r"
  using backup_reader_ends by (fastforce simp: process_file_def split: option.splits)

end
