(* ===== verification/ArchiveRun.thy ===== *)
theory ArchiveRun
  imports Archiver
begin

text \<open>
  A whole backup (crates/core/src/archiver.rs): the stages put together. When no entry was reported as an error, the
  tree of the snapshot holds exactly the entries of the source, each in the directory of its path.
\<close>

section \<open>The parents along the way\<close>











section \<open>From events to stored items\<close>











section \<open>The items in their directories\<close>


















section \<open>The whole backup\<close>



























end
