(* ===== verification/IndexPacks.thy ===== *)
theory IndexPacks
  imports BinarySorted
begin

text \<open>
  Turning an index back into packs (\<open>PackIndexes\<close> of crates/core/src/index/binarysorted.rs): the entries are sorted
  by the number of their pack, and the iterator walks through the packs of trees and then of data with a position
  in the entries for each.
\<close>

section \<open>The iterator\<close>

record PackIndexes =
  px_c :: Index
  px_tpe :: BlobType
  px_idx :: "(u32 \<times> nat) BlobTypeMap"

fun sort_full :: "(SortedEntry list \<Rightarrow> SortedEntry list) \<Rightarrow> EntriesVariants \<Rightarrow> EntriesVariants" where
  "sort_full srt (EV_FullEntries es) = EV_FullEntries (srt es)"
| "sort_full srt v = v"

text \<open>The code sorts the entries twice.\<close>

definition Index_into_iter :: "(SortedEntry list \<Rightarrow> SortedEntry list) \<Rightarrow> Index \<Rightarrow> PackIndexes" where
  "Index_into_iter srt idx =
     (let idx = (\<lambda>t. (idx t)\<lparr>ti_entries := sort_full srt (ti_entries (idx t))\<rparr>);
          idx = (\<lambda>t. (idx t)\<lparr>ti_entries := sort_full srt (ti_entries (idx t))\<rparr>)
      in \<lparr>px_c = idx, px_tpe = Tree, px_idx = (\<lambda>_. (0, 0))\<rparr>)"

definition px_count :: "PackIndexes \<Rightarrow> BlobType \<Rightarrow> u32 rustic_result" where
  "px_count it t = ok_or (Panic ''pack count should fit into u32'') (u32_try_from (length (ti_packs (px_c it t))))"

text \<open>The loop that chooses the next pack: whether there is one, and the state with its type.\<close>

definition px_pick :: "PackIndexes \<Rightarrow> (bool \<times> PackIndexes) rustic_result" where
  "px_pick it =
     bindR (px_count it (px_tpe it)) (\<lambda>pack_count.
     if fst (px_idx it (px_tpe it)) \<ge> pack_count then
       if px_tpe it = Data then Inr (False, it)
       else let it = it\<lparr>px_tpe := Data\<rparr> in
         bindR (px_count it Data) (\<lambda>pack_count. Inr (fst (px_idx it Data) < pack_count, it))
     else Inr (True, it))"

function px_take :: "BlobType \<Rightarrow> SortedEntry list \<Rightarrow> u32 \<Rightarrow> nat \<Rightarrow> IndexBlob list \<times> nat" where
  "px_take t es pack_idx i =
     (if i < length es \<and> se_pack_idx (es ! i) = pack_idx then
        case px_take t es pack_idx (Suc i) of (blobs, j) \<Rightarrow>
          (\<lparr>ib_id = se_id (es ! i), ib_tpe = t, ib_location = se_location (es ! i)\<rparr> # blobs, j)
      else ([], i))"
  by pat_completeness auto
termination by (relation "measure (\<lambda>(t, es, pack_idx, i). length es - i)") auto

declare px_take.simps [simp del]

definition PackIndexes_next :: "PackIndexes \<Rightarrow> (IndexPack option \<times> PackIndexes) rustic_result" where
  "PackIndexes_next it =
     bindR (px_pick it) (\<lambda>(found, it).
     if \<not> found then Inr (None, it)
     else case px_idx it (px_tpe it) of (pack_idx, i) \<Rightarrow>
       let ti = px_c it (px_tpe it);
           pack = IndexPack_default\<lparr>ip_id := ti_packs ti ! unat pack_idx\<rparr>
       in case (case ti_entries ti of EV_FullEntries es \<Rightarrow> px_take (px_tpe it) es pack_idx i | _ \<Rightarrow> ([], i)) of (blobs, i) \<Rightarrow>
          Inr (Some (pack\<lparr>ip_blobs := blobs\<rparr>), it\<lparr>px_idx := (px_idx it)(px_tpe it := (pack_idx + 1, i))\<rparr>))"

partial_function (option) px_collect :: "PackIndexes \<Rightarrow> IndexPack list rustic_result option" where
  "px_collect it = (case PackIndexes_next it of
     Inl e \<Rightarrow> Some (Inl e)
   | Inr (None, it) \<Rightarrow> Some (Inr [])
   | Inr (Some p, it) \<Rightarrow> Option.bind (px_collect it) (\<lambda>r. Some (bindR r (\<lambda>ps. Inr (p # ps)))))"

section \<open>The packs come back\<close>

definition sort_packs_ok :: "(SortedEntry list \<Rightarrow> SortedEntry list) \<Rightarrow> bool" where
  "sort_packs_ok srt \<longleftrightarrow> (\<forall>es. mset (srt es) = mset es \<and> sorted (map se_pack_idx (srt es)))"

abbreviation pack_no :: "SortedEntry \<Rightarrow> nat" where
  "pack_no e \<equiv> unat (se_pack_idx e)"

definition blob_of :: "BlobType \<Rightarrow> SortedEntry \<Rightarrow> IndexBlob" where
  "blob_of t e = \<lparr>ib_id = se_id e, ib_tpe = t, ib_location = se_location e\<rparr>"

lemma px_take_block:
  "\<forall>e \<in> set ys. se_pack_idx e = k \<Longrightarrow> \<forall>e \<in> set zs. se_pack_idx e \<noteq> k \<Longrightarrow>
   px_take t (xs @ ys @ zs) k (length xs) = (map (blob_of t) ys, length xs + length ys)"
proof (induction ys arbitrary: xs)
  case Nil
  then show ?case by (subst px_take.simps) (cases zs; simp add: nth_append)
next
  case (Cons y ys)
  from Cons.IH [of "xs @ [y]"] Cons.prems show ?case by (subst px_take.simps) (simp add: blob_of_def)
qed

lemma sorted_blocks:
  "sorted (map se_pack_idx es) \<Longrightarrow>
   es = filter (\<lambda>e. pack_no e < k) es @ filter (\<lambda>e. pack_no e = k) es @ filter (\<lambda>e. k < pack_no e) es"
proof (induction es)
  case (Cons e es)
  from Cons.prems have le: "\<forall>x \<in> set es. pack_no e \<le> pack_no x" by (simp add: word_le_nat_alt)
  consider "pack_no e < k" | "pack_no e = k" | "k < pack_no e" by linarith
  then show ?case
  proof cases
    case 2
    then have "filter (\<lambda>e. pack_no e < k) es = []" using le by (auto simp: filter_empty_conv)
    then show ?thesis using Cons 2 by simp
  next
    case 3
    then have "filter (\<lambda>e. pack_no e < k) es = []" "filter (\<lambda>e. pack_no e = k) es = []" using le by (auto simp: filter_empty_conv)
    then show ?thesis using Cons 3 by simp
  qed (use Cons in simp)
qed simp

definition before :: "SortedEntry list \<Rightarrow> nat \<Rightarrow> nat" where
  "before es k = length (filter (\<lambda>e. pack_no e < k) es)"

lemma before_Suc: "before es (Suc k) = before es k + length (filter (\<lambda>e. pack_no e = k) es)"
  unfolding before_def by (induction es) auto

lemma px_take_group:
  assumes "sorted (map se_pack_idx es)" "k < 2 ^ 32"
  shows "px_take t es (word_of_nat k) (before es k) =
    (map (blob_of t) (filter (\<lambda>e. pack_no e = k) es), before es (Suc k))"
proof -
  let ?k = "word_of_nat k :: u32"
  have k: "unat ?k = k" using assms(2) by (simp add: unat_u32_of_nat)
  have "px_take t (filter (\<lambda>e. pack_no e < k) es @ filter (\<lambda>e. pack_no e = k) es @ filter (\<lambda>e. k < pack_no e) es) ?k
      (length (filter (\<lambda>e. pack_no e < k) es)) =
    (map (blob_of t) (filter (\<lambda>e. pack_no e = k) es), length (filter (\<lambda>e. pack_no e < k) es) + length (filter (\<lambda>e. pack_no e = k) es))"
    by (rule px_take_block) (use k in \<open>auto simp: word_unat_eq_iff\<close>)
  then show ?thesis unfolding sorted_blocks [OF assms(1), of k, symmetric] by (simp add: before_def before_Suc [unfolded before_def])
qed

text \<open>The state of the iterator before the pack number \<open>k\<close> of a type.\<close>

definition px_at :: "PackIndexes \<Rightarrow> BlobType \<Rightarrow> nat \<Rightarrow> SortedEntry list \<Rightarrow> bool" where
  "px_at it t k es \<longleftrightarrow> ti_entries (px_c it t) = EV_FullEntries es \<and> sorted (map se_pack_idx es) \<and>
     px_idx it t = (word_of_nat k, before es k) \<and> k \<le> length (ti_packs (px_c it t)) \<and> length (ti_packs (px_c it t)) < 2 ^ 32"

definition px_pack :: "PackIndexes \<Rightarrow> BlobType \<Rightarrow> SortedEntry list \<Rightarrow> nat \<Rightarrow> IndexPack" where
  "px_pack it t es k = IndexPack_default\<lparr>ip_id := ti_packs (px_c it t) ! k,
     ip_blobs := map (blob_of t) (filter (\<lambda>e. pack_no e = k) es)\<rparr>"

lemma px_at_count:
  assumes "px_at it t k es"
  shows "px_count it t = Inr (word_of_nat (length (ti_packs (px_c it t))))"
    "word_of_nat (length (ti_packs (px_c it t))) \<le> (word_of_nat k :: u32) \<longleftrightarrow> k = length (ti_packs (px_c it t))"
proof -
  have l: "unat (word_of_nat (length (ti_packs (px_c it t))) :: u32) = length (ti_packs (px_c it t))" "unat (word_of_nat k :: u32) = k"
    using assms by (simp_all add: px_at_def unat_u32_of_nat)
  show "word_of_nat (length (ti_packs (px_c it t))) \<le> (word_of_nat k :: u32) \<longleftrightarrow> k = length (ti_packs (px_c it t))"
    unfolding word_le_nat_alt l using assms by (auto simp: px_at_def)
  show "px_count it t = Inr (word_of_nat (length (ti_packs (px_c it t))))"
    using assms by (simp add: px_count_def px_at_def u32_try_from_def)
qed

lemma px_next_pack:
  assumes "px_at it t k es" "px_tpe it = t" "k < length (ti_packs (px_c it t))"
  shows "\<exists>it'. PackIndexes_next it = Inr (Some (px_pack it t es k), it') \<and> px_at it' t (Suc k) es \<and> px_tpe it' = t \<and>
    px_c it' = px_c it \<and> (\<forall>s. s \<noteq> t \<longrightarrow> px_idx it' s = px_idx it s)"
proof -
  have k: "k < 2 ^ 32" "unat (word_of_nat k :: u32) = k" using assms(1,3) by (simp_all add: px_at_def unat_u32_of_nat)
  have pick: "px_pick it = Inr (True, it)"
    using px_at_count [OF assms(1)] assms by (simp add: px_pick_def px_at_def)
  show ?thesis
    using assms px_take_group [of es k t] k(1)
    by (simp add: PackIndexes_next_def pick px_at_def Let_def px_pack_def k(2))
qed

lemma px_collect_step:
  "PackIndexes_next it = Inr (Some p, it') \<Longrightarrow> px_collect it' = Some (Inr ps) \<Longrightarrow> px_collect it = Some (Inr (p # ps))"
  by (subst px_collect.simps) simp

lemma px_collect_data:
  "px_at it Data k es \<Longrightarrow> px_tpe it = Data \<Longrightarrow>
   px_collect it = Some (Inr (map (px_pack it Data es) [k..<length (ti_packs (px_c it Data))]))"
proof (induction "length (ti_packs (px_c it Data)) - k" arbitrary: k it)
  case 0
  then have "k = length (ti_packs (px_c it Data))" by (simp add: px_at_def)
  then have "px_pick it = Inr (False, it)" using px_at_count [OF 0(2)] 0 by (simp add: px_pick_def px_at_def)
  then show ?case using \<open>k = _\<close> by (subst px_collect.simps) (simp add: PackIndexes_next_def)
next
  case (Suc m)
  then have k: "k < length (ti_packs (px_c it Data))" by simp
  from px_next_pack [OF Suc.prems k] obtain it' where it': "PackIndexes_next it = Inr (Some (px_pack it Data es k), it')"
    "px_at it' Data (Suc k) es" "px_tpe it' = Data" "px_c it' = px_c it" by blast
  from Suc.hyps(1) [OF _ it'(2,3)] Suc.hyps(2) it'(4) have "px_collect it' = Some (Inr (map (px_pack it' Data es) [Suc k..<length (ti_packs (px_c it Data))]))"
    by simp
  moreover have "px_pack it' Data es = px_pack it Data es" using it'(4) by (simp add: px_pack_def fun_eq_iff)
  ultimately show ?case using px_collect_step [OF it'(1)] k by (simp add: upt_conv_Cons)
qed

lemma px_collect_tree:
  "px_at it Tree k es \<Longrightarrow> px_tpe it = Tree \<Longrightarrow> px_at it Data 0 ds \<Longrightarrow>
   px_collect it = Some (Inr (map (px_pack it Tree es) [k..<length (ti_packs (px_c it Tree))] @
     map (px_pack it Data ds) [0..<length (ti_packs (px_c it Data))]))"
proof (induction "length (ti_packs (px_c it Tree)) - k" arbitrary: k it)
  case 0
  then have k: "k = length (ti_packs (px_c it Tree))" by (simp add: px_at_def)
  let ?it = "it\<lparr>px_tpe := Data\<rparr>"
  have at: "px_at ?it Data 0 ds" using 0(4) by (simp add: px_at_def)
  have "px_pick it = px_pick ?it"
    using px_at_count [OF 0(2)] px_at_count [OF at] 0(2-4) k by (auto simp: px_pick_def px_at_def not_le word_gt_0)
  then have "px_collect it = px_collect ?it"
    by (subst (1 2) px_collect.simps) (simp add: PackIndexes_next_def)
  moreover have "px_pack ?it Data ds = px_pack it Data ds" by (simp add: px_pack_def fun_eq_iff)
  ultimately show ?case using px_collect_data [OF at] k by simp
next
  case (Suc m)
  then have k: "k < length (ti_packs (px_c it Tree))" by simp
  from px_next_pack [OF Suc.prems(1,2) k] obtain it' where it': "PackIndexes_next it = Inr (Some (px_pack it Tree es k), it')"
    "px_at it' Tree (Suc k) es" "px_tpe it' = Tree" "px_c it' = px_c it" "px_idx it' Data = px_idx it Data" by blast
  have "px_at it' Data 0 ds" using Suc.prems(3) it'(4,5) by (simp add: px_at_def)
  from Suc.hyps(1) [OF _ it'(2,3) this] Suc.hyps(2) it'(4) have
    "px_collect it' = Some (Inr (map (px_pack it' Tree es) [Suc k..<length (ti_packs (px_c it Tree))] @
       map (px_pack it' Data ds) [0..<length (ti_packs (px_c it Data))]))" by simp
  moreover have "px_pack it' t xs = px_pack it t xs" for t xs using it'(4) by (simp add: px_pack_def fun_eq_iff)
  ultimately show ?case using px_collect_step [OF it'(1)] k by (simp add: upt_conv_Cons)
qed

text \<open>Which entries belong to a pack.\<close>

lemma type_entries_group:
  assumes "k < length ps" "length ps \<le> 2 ^ 32"
  shows "filter (\<lambda>e. pack_no e = k) (type_entries ps) = pack_entries k (ps ! k)"
  using assms
proof (induction ps rule: rev_induct)
  case (snoc p ps)
  have other: "filter (\<lambda>e. pack_no e = k) (pack_entries i q) = (if i = k then pack_entries i q else [])" if "i < 2 ^ 32" for i q
    using that by (auto simp: pack_entries_def unat_u32_of_nat filter_empty_conv)
  show ?case
  proof (cases "k < length ps")
    case True
    then show ?thesis using snoc other [of "length ps" p] by (simp add: type_entries_snoc nth_append)
  next
    case False
    then have k: "k = length ps" using snoc.prems by simp
    have "\<forall>e \<in> set (type_entries ps). pack_no e \<noteq> k"
      using snoc.prems k by (auto simp: type_entries_mem unat_u32_of_nat)
    then have "filter (\<lambda>e. pack_no e = k) (type_entries ps) = []" by (auto simp: filter_empty_conv)
    then show ?thesis using other [of k p] k snoc.prems by (simp add: type_entries_snoc nth_append)
  qed
qed simp

definition same_blobs :: "IndexPack \<Rightarrow> IndexPack \<Rightarrow> bool" where
  "same_blobs q p \<longleftrightarrow> ip_id q = ip_id p \<and> ip_time q = None \<and> ip_size q = None \<and>
     mset (ip_blobs q) = mset (map (\<lambda>b. b\<lparr>ib_tpe := ip_blob_type p\<rparr>) (ip_blobs p))"

lemma into_iter_at:
  assumes "sort_entries_ok srt" "sort_packs_ok srt2" "IndexCollector_extend ps (IndexCollector_new Full) = Inr c"
    and "length (of_type t ps) < 2 ^ 32"
  shows "\<exists>es. px_at (Index_into_iter srt2 (into_index srt c)) t 0 es \<and> mset es = mset (type_entries (of_type t ps)) \<and>
    ti_packs (px_c (Index_into_iter srt2 (into_index srt c)) t) = map ip_id (of_type t ps)"
proof -
  note x = extend_spec [OF assms(3), of t]
  let ?es = "srt2 (srt2 (srt (type_entries (of_type t ps))))"
  have "mset ?es = mset (type_entries (of_type t ps))" "sorted (map se_pack_idx ?es)"
    using assms(1,2) by (simp_all add: sort_entries_ok_def sort_packs_ok_def)
  then show ?thesis using x assms(4)
    by (intro exI [of _ ?es])
      (simp add: px_at_def Index_into_iter_def Let_def into_index_def new_entries_cases full_type_def before_def comp_def)
qed

lemma px_pack_same:
  assumes "mset es = mset (type_entries (of_type t ps))" "ti_packs (px_c it t) = map ip_id (of_type t ps)"
    and "k < length (of_type t ps)" "length (of_type t ps) < 2 ^ 32"
  shows "same_blobs (px_pack it t es k) (of_type t ps ! k)"
proof -
  let ?p = "of_type t ps ! k"
  have t: "ip_blob_type ?p = t" using nth_mem [OF assms(3)] by (simp add: of_type_def)
  have "mset (filter (\<lambda>e. pack_no e = k) es) = mset (filter (\<lambda>e. pack_no e = k) (type_entries (of_type t ps)))"
    using assms(1) by simp
  also have "\<dots> = mset (pack_entries k ?p)" using type_entries_group [of k "of_type t ps"] assms(3,4) by simp
  finally have "mset (map (blob_of t) (filter (\<lambda>e. pack_no e = k) es)) = mset (map (blob_of t) (pack_entries k ?p))" by simp
  moreover have "map (blob_of t) (pack_entries k ?p) = map (\<lambda>b. b\<lparr>ib_tpe := t\<rparr>) (ip_blobs ?p)"
    by (simp add: pack_entries_def blob_of_def comp_def)
  ultimately show ?thesis using assms(2,3) t by (simp add: same_blobs_def px_pack_def IndexPack_default_def)
qed

lemma index_packs_collected:
  assumes "sort_entries_ok srt" "sort_packs_ok srt2" "IndexCollector_extend ps (IndexCollector_new Full) = Inr c"
    and "\<forall>t. length (of_type t ps) < 2 ^ 32"
  shows "\<exists>qs. px_collect (Index_into_iter srt2 (into_index srt c)) = Some (Inr qs) \<and>
    list_all2 same_blobs qs (of_type Tree ps @ of_type Data ps)"
proof -
  let ?it = "Index_into_iter srt2 (into_index srt c)"
  obtain es where es: "px_at ?it Tree 0 es" "mset es = mset (type_entries (of_type Tree ps))" "ti_packs (px_c ?it Tree) = map ip_id (of_type Tree ps)"
    using into_iter_at [OF assms(1-3), of Tree] assms(4) by blast
  obtain ds where ds: "px_at ?it Data 0 ds" "mset ds = mset (type_entries (of_type Data ps))" "ti_packs (px_c ?it Data) = map ip_id (of_type Data ps)"
    using into_iter_at [OF assms(1-3), of Data] assms(4) by blast
  have "px_tpe ?it = Tree" by (simp add: Index_into_iter_def Let_def)
  note c = px_collect_tree [OF es(1) this ds(1)]
  have "list_all2 same_blobs (map (px_pack ?it Tree es) [0..<length (of_type Tree ps)]) (of_type Tree ps)"
    "list_all2 same_blobs (map (px_pack ?it Data ds) [0..<length (of_type Data ps)]) (of_type Data ps)"
    using px_pack_same [OF es(2,3)] px_pack_same [OF ds(2,3)] assms(4) by (simp_all add: list_all2_conv_all_nth)
  then show ?thesis using c es(3) ds(3) by (simp add: list_all2_appendI)
qed

text \<open>An index can be turned back into its packs: the iterator ends and yields every pack that was collected,
  first those of trees, then those of data, in the order they were added, each with its id and its blobs in some
  order. A pack that mixes blob types comes back with the type of its first blob.\<close>

theorem index_into_packs:
  assumes "sort_entries_ok srt" "sort_packs_ok srt2" "IndexCollector_extend ps (IndexCollector_new Full) = Inr c"
    and "\<forall>t. length (of_type t ps) < 2 ^ 32"
  shows "\<exists>qs. px_collect (Index_into_iter srt2 (into_index srt c)) = Some (Inr qs) \<and>
    list_all2 same_blobs qs (of_type Tree ps @ of_type Data ps)"
  by (rule index_packs_collected [OF assms])

theorem index_into_packs_witness:
  "\<exists>c qs. IndexCollector_extend [IndexPack_default\<lparr>ip_id := [7]\<rparr>] (IndexCollector_new Full) = Inr c \<and>
     px_collect (Index_into_iter (sort_key se_pack_idx) (into_index (sort_key se_id) c)) = Some (Inr qs) \<and> map ip_id qs = [[7]]"
proof -
  let ?ps = "[IndexPack_default\<lparr>ip_id := [7]\<rparr>]"
  have s: "sort_entries_ok (sort_key se_id)" "sort_packs_ok (sort_key se_pack_idx)" by (simp_all add: sort_entries_ok_def sort_packs_ok_def)
  obtain c where c: "IndexCollector_extend ?ps (IndexCollector_new Full) = Inr c"
    by (simp add: IndexCollector_extend_def extend_pack_def IndexCollector_new_def IndexPack_default_def
        u32_try_from_def TypeIndexCollector_default_def ip_blob_type_def Let_def ok_or_def)
  have "of_type Tree ?ps @ of_type Data ?ps = ?ps" by (simp add: of_type_def ip_blob_type_def IndexPack_default_def)
  moreover have "\<forall>t. length (of_type t ?ps) < 2 ^ 32" by (simp add: of_type_def)
  ultimately obtain qs where qs: "px_collect (Index_into_iter (sort_key se_pack_idx) (into_index (sort_key se_id) c)) = Some (Inr qs)"
    "list_all2 same_blobs qs ?ps" using index_into_packs [OF s c] by metis
  then have "map ip_id qs = [[7]]" by (auto simp: list_all2_Cons2 same_blobs_def)
  then show ?thesis using c qs(1) by (intro exI [of _ c] exI [of _ qs]) simp
qed

end
