(* ===== verification/Check.thy ===== *)
theory Check
  imports IndexPacks TreeStream Backend
begin

text \<open>
  Checking a repository (crates/core/src/commands/check.rs): the collected findings, the subset of packs to read, the
  comparison of files, cache and packs, the check of all trees and the check of the content of packs.

  A check returns its result together with the findings it added, in the order it added them; findings of
  parallel loops appear in the order of the list that is worked through.
\<close>

section \<open>Findings\<close>

datatype CheckError =
  ErrorReadingPack PackId rustic_error
| ErrorCheckingPack PackId rustic_error
| ErrorCheckingTrees rustic_error
| NoColdFile Id FileType
| HotFileSizeMismatch Id FileType u32 u32
| NoHotFile Id FileType
| ErrorReadingCache Id FileType rustic_error
| ErrorReadingFile Id FileType rustic_error
| CacheMismatch Id FileType
| PackTimeNotSet PackId
| PackBlobTypesMismatch PackId BlobId BlobType BlobType
| PackBlobOffsetMismatch PackId BlobId u32 u32
| PackNotReferenced Id
| HotPackNotReferenced PackId
| PackSizeMismatchIndex Id bool u32 u32
| HotPackSizeMismatchIndex Id bool u32 u32
| HotDataPack PackId
| NoHotPack PackId bool u32
| NoPack PackId bool u32
| FileHasNoContent Path
| FileBlobHasNullId Path nat
| FileBlobNotInIndex Path DataId
| NoSubTree Path
| NullSubTree Path
| SubTreeMissingInIndex Path TreeId
| PackSizeMismatch PackId nat nat
| PackHashMismatch PackId PackId
| PackHeaderLengthMismatch PackId u32 u32
| PackHeaderMismatchIndex PackId
| PackBlobLengthMismatch PackId BlobId
| PackBlobHashMismatch PackId BlobId BlobId

datatype CheckErrorLevel = LWarn | LError

type_synonym CheckResults = "(CheckErrorLevel \<times> CheckError) list"

definition CheckResults_is_ok :: "CheckResults \<Rightarrow> unit rustic_result" where
  "CheckResults_is_ok r =
     (if \<exists>x \<in> set r. fst x = LError then Inl (RusticError ERepository ''check found errors!'') else Inr ())"

type_synonym 'a check = "'a rustic_result \<times> CheckResults"

definition add_error :: "CheckError \<Rightarrow> unit check" where
  "add_error e = (Inr (), [(LError, e)])"

definition add_warn :: "CheckError \<Rightarrow> unit check" where
  "add_warn e = (Inr (), [(LWarn, e)])"

definition ck_return :: "'a \<Rightarrow> 'a check" where
  "ck_return x = (Inr x, [])"

definition ck_try :: "'a rustic_result \<Rightarrow> 'a check" where
  "ck_try r = (r, [])"

definition ck_bind :: "'a check \<Rightarrow> ('a \<Rightarrow> 'b check) \<Rightarrow> 'b check" where
  "ck_bind m f = (case m of
     (Inl e, w) \<Rightarrow> (Inl e, w)
   | (Inr x, w) \<Rightarrow> (case f x of (r, w') \<Rightarrow> (r, w @ w')))"

definition ck_when :: "bool \<Rightarrow> unit check \<Rightarrow> unit check" where
  "ck_when b m = (if b then m else ck_return ())"

fun ck_for :: "('a \<Rightarrow> unit check) \<Rightarrow> 'a list \<Rightarrow> unit check" where
  "ck_for f [] = ck_return ()"
| "ck_for f (x # xs) = ck_bind (f x) (\<lambda>_. ck_for f xs)"

fun ck_fold :: "('a \<Rightarrow> 's \<Rightarrow> 's check) \<Rightarrow> 'a list \<Rightarrow> 's \<Rightarrow> 's check" where
  "ck_fold f [] s = ck_return s"
| "ck_fold f (x # xs) s = ck_bind (f x s) (\<lambda>s. ck_fold f xs s)"

section \<open>Which packs to read\<close>

text \<open>A percentage is given by the function that computes the share of a total size (a floating point
  calculation in the code).\<close>

datatype ReadSubsetOption = RS_All | RS_Percentage "u64 \<Rightarrow> u64" | RS_Size u64 | RS_IdSubSet u32 u32

definition id_matches_n_m :: "Id \<Rightarrow> u32 \<Rightarrow> u32 \<Rightarrow> bool" where
  "id_matches_n_m i n m \<longleftrightarrow> as_u32 i mod m = n mod m"

text \<open>\<^verbatim>\<open>retain\<close> with the remaining size.\<close>

fun retain_size :: "u64 \<Rightarrow> IndexPack list \<Rightarrow> IndexPack list" where
  "retain_size sz [] = []"
| "retain_size sz (p # ps) =
    (let p_size = ucast (ip_pack_size p) in
     if sz > p_size then p # retain_size (sz - p_size) ps else retain_size sz ps)"

text \<open>The remainder by zero panics.\<close>

definition apply_with_rng :: "(IndexPack list \<Rightarrow> IndexPack list) \<Rightarrow> ReadSubsetOption \<Rightarrow> IndexPack list \<Rightarrow> IndexPack list rustic_result" where
  "apply_with_rng shuffle self packs =
     (let total_size = sum_list (map (\<lambda>p. ucast (ip_pack_size p)) packs) :: u64;
          random = (\<lambda>sz. Inr (retain_size sz (shuffle packs)))
      in case self of
        RS_All \<Rightarrow> Inr packs
      | RS_Percentage share \<Rightarrow> random (share total_size)
      | RS_Size s \<Rightarrow> random s
      | RS_IdSubSet n m \<Rightarrow>
          if m = 0 \<and> packs \<noteq> [] then Inl (Panic ''attempt to calculate the remainder with a divisor of zero'')
          else Inr (filter (\<lambda>p. id_matches_n_m (ip_id p) n m) packs))"

text \<open>The fields of the current time that named subsets use.\<close>

record SubsetTime =
  st_day_of_year :: u32
  st_hour :: u32
  st_iso_week :: u32
  st_month :: u32
  st_days_in_month :: u32
  st_days_in_year :: u32

definition parse_u32 :: "string \<Rightarrow> u32 option" where
  "parse_u32 s =
     (let ds = (case s of ch # r \<Rightarrow> if ch = CHR ''+'' then r else s | [] \<Rightarrow> []) in
      if ds = [] then None
      else case dec_value 0 ds of
        None \<Rightarrow> None
      | Some n \<Rightarrow> if n < 2 ^ 32 then Some (of_nat n) else None)"

text \<open>\<open>None\<close> is the error of the number parser.\<close>

definition parse_n_m :: "SubsetTime \<Rightarrow> string \<Rightarrow> string \<Rightarrow> (u32 \<times> u32) option rustic_result" where
  "parse_n_m now n_in m_in =
     (let n = (if n_in = ''hourly'' then Some ((st_day_of_year now - 1) * 24 + st_hour now)
               else if n_in = ''daily'' then Some (st_day_of_year now - 1)
               else if n_in = ''weekly'' then Some (st_iso_week now - 1)
               else if n_in = ''monthly'' then Some (st_month now - 1)
               else parse_u32 n_in);
          m = (if n_in = ''hourly'' \<and> m_in = ''day'' then Some 24
               else if n_in = ''hourly'' \<and> m_in = ''week'' then Some (24 * 7)
               else if n_in = ''hourly'' \<and> m_in = ''month'' \<or> m_in = ''month_hours'' then Some (24 * st_days_in_month now)
               else if n_in = ''hourly'' \<and> m_in = ''year'' \<or> m_in = ''year_hours'' then Some (24 * st_days_in_year now)
               else if n_in = ''daily'' \<and> m_in = ''week'' then Some 7
               else if n_in = ''daily'' \<and> m_in = ''month'' \<or> m_in = ''month_days'' then Some (st_days_in_month now)
               else if n_in = ''daily'' \<and> m_in = ''year'' \<or> m_in = ''year_days'' then Some (st_days_in_year now)
               else if n_in = ''weekly'' \<and> m_in = ''month'' then Some 4
               else if n_in = ''weekly'' \<and> m_in = ''year'' then Some 52
               else if n_in = ''monthly'' \<and> m_in = ''year'' then Some 12
               else parse_u32 m_in)
      in case (n, m) of
        (Some n, Some m) \<Rightarrow>
          if m = 0 then Inl (Panic ''attempt to calculate the remainder with a divisor of zero'') else Inr (Some (n mod m, m))
      | _ \<Rightarrow> Inr None)"

definition split_once :: "char \<Rightarrow> string \<Rightarrow> (string \<times> string) option" where
  "split_once c s = (case dropWhile (\<lambda>x. x \<noteq> c) s of [] \<Rightarrow> None | _ # r \<Rightarrow> Some (takeWhile (\<lambda>x. x \<noteq> c) s, r))"

text \<open>Parsing floating point percentages and sizes with units is done by library functions.\<close>

definition ReadSubsetOption_from_str ::
    "(string \<Rightarrow> (u64 \<Rightarrow> u64) option) \<Rightarrow> (string \<Rightarrow> u64 option) \<Rightarrow> SubsetTime \<Rightarrow> string \<Rightarrow> ReadSubsetOption rustic_result" where
  "ReadSubsetOption_from_str parse_percent parse_size now s =
     (if s = ''all'' then Inr RS_All
      else if s \<noteq> [] \<and> last s = CHR ''%'' then
        bindR (ok_or (RusticError EInvalidInput ''Error parsing percentage from value `{value}` for ReadSubset option. Did you forget the '%'?'')
          (parse_percent (butlast s))) (\<lambda>p. Inr (RS_Percentage p))
      else case split_once (CHR ''/'') s of
        Some (n, m) \<Rightarrow>
          bindR (parse_n_m now n m) (\<lambda>r.
          bindR (ok_or (RusticError EInvalidInput ''Error parsing 'n/m' from value `{value}` for ReadSubset option. Allowed values: 'all', 'x%', 'n/m' or a size.'')
            r) (\<lambda>(n, m). Inr (RS_IdSubSet n m)))
      | None \<Rightarrow>
          bindR (ok_or (RusticError EInvalidInput ''Error parsing size from value `{value}` for ReadSubset option. Allowed values: 'all', 'x%', 'n/m' or a size.'')
            (parse_size s)) (\<lambda>n. Inr (RS_Size n)))"

record CheckOptions =
  co_trust_cache :: bool
  co_read_data :: bool
  co_read_data_subset :: ReadSubsetOption

section \<open>Comparing files\<close>

text \<open>Maps are lists of pairs in the order of their keys; the code's hash map has no order.\<close>

definition collect_map :: "('k :: linorder \<times> 'v) list \<Rightarrow> ('k \<times> 'v) list" where
  "collect_map xs = foldl (\<lambda>m (k, v). bt_insert k v m) [] xs"

definition check_hot_files :: "(Id \<times> u32) list rustic_result \<Rightarrow> (Id \<times> u32) list rustic_result \<Rightarrow> FileType \<Rightarrow> unit check" where
  "check_hot_files be be_hot file_type =
     ck_bind (ck_try be) (\<lambda>files.
     ck_bind (ck_try be_hot) (\<lambda>files_hot.
     ck_bind
       (ck_fold (\<lambda>(i, size_hot) files.
          ck_bind (case map_of files i of
              None \<Rightarrow> add_error (NoColdFile i file_type)
            | Some sz \<Rightarrow> if sz \<noteq> size_hot then add_error (HotFileSizeMismatch i file_type size_hot sz) else ck_return ())
            (\<lambda>_. ck_return (bt_remove i files))) files_hot (collect_map files)) (\<lambda>files.
     ck_for (\<lambda>(i, _). add_error (NoHotFile i file_type)) files)))"

definition check_cache_files ::
    "(Id \<times> u32) list rustic_result \<Rightarrow> (Id \<Rightarrow> bytes option rustic_result) \<Rightarrow> (Id \<Rightarrow> bytes rustic_result) \<Rightarrow> FileType \<Rightarrow> unit check" where
  "check_cache_files cache_list cache_read be_read file_type =
     ck_bind (ck_try cache_list) (\<lambda>files.
     ck_for (\<lambda>(i, _). case (cache_read i, be_read i) of
         (Inl e, _) \<Rightarrow> add_error (ErrorReadingCache i file_type e)
       | (_, Inl e) \<Rightarrow> add_error (ErrorReadingFile i file_type e)
       | (Inr (Some data_cached), Inr data) \<Rightarrow>
           if data_cached \<noteq> data then add_error (CacheMismatch i file_type) else ck_return ()
       | (Inr None, Inr _) \<Rightarrow> ck_return ()) files)"

section \<open>The packs of the index\<close>

type_synonym IndexPacks = "(PackId \<times> u32 \<times> bool) list"

text \<open>The loop over the sorted blobs of a pack with the offset that is expected next.\<close>

fun check_offsets :: "PackId \<Rightarrow> BlobType \<Rightarrow> u32 \<Rightarrow> IndexBlob list \<Rightarrow> unit check" where
  "check_offsets pid blob_type expected_offset [] = ck_return ()"
| "check_offsets pid blob_type expected_offset (b # bs) =
     ck_bind (ck_when (ib_tpe b \<noteq> blob_type) (add_error (PackBlobTypesMismatch pid (ib_id b) (ib_tpe b) blob_type))) (\<lambda>_.
     ck_bind (ck_when (bl_offset (ib_location b) \<noteq> expected_offset)
       (add_error (PackBlobOffsetMismatch pid (ib_id b) (bl_offset (ib_location b)) expected_offset))) (\<lambda>_.
     check_offsets pid blob_type (expected_offset + bl_length (ib_location b)) bs))"

record CheckPacks =
  cp_packs :: IndexPacks
  cp_tree_packs :: IndexPacks
  cp_collector :: IndexCollector

definition check_index_pack ::
    "(IndexBlob list \<Rightarrow> IndexBlob list) \<Rightarrow> bool \<Rightarrow> IndexPack \<times> bool \<Rightarrow> CheckPacks \<Rightarrow> CheckPacks check" where
  "check_index_pack sort_blobs hot pd s = (case pd of (p, to_delete) \<Rightarrow>
     (let blob_type = ip_blob_type p; pack_size = ip_pack_size p;
          s = s\<lparr>cp_packs := bt_insert (ip_id p) (pack_size, to_delete) (cp_packs s)\<rparr>;
          s = (if hot \<and> blob_type = BlobType.Tree then s\<lparr>cp_tree_packs := bt_insert (ip_id p) (pack_size, to_delete) (cp_tree_packs s)\<rparr> else s)
      in ck_bind (ck_when (to_delete \<and> ip_time p = None) (add_error (PackTimeNotSet (ip_id p)))) (\<lambda>_.
         ck_bind (check_offsets (ip_id p) blob_type 0 (sort_blobs (ip_blobs p))) (\<lambda>_. ck_return s))))"

definition check_index_file ::
    "(IndexBlob list \<Rightarrow> IndexBlob list) \<Rightarrow> bool \<Rightarrow> IndexFile rustic_result \<Rightarrow> CheckPacks \<Rightarrow> CheckPacks check" where
  "check_index_file sort_blobs hot idx s =
     ck_bind (ck_try idx) (\<lambda>f.
     ck_bind (ck_try (IndexCollector_extend (ifi_packs f) (cp_collector s))) (\<lambda>c.
     ck_fold (check_index_pack sort_blobs hot) (all_packs f) (s\<lparr>cp_collector := c\<rparr>)))"

definition check_packs_list :: "(Id \<times> u32) list rustic_result \<Rightarrow> IndexPacks \<Rightarrow> IndexPacks check" where
  "check_packs_list be packs =
     ck_bind (ck_try be) (\<lambda>packs_from_be.
     ck_bind
       (ck_fold (\<lambda>(i, sz) packs.
          ck_bind (case map_of packs i of
              None \<Rightarrow> add_warn (PackNotReferenced i)
            | Some (index_size, to_delete) \<Rightarrow>
                if index_size \<noteq> sz then add_error (PackSizeMismatchIndex i to_delete index_size sz) else ck_return ())
            (\<lambda>_. ck_return (bt_remove i packs))) (sort_key fst packs_from_be) packs) (\<lambda>packs.
     ck_bind (ck_for (\<lambda>(i, sz, to_delete). add_error (NoPack i to_delete sz)) packs) (\<lambda>_. ck_return packs)))"

definition check_packs_list_hot :: "(Id \<times> u32) list rustic_result \<Rightarrow> IndexPacks \<Rightarrow> IndexPacks \<Rightarrow> unit check" where
  "check_packs_list_hot be treepacks packs =
     ck_bind (ck_try be) (\<lambda>packs_from_be.
     ck_bind
       (ck_fold (\<lambda>(i, sz) treepacks.
          ck_bind (case map_of treepacks i of
              None \<Rightarrow> if map_of packs i \<noteq> None then add_warn (HotDataPack i) else add_warn (HotPackNotReferenced i)
            | Some (index_size, to_delete) \<Rightarrow>
                if index_size \<noteq> sz then add_error (HotPackSizeMismatchIndex i to_delete index_size sz) else ck_return ())
            (\<lambda>_. ck_return (bt_remove i treepacks))) packs_from_be treepacks) (\<lambda>treepacks.
     ck_for (\<lambda>(i, sz, to_delete). add_error (NoHotPack i to_delete sz)) treepacks))"

text \<open>The index files come as a stream of results. The packs that are returned are those missing in the backend.\<close>

definition check_packs ::
    "(IndexBlob list \<Rightarrow> IndexBlob list) \<Rightarrow> IndexFile rustic_result list rustic_result \<Rightarrow> (Id \<times> u32) list rustic_result
     \<Rightarrow> (Id \<times> u32) list rustic_result option \<Rightarrow> (IndexCollector \<times> IndexPacks) check" where
  "check_packs sort_blobs stream list_packs hot_list_packs =
     ck_bind (ck_try stream) (\<lambda>files.
     ck_bind (ck_fold (check_index_file sort_blobs (hot_list_packs \<noteq> None)) files
        \<lparr>cp_packs = [], cp_tree_packs = [], cp_collector = IndexCollector_new Full\<rparr>) (\<lambda>s.
     ck_bind (case hot_list_packs of None \<Rightarrow> ck_return () | Some hot \<Rightarrow> check_packs_list_hot hot (cp_tree_packs s) (cp_packs s)) (\<lambda>_.
     ck_bind (check_packs_list list_packs (cp_packs s)) (\<lambda>packs.
     ck_return (cp_collector s, packs)))))"

section \<open>The trees\<close>

text \<open>The packs that hold what was found are collected along the way.\<close>

fun check_content ::
    "(BlobType \<Rightarrow> BlobId \<Rightarrow> IndexEntry option) \<Rightarrow> Path \<Rightarrow> nat \<Rightarrow> DataId list \<Rightarrow> PackId set \<Rightarrow> PackId set check" where
  "check_content get_id path i [] packs = ck_return packs"
| "check_content get_id path i (d # ids) packs =
     ck_bind (ck_when (is_null d) (add_error (FileBlobHasNullId path i))) (\<lambda>_.
     ck_bind (case get_data get_id d of
         None \<Rightarrow> ck_bind (add_error (FileBlobNotInIndex path d)) (\<lambda>_. ck_return packs)
       | Some entry \<Rightarrow> ck_return (insert (ie_pack entry) packs)) (\<lambda>packs.
     check_content get_id path (i + 1) ids packs))"

definition check_node :: "(BlobType \<Rightarrow> BlobId \<Rightarrow> IndexEntry option) \<Rightarrow> Path \<Rightarrow> Node \<Rightarrow> PackId set \<Rightarrow> PackId set check" where
  "check_node get_id path node packs =
     (let file = path_join path (node_name node) in
      case n_type node of
        File \<Rightarrow> (case n_content node of
            None \<Rightarrow> ck_bind (add_error (FileHasNoContent file)) (\<lambda>_. ck_return packs)
          | Some content \<Rightarrow> check_content get_id file 0 content packs)
      | Dir \<Rightarrow> (case n_subtree node of
            None \<Rightarrow> ck_bind (add_error (NoSubTree file)) (\<lambda>_. ck_return packs)
          | Some i \<Rightarrow>
              if is_null i then ck_bind (add_error (NullSubTree file)) (\<lambda>_. ck_return packs)
              else (case get_tree get_id i of
                  None \<Rightarrow> ck_bind (add_error (SubTreeMissingInIndex file i)) (\<lambda>_. ck_return packs)
                | Some entry \<Rightarrow> ck_return (insert (ie_pack entry) packs)))
      | _ \<Rightarrow> ck_return packs)"

definition check_tree_item ::
    "(BlobType \<Rightarrow> BlobId \<Rightarrow> IndexEntry option) \<Rightarrow> TreeId \<times> Path \<times> Tree \<Rightarrow> PackId set \<Rightarrow> PackId set check" where
  "check_tree_item get_id item packs = (case item of (_, path, tree) \<Rightarrow> ck_fold (check_node get_id path) (t_nodes tree) packs)"

text \<open>The streamer ends, or a tree that was requested cannot be loaded.\<close>

inductive check_trees ::
    "(TreeId \<Rightarrow> Tree rustic_result) \<Rightarrow> (BlobType \<Rightarrow> BlobId \<Rightarrow> IndexEntry option) \<Rightarrow> TreeId list \<Rightarrow> PackId set check \<Rightarrow> bool"
  for load get_id snap_trees where
  trees_checked: "\<lbrakk>streamer_run load (streamer_new snap_trees) items s; streamer_done s\<rbrakk>
    \<Longrightarrow> check_trees load get_id snap_trees (ck_fold (check_tree_item get_id) items {})"
| tree_missing: "\<lbrakk>streamer_run load (streamer_new snap_trees) items s; \<not> streamer_done s; (path, i, num) \<in> set (ts_pending s); load i = Inl e\<rbrakk>
    \<Longrightarrow> check_trees load get_id snap_trees (Inl e, snd (ck_fold (check_tree_item get_id) items {}))"

section \<open>The content of packs\<close>

text \<open>The blobs of a pack one after the other. Splitting off more than there is and data that cannot be decompressed
  panic.\<close>

fun check_blobs :: "prims \<Rightarrow> bytes \<Rightarrow> PackId \<Rightarrow> IndexBlob list \<Rightarrow> bytes \<Rightarrow> unit check" where
  "check_blobs p key pid [] data = ck_return ()"
| "check_blobs p key pid (b # bs) data =
     (let len = unat (bl_length (ib_location b)); blob_id = ib_id b in
      if length data < len then ck_try (Inl (Panic ''split_to out of bounds''))
      else
        ck_bind (ck_try (Key_decrypt_data p key (take len data))) (\<lambda>blob_data.
        ck_bind (case bl_uncompressed_length (ib_location b) of
            None \<Rightarrow> ck_return blob_data
          | Some n \<Rightarrow>
              ck_bind (ck_try (ok_or (Panic ''called `Result::unwrap()` on an `Err` value'') (p_decode p blob_data))) (\<lambda>blob_data.
              ck_bind (ck_when (length blob_data \<noteq> unat n) (add_error (PackBlobLengthMismatch pid blob_id))) (\<lambda>_.
              ck_return blob_data))) (\<lambda>blob_data.
        ck_bind (ck_when (blob_id \<noteq> p_sha256 p blob_data) (add_error (PackBlobHashMismatch pid blob_id (p_sha256 p blob_data)))) (\<lambda>_.
        check_blobs p key pid bs (drop len data)))))"

definition check_pack ::
    "(bytes \<Rightarrow> bool) \<Rightarrow> (IndexBlob list \<Rightarrow> IndexBlob list) \<Rightarrow> prims \<Rightarrow> bytes \<Rightarrow> IndexPack \<Rightarrow> bytes \<Rightarrow> unit check" where
  "check_pack eofp sort_blobs p key index_pack data =
     (let pid = ip_id index_pack; sz = ip_pack_size index_pack in
      if length data \<noteq> unat sz then add_error (PackSizeMismatch pid (length data) (unat sz))
      else if pid \<noteq> p_sha256 p data then add_error (PackHashMismatch pid (p_sha256 p data))
      else if length data < 4 then ck_try (Inl (Panic ''split_off out of bounds''))
      else
        let header_len = header_size (ip_blobs index_pack); body = take (length data - 4) data in
        ck_bind (ck_try (map_err (\<lambda>_. RusticError EInternal ''Error reading pack header length `{length}` for `{pack_id}`'')
          (PackHeaderLength_from_binary (drop (length data - 4) data)))) (\<lambda>pack_header_len.
        if pack_header_len \<noteq> header_len then add_error (PackHeaderLengthMismatch pid pack_header_len header_len)
        else if length body < unat header_len then ck_try (Inl (Panic ''split_off out of bounds''))
        else
          let k = length body - unat header_len in
          ck_bind (ck_try (Key_decrypt_data p key (drop k body))) (\<lambda>header.
          ck_bind (ck_try (map_err (\<lambda>_. RusticError EInternal ''Error reading pack header for id `{pack_id}`'')
            (PackHeader_from_binary eofp header))) (\<lambda>pack_blobs.
          let blobs = sort_blobs (ip_blobs index_pack) in
          if pack_blobs \<noteq> blobs then add_error (PackHeaderMismatchIndex pid)
          else check_blobs p key pid blobs (take k body)))))"

section \<open>The whole check\<close>

text \<open>Everything outside: the backend, the hot part, the cache, the stream of index files, waiting for warm-up,
  the parser of trees, and the orders that the code leaves open.\<close>

record CheckEnv =
  ce_list :: "FileType \<Rightarrow> (Id \<times> u32) list rustic_result"
  ce_read_full :: "FileType \<Rightarrow> Id \<Rightarrow> bytes rustic_result"
  ce_read_partial :: "FileType \<Rightarrow> Id \<Rightarrow> bool \<Rightarrow> u32 \<Rightarrow> u32 \<Rightarrow> bytes rustic_result"
  ce_hot_list :: "(FileType \<Rightarrow> (Id \<times> u32) list rustic_result) option"
  ce_cache :: "((FileType \<Rightarrow> (Id \<times> u32) list rustic_result) \<times> (FileType \<Rightarrow> Id \<Rightarrow> bytes option rustic_result)) option"
  ce_index_files :: "IndexFile rustic_result list rustic_result"
  ce_warm_up_wait :: "PackId list \<Rightarrow> unit rustic_result"
  ce_from_slice :: "bytes \<Rightarrow> Tree option"
  ce_eof :: "bytes \<Rightarrow> bool"
  ce_prims :: prims
  ce_be :: DecryptBackend
  ce_sort_blobs :: "IndexBlob list \<Rightarrow> IndexBlob list"
  ce_sort_entries :: "SortedEntry list \<Rightarrow> SortedEntry list"
  ce_sort_packs :: "SortedEntry list \<Rightarrow> SortedEntry list"
  ce_shuffle :: "IndexPack list \<Rightarrow> IndexPack list"

definition check_cache_types :: "CheckEnv \<Rightarrow> FileType list \<Rightarrow> unit check" where
  "check_cache_types env ts = (case ce_cache env of
     None \<Rightarrow> ck_return ()
   | Some (cl, cr) \<Rightarrow> ck_for (\<lambda>t. check_cache_files (cl t) (cr t) (ce_read_full env t) t) ts)"

text \<open>Up to the index: cached files (they are listed first, which cleans up the cache), files of the hot part,
  packs. Cleaning up packs in the cache can only warn.\<close>

definition check_before :: "CheckEnv \<Rightarrow> CheckOptions \<Rightarrow> (IndexCollector \<times> IndexPacks) check" where
  "check_before env opts =
     ck_bind (ck_when (\<not> co_trust_cache opts \<and> ce_cache env \<noteq> None)
       (ck_for (\<lambda>t. ck_bind (ck_try (ce_list env t)) (\<lambda>_. check_cache_types env [t])) [FSnapshot, FIndex])) (\<lambda>_.
     ck_bind (case ce_hot_list env of
         None \<Rightarrow> ck_return ()
       | Some hot \<Rightarrow> ck_for (\<lambda>t. check_hot_files (ce_list env t) (hot t) t) [FSnapshot, FIndex]) (\<lambda>_.
     ck_bind (check_packs (ce_sort_blobs env) (ce_index_files env) (ce_list env FPack) (map_option (\<lambda>hot. hot FPack) (ce_hot_list env))) (\<lambda>r.
     ck_bind (ck_when (\<not> co_trust_cache opts) (check_cache_types env [FPack])) (\<lambda>_.
     ck_return r))))"

text \<open>An error while checking one pack is a finding, a panic is not caught.\<close>

definition read_and_check :: "CheckEnv \<Rightarrow> IndexPack \<Rightarrow> unit check" where
  "read_and_check env pack =
     (let pid = ip_id pack in
      case ce_read_full env FPack pid of
        Inl e \<Rightarrow> add_error (ErrorReadingPack pid e)
      | Inr data \<Rightarrow>
          (case check_pack (ce_eof env) (ce_sort_blobs env) (ce_prims env) (db_key (ce_be env)) pack data of
             (Inl (Panic m), w) \<Rightarrow> (Inl (Panic m), w)
           | (Inl e, w) \<Rightarrow> (Inr (), w @ [(LError, ErrorCheckingPack pid e)])
           | (Inr _, w) \<Rightarrow> (Inr (), w)))"

definition check_data :: "CheckEnv \<Rightarrow> CheckOptions \<Rightarrow> IndexPacks \<Rightarrow> PackId set \<Rightarrow> IndexPack list rustic_result \<Rightarrow> unit check" where
  "check_data env opts missing_packs packs index_packs =
     (if \<not> co_read_data opts then ck_return ()
      else
        ck_bind (ck_try index_packs) (\<lambda>qs.
        ck_bind (ck_try (apply_with_rng (ce_shuffle env) (co_read_data_subset opts)
          (filter (\<lambda>q. ip_id q \<in> packs) (filter (\<lambda>q. map_of missing_packs (ip_id q) = None) qs)))) (\<lambda>qs.
        ck_bind (ck_try (ce_warm_up_wait env (map ip_id qs))) (\<lambda>_.
        ck_for (read_and_check env) qs))))"

definition env_load :: "CheckEnv \<Rightarrow> Index \<Rightarrow> TreeId \<Rightarrow> Tree rustic_result" where
  "env_load env idx = Tree_from_backend (ce_from_slice env) (read_data (ce_prims env) (ce_be env) (ce_read_partial env)) (Index_get_id idx)"

inductive check_repository :: "CheckEnv \<Rightarrow> CheckOptions \<Rightarrow> TreeId list \<Rightarrow> CheckResults rustic_result \<Rightarrow> bool" for env opts trees where
  check_stopped: "check_before env opts = (Inl e, w) \<Longrightarrow> check_repository env opts trees (Inl e)"
| check_done: "\<lbrakk>check_before env opts = (Inr (collector, missing_packs), w1); idx = into_index (ce_sort_entries env) collector;
    check_trees (env_load env idx) (Index_get_id idx) trees (r, w2);
    px_collect (Index_into_iter (ce_sort_packs env) idx) = Some index_packs;
    check_data env opts missing_packs (case r of Inl _ \<Rightarrow> {} | Inr packs \<Rightarrow> packs) index_packs = (res, w3)\<rbrakk>
    \<Longrightarrow> check_repository env opts trees
      (bindR res (\<lambda>_. Inr (w1 @ w2 @ (case r of Inl e \<Rightarrow> [(LError, CheckError.ErrorCheckingTrees e)] | Inr _ \<Rightarrow> []) @ w3)))"

end
