(* ===== verification/CheckProps.thy ===== *)
theory CheckProps
  imports Check Packer
begin

text \<open>
  What a check that reports no error has established (crates/core/src/commands/check.rs). A computation that checks
  is \<open>clean\<close> for a result if it returns this result and adds no finding of level error; being clean goes through all
  combinators, so the facts are read off the definitions.
\<close>

section \<open>Checks without errors\<close>

definition no_errors :: "CheckResults \<Rightarrow> bool" where
  "no_errors w \<longleftrightarrow> (\<forall>x \<in> set w. fst x \<noteq> LError)"

definition clean :: "'a check \<Rightarrow> 'a \<Rightarrow> bool" where
  "clean m x \<longleftrightarrow> fst m = Inr x \<and> no_errors (snd m)"

named_theorems clean_simps

lemma CheckResults_is_ok_clean: "CheckResults_is_ok w = Inr () \<longleftrightarrow> no_errors w"
  by (auto simp: CheckResults_is_ok_def no_errors_def)

lemma no_errors_append [simp]: "no_errors (w1 @ w2) \<longleftrightarrow> no_errors w1 \<and> no_errors w2"
  by (auto simp: no_errors_def)

lemma no_errors_simps [simp]: "no_errors []" "no_errors ((l, e) # w) \<longleftrightarrow> l \<noteq> LError \<and> no_errors w"
  by (simp_all add: no_errors_def)

lemma cleanI: "m = (Inr x, w) \<Longrightarrow> no_errors w \<Longrightarrow> clean m x"
  by (simp add: clean_def)

lemma clean_return [clean_simps]: "clean (ck_return a) x \<longleftrightarrow> x = a"
  by (auto simp: clean_def ck_return_def)

lemma clean_try [clean_simps]: "clean (ck_try r) x \<longleftrightarrow> r = Inr x"
  by (auto simp: clean_def ck_try_def)

lemma clean_add_error [clean_simps]: "\<not> clean (add_error e) x"
  by (simp add: clean_def add_error_def)

lemma clean_add_warn [clean_simps]: "clean (add_warn e) x"
  by (simp add: clean_def add_warn_def)

lemma clean_bind [clean_simps]: "clean (ck_bind m f) y \<longleftrightarrow> (\<exists>x. clean m x \<and> clean (f x) y)"
  by (auto simp: clean_def ck_bind_def split: prod.splits sum.splits)

lemma Ex_unit [clean_simps]: "Ex P \<longleftrightarrow> P ()"
  by (metis (full_types) unit.exhaust)

lemma clean_when [clean_simps]: "clean (ck_when b m) x \<longleftrightarrow> (b \<longrightarrow> clean m x)"
  by (simp add: ck_when_def clean_return)

lemma clean_for [clean_simps]: "clean (ck_for f xs) u \<longleftrightarrow> (\<forall>x \<in> set xs. clean (f x) ())"
  by (induction xs) (auto simp: clean_simps)

lemma clean_fold_Nil [clean_simps]: "clean (ck_fold f [] s) s' \<longleftrightarrow> s' = s"
  by (simp add: clean_simps)

lemma clean_fold_Cons [clean_simps]: "clean (ck_fold f (x # xs) s) s' \<longleftrightarrow> (\<exists>s1. clean (f x s) s1 \<and> clean (ck_fold f xs s1) s')"
  by (simp add: clean_simps)

declare ck_fold.simps [simp del] ck_for.simps [simp del]

text \<open>What a step of a clean loop shows holds for every element, if later steps keep it.\<close>

lemma clean_fold_grow:
  assumes "\<And>x s s'. x \<in> set xs \<Longrightarrow> clean (f x s) s' \<Longrightarrow> s \<subseteq> s' \<and> P x s'"
    and "\<And>x s s'. P x s \<Longrightarrow> s \<subseteq> s' \<Longrightarrow> P x s'" "clean (ck_fold f xs s) s'"
  shows "s \<subseteq> s' \<and> (\<forall>x \<in> set xs. P x s')"
  using assms(1,3)
proof (induction xs arbitrary: s)
  case (Cons x xs)
  then obtain s1 where s1: "clean (f x s) s1" "clean (ck_fold f xs s1) s'" by (auto simp only: clean_fold_Cons)
  have "s \<subseteq> s1 \<and> P x s1" using Cons.prems(1) [of x] s1(1) by simp
  moreover have "s1 \<subseteq> s' \<and> (\<forall>x \<in> set xs. P x s')" using Cons.IH [OF Cons.prems(1) s1(2)] by simp
  ultimately show ?case using assms(2) by auto
qed (simp add: clean_simps)

section \<open>Packs\<close>

definition register_pack :: "IndexPack \<times> bool \<Rightarrow> IndexPacks \<Rightarrow> IndexPacks" where
  "register_pack pd = bt_insert (ip_id (fst pd)) (ip_pack_size (fst pd), snd pd)"

lemma clean_index_pack:
  "clean (check_index_pack sort_blobs hot pd s) s' \<Longrightarrow>
   cp_collector s' = cp_collector s \<and> cp_packs s' = register_pack pd (cp_packs s)"
  by (cases pd) (auto simp: check_index_pack_def Let_def clean_simps register_pack_def)

lemma clean_index_packs:
  "clean (ck_fold (check_index_pack sort_blobs hot) pds s) s' \<Longrightarrow>
   cp_collector s' = cp_collector s \<and> cp_packs s' = fold register_pack pds (cp_packs s)"
proof (induction pds arbitrary: s)
  case (Cons pd pds)
  obtain s1 where s1: "clean (check_index_pack sort_blobs hot pd s) s1"
    "clean (ck_fold (check_index_pack sort_blobs hot) pds s1) s'" using clean_fold_Cons [THEN iffD1, OF Cons.prems] by blast
  show ?case using clean_index_pack [OF s1(1)] Cons.IH [OF s1(2)] by simp
qed (simp add: clean_simps)

definition file_packs :: "IndexFile rustic_result \<Rightarrow> IndexPack list" where
  "file_packs r = (case r of Inl _ \<Rightarrow> [] | Inr f \<Rightarrow> ifi_packs f)"

definition file_all_packs :: "IndexFile rustic_result \<Rightarrow> (IndexPack \<times> bool) list" where
  "file_all_packs r = (case r of Inl _ \<Rightarrow> [] | Inr f \<Rightarrow> all_packs f)"

lemma clean_index_files:
  "clean (ck_fold (check_index_file sort_blobs hot) files s) s' \<Longrightarrow>
   IndexCollector_extend (concat (map file_packs files)) (cp_collector s) = Inr (cp_collector s') \<and>
   cp_packs s' = fold register_pack (concat (map file_all_packs files)) (cp_packs s)"
proof (induction files arbitrary: s)
  case (Cons r files)
  obtain s1 where s1: "clean (check_index_file sort_blobs hot r s) s1"
    "clean (ck_fold (check_index_file sort_blobs hot) files s1) s'" using clean_fold_Cons [THEN iffD1, OF Cons.prems] by blast
  from s1(1) obtain f c where f: "r = Inr f" "IndexCollector_extend (ifi_packs f) (cp_collector s) = Inr c"
    "clean (ck_fold (check_index_pack sort_blobs hot) (all_packs f) (s\<lparr>cp_collector := c\<rparr>)) s1"
    by (auto simp: check_index_file_def clean_simps)
  show ?case using clean_index_packs [OF f(3)] Cons.IH [OF s1(2)] f(1,2)
    by (simp add: file_packs_def file_all_packs_def IndexCollector_extend_def foldR_append result_simps)
qed (simp add: clean_simps IndexCollector_extend_def)

lemma map_of_register:
  "map_of (fold register_pack pds m) i = Some v \<Longrightarrow>
   map_of m i = Some v \<or> (\<exists>pd \<in> set pds. ip_id (fst pd) = i \<and> v = (ip_pack_size (fst pd), snd pd))"
proof (induction pds arbitrary: m)
  case (Cons pd pds)
  have "map_of (fold register_pack pds (register_pack pd m)) i = Some v" using Cons.prems by simp
  from Cons.IH [OF this] show ?case by (auto simp: register_pack_def split: if_splits)
qed simp

lemma dom_register: "dom (map_of (fold register_pack pds m)) = dom (map_of m) \<union> ip_id ` fst ` set pds"
  by (induction pds arbitrary: m) (auto simp: register_pack_def)

lemma clean_packs_list_fold:
  "clean (ck_fold (\<lambda>(i, sz) packs.
      ck_bind (case map_of packs i of
          None \<Rightarrow> add_warn (PackNotReferenced i)
        | Some (index_size, to_delete) \<Rightarrow>
            if index_size \<noteq> sz then add_error (PackSizeMismatchIndex i to_delete index_size sz) else ck_return ())
        (\<lambda>_. ck_return (bt_remove i packs))) ls packs) packs' \<Longrightarrow>
   map_of packs i = Some (sz, d) \<Longrightarrow> map_of packs' i = Some (sz, d) \<or> (i, sz) \<in> set ls"
proof (induction ls arbitrary: packs)
  case (Cons l ls)
  obtain j sz' where l: "l = (j, sz')" by fastforce
  from Cons.prems(1) have 1: "clean (case map_of packs j of
          None \<Rightarrow> add_warn (PackNotReferenced j)
        | Some (index_size, to_delete) \<Rightarrow>
            if index_size \<noteq> sz' then add_error (PackSizeMismatchIndex j to_delete index_size sz') else ck_return ()) ()"
    and 2: "clean (ck_fold (\<lambda>(i, sz) packs.
      ck_bind (case map_of packs i of
          None \<Rightarrow> add_warn (PackNotReferenced i)
        | Some (index_size, to_delete) \<Rightarrow>
            if index_size \<noteq> sz then add_error (PackSizeMismatchIndex i to_delete index_size sz) else ck_return ())
        (\<lambda>_. ck_return (bt_remove i packs))) ls (bt_remove j packs)) packs'"
    by (simp_all add: clean_simps l)
  show ?case
  proof (cases "i = j")
    case True
    then show ?thesis using 1 Cons.prems(2) l by (auto simp: clean_simps split: if_splits)
  next
    case False
    then show ?thesis using Cons.IH [OF 2] Cons.prems(2) by auto
  qed
qed (simp add: clean_simps)

lemma clean_packs_list:
  assumes "clean (check_packs_list be packs) packs'"
  shows "packs' = [] \<and> (\<exists>ls. be = Inr ls \<and> (\<forall>i sz d. map_of packs i = Some (sz, d) \<longrightarrow> (i, sz) \<in> set ls))"
proof -
  obtain ls where ls: "be = Inr ls" "clean (ck_fold (\<lambda>(i, sz) packs.
      ck_bind (case map_of packs i of
          None \<Rightarrow> add_warn (PackNotReferenced i)
        | Some (index_size, to_delete) \<Rightarrow>
            if index_size \<noteq> sz then add_error (PackSizeMismatchIndex i to_delete index_size sz) else ck_return ())
        (\<lambda>_. ck_return (bt_remove i packs))) (sort_key fst ls) packs) packs'"
    "\<forall>x \<in> set packs'. clean (case x of (i, sz, to_delete) \<Rightarrow> add_error (NoPack i to_delete sz)) ()"
    using assms by (auto simp: check_packs_list_def clean_simps)
  then have "packs' = []" by (cases packs') (auto simp: clean_simps)
  then show ?thesis using clean_packs_list_fold [OF ls(2)] ls(1) by auto
qed

definition env_packs :: "CheckEnv \<Rightarrow> IndexPack list" where
  "env_packs env = (case ce_index_files env of Inl _ \<Rightarrow> [] | Inr files \<Rightarrow> concat (map file_packs files))"

text \<open>With the packs that are marked for deletion.\<close>

definition env_all_packs :: "CheckEnv \<Rightarrow> (IndexPack \<times> bool) list" where
  "env_all_packs env = (case ce_index_files env of Inl _ \<Rightarrow> [] | Inr files \<Rightarrow> concat (map file_all_packs files))"

lemma clean_before:
  assumes "clean (check_before env opts) (c, missing)"
  shows "missing = [] \<and> IndexCollector_extend (env_packs env) (IndexCollector_new Full) = Inr c \<and>
    (\<exists>ls. ce_list env FPack = Inr ls \<and> (\<forall>(p, d) \<in> set (env_all_packs env).
       \<exists>(q, d') \<in> set (env_all_packs env). ip_id q = ip_id p \<and> (ip_id p, ip_pack_size q) \<in> set ls))"
proof -
  have "clean (check_packs (ce_sort_blobs env) (ce_index_files env) (ce_list env FPack) (map_option (\<lambda>hot. hot FPack) (ce_hot_list env)))
      (c, missing)"
    using assms unfolding check_before_def clean_bind clean_return by blast
  then obtain files s hot where f: "ce_index_files env = Inr files"
    "clean (ck_fold (check_index_file (ce_sort_blobs env) hot) files
        \<lparr>cp_packs = [], cp_tree_packs = [], cp_collector = IndexCollector_new Full\<rparr>) s"
    "clean (check_packs_list (ce_list env FPack) (cp_packs s)) missing" "c = cp_collector s"
    unfolding check_packs_def clean_bind clean_return clean_try by blast
  note x = clean_index_files [OF f(2), simplified]
  obtain ls where ls: "ce_list env FPack = Inr ls" "\<forall>i sz d. map_of (cp_packs s) i = Some (sz, d) \<longrightarrow> (i, sz) \<in> set ls"
    and m: "missing = []" using clean_packs_list [OF f(3)] by auto
  have "\<exists>(q, d') \<in> set (env_all_packs env). ip_id q = ip_id p \<and> (ip_id p, ip_pack_size q) \<in> set ls"
    if "(p, d) \<in> set (env_all_packs env)" for p d
  proof -
    have s: "cp_packs s = fold register_pack (env_all_packs env) []" using x f(1) by (simp add: env_all_packs_def)
    have "ip_id p \<in> dom (map_of (cp_packs s))" unfolding s dom_register using that by force
    then obtain sz d' where v: "map_of (cp_packs s) (ip_id p) = Some (sz, d')" by fastforce
    from map_of_register [of _ "[]", OF v [unfolded s]] obtain q where
      "(q, d') \<in> set (env_all_packs env)" "ip_id q = ip_id p" "sz = ip_pack_size q" by auto
    then show ?thesis using ls(2) v by auto
  qed
  then show ?thesis using m x f(1,4) ls(1) by (auto simp: env_packs_def)
qed

section \<open>Trees\<close>

text \<open>A property \<open>P\<close> of all blobs that a node refers to; a file has content, a directory a subtree.\<close>

definition node_complete :: "(BlobType \<Rightarrow> BlobId \<Rightarrow> bool) \<Rightarrow> Node \<Rightarrow> bool" where
  "node_complete P node \<longleftrightarrow>
     (n_type node = File \<longrightarrow> (\<exists>content. n_content node = Some content \<and> (\<forall>d \<in> set content. P Data d))) \<and>
     (n_type node = Dir \<longrightarrow> (\<exists>i. n_subtree node = Some i \<and> P BlobType.Tree i))"

lemma node_complete_mono: "node_complete P node \<Longrightarrow> (\<And>t i. P t i \<Longrightarrow> Q t i) \<Longrightarrow> node_complete Q node"
  by (auto simp: node_complete_def)

definition in_packs :: "(BlobType \<Rightarrow> BlobId \<Rightarrow> IndexEntry option) \<Rightarrow> PackId set \<Rightarrow> BlobType \<Rightarrow> BlobId \<Rightarrow> bool" where
  "in_packs get_id packs t i \<longleftrightarrow> \<not> is_null i \<and> (\<exists>e. get_id t i = Some e \<and> ie_pack e \<in> packs)"

lemma in_packs_mono: "in_packs get_id packs t i \<Longrightarrow> packs \<subseteq> packs' \<Longrightarrow> in_packs get_id packs' t i"
  by (auto simp: in_packs_def)

lemma clean_content:
  "clean (check_content get_id path k ids packs) packs' \<Longrightarrow> packs \<subseteq> packs' \<and> (\<forall>d \<in> set ids. in_packs get_id packs' Data d)"
proof (induction ids arbitrary: k packs)
  case (Cons d ids)
  then obtain e where e: "\<not> is_null d" "get_id Data d = Some e"
    "clean (check_content get_id path (k + 1) ids (insert (ie_pack e) packs)) packs'"
    by (auto simp: clean_simps get_data_def split: option.splits)
  show ?case using Cons.IH [OF e(3)] e(1,2) by (auto simp: in_packs_def)
qed (simp add: clean_simps)

lemma clean_node:
  assumes "clean (check_node get_id path node packs) packs'"
  shows "packs \<subseteq> packs' \<and> node_complete (in_packs get_id packs') node"
proof (cases "n_type node")
  case File
  then obtain content where c: "n_content node = Some content"
    "clean (check_content get_id (path_join path (node_name node)) 0 content packs) packs'"
    using assms by (cases "n_content node") (simp_all add: check_node_def Let_def clean_simps)
  then show ?thesis using clean_content [OF c(2)] File by (simp add: node_complete_def)
next
  case Dir
  then obtain i where i: "n_subtree node = Some i"
    using assms by (cases "n_subtree node") (simp_all add: check_node_def Let_def clean_simps)
  then obtain e where "\<not> is_null i" "get_id BlobType.Tree i = Some e" "packs' = insert (ie_pack e) packs"
    using assms Dir by (cases "is_null i"; cases "get_id BlobType.Tree i")
      (simp_all add: check_node_def Let_def clean_simps get_tree_def)
  then show ?thesis using Dir i by (auto simp: node_complete_def in_packs_def)
qed (use assms in \<open>simp_all add: check_node_def Let_def clean_simps node_complete_def\<close>)

lemma clean_tree_item:
  assumes "clean (check_tree_item get_id item packs) packs'"
  shows "packs \<subseteq> packs' \<and> (\<forall>node \<in> set (t_nodes (snd (snd item))). node_complete (in_packs get_id packs') node)"
proof (rule clean_fold_grow)
  show "clean (ck_fold (check_node get_id (fst (snd item))) (t_nodes (snd (snd item))) packs) packs'"
    using assms by (simp add: check_tree_item_def split_beta)
  show "s \<subseteq> s' \<and> node_complete (in_packs get_id s') node" if "clean (check_node get_id (fst (snd item)) node s) s'" for node s s'
    using clean_node [OF that] .
  show "node_complete (in_packs get_id s') node" if "node_complete (in_packs get_id s) node" "s \<subseteq> s'" for node s s'
    using that(1) by (rule node_complete_mono) (rule in_packs_mono [OF _ that(2)])
qed

lemma clean_tree_items:
  assumes "clean (ck_fold (check_tree_item get_id) items {}) packs"
  shows "\<forall>item \<in> set items. \<forall>node \<in> set (t_nodes (snd (snd item))). node_complete (in_packs get_id packs) node"
proof -
  have "{} \<subseteq> packs \<and> (\<forall>item \<in> set items. \<forall>node \<in> set (t_nodes (snd (snd item))). node_complete (in_packs get_id packs) node)"
  proof (rule clean_fold_grow [OF _ _ assms])
    show "s \<subseteq> s' \<and> (\<forall>node \<in> set (t_nodes (snd (snd item))). node_complete (in_packs get_id s') node)"
      if "clean (check_tree_item get_id item s) s'" for item s s' using clean_tree_item [OF that] .
    show "\<forall>node \<in> set (t_nodes (snd (snd item))). node_complete (in_packs get_id s') node"
      if "\<forall>node \<in> set (t_nodes (snd (snd item))). node_complete (in_packs get_id s) node" "s \<subseteq> s'"
      for item :: "TreeId \<times> Path \<times> Tree" and s s'
    proof
      fix node assume "node \<in> set (t_nodes (snd (snd item)))"
      with that(1) have "node_complete (in_packs get_id s) node" by simp
      then show "node_complete (in_packs get_id s') node" by (rule node_complete_mono) (rule in_packs_mono [OF _ that(2)])
    qed
  qed
  then show ?thesis by blast
qed

text \<open>All trees were visited.\<close>

definition trees_complete :: "(TreeId \<Rightarrow> Tree rustic_result) \<Rightarrow> TreeId list \<Rightarrow> (BlobType \<Rightarrow> BlobId \<Rightarrow> bool) \<Rightarrow> bool" where
  "trees_complete load roots P \<longleftrightarrow> (\<forall>i \<in> reach load (set roots). \<exists>t. load i = Inr t \<and> (\<forall>node \<in> set (t_nodes t). node_complete P node))"

lemma trees_complete_mono:
  assumes "trees_complete load roots P" "\<And>t i. P t i \<Longrightarrow> Q t i"
  shows "trees_complete load roots Q"
  unfolding trees_complete_def
proof
  fix i assume "i \<in> reach load (set roots)"
  then obtain t where t: "load i = Inr t" "\<forall>node \<in> set (t_nodes t). node_complete P node"
    using assms(1) by (auto simp: trees_complete_def)
  have "node_complete Q node" if "node \<in> set (t_nodes t)" for node
    using node_complete_mono [of P node Q] t(2) that assms(2) by blast
  then show "\<exists>t. load i = Inr t \<and> (\<forall>node \<in> set (t_nodes t). node_complete Q node)" using t(1) by blast
qed

lemma clean_trees:
  assumes "check_trees load get_id roots m" "clean m packs"
  shows "trees_complete load roots (in_packs get_id packs)"
  using assms(1)
proof cases
  case (trees_checked items s)
  note inv = stream_inv_run [OF trees_checked(2)]
  note r = stream_inv_done [OF inv trees_checked(3)]
  have c: "\<forall>item \<in> set items. \<forall>node \<in> set (t_nodes (snd (snd item))). node_complete (in_packs get_id packs) node"
    using clean_tree_items assms(2) trees_checked(1) by blast
  show ?thesis unfolding trees_complete_def
  proof
    fix i assume "i \<in> reach load (set roots)"
    then obtain p t where it: "(i, p, t) \<in> set items" using r by force
    then have "load i = Inr t" using inv by (auto simp: stream_inv_def)
    then show "\<exists>t. load i = Inr t \<and> (\<forall>node \<in> set (t_nodes t). node_complete (in_packs get_id packs) node)"
      using bspec [OF c it] by simp
  qed
qed (use assms(2) in \<open>simp add: clean_def\<close>)

section \<open>The content of packs\<close>

text \<open>The bytes of a blob, where its entry says, can be decrypted, and the content has the id of the blob.\<close>

definition blob_intact :: "prims \<Rightarrow> DecryptBackend \<Rightarrow> bytes \<Rightarrow> BlobId \<Rightarrow> BlobLocation \<Rightarrow> bool" where
  "blob_intact p be file bid loc \<longleftrightarrow>
     (let s = unat (bl_offset loc); n = unat (bl_length loc) in
      s + n \<le> length file \<and> (\<exists>d. read_encrypted_from_partial p be (subslice s (s + n) file) (bl_uncompressed_length loc) = Inr d \<and>
        p_sha256 p d = bid))"

lemma blob_intact_append: "blob_intact p be file bid loc \<Longrightarrow> blob_intact p be (file @ rest) bid loc"
  by (auto simp: blob_intact_def Let_def subslice_def)

lemma clean_blob:
  assumes "clean (check_blobs p (db_key be) pid (b # bs) data) u"
  shows "unat (bl_length (ib_location b)) \<le> length data \<and>
    (\<exists>d. read_encrypted_from_partial p be (take (unat (bl_length (ib_location b))) data) (bl_uncompressed_length (ib_location b)) = Inr d \<and>
      p_sha256 p d = ib_id b) \<and>
    clean (check_blobs p (db_key be) pid bs (drop (unat (bl_length (ib_location b))) data)) u"
proof (cases "bl_uncompressed_length (ib_location b)")
  case None
  then show ?thesis using assms
    by (auto simp: Let_def clean_simps read_encrypted_from_partial_def split: if_splits)
next
  case (Some n)
  then obtain x d where "Key_decrypt_data p (db_key be) (take (unat (bl_length (ib_location b))) data) = Inr x"
    "p_decode p x = Some d" "length d = unat n" "ib_id b = p_sha256 p d" "unat (bl_length (ib_location b)) \<le> length data"
    "clean (check_blobs p (db_key be) pid bs (drop (unat (bl_length (ib_location b))) data)) u"
    using assms by (auto simp: Let_def clean_simps result_simps split: if_splits)
  then show ?thesis using Some by (simp add: read_encrypted_from_partial_def ok_or_def)
qed

lemma clean_blobs:
  "clean (check_blobs p (db_key be) pid bs data) u \<Longrightarrow> contiguous (word_of_nat (length pre)) bs \<Longrightarrow> length (pre @ data) < 2 ^ 32 \<Longrightarrow>
   \<forall>b \<in> set bs. blob_intact p be (pre @ data) (ib_id b) (ib_location b)"
proof (induction bs arbitrary: pre data)
  case (Cons b bs)
  let ?n = "unat (bl_length (ib_location b))"
  note 1 = clean_blob [OF Cons.prems(1)]
  have off: "unat (bl_offset (ib_location b)) = length pre" using Cons.prems(2,3) by (simp add: unat_u32_of_nat)
  have "\<forall>b \<in> set bs. blob_intact p be ((pre @ take ?n data) @ drop ?n data) (ib_id b) (ib_location b)"
    using Cons.prems(2,3) 1 by (intro Cons.IH) simp_all
  moreover have "blob_intact p be (pre @ data) (ib_id b) (ib_location b)"
    using 1 by (simp add: blob_intact_def Let_def off subslice_def)
  ultimately show ?case by simp
qed simp

lemma clean_pack:
  assumes "clean (check_pack eofp sort_blobs p (db_key be) ip data) u" "\<And>bs. set (sort_blobs bs) = set bs"
  shows "\<forall>b \<in> set (ip_blobs ip). blob_intact p be data (ib_id b) (ib_location b)"
proof -
  obtain k pid h where k: "PackHeader_from_binary eofp h = Inr (sort_blobs (ip_blobs ip))"
    "clean (check_blobs p (db_key be) pid (sort_blobs (ip_blobs ip)) (take k data)) u" "length data = unat (ip_pack_size ip)"
    using assms(1) by (auto simp: check_pack_def Let_def clean_simps result_simps split: if_splits)
  have "length data < 2 ^ 32" unfolding k(3) by (rule order.strict_trans2 [OF unsigned_less]) simp
  then have "length (take k data) < 2 ^ 32" by simp
  moreover have "contiguous 0 (sort_blobs (ip_blobs ip))" using PackHeader_from_binary_sound [OF k(1)] by simp
  ultimately have "\<forall>b \<in> set (ip_blobs ip). blob_intact p be (take k data) (ib_id b) (ib_location b)"
    using clean_blobs [OF k(2), of "[]"] assms(2) by simp
  then show ?thesis using blob_intact_append [of p be "take k data" _ _ "drop k data"] by simp
qed

lemma clean_read_and_check:
  assumes "clean (read_and_check env ip) u"
  shows "\<exists>data. ce_read_full env FPack (ip_id ip) = Inr data \<and>
    clean (check_pack (ce_eof env) (ce_sort_blobs env) (ce_prims env) (db_key (ce_be env)) ip data) ()"
  using assms
  by (auto simp: read_and_check_def Let_def add_error_def clean_def split: sum.splits prod.splits rustic_error.splits)

section \<open>The whole check\<close>

text \<open>The index as any command builds it from the index files.\<close>

definition env_index :: "CheckEnv \<Rightarrow> Index \<Rightarrow> bool" where
  "env_index env idx \<longleftrightarrow> (\<exists>c. IndexCollector_extend (env_packs env) (IndexCollector_new Full) = Inr c \<and> idx = into_index (ce_sort_entries env) c)"

lemma clean_repository:
  assumes "check_repository env opts roots (Inr results)" "CheckResults_is_ok results = Inr ()"
  obtains idx c packs ips where "env_index env idx" "clean (check_before env opts) (c, [])"
    "idx = into_index (ce_sort_entries env) c"
    "trees_complete (env_load env idx) roots (in_packs (Index_get_id idx) packs)"
    "px_collect (Index_into_iter (ce_sort_packs env) idx) = Some ips" "clean (check_data env opts [] packs ips) ()"
  using assms(1)
proof cases
  case (check_done c missing w1 idx r w2 ips res w3)
  then have ne: "no_errors results" "res = Inr ()" and res: "results = w1 @ w2 @
      (case r of Inl e \<Rightarrow> [(LError, CheckError.ErrorCheckingTrees e)] | Inr _ \<Rightarrow> []) @ w3"
    using assms(2) by (cases res; simp add: CheckResults_is_ok_clean)+
  obtain packs where packs: "r = Inr packs" using ne(1) res by (cases r) simp_all
  have b: "clean (check_before env opts) (c, missing)" using ne(1) res check_done(2) by (simp add: clean_def)
  have m: "missing = []" "env_index env idx" using clean_before [OF b] check_done(3) by (auto simp: env_index_def)
  have "clean (r, w2) packs" using ne(1) res packs by (simp add: clean_def)
  from clean_trees [OF check_done(4) this] have t: "trees_complete (env_load env idx) roots (in_packs (Index_get_id idx) packs)" .
  have "clean (check_data env opts [] packs ips) ()" using check_done(6) packs m(1) ne res by (simp add: clean_def)
  then show ?thesis using that m b t check_done(3,5) by blast
qed

lemma index_entry:
  assumes "env_index env idx" "sort_entries_ok (ce_sort_entries env)" "Index_get_id idx t i = Some e"
  shows "\<exists>p \<in> set (env_packs env). \<exists>b \<in> set (ip_blobs p). ip_blob_type p = t \<and> ib_id b = i \<and>
    e = \<lparr>ie_blob_type = t, ie_pack = ip_id p, ie_location = ib_location b\<rparr>"
  using assms Index_get_id_sound [OF assms(2)] by (auto simp: env_index_def)

lemma env_packs_all: "p \<in> set (env_packs env) \<Longrightarrow> (p, False) \<in> set (env_all_packs env)"
  by (auto simp: env_packs_def env_all_packs_def file_packs_def file_all_packs_def all_packs_def split: sum.splits)

lemma read_blob:
  assumes "Index_get_id idx t i = Some e" "blob_intact p be data i (ie_location e)" "reads_file rp (ie_pack e) data"
  shows "\<exists>d. blob_from_backend p be rp (Index_get_id idx) t i = Inr d \<and> p_sha256 p d = i"
  using assms
  by (auto simp: blob_from_backend_def read_data_def read_encrypted_partial_def blob_intact_def Let_def reads_file_def)

lemma clean_data_intact:
  assumes "clean (check_data env opts [] packs ips) ()" "co_read_data opts" "co_read_data_subset opts = RS_All"
    and "ips = Inr qs" "q \<in> set qs" "ip_id q \<in> packs" "\<And>bs. set (ce_sort_blobs env bs) = set bs" "b \<in> set (ip_blobs q)"
  shows "\<exists>data. ce_read_full env FPack (ip_id q) = Inr data \<and> blob_intact (ce_prims env) (ce_be env) data (ib_id b) (ib_location b)"
proof -
  have "clean (read_and_check env q) ()"
    using assms(1-6) by (auto simp: check_data_def clean_simps apply_with_rng_def Let_def)
  then obtain data where data: "ce_read_full env FPack (ip_id q) = Inr data"
    "clean (check_pack (ce_eof env) (ce_sort_blobs env) (ce_prims env) (db_key (ce_be env)) q data) ()"
    using clean_read_and_check by blast
  show ?thesis using data(1) clean_pack [OF data(2) assms(7)] assms(8) by blast
qed

lemma pack_blob_collected:
  assumes "list_all2 same_blobs qs (of_type Tree ps @ of_type Data ps)" "p \<in> set ps" "b \<in> set (ip_blobs p)"
  shows "\<exists>q \<in> set qs. ip_id q = ip_id p \<and> (\<exists>b' \<in> set (ip_blobs q). ib_id b' = ib_id b \<and> ib_location b' = ib_location b)"
proof -
  have "p \<in> set (of_type Tree ps @ of_type Data ps)" using assms(2) by (cases "ip_blob_type p") (simp_all add: of_type_def)
  then obtain q where q: "q \<in> set qs" "same_blobs q p" using assms(1) by (metis in_set_conv_nth list_all2_conv_all_nth)
  have "set (ip_blobs q) = (\<lambda>b. b\<lparr>ib_tpe := ip_blob_type p\<rparr>) ` set (ip_blobs p)"
    using q(2) by (metis same_blobs_def set_map set_mset_mset)
  then have "b\<lparr>ib_tpe := ip_blob_type p\<rparr> \<in> set (ip_blobs q)" using assms(3) by blast
  then show ?thesis using q by (intro bexI [of _ q]) (auto simp: same_blobs_def intro!: bexI [of _ "b\<lparr>ib_tpe := ip_blob_type p\<rparr>"])
qed

section \<open>A healthy pack is accepted\<close>

lemma intact_head:
  assumes "blob_intact p be (pre @ data) (ib_id b) (ib_location b)" "bl_offset (ib_location b) = word_of_nat (length pre)"
    and "length (pre @ data) < 2 ^ 32"
  shows "unat (bl_length (ib_location b)) \<le> length data \<and>
    (\<exists>d. read_encrypted_from_partial p be (take (unat (bl_length (ib_location b))) data) (bl_uncompressed_length (ib_location b)) = Inr d \<and>
      p_sha256 p d = ib_id b)"
proof -
  have "unat (bl_offset (ib_location b)) = length pre" using assms(2,3) by (simp add: unat_u32_of_nat)
  then show ?thesis using assms(1) by (auto simp: blob_intact_def Let_def subslice_def)
qed

lemma check_blobs_intact:
  "contiguous (word_of_nat (length pre)) bs \<Longrightarrow> length (pre @ data) < 2 ^ 32 \<Longrightarrow>
   \<forall>b \<in> set bs. blob_intact p be (pre @ data) (ib_id b) (ib_location b) \<Longrightarrow> check_blobs p (db_key be) pid bs data = (Inr (), [])"
proof (induction bs arbitrary: pre data)
  case (Cons b bs)
  let ?n = "unat (bl_length (ib_location b))"
  obtain d where d: "?n \<le> length data" "read_encrypted_from_partial p be (take ?n data) (bl_uncompressed_length (ib_location b)) = Inr d"
    "p_sha256 p d = ib_id b"
    using intact_head [of p be pre data b] Cons.prems by auto
  have "check_blobs p (db_key be) pid bs (drop ?n data) = (Inr (), [])"
    using Cons.prems d(1) by (intro Cons.IH [of "pre @ take ?n data"]) simp_all
  then show ?case using d
    by (cases "bl_uncompressed_length (ib_location b)")
      (auto simp: Let_def read_encrypted_from_partial_def result_simps ck_bind_def ck_try_def ck_return_def ck_when_def ok_or_def
        split: if_splits option.splits)
qed (simp add: ck_return_def)

lemma pack_bytes_parts:
  "take (length (pack_bytes body hdr) - 4) (pack_bytes body hdr) = body @ hdr"
  "drop (length (pack_bytes body hdr) - 4) (pack_bytes body hdr) = PackHeaderLength_to_binary (of_nat (length hdr))"
  by (simp_all add: pack_bytes_def PackHeaderLength_to_binary_def)

lemma blob_intact_prefix:
  "blob_intact p be (body @ rest) bid loc \<Longrightarrow> unat (bl_offset loc) + unat (bl_length loc) \<le> length body \<Longrightarrow> blob_intact p be body bid loc"
  by (auto simp: blob_intact_def Let_def subslice_def)

lemma contiguous_inside:
  assumes "contiguous off bs" "b \<in> set bs" "unat off + sum_list (map blob_nat bs) < 2 ^ 32"
  shows "unat (bl_offset (ib_location b)) + unat (bl_length (ib_location b)) \<le> unat off + sum_list (map blob_nat bs)"
  using assms
proof (induction bs arbitrary: off)
  case (Cons c bs)
  have "unat (off + bl_length (ib_location c)) = unat off + blob_nat c"
    unfolding blob_nat_def using Cons.prems(3) by (intro unat_u32_add) (simp add: blob_nat_def)
  then show ?case using Cons.IH [of "off + bl_length (ib_location c)"] Cons.prems
    by (cases "b = c") (simp_all add: blob_nat_def add.assoc)
qed simp

text \<open>The index knows the pack and its blobs in some order.\<close>

lemma sizes_perm:
  assumes "mset xs = mset ys" "32 + sum_list (map entry_nat ys) < 2 ^ 32"
  shows "header_size xs = header_size ys"
    and "36 + sum_list (map blob_nat ys) + sum_list (map entry_nat ys) < 2 ^ 32 \<Longrightarrow> header_pack_size xs = header_pack_size ys"
proof -
  have e: "sum_list (map f xs) = sum_list (map f ys)" for f :: "IndexBlob \<Rightarrow> nat"
    using assms(1) by (metis mset_map sum_mset_sum_list)
  have "unat (header_size xs) = unat (header_size ys)" using assms(2) by (simp add: unat_header_size e)
  then show "header_size xs = header_size ys" by (simp only: word_unat_eq_iff)
  assume "36 + sum_list (map blob_nat ys) + sum_list (map entry_nat ys) < 2 ^ 32"
  then have "unat (header_pack_size xs) = unat (header_pack_size ys)" by (simp add: unat_header_pack_size e)
  then show "header_pack_size xs = header_pack_size ys" by (simp only: word_unat_eq_iff)
qed

lemma check_good_pack:
  assumes good: "good_pack p (db_key be) (file, ip)" and q: "mset (ip_blobs q) = mset (ip_blobs ip)" "ip_size q = None"
    and srt: "sort_blobs (ip_blobs q) = ip_blobs ip"
    and intact: "\<forall>b \<in> set (ip_blobs ip). blob_intact p be (concat file) (ib_id b) (ib_location b)"
    and i: "ip_id q = p_sha256 p (concat file)"
  shows "check_pack eofp sort_blobs p (db_key be) q (concat file) = (Inr (), [])"
proof -
  obtain body hdr where c: "concat file = pack_bytes body hdr" and l: "length (concat file) < 2 ^ 32"
    and dec: "Key_decrypt_data p (db_key be) hdr = Inr (PackHeader_to_binary (ip_blobs ip))"
    and h: "length hdr = length (PackHeader_to_binary (ip_blobs ip)) + 32"
    and w: "\<forall>b \<in> set (ip_blobs ip). wf_blob b" and ct: "contiguous 0 (ip_blobs ip)"
    and b: "length body = sum_list (map blob_nat (ip_blobs ip))"
    using good by (auto simp: good_pack_def)
  have lb: "length body + length hdr + 4 < 2 ^ 32" using l by (simp add: c length_pack_bytes)
  have eq: "header_size (ip_blobs q) = header_size (ip_blobs ip)" "header_pack_size (ip_blobs q) = header_pack_size (ip_blobs ip)"
    using sizes_perm [OF q(1)] length_PackHeader_to_binary [OF w] lb h b by simp_all
  have "ip_size ip = None" using good by (auto simp: good_pack_def)
  then have sz: "unat (ip_pack_size q) = length (pack_bytes body hdr)"
    using good_pack_size [OF good] q(2) eq(2) by (simp add: c ip_pack_size_def)
  have hs: "unat (header_size (ip_blobs ip)) = length hdr"
    using h length_PackHeader_to_binary [OF w] lb by (simp add: unat_header_size)
  then have hw: "word_of_nat (length hdr) = header_size (ip_blobs ip)" by (simp flip: hs)
  have hl: "PackHeaderLength_from_binary (PackHeaderLength_to_binary (word_of_nat (length hdr))) = Inr (header_size (ip_blobs ip))"
    using read_u32_to_le [of "word_of_nat (length hdr)" "[]"] hw
    by (simp add: PackHeaderLength_from_binary_def PackHeaderLength_to_binary_def)
  have "\<forall>b \<in> set (ip_blobs ip). blob_intact p be body (ib_id b) (ib_location b)"
    using intact contiguous_inside [OF ct] lb b unfolding c pack_bytes_def by (auto intro: blob_intact_prefix)
  then have "check_blobs p (db_key be) (p_sha256 p (concat file)) (ip_blobs ip) body = (Inr (), [])"
    using check_blobs_intact [of "[]"] ct lb by simp
  moreover have "\<not> length (pack_bytes body hdr) < 4" by (simp add: length_pack_bytes)
  ultimately show ?thesis
    using i hl dec hs srt sz eq(1) PackHeader_from_binary_roundtrip [OF w ct]
    by (simp add: check_pack_def c pack_bytes_parts Let_def ck_bind_def ck_try_def map_err_def)
qed

end
