(* ===== verification/CheckRun.thy ===== *)
theory CheckRun
  imports CheckProps
begin

text \<open>
  The properties of a check (crates/core/src/commands/check.rs) and a small repository that is checked: one pack that
  holds the tree of a snapshot and an empty tree below it.
\<close>

section \<open>What no error means\<close>

definition check_env_ok :: "CheckEnv \<Rightarrow> bool" where
  "check_env_ok env \<longleftrightarrow> sort_entries_ok (ce_sort_entries env) \<and> sort_packs_ok (ce_sort_packs env) \<and>
     (\<forall>bs. set (ce_sort_blobs env bs) = set bs) \<and> length (env_packs env) < 2 ^ 32"

text \<open>Reading a part of a pack gives the same bytes as reading it in full.\<close>

definition backend_consistent :: "CheckEnv \<Rightarrow> bool" where
  "backend_consistent env \<longleftrightarrow> (\<forall>i data. ce_read_full env FPack i = Inr data \<longrightarrow> reads_file (ce_read_partial env) i data)"

definition blob_readable :: "CheckEnv \<Rightarrow> Index \<Rightarrow> BlobType \<Rightarrow> BlobId \<Rightarrow> bool" where
  "blob_readable env idx t i \<longleftrightarrow>
     (\<exists>d. blob_from_backend (ce_prims env) (ce_be env) (ce_read_partial env) (Index_get_id idx) t i = Inr d \<and> p_sha256 (ce_prims env) d = i)"

definition blob_listed :: "CheckEnv \<Rightarrow> Index \<Rightarrow> BlobType \<Rightarrow> BlobId \<Rightarrow> bool" where
  "blob_listed env idx t i \<longleftrightarrow> \<not> is_null i \<and> (\<exists>e ls. Index_get_id idx t i = Some e \<and> ce_list env FPack = Inr ls \<and> ie_pack e \<in> fst ` set ls)"

lemma of_type_short: "length (of_type t ps) \<le> length ps"
  by (simp add: of_type_def)

lemma check_ok_reads:
  assumes run: "check_repository env opts roots (Inr results)" "CheckResults_is_ok results = Inr ()"
    and opts: "co_read_data opts" "co_read_data_subset opts = RS_All" and env: "check_env_ok env" "backend_consistent env"
  obtains idx where "env_index env idx" "trees_complete (env_load env idx) roots (blob_readable env idx)"
proof -
  obtain idx c packs ips where r: "env_index env idx" "idx = into_index (ce_sort_entries env) c"
    "clean (check_before env opts) (c, [])"
    "trees_complete (env_load env idx) roots (in_packs (Index_get_id idx) packs)"
    "px_collect (Index_into_iter (ce_sort_packs env) idx) = Some ips" "clean (check_data env opts [] packs ips) ()"
    using clean_repository [OF run] by metis
  have srt: "sort_entries_ok (ce_sort_entries env)" "sort_packs_ok (ce_sort_packs env)" "\<And>bs. set (ce_sort_blobs env bs) = set bs"
    using env(1) by (simp_all add: check_env_ok_def)
  have ext: "IndexCollector_extend (env_packs env) (IndexCollector_new Full) = Inr c" using clean_before [OF r(3)] by blast
  have "\<forall>t. length (of_type t (env_packs env)) < 2 ^ 32"
    using env(1) le_less_trans [OF of_type_short] by (simp add: check_env_ok_def)
  then obtain qs where qs: "ips = Inr qs" "list_all2 same_blobs qs (of_type Tree (env_packs env) @ of_type Data (env_packs env))"
    using index_packs_collected [OF srt(1,2) ext] r(2,5) by auto
  have "blob_readable env idx t i" if ip: "in_packs (Index_get_id idx) packs t i" for t i
  proof -
    obtain e where e: "Index_get_id idx t i = Some e" "ie_pack e \<in> packs" using ip by (auto simp: in_packs_def)
    obtain p b where pb: "p \<in> set (env_packs env)" "b \<in> set (ip_blobs p)" "ib_id b = i" "ie_pack e = ip_id p" "ie_location e = ib_location b"
      using index_entry [OF r(1) srt(1) e(1)] by auto
    obtain q b' where q: "q \<in> set qs" "ip_id q = ip_id p" "b' \<in> set (ip_blobs q)" "ib_id b' = i" "ib_location b' = ib_location b"
      using pack_blob_collected [OF qs(2) pb(1,2)] pb(3) by auto
    have "ip_id q \<in> packs" using q(2) pb(4) e(2) by simp
    from clean_data_intact [OF r(6) opts qs(1) q(1) this srt(3) q(3)] obtain data where
      data: "ce_read_full env FPack (ip_id p) = Inr data" "blob_intact (ce_prims env) (ce_be env) data i (ie_location e)"
      using q(2,4,5) pb(5) by auto
    have "reads_file (ce_read_partial env) (ie_pack e) data" using env(2) data(1) pb(4) by (simp add: backend_consistent_def)
    then show ?thesis unfolding blob_readable_def by (rule read_blob [OF e(1) data(2)])
  qed
  then have "trees_complete (env_load env idx) roots (blob_readable env idx)" by (rule trees_complete_mono [OF r(4)])
  then show ?thesis by (rule that [OF r(1)])
qed

lemma check_ok_lists:
  assumes run: "check_repository env opts roots (Inr results)" "CheckResults_is_ok results = Inr ()"
    and srt: "sort_entries_ok (ce_sort_entries env)"
  obtains idx where "env_index env idx" "trees_complete (env_load env idx) roots (blob_listed env idx)"
proof -
  obtain idx c packs where r: "env_index env idx" "clean (check_before env opts) (c, [])"
    "trees_complete (env_load env idx) roots (in_packs (Index_get_id idx) packs)"
    using clean_repository [OF run] by metis
  have "blob_listed env idx t i" if ip: "in_packs (Index_get_id idx) packs t i" for t i
  proof -
    obtain e where e: "\<not> is_null i" "Index_get_id idx t i = Some e" using ip by (auto simp: in_packs_def)
    obtain p where "p \<in> set (env_packs env)" "ie_pack e = ip_id p" using index_entry [OF r(1) srt e(2)] by auto
    then obtain ls q where "ce_list env FPack = Inr ls" "(ie_pack e, ip_pack_size q) \<in> set ls"
      using clean_before [OF r(2)] env_packs_all by fastforce
    then show ?thesis using e unfolding blob_listed_def by force
  qed
  then have "trees_complete (env_load env idx) roots (blob_listed env idx)" by (rule trees_complete_mono [OF r(3)])
  then show ?thesis by (rule that [OF r(1)])
qed

section \<open>A repository that is checked\<close>

definition cd_id :: "u8 \<Rightarrow> Id" where
  "cd_id x = x # replicate 31 0"

definition cd_blob :: "u32 \<Rightarrow> u8 \<Rightarrow> IndexBlob" where
  "cd_blob off x = \<lparr>ib_id = cd_id x, ib_tpe = BlobType.Tree,
     ib_location = \<lparr>bl_offset = off, bl_length = 33, bl_uncompressed_length = None\<rparr>\<rparr>"

definition cd_sealed :: "bytes \<Rightarrow> bytes" where
  "cd_sealed d = replicate 16 0 @ d @ replicate 16 0"

definition cd_blobs :: "IndexBlob list" where
  "cd_blobs = [cd_blob 0 9, cd_blob 33 8]"

definition cd_body :: bytes where
  "cd_body = cd_sealed [9] @ cd_sealed [8]"

definition cd_file :: bytes where
  "cd_file = pack_bytes cd_body (cd_sealed (PackHeader_to_binary cd_blobs))"

definition cd_pack :: IndexPack where
  "cd_pack = IndexPack_default\<lparr>ip_id := p_sha256 clear_prims cd_file, ip_blobs := cd_blobs\<rparr>"

definition cd_be :: DecryptBackend where
  "cd_be = \<lparr>db_key = [], db_zstd = None, db_extra_verify = True\<rparr>"

definition cd_tree :: "bytes \<Rightarrow> Tree option" where
  "cd_tree d =
     (if d = [9] then Some \<lparr>t_nodes = [\<lparr>n_name = [98], n_type = Dir, n_meta = Metadata_default, n_content = None, n_subtree = Some (cd_id 8)\<rparr>]\<rparr>
      else if d = [8] then Some \<lparr>t_nodes = []\<rparr> else None)"

definition cd_sort :: "IndexBlob list \<Rightarrow> IndexBlob list" where
  "cd_sort = sort_key (\<lambda>b. bl_offset (ib_location b))"

definition cd_env :: CheckEnv where
  "cd_env = \<lparr>ce_list = (\<lambda>t. Inr (if t = FPack then [(ip_id cd_pack, ip_pack_size cd_pack)] else [])),
     ce_read_full = (\<lambda>_ _. Inr cd_file),
     ce_read_partial = (\<lambda>_ _ _ off len. Inr (subslice (unat off) (unat off + unat len) cd_file)),
     ce_hot_list = None, ce_cache = None,
     ce_index_files = Inr [Inr \<lparr>ifi_supersedes = None, ifi_packs = [cd_pack], ifi_packs_to_delete = []\<rparr>],
     ce_warm_up_wait = (\<lambda>_. Inr ()), ce_from_slice = cd_tree, ce_eof = (\<lambda>_. True), ce_prims = clear_prims, ce_be = cd_be,
     ce_sort_blobs = cd_sort, ce_sort_entries = sort_key se_id, ce_sort_packs = sort_key se_pack_idx, ce_shuffle = (\<lambda>ps. ps)\<rparr>"

definition cd_opts :: CheckOptions where
  "cd_opts = \<lparr>co_trust_cache = False, co_read_data = True, co_read_data_subset = RS_All\<rparr>"

lemma cd_open: "read_encrypted_from_partial clear_prims cd_be (cd_sealed d) None = Inr d"
  by (simp add: read_encrypted_from_partial_def Key_decrypt_data_def clear_prims_def cd_sealed_def ok_or_def)

lemma cd_wf: "\<forall>b \<in> set cd_blobs. wf_blob b" "contiguous 0 cd_blobs"
  by (simp_all add: cd_blobs_def cd_blob_def wf_blob_def wf_id_def LEN_def wf_location_def cd_id_def)

lemma cd_sizes: "length (PackHeader_to_binary cd_blobs) = 74" "length cd_body = 66" "sum_list (map blob_nat cd_blobs) = 66"
  by (simp_all add: length_PackHeader_to_binary [OF cd_wf(1)])
    (simp_all add: cd_blobs_def cd_blob_def entry_nat_def from_blob_def cd_body_def cd_sealed_def blob_nat_def)

lemma cd_length: "length cd_file = 176"
  by (simp add: cd_file_def length_pack_bytes cd_sizes cd_sealed_def)

lemma cd_good: "good_pack clear_prims (db_key cd_be) ([cd_file], cd_pack)"
  unfolding good_pack_def
  by (rule exI [of _ cd_body], rule exI [of _ "cd_sealed (PackHeader_to_binary cd_blobs)"])
    (use cd_wf in \<open>simp add: cd_length cd_sizes cd_pack_def IndexPack_default_def cd_be_def, simp add: cd_file_def cd_sizes cd_sealed_def
       Key_decrypt_data_def clear_prims_def ok_or_def\<close>)

lemma cd_intact: "\<forall>b \<in> set cd_blobs. blob_intact clear_prims cd_be cd_file (ib_id b) (ib_location b)"
proof -
  have s: "length (cd_sealed [9]) = 33" "length (cd_sealed [8]) = 33" by (simp_all add: cd_sealed_def)
  have "take 33 cd_file = cd_sealed [9]" "take 33 (drop 33 cd_file) = cd_sealed [8]"
    by (simp_all add: cd_file_def pack_bytes_def cd_body_def s)
  moreover have "p_sha256 clear_prims [x] = cd_id x" for x by (simp add: clear_prims_def cd_id_def)
  ultimately show ?thesis using cd_open
    by (simp add: cd_blobs_def cd_blob_def blob_intact_def Let_def subslice_def cd_length)
qed

lemma cd_sorted:
  assumes "mset bs = mset cd_blobs"
  shows "cd_sort bs = cd_blobs"
proof -
  have "length bs = 2" using assms by (metis cd_blobs_def length_Cons list.size(3) mset_eq_length numeral_2_eq_2)
  then obtain x y where xy: "bs = [x, y]" by (auto simp: numeral_2_eq_2 length_Suc_conv)
  then have "x = cd_blob 0 9 \<and> y = cd_blob 33 8 \<or> x = cd_blob 33 8 \<and> y = cd_blob 0 9"
    using assms by (auto simp: cd_blobs_def add_eq_conv_ex)
  then show ?thesis by (auto simp: xy cd_sort_def cd_blobs_def cd_blob_def)
qed

lemma cd_same: "same_blobs q cd_pack \<Longrightarrow> mset (ip_blobs q) = mset cd_blobs \<and> ip_id q = p_sha256 clear_prims cd_file \<and> ip_size q = None"
  by (auto simp: same_blobs_def cd_pack_def cd_blobs_def cd_blob_def ip_blob_type_def)

lemma cd_check_pack: "same_blobs q cd_pack \<Longrightarrow> read_and_check cd_env q = (Inr (), [])"
  using check_good_pack [OF cd_good, of q cd_sort "\<lambda>_. True"] cd_intact cd_same [of q] cd_sorted [of "ip_blobs q"]
  by (simp add: read_and_check_def cd_env_def cd_pack_def)

lemma cd_extend: "\<exists>c. IndexCollector_extend [cd_pack] (IndexCollector_new Full) = Inr c"
  by (simp add: IndexCollector_extend_def extend_pack_def IndexCollector_new_def u32_try_from_def
      ip_blob_type_def Let_def TypeIndexCollector_default_def ok_or_def)

lemma cd_before:
  assumes "IndexCollector_extend [cd_pack] (IndexCollector_new Full) = Inr c"
  shows "check_before cd_env cd_opts = (Inr (c, []), [])"
proof -
  have t: "ip_blobs cd_pack = cd_blobs" by (simp add: cd_pack_def)
  have o: "check_offsets i BlobType.Tree 0 cd_blobs = (Inr (), [])" for i
    by (simp add: cd_blobs_def cd_blob_def ck_bind_def ck_when_def ck_return_def)
  have bt: "ip_blob_type cd_pack = BlobType.Tree" by (simp add: ip_blob_type_def t cd_blobs_def cd_blob_def)
  show ?thesis using assms cd_sorted [of cd_blobs] o
    by (simp add: check_before_def cd_env_def cd_opts_def ck_when_def ck_bind_def ck_return_def ck_try_def check_packs_def
        check_index_file_def check_index_pack_def all_packs_def t bt check_packs_list_def ck_for.simps ck_fold.simps Let_def bt_remove_def check_cache_types_def)
qed

lemma cd_env_index: "env_packs cd_env = [cd_pack]"
  by (simp add: env_packs_def cd_env_def file_packs_def)

lemma cd_env_ok: "check_env_ok cd_env" "backend_consistent cd_env"
  by (simp add: check_env_ok_def cd_env_index)
    (simp_all add: cd_env_def sort_entries_ok_def sort_packs_ok_def cd_sort_def backend_consistent_def reads_file_def)

lemma cd_lookup:
  assumes "env_index cd_env idx" "b \<in> set cd_blobs"
  shows "Index_get_id idx BlobType.Tree (ib_id b) = Some \<lparr>ie_blob_type = BlobType.Tree, ie_pack = ip_id cd_pack, ie_location = ib_location b\<rparr>"
proof -
  have srt: "sort_entries_ok (ce_sort_entries cd_env)" using cd_env_ok(1) by (simp add: check_env_ok_def)
  obtain c where c: "IndexCollector_extend [cd_pack] (IndexCollector_new Full) = Inr c" "idx = into_index (ce_sort_entries cd_env) c"
    using assms(1) by (auto simp: env_index_def cd_env_index)
  have t: "ip_blobs cd_pack = cd_blobs" "ip_blob_type cd_pack = BlobType.Tree" by (simp_all add: cd_pack_def ip_blob_type_def cd_blobs_def cd_blob_def)
  have "Index_has idx BlobType.Tree (ib_id b)" using assms(2) Index_has_correct [OF srt c(1)] c(2) t by (auto simp: indexes_type_def)
  then obtain e where e: "Index_get_id idx BlobType.Tree (ib_id b) = Some e"
    using Index_get_id_complete [OF _ c(1), of BlobType.Tree "ce_sort_entries cd_env" "ib_id b"] c(2) by (auto simp: full_type_def)
  from index_entry [OF assms(1) srt e] obtain b' where b': "b' \<in> set cd_blobs" "ib_id b' = ib_id b"
    "e = \<lparr>ie_blob_type = BlobType.Tree, ie_pack = ip_id cd_pack, ie_location = ib_location b'\<rparr>" by (auto simp: cd_env_index t)
  have "b' = b" using b'(1,2) assms(2) by (auto simp: cd_blobs_def cd_blob_def cd_id_def)
  then show ?thesis using e b'(3) by simp
qed

lemma cd_load:
  assumes "env_index cd_env idx"
  shows "env_load cd_env idx (cd_id 9) = ok_or (RusticError EInternal []) (cd_tree [9])" "env_load cd_env idx (cd_id 8) = Inr \<lparr>t_nodes = []\<rparr>"
proof -
  have s: "length (cd_sealed [9]) = 33" "length (cd_sealed [8]) = 33" by (simp_all add: cd_sealed_def)
  have "subslice 0 33 cd_file = cd_sealed [9]" "subslice 33 66 cd_file = cd_sealed [8]"
    by (simp_all add: cd_file_def pack_bytes_def cd_body_def s subslice_def)
  then show "env_load cd_env idx (cd_id 9) = ok_or (RusticError EInternal []) (cd_tree [9])" "env_load cd_env idx (cd_id 8) = Inr \<lparr>t_nodes = []\<rparr>"
    using cd_lookup [OF assms, of "cd_blob 0 9"] cd_lookup [OF assms, of "cd_blob 33 8"] cd_open
    by (simp_all add: cd_blobs_def cd_blob_def env_load_def Tree_from_backend_def get_tree_def read_data_def read_encrypted_partial_def
        cd_env_def ok_or_def cd_tree_def)
qed

definition cd_items :: "(TreeId \<times> Path \<times> Tree) list" where
  "cd_items = [(cd_id 9, [], the (cd_tree [9])), (cd_id 8, [Normal [98]], \<lparr>t_nodes = []\<rparr>)]"

lemma cd_stream:
  assumes "env_index cd_env idx"
  shows "\<exists>s. streamer_run (env_load cd_env idx) (streamer_new [cd_id 9]) cd_items s \<and> streamer_done s"
proof -
  let ?load = "env_load cd_env idx"
  let ?s0 = "\<lparr>ts_visited = {cd_id 9}, ts_pending = [([], cd_id 9, 0)], ts_counter = [1], ts_finished_ids = 0\<rparr>"
  let ?s1 = "\<lparr>ts_visited = {cd_id 8, cd_id 9}, ts_pending = [([Normal [98]], cd_id 8, 0)], ts_counter = [1], ts_finished_ids = 0\<rparr>"
  let ?s2 = "\<lparr>ts_visited = {cd_id 8, cd_id 9}, ts_pending = [], ts_counter = [0], ts_finished_ids = 1\<rparr>"
  note ev = demo_tree_eval add_subtree_def add_pending_def finish_tree_def demo_join cd_tree_def ok_or_def
  have ne: "cd_id 8 \<noteq> cd_id 9" by (simp add: cd_id_def)
  have n: "streamer_new [cd_id 9] = ?s0" by (simp add: streamer_new_def add_root_def add_pending_def)
  have 1: "streamer_step ?load ?s0 (cd_id 9, [], the (cd_tree [9])) ?s1"
    using streamer_step.intros [of ?s0 "[]" "cd_id 9" 0 ?load "the (cd_tree [9])"] cd_load [OF assms] ne
    by (simp add: streamer_done_def ev insert_commute)
  have 2: "streamer_step ?load ?s1 (cd_id 8, [Normal [98]], \<lparr>t_nodes = []\<rparr>) ?s2"
    using streamer_step.intros [of ?s1 "[Normal [98]]" "cd_id 8" 0 ?load "\<lparr>t_nodes = []\<rparr>"] cd_load [OF assms]
    by (simp add: streamer_done_def ev)
  show ?thesis
    using run_step [OF run_step [OF run_start 1] 2] by (intro exI [of _ ?s2]) (simp add: n cd_items_def streamer_done_def)
qed

lemma cd_run: "\<exists>results. check_repository cd_env cd_opts [cd_id 9] (Inr results) \<and> CheckResults_is_ok results = Inr ()"
proof -
  obtain c where c: "IndexCollector_extend [cd_pack] (IndexCollector_new Full) = Inr c" using cd_extend ..
  define idx where "idx = into_index (ce_sort_entries cd_env) c"
  have ei: "env_index cd_env idx" using c by (auto simp: env_index_def cd_env_index idx_def)
  obtain s where s: "streamer_run (env_load cd_env idx) (streamer_new [cd_id 9]) cd_items s" "streamer_done s"
    using cd_stream [OF ei] by blast
  have "Index_get_id idx BlobType.Tree (cd_id 8) \<noteq> None" using cd_lookup [OF ei, of "cd_blob 33 8"] by (simp add: cd_blobs_def cd_blob_def)
  moreover have "hd (cd_id 8) \<noteq> hd Id_default" by (simp add: cd_id_def Id_default_def LEN_def)
  moreover from this have "\<not> is_null (cd_id 8)" by (auto simp: is_null_def)
  ultimately have "\<exists>packs. ck_fold (check_tree_item (Index_get_id idx)) cd_items {} = (Inr packs, [])"
    by (auto simp: cd_items_def cd_tree_def ck_fold.simps check_tree_item_def check_node_def get_tree_def ck_bind_def ck_return_def Let_def)
  then obtain packs where t: "check_trees (env_load cd_env idx) (Index_get_id idx) [cd_id 9] (Inr packs, [])"
    using trees_checked [OF s] by (metis (no_types))
  have "\<forall>t. length (of_type t [cd_pack]) < 2 ^ 32" using le_less_trans [OF of_type_short] by simp
  then obtain qs where qs: "px_collect (Index_into_iter (ce_sort_packs cd_env) idx) = Some (Inr qs)"
    "list_all2 same_blobs qs (of_type Tree [cd_pack] @ of_type Data [cd_pack])"
    using index_packs_collected [OF _ _ c] cd_env_ok(1) unfolding idx_def check_env_ok_def by metis
  have "of_type Tree [cd_pack] @ of_type Data [cd_pack] = [cd_pack]" by (cases "ip_blob_type cd_pack") (simp_all add: of_type_def)
  then obtain q where "qs = [q]" "same_blobs q cd_pack" using qs(2) by (auto simp: list_all2_Cons2)
  moreover have "ce_warm_up_wait cd_env = (\<lambda>_. Inr ())" by (simp add: cd_env_def)
  ultimately have d: "check_data cd_env cd_opts [] packs (Inr qs) = (Inr (), [])"
    using cd_check_pack [of q] \<open>ce_warm_up_wait cd_env = _\<close>
    by (simp add: check_data_def cd_opts_def ck_bind_def ck_try_def apply_with_rng_def Let_def ck_for.simps ck_return_def)
  from check_done [OF cd_before [OF c] idx_def t qs(1)] d have "check_repository cd_env cd_opts [cd_id 9] (Inr [])" by simp
  then show ?thesis by (intro exI [of _ "[]"]) (simp add: CheckResults_is_ok_def)
qed

section \<open>Properties\<close>

text \<open>C4. If a check that reads all data reports no error, then every tree reachable from the checked snapshots loads
  through the index, every file in them has content and every directory a subtree, and each of these blobs is read
  from the backend, decrypted and decompressed to data that has the id of the blob. The backend must read parts of
  packs consistently; nothing is assumed of the cryptography.\<close>

theorem check_ok_blobs_intact:
  assumes "check_repository env opts roots (Inr results)" "CheckResults_is_ok results = Inr ()"
    and "co_read_data opts" "co_read_data_subset opts = RS_All" "check_env_ok env" "backend_consistent env"
  shows "\<exists>idx. env_index env idx \<and> trees_complete (env_load env idx) roots (blob_readable env idx)"
  using check_ok_reads [OF assms] by blast

theorem check_ok_blobs_intact_witness:
  "\<exists>idx. env_index cd_env idx \<and> blob_readable cd_env idx BlobType.Tree (cd_id 8)"
proof -
  obtain results where r: "check_repository cd_env cd_opts [cd_id 9] (Inr results)" "CheckResults_is_ok results = Inr ()" using cd_run by blast
  have "co_read_data cd_opts" "co_read_data_subset cd_opts = RS_All" by (simp_all add: cd_opts_def)
  from check_ok_blobs_intact [OF r this cd_env_ok] obtain idx where
    idx: "env_index cd_env idx" "trees_complete (env_load cd_env idx) [cd_id 9] (blob_readable cd_env idx)" by blast
  have "cd_id 9 \<in> reach (env_load cd_env idx) (set [cd_id 9])" by (rule reach_root) simp
  then obtain t where "env_load cd_env idx (cd_id 9) = Inr t" "\<forall>n \<in> set (t_nodes t). node_complete (blob_readable cd_env idx) n"
    using idx(2) unfolding trees_complete_def by blast
  then show ?thesis using idx(1) cd_load(1) [OF idx(1)] by (auto simp: cd_tree_def ok_or_def node_complete_def)
qed

text \<open>C38. If a check reports no error, with or without reading data, then every tree reachable from the checked
  snapshots loads, and each blob the trees refer to is not null, is found in the index, and the pack it is in is listed by
  the backend.\<close>

theorem check_ok_complete:
  assumes "check_repository env opts roots (Inr results)" "CheckResults_is_ok results = Inr ()"
    and "sort_entries_ok (ce_sort_entries env)"
  shows "\<exists>idx. env_index env idx \<and> trees_complete (env_load env idx) roots (blob_listed env idx)"
  using check_ok_lists [OF assms] by blast

theorem check_ok_complete_witness:
  "\<exists>idx. env_index cd_env idx \<and> blob_listed cd_env idx BlobType.Tree (cd_id 8)"
proof -
  obtain results where r: "check_repository cd_env cd_opts [cd_id 9] (Inr results)" "CheckResults_is_ok results = Inr ()" using cd_run by blast
  have "sort_entries_ok (ce_sort_entries cd_env)" using cd_env_ok(1) by (simp add: check_env_ok_def)
  from check_ok_complete [OF r this] obtain idx where
    idx: "env_index cd_env idx" "trees_complete (env_load cd_env idx) [cd_id 9] (blob_listed cd_env idx)" by blast
  have "cd_id 9 \<in> reach (env_load cd_env idx) (set [cd_id 9])" by (rule reach_root) simp
  then obtain t where "env_load cd_env idx (cd_id 9) = Inr t" "\<forall>n \<in> set (t_nodes t). node_complete (blob_listed cd_env idx) n"
    using idx(2) unfolding trees_complete_def by blast
  then show ?thesis using idx(1) cd_load(1) [OF idx(1)] by (auto simp: cd_tree_def ok_or_def node_complete_def)
qed

text \<open>C39. The check raises no false alarm on what the packer writes: for a pack with the layout the packer gives it, which
  the index knows with its blobs in any order and whose blobs are intact, the check of the pack finds nothing.\<close>

theorem written_pack_accepted:
  assumes "good_pack p (db_key be) (file, ip)" "mset (ip_blobs q) = mset (ip_blobs ip)" "ip_size q = None"
    and "sort_blobs (ip_blobs q) = ip_blobs ip" "ip_id q = p_sha256 p (concat file)"
    and "\<forall>b \<in> set (ip_blobs ip). blob_intact p be (concat file) (ib_id b) (ib_location b)"
  shows "check_pack eofp sort_blobs p (db_key be) q (concat file) = (Inr (), [])"
  by (rule check_good_pack) fact+

theorem written_pack_accepted_witness:
  "check_pack (\<lambda>_. True) cd_sort clear_prims [] (cd_pack\<lparr>ip_blobs := rev cd_blobs\<rparr>) (concat [cd_file]) = (Inr (), [])"
proof -
  have k: "db_key cd_be = []" by (simp add: cd_be_def)
  let ?q = "cd_pack\<lparr>ip_blobs := rev cd_blobs\<rparr>"
  have "mset (ip_blobs ?q) = mset (ip_blobs cd_pack)" "ip_size ?q = None" "cd_sort (ip_blobs ?q) = ip_blobs cd_pack"
    "ip_id ?q = p_sha256 clear_prims (concat [cd_file])"
    using cd_sorted [of "rev cd_blobs"] by (simp_all add: cd_pack_def IndexPack_default_def)
  moreover have "\<forall>b \<in> set (ip_blobs cd_pack). blob_intact clear_prims cd_be (concat [cd_file]) (ib_id b) (ib_location b)"
    using cd_intact by (simp add: cd_pack_def)
  ultimately show ?thesis using written_pack_accepted [OF cd_good, of ?q cd_sort "\<lambda>_. True"] by (simp only: k)
qed

section \<open>Subsets\<close>

text \<open>Reading subsets 1/n to n/n reads every pack exactly once, each in the subset that its id chooses.\<close>

theorem read_subsets_partition:
  assumes "0 < m"
  shows "(\<forall>p \<in> set packs. \<exists>!k. k < m \<and> (\<exists>qs. apply_with_rng shuffle (RS_IdSubSet k m) packs = Inr qs \<and> p \<in> set qs)) \<and>
    apply_with_rng shuffle (RS_IdSubSet m m) packs = apply_with_rng shuffle (RS_IdSubSet 0 m) packs"
proof -
  have m: "m \<noteq> 0" using assms by auto
  have "k mod m = k" if "k < m" for k using that by (simp add: word_less_nat_alt word_arith_nat_mod)
  moreover have "as_u32 i mod m < m" for i using assms by (simp add: word_mod_less_divisor)
  ultimately have "\<exists>!k. k < m \<and> as_u32 i mod m = k mod m" for i by (intro ex1I [of _ "as_u32 i mod m"]) auto
  then show ?thesis using m by (auto simp: apply_with_rng_def Let_def id_matches_n_m_def)
qed

theorem read_subsets_partition_witness:
  "\<exists>!k. k < 3 \<and> (\<exists>qs. apply_with_rng (\<lambda>ps. ps) (RS_IdSubSet k 3) [cd_pack] = Inr qs \<and> cd_pack \<in> set qs)"
  using read_subsets_partition [of 3 "[cd_pack]" "\<lambda>ps. ps"] by simp

lemma zero_subset_panics: "parse_n_m now ''1'' ''0'' = Inl (Panic ''attempt to calculate the remainder with a divisor of zero'')"
  by (simp add: parse_n_m_def Let_def parse_u32_def digit_of_def)

end
