(* ===== verification/Restore.thy ===== *)
theory Restore
  imports TreeIter Chunker BinarySorted Backend "HOL-Library.Product_Lexorder"
begin

text \<open>
  Restoring (crates/core/src/commands/restore.rs, with \<open>WriteSource\<close> of crates/core/src/backend.rs and the hash of a
  reader of crates/core/src/crypto/hasher.rs): the destination as a record of operations, the plan that says which
  blob belongs where, the packs to read, and the run of the plan as a step relation over all interleavings of the
  worker threads.
\<close>

section \<open>Destinations\<close>

record RestoreOptions =
  ro_delete :: bool
  ro_numeric_id :: bool
  ro_no_ownership :: bool
  ro_no_compare :: bool
  ro_verify_existing :: bool

text \<open>The operations of a destination with state \<open>'w\<close>; \<open>False\<close> and \<open>None\<close> are I/O errors. A handle for replacing a
  file is given by the chunks it receives until it is closed: opening, writing or flushing may fail, or closing.\<close>

datatype replace_result = Replaced | WriteFailed | CloseFailed

record 'w WriteSource =
  ws_open_read :: "Path \<Rightarrow> 'w \<Rightarrow> Reader option"
  ws_stat :: "Path \<Rightarrow> 'w \<Rightarrow> Metadata option option"
  ws_create_dir_all :: "Path \<Rightarrow> 'w \<Rightarrow> bool \<times> 'w"
  ws_remove_dir :: "Path \<Rightarrow> 'w \<Rightarrow> bool \<times> 'w"
  ws_remove_file :: "Path \<Rightarrow> 'w \<Rightarrow> bool \<times> 'w"
  ws_set_restore_metadata :: "Path \<Rightarrow> Node \<Rightarrow> RestoreOptions \<Rightarrow> 'w \<Rightarrow> bool \<times> 'w"
  ws_set_length :: "Path \<Rightarrow> u64 \<Rightarrow> 'w \<Rightarrow> bool \<times> 'w"
  ws_write_at :: "Path \<Rightarrow> u64 \<Rightarrow> bytes \<Rightarrow> 'w \<Rightarrow> bool \<times> 'w"
  ws_replace :: "Path \<Rightarrow> bytes list \<Rightarrow> 'w \<Rightarrow> replace_result \<times> 'w"
  ws_hard_link :: "Path \<Rightarrow> Path \<Rightarrow> 'w \<Rightarrow> bool \<times> 'w"
  ws_can_random_write :: bool
  ws_can_hard_link :: bool

section \<open>Hashing a reader\<close>

text \<open>The loop of \<^verbatim>\<open>hash_reader\<close> over \<^verbatim>\<open>reader.take(n)\<close>; the hasher is the bytes it was given.\<close>

function hash_loop :: "nat \<Rightarrow> Reader \<Rightarrow> bytes \<Rightarrow> bytes option \<times> Reader" where
  "hash_loop n r hasher =
     (if n = 0 then (Some hasher, r)
      else case read_buf (min n 4096) r of
        (RErr, r) \<Rightarrow> (None, r)
      | (RIntr, r') \<Rightarrow> hash_loop n r' hasher
      | (ROk bs, r') \<Rightarrow> if bs = [] then (Some hasher, r') else hash_loop (n - length bs) r' (hasher @ bs))"
  by pat_completeness auto
termination
proof (relation "measure (\<lambda>(n, r, _). reader_measure r)")
  fix n r and h :: bytes and oc r'
  assume "n \<noteq> 0" "(oc, r') = read_buf (min n 4096) r" "oc = RIntr"
  then show "((n, r', h), (n, r, h)) \<in> measure (\<lambda>(n, r, _). reader_measure r)"
    using read_buf_measure(2) [of "min n 4096" r oc r'] by simp
next
  fix n r and h :: bytes and oc r' bs
  assume "n \<noteq> 0" "(oc, r') = read_buf (min n 4096) r" "oc = ROk bs" "bs \<noteq> []"
  then show "((n - length bs, r', h @ bs), (n, r, h)) \<in> measure (\<lambda>(n, r, _). reader_measure r)"
    using read_buf_measure(1) [of "min n 4096" r oc r' bs] by (cases bs) auto
qed simp

declare hash_loop.simps [simp del]

definition blob_matches_reader :: "(bytes \<Rightarrow> Id) \<Rightarrow> Id \<Rightarrow> nat \<Rightarrow> Reader \<Rightarrow> bool \<times> Reader" where
  "blob_matches_reader hash i len r = (case hash_loop len r [] of (res, r) \<Rightarrow>
     (case res of None \<Rightarrow> False | Some data \<Rightarrow> hash data = i, r))"

lemma hash_loop_ok:
  "reader_ok r \<Longrightarrow> \<exists>r'. hash_loop n r h = (Some (h @ take n (reader_bytes r)), r') \<and> reader_ok r' \<and>
     reader_bytes r' = drop n (reader_bytes r)"
proof (induction n r h rule: hash_loop.induct)
  case (1 n r h)
  show ?case
  proof (cases "n = 0")
    case True
    then show ?thesis using 1(3) by (subst hash_loop.simps) simp
  next
    case False
    obtain oc r' where rb: "read_buf (min n 4096) r = (oc, r')" by fastforce
    from read_buf_ok [OF 1(3) rb] False consider
      "oc = ROk []" "reader_bytes r = []" "r' = []"
    | bs where "oc = ROk bs" "bs \<noteq> []" "length bs \<le> min n 4096" "reader_bytes r = bs @ reader_bytes r'" "reader_ok r'"
    | "oc = RIntr" "reader_bytes r' = reader_bytes r" "reader_ok r'" by auto
    then show ?thesis
    proof cases
      case 1
      then show ?thesis using rb False by (subst hash_loop.simps) simp
    next
      case (2 bs)
      then show ?thesis using "1.IH"(1) [OF False rb [symmetric] 2(1,2)] rb False
        by (subst hash_loop.simps) auto
    next
      case 3
      then show ?thesis using "1.IH"(2) [OF False rb [symmetric] 3(1)] rb False
        by (subst hash_loop.simps) auto
    qed
  qed
qed

text \<open>Hashing a reader is hashing its bytes, however the reads are split and interrupted.\<close>

lemma blob_matches_reader_ok:
  assumes "reader_ok r"
  shows "\<exists>r'. blob_matches_reader hash i n r = (hash (take n (reader_bytes r)) = i, r') \<and> reader_ok r' \<and>
    reader_bytes r' = drop n (reader_bytes r)"
  using hash_loop_ok [OF assms, of n "[]"] by (auto simp: blob_matches_reader_def)

section \<open>The plan\<close>

record FileLocation =
  fl_file_idx :: nat
  fl_file_start :: u64
  fl_matches :: bool

text \<open>The map from packs and locations is ordered by pack and, as locations compare, by offset.\<close>

type_synonym RestoreKey = "PackId \<times> BlobLocation"

type_synonym RestoreInfo = "(RestoreKey \<times> FileLocation list) list"

definition key_same :: "RestoreKey \<Rightarrow> RestoreKey \<Rightarrow> bool" where
  "key_same k k' \<longleftrightarrow> fst k = fst k' \<and> bl_offset (snd k) = bl_offset (snd k')"

definition key_less :: "RestoreKey \<Rightarrow> RestoreKey \<Rightarrow> bool" where
  "key_less k k' \<longleftrightarrow> fst k < fst k' \<or> fst k = fst k' \<and> bl_offset (snd k) < bl_offset (snd k')"

text \<open>\<^verbatim>\<open>entry(key).or_default().push(..)\<close>: a key that is there keeps its first form.\<close>

fun ri_push :: "RestoreKey \<Rightarrow> FileLocation \<Rightarrow> RestoreInfo \<Rightarrow> RestoreInfo" where
  "ri_push key fl [] = [(key, [fl])]"
| "ri_push key fl ((k, fls) # r) =
    (if key_same key k then (k, fls @ [fl]) # r
     else if key_less key k then (key, [fl]) # (k, fls) # r
     else (k, fls) # ri_push key fl r)"

definition set_last_unmatched :: "FileLocation list \<Rightarrow> FileLocation list" where
  "set_last_unmatched fls = (if fls = [] then [] else butlast fls @ [(last fls)\<lparr>fl_matches := False\<rparr>])"

definition ri_flip :: "RestoreKey \<Rightarrow> RestoreInfo \<Rightarrow> RestoreInfo" where
  "ri_flip key r = map (\<lambda>(k, fls). if key_same key k then (k, set_last_unmatched fls) else (k, fls)) r"

type_synonym HardlinkKey = "u64 \<times> u64"

definition hardlink_key :: "Node \<Rightarrow> HardlinkKey option" where
  "hardlink_key node =
     (if n_type node = File \<and> m_links (n_meta node) > 1 \<and> m_device_id (n_meta node) \<noteq> 0 \<and> m_inode (n_meta node) \<noteq> 0
      then Some (m_device_id (n_meta node), m_inode (n_meta node)) else None)"

record FileDirStats =
  fs_restore :: u64
  fs_unchanged :: u64
  fs_verified :: u64
  fs_modify :: u64
  fs_additional :: u64

definition FileDirStats_default :: FileDirStats where
  "FileDirStats_default = \<lparr>fs_restore = 0, fs_unchanged = 0, fs_verified = 0, fs_modify = 0, fs_additional = 0\<rparr>"

record RestoreStats =
  rs_files :: FileDirStats
  rs_dirs :: FileDirStats

record RestorePlan =
  rpl_root :: Path
  rpl_names :: "Path list"
  rpl_file_lengths :: "u64 list"
  rpl_r :: RestoreInfo
  rpl_hardlinks :: "(HardlinkKey \<times> Path) list"
  rpl_restore_size :: u64
  rpl_matched_size :: u64
  rpl_stats :: RestoreStats

definition RestorePlan_default :: RestorePlan where
  "RestorePlan_default = \<lparr>rpl_root = [], rpl_names = [], rpl_file_lengths = [], rpl_r = [], rpl_hardlinks = [],
     rpl_restore_size = 0, rpl_matched_size = 0, rpl_stats = \<lparr>rs_files = FileDirStats_default, rs_dirs = FileDirStats_default\<rparr>\<rparr>"

datatype AddFileResult = Existing | Verified | Modify

text \<open>The variables of the loop over the blobs of a file.\<close>

record AddFile =
  af_r :: RestoreInfo
  af_open :: "Reader option"
  af_pos :: u64
  af_unmatched :: bool
  af_matched :: u64
  af_restore :: u64
  af_tentative :: "(RestoreKey \<times> u64) list"

definition flip_tentative :: "AddFile \<Rightarrow> AddFile" where
  "flip_tentative s = fold (\<lambda>(k, len) s. s\<lparr>af_r := ri_flip k (af_r s), af_matched := af_matched s - len, af_restore := af_restore s + len\<rparr>)
     (af_tentative s) (s\<lparr>af_tentative := []\<rparr>)"

definition add_blob ::
    "(bytes \<Rightarrow> Id) \<Rightarrow> (DataId \<Rightarrow> IndexEntry rustic_result) \<Rightarrow> bool \<Rightarrow> nat \<Rightarrow> DataId \<Rightarrow> AddFile \<Rightarrow> AddFile rustic_result" where
  "add_blob hash get_entry random_write file_idx i s =
     bindR (get_entry i) (\<lambda>ie.
     let bl = ie_location ie; len = ucast (data_length bl) :: u64; key = (ie_pack ie, bl);
         should_read = (\<not> af_unmatched s \<or> random_write)
     in case (if should_read then (case af_open s of
                  None \<Rightarrow> (False, None)
                | Some r \<Rightarrow> (case blob_matches_reader hash i (unat len) r of (m, r) \<Rightarrow> (m, Some r)))
              else (False, af_open s)) of (matches, open') \<Rightarrow>
        let s = s\<lparr>af_open := open'\<rparr>;
            s = (if matches then
                   (let s = s\<lparr>af_matched := af_matched s + len\<rparr> in
                    if \<not> random_write then s\<lparr>af_tentative := af_tentative s @ [(key, len)]\<rparr> else s)
                 else
                   (let s = (if \<not> af_unmatched s \<and> \<not> random_write then flip_tentative s else s) in
                    s\<lparr>af_restore := af_restore s + len, af_unmatched := True\<rparr>))
        in Inr (s\<lparr>af_r := ri_push key \<lparr>fl_file_idx = file_idx, fl_file_start = af_pos s, fl_matches = matches\<rparr> (af_r s),
                  af_pos := af_pos s + len\<rparr>))"

abbreviation backend_error :: "string \<Rightarrow> rustic_error" where
  "backend_error m \<equiv> RusticError EBackend m"

definition add_file ::
    "'w WriteSource \<Rightarrow> (bytes \<Rightarrow> Id) \<Rightarrow> (DataId \<Rightarrow> IndexEntry rustic_result) \<Rightarrow> 'w \<Rightarrow> Node \<Rightarrow> Path \<Rightarrow> bool \<Rightarrow> bool \<Rightarrow> RestorePlan
     \<Rightarrow> (AddFileResult \<times> RestorePlan) rustic_result" where
  "add_file dest hash get_entry w file name ignore_mtime no_read self =
     bindR (ok_or (backend_error ''Failed to lookup file `{path}`'') (ws_stat dest name w)) (\<lambda>st.
     let size_file = m_size (n_meta file);
         existing_file = (case st of None \<Rightarrow> None | Some meta \<Rightarrow> if m_size meta = size_file then Some meta else None)
     in if size_file = 0 \<and> existing_file \<noteq> None then Inr (Existing, self)
        else if \<not> ignore_mtime \<and> (case existing_file of None \<Rightarrow> False
               | Some meta \<Rightarrow> m_size meta = size_file \<and> m_mtime meta = m_mtime (n_meta file))
          then Inr (Existing, self\<lparr>rpl_matched_size := rpl_matched_size self + size_file\<rparr>)
        else
          bindR (if \<not> no_read \<and> existing_file \<noteq> None
                 then bindR (ok_or (backend_error ''Failed to open `{path}` for reading.'') (ws_open_read dest name w)) (\<lambda>r. Inr (Some r))
                 else Inr None) (\<lambda>open'.
          let file_idx = length (rpl_names self); self = self\<lparr>rpl_names := rpl_names self @ [name]\<rparr> in
          bindR (foldR (add_blob hash get_entry (ws_can_random_write dest) file_idx)
            (case n_content file of None \<Rightarrow> [] | Some c \<Rightarrow> c)
            \<lparr>af_r = rpl_r self, af_open = open', af_pos = 0, af_unmatched = False, af_matched = 0, af_restore = 0, af_tentative = []\<rparr>) (\<lambda>s.
          Inr (if \<not> af_unmatched s \<and> existing_file \<noteq> None then Verified else Modify,
               self\<lparr>rpl_r := af_r s, rpl_restore_size := rpl_restore_size self + af_restore s,
                 rpl_matched_size := rpl_matched_size self + af_matched s, rpl_file_lengths := rpl_file_lengths self @ [af_pos s]\<rparr>))))"

text \<open>\<^verbatim>\<open>dedup\<close> drops repetitions next to each other.\<close>

definition to_packs :: "RestorePlan \<Rightarrow> PackId list" where
  "to_packs self = remdups_adj (map (\<lambda>((pack, _), _). pack) (filter (\<lambda>(_, fls). list_all (\<lambda>fl. \<not> fl_matches fl) fls) (rpl_r self)))"

section \<open>The packs to read\<close>

record PackInfo =
  pi_pack_id :: PackId
  pi_from_file :: "(nat \<times> u64 \<times> u32) option"
  pi_locations :: "(nat \<times> u64) list BlobLocations"

definition PackInfo_coalesce :: "PackInfo \<Rightarrow> PackInfo \<Rightarrow> (PackInfo \<times> PackInfo) + PackInfo" where
  "PackInfo_coalesce self other =
     (if pi_pack_id self = pi_pack_id other \<and> pi_from_file self = None \<and> can_coalesce (pi_locations self) (pi_locations other)
      then Inr \<lparr>pi_pack_id = pi_pack_id self, pi_from_file = pi_from_file self,
             pi_locations = bls_append (pi_locations self) (pi_locations other)\<rparr>
      else Inl (self, other))"

text \<open>\<^verbatim>\<open>Itertools::coalesce\<close>.\<close>

function coalesce_all :: "('a \<Rightarrow> 'a \<Rightarrow> ('a \<times> 'a) + 'a) \<Rightarrow> 'a list \<Rightarrow> 'a list" where
  "coalesce_all f [] = []"
| "coalesce_all f [x] = [x]"
| "coalesce_all f (x # y # r) = (case f x y of Inr z \<Rightarrow> coalesce_all f (z # r) | Inl (x, y) \<Rightarrow> x # coalesce_all f (y # r))"
  by pat_completeness auto
termination by (relation "measure (\<lambda>(f, xs). length xs)") auto

definition pack_info :: "RestoreKey \<times> FileLocation list \<Rightarrow> PackInfo" where
  "pack_info e = (case e of ((pack_id, bl), fls) \<Rightarrow>
     \<lparr>pi_pack_id = pack_id,
      pi_from_file = map_option (\<lambda>fl. (fl_file_idx fl, fl_file_start fl, data_length bl)) (find fl_matches fls),
      pi_locations = from_blob_location bl (map (\<lambda>fl. (fl_file_idx fl, fl_file_start fl)) (filter (\<lambda>fl. \<not> fl_matches fl) fls))\<rparr>)"

definition pack_infos :: "RestoreInfo \<Rightarrow> PackInfo list" where
  "pack_infos r = coalesce_all PackInfo_coalesce (map pack_info r)"

section \<open>Writing the contents\<close>

text \<open>Everything around a run: reading of packs, the primitives and the destination.\<close>

record 'w RestoreEnv =
  re_dest :: "'w WriteSource"
  re_read_partial :: "FileType \<Rightarrow> Id \<Rightarrow> bool \<Rightarrow> u32 \<Rightarrow> u32 \<Rightarrow> bytes rustic_result"
  re_prims :: prims
  re_be :: DecryptBackend

definition unwrapR :: "'a rustic_result \<Rightarrow> 'a rustic_result" where
  "unwrapR r = map_err (\<lambda>_. Panic ''called `Result::unwrap()` on an `Err` value'') r"

text \<open>Opening a file, seeking and reading exactly \<open>len\<close> bytes; each of them is unwrapped.\<close>

definition read_file_at :: "'w WriteSource \<Rightarrow> Path \<Rightarrow> nat \<Rightarrow> nat \<Rightarrow> 'w \<Rightarrow> bytes option" where
  "read_file_at dest path off len w = (case ws_open_read dest path w of
     None \<Rightarrow> None
   | Some r \<Rightarrow> (case take_read_to_end len (snd (take_read_to_end off r)) of
       (None, _) \<Rightarrow> None
     | (Some data, _) \<Rightarrow> if length data = len then Some data else None))"

text \<open>The data of one blob of a pack that was read from its start.\<close>

definition blob_data_at :: "'w RestoreEnv \<Rightarrow> u32 \<Rightarrow> bytes \<Rightarrow> BlobLocation \<Rightarrow> bytes rustic_result" where
  "blob_data_at env offset rdata bl =
     (let start = unat (bl_offset bl - offset); stop = unat (bl_offset bl + bl_length bl - offset) in
      if start \<le> stop \<and> stop \<le> length rdata then
        unwrapR (read_encrypted_from_partial (re_prims env) (re_be env) (subslice start stop rdata) (bl_uncompressed_length bl))
      else Inl (Panic ''range end index out of range for slice''))"

text \<open>The task of one pack: what it hands on to be written, as file, position and data.\<close>

definition pack_writes :: "'w RestoreEnv \<Rightarrow> Path list \<Rightarrow> PackInfo \<Rightarrow> 'w \<Rightarrow> (nat \<times> u64 \<times> bytes) list rustic_result" where
  "pack_writes env filenames pk w =
     (let locs = pi_locations pk;
          to = (\<lambda>(bl, dests) data. map (\<lambda>(i, start). (i, start, data)) dests)
      in case (if ws_can_random_write (re_dest env) then pi_from_file pk else None) of
        Some (file_idx, offset_file, length_file) \<Rightarrow>
          (case read_file_at (re_dest env) (filenames ! file_idx) (unat offset_file) (unat length_file) w of
             None \<Rightarrow> Inl (Panic ''called `Result::unwrap()` on an `Err` value'')
           | Some data \<Rightarrow> Inr (concat (map (\<lambda>b. to b data) (bls_blobs locs))))
      | None \<Rightarrow>
          bindR (unwrapR (re_read_partial env FPack (pi_pack_id pk) False (bls_offset locs) (bls_length locs))) (\<lambda>rdata.
          bindR (traverseR (\<lambda>b. bindR (blob_data_at env (bls_offset locs) rdata (fst b)) (\<lambda>data. Inr (to b data))) (bls_blobs locs))
            (\<lambda>ws. Inr (concat ws))))"

text \<open>Before the first write to a file it gets its full length; zero marks the files that have it.\<close>

definition allocate :: "'w WriteSource \<Rightarrow> Path list \<Rightarrow> nat \<Rightarrow> u64 list \<Rightarrow> 'w \<Rightarrow> bool \<times> u64 list \<times> 'w" where
  "allocate dest filenames i sizes w =
     (if sizes ! i > 0 then
        (case ws_create_dir_all dest (path_parent (filenames ! i)) w of (ok1, w) \<Rightarrow>
         if \<not> ok1 then (False, sizes, w)
         else case ws_set_length dest (filenames ! i) (sizes ! i) w of (ok2, w) \<Rightarrow>
           if ok2 then (True, sizes[i := 0], w) else (False, sizes, w))
      else (True, sizes, w))"

record 'w RestoreRun =
  rr_world :: 'w
  rr_sizes :: "u64 list"
  rr_packs :: "PackInfo list"
  rr_writes :: "(nat \<times> u64 \<times> bytes) list"
  rr_ready :: "(nat \<times> u64 \<times> bytes) list"

text \<open>The worker threads in any order: a pack is read, a write allocates its file under the lock, a write that did so
  writes. The sum is a panic, which ends the restore.\<close>

inductive restore_step :: "'w RestoreEnv \<Rightarrow> Path list \<Rightarrow> 'w RestoreRun \<Rightarrow> rustic_error + 'w RestoreRun \<Rightarrow> bool" for env filenames where
  rs_read: "\<lbrakk>pk \<in> set (rr_packs s); pack_writes env filenames pk (rr_world s) = Inr ws\<rbrakk>
    \<Longrightarrow> restore_step env filenames s (Inr (s\<lparr>rr_packs := remove1 pk (rr_packs s), rr_writes := rr_writes s @ ws\<rparr>))"
| rs_read_panic: "\<lbrakk>pk \<in> set (rr_packs s); pack_writes env filenames pk (rr_world s) = Inl e\<rbrakk> \<Longrightarrow> restore_step env filenames s (Inl e)"
| rs_alloc: "\<lbrakk>(i, start, data) \<in> set (rr_writes s); allocate (re_dest env) filenames i (rr_sizes s) (rr_world s) = (True, sizes, w)\<rbrakk>
    \<Longrightarrow> restore_step env filenames s (Inr (s\<lparr>rr_world := w, rr_sizes := sizes, rr_writes := remove1 (i, start, data) (rr_writes s),
          rr_ready := (i, start, data) # rr_ready s\<rparr>))"
| rs_alloc_panic: "\<lbrakk>(i, start, data) \<in> set (rr_writes s); allocate (re_dest env) filenames i (rr_sizes s) (rr_world s) = (False, sizes, w)\<rbrakk>
    \<Longrightarrow> restore_step env filenames s (Inl (Panic ''called `Result::unwrap()` on an `Err` value''))"
| rs_write: "\<lbrakk>(i, start, data) \<in> set (rr_ready s); ws_write_at (re_dest env) (filenames ! i) start data (rr_world s) = (True, w)\<rbrakk>
    \<Longrightarrow> restore_step env filenames s (Inr (s\<lparr>rr_world := w, rr_ready := remove1 (i, start, data) (rr_ready s)\<rparr>))"
| rs_write_panic: "\<lbrakk>(i, start, data) \<in> set (rr_ready s); ws_write_at (re_dest env) (filenames ! i) start data (rr_world s) = (False, w)\<rbrakk>
    \<Longrightarrow> restore_step env filenames s (Inl (Panic ''called `Result::unwrap()` on an `Err` value''))"

inductive restore_steps :: "'w RestoreEnv \<Rightarrow> Path list \<Rightarrow> 'w RestoreRun \<Rightarrow> 'w RestoreRun \<Rightarrow> bool" for env filenames where
  rs_refl: "restore_steps env filenames s s"
| rs_trans: "\<lbrakk>restore_steps env filenames s s'; restore_step env filenames s' (Inr s'')\<rbrakk> \<Longrightarrow> restore_steps env filenames s s''"

definition rr_done :: "'w RestoreRun \<Rightarrow> bool" where
  "rr_done s \<longleftrightarrow> rr_packs s = [] \<and> rr_writes s = [] \<and> rr_ready s = []"

text \<open>A destination that can only replace files: one writer per file keeps the chunks that came too early.\<close>

record AppendWriter =
  aw_pending :: "(u64 \<times> bytes) list"
  aw_cursor :: u64
  aw_handle :: "bytes list option"

definition AppendWriter_new :: AppendWriter where
  "AppendWriter_new = \<lparr>aw_pending = [], aw_cursor = 0, aw_handle = None\<rparr>"

function aw_flush :: "AppendWriter \<Rightarrow> AppendWriter" where
  "aw_flush a = (case map_of (aw_pending a) (aw_cursor a) of
     None \<Rightarrow> a
   | Some chunk \<Rightarrow> aw_flush (a\<lparr>aw_pending := bt_remove (aw_cursor a) (aw_pending a), aw_cursor := aw_cursor a + word_of_nat (length chunk),
         aw_handle := Some ((case aw_handle a of None \<Rightarrow> [] | Some h \<Rightarrow> h) @ [chunk])\<rparr>))"
  by pat_completeness auto
termination
proof (relation "measure (\<lambda>a. length (aw_pending a))")
  fix a chunk assume "map_of (aw_pending a) (aw_cursor a) = Some chunk"
  then have "(aw_cursor a, chunk) \<in> set (aw_pending a)" by (rule map_of_SomeD)
  then show "(a\<lparr>aw_pending := bt_remove (aw_cursor a) (aw_pending a), aw_cursor := aw_cursor a + word_of_nat (length chunk),
      aw_handle := Some ((case aw_handle a of None \<Rightarrow> [] | Some h \<Rightarrow> h) @ [chunk])\<rparr>, a) \<in> measure (\<lambda>a. length (aw_pending a))"
    by (auto simp: bt_remove_def intro: length_filter_less)
qed simp

declare aw_flush.simps [simp del]

definition aw_receive :: "u64 \<times> bytes \<Rightarrow> AppendWriter \<Rightarrow> AppendWriter" where
  "aw_receive c a = aw_flush (a\<lparr>aw_pending := bt_insert (fst c) (snd c) (aw_pending a)\<rparr>)"

record AppendRun =
  ar_packs :: "PackInfo list"
  ar_chunks :: "(nat \<times> u64 \<times> bytes) list"
  ar_writers :: "nat \<Rightarrow> AppendWriter"

text \<open>The destination is not read here, so it only changes when the writers close their handles.\<close>

inductive append_step :: "'w RestoreEnv \<Rightarrow> Path list \<Rightarrow> 'w \<Rightarrow> AppendRun \<Rightarrow> rustic_error + AppendRun \<Rightarrow> bool" for env filenames w where
  as_read: "\<lbrakk>pk \<in> set (ar_packs s); pack_writes env filenames pk w = Inr ws\<rbrakk>
    \<Longrightarrow> append_step env filenames w s (Inr (s\<lparr>ar_packs := remove1 pk (ar_packs s), ar_chunks := ar_chunks s @ ws\<rparr>))"
| as_read_panic: "\<lbrakk>pk \<in> set (ar_packs s); pack_writes env filenames pk w = Inl e\<rbrakk> \<Longrightarrow> append_step env filenames w s (Inl e)"
| as_receive: "(i, start, data) \<in> set (ar_chunks s)
    \<Longrightarrow> append_step env filenames w s (Inr (s\<lparr>ar_chunks := remove1 (i, start, data) (ar_chunks s),
          ar_writers := (ar_writers s)(i := aw_receive (start, data) (ar_writers s i))\<rparr>))"

inductive append_steps :: "'w RestoreEnv \<Rightarrow> Path list \<Rightarrow> 'w \<Rightarrow> AppendRun \<Rightarrow> AppendRun \<Rightarrow> bool" for env filenames w where
  as_refl: "append_steps env filenames w s s"
| as_trans: "\<lbrakk>append_steps env filenames w s s'; append_step env filenames w s' (Inr s'')\<rbrakk> \<Longrightarrow> append_steps env filenames w s s''"

text \<open>The writers end when their channels do. Errors of writing are unwrapped, an error of closing is only logged.\<close>

definition close_writer :: "'w WriteSource \<Rightarrow> Path \<times> AppendWriter \<Rightarrow> 'w \<Rightarrow> 'w rustic_result" where
  "close_writer dest pa w = (case aw_handle (snd pa) of
     None \<Rightarrow> Inr w
   | Some chunks \<Rightarrow> (case ws_replace dest (fst pa) chunks w of
       (WriteFailed, _) \<Rightarrow> Inl (Panic ''called `Result::unwrap()` on an `Err` value'')
     | (_, w) \<Rightarrow> Inr w))"

definition close_writers :: "'w WriteSource \<Rightarrow> Path list \<Rightarrow> (nat \<Rightarrow> AppendWriter) \<Rightarrow> 'w \<Rightarrow> 'w rustic_result" where
  "close_writers dest filenames writers = foldR (close_writer dest) (map (\<lambda>i. (filenames ! i, writers i)) [0..<length filenames])"

text \<open>Files of length zero are created first.\<close>

definition create_empty :: "'w WriteSource \<Rightarrow> Path \<times> u64 \<Rightarrow> 'w \<Rightarrow> 'w rustic_result" where
  "create_empty dest f w = (case f of (path, sz) \<Rightarrow>
     if sz = 0 then
       (let err = Inl (RusticError EInputOutput ''Failed to prepare the file `{path}`. Please check the path and try again.'') in
        case ws_create_dir_all dest (path_parent path) w of (ok1, w) \<Rightarrow>
        if \<not> ok1 then err else case ws_set_length dest path 0 w of (ok2, w) \<Rightarrow> if ok2 then Inr w else err)
     else Inr w)"

inductive restore_contents ::
    "'w RestoreEnv \<Rightarrow> Path list \<Rightarrow> u64 list \<Rightarrow> RestoreInfo \<Rightarrow> 'w \<Rightarrow> 'w rustic_result \<Rightarrow> bool" for env filenames file_lengths r w where
  rc_prepare: "foldR (create_empty (re_dest env)) (zip filenames file_lengths) w = Inl e
    \<Longrightarrow> restore_contents env filenames file_lengths r w (Inl e)"
| rc_random: "\<lbrakk>foldR (create_empty (re_dest env)) (zip filenames file_lengths) w = Inr w0; ws_can_random_write (re_dest env);
    restore_steps env filenames \<lparr>rr_world = w0, rr_sizes = file_lengths, rr_packs = pack_infos r, rr_writes = [], rr_ready = []\<rparr> s; rr_done s\<rbrakk>
    \<Longrightarrow> restore_contents env filenames file_lengths r w (Inr (rr_world s))"
| rc_random_panic: "\<lbrakk>foldR (create_empty (re_dest env)) (zip filenames file_lengths) w = Inr w0; ws_can_random_write (re_dest env);
    restore_steps env filenames \<lparr>rr_world = w0, rr_sizes = file_lengths, rr_packs = pack_infos r, rr_writes = [], rr_ready = []\<rparr> s;
    restore_step env filenames s (Inl e)\<rbrakk>
    \<Longrightarrow> restore_contents env filenames file_lengths r w (Inl e)"
| rc_append: "\<lbrakk>foldR (create_empty (re_dest env)) (zip filenames file_lengths) w = Inr w0; \<not> ws_can_random_write (re_dest env);
    append_steps env filenames w0 \<lparr>ar_packs = pack_infos r, ar_chunks = [], ar_writers = (\<lambda>_. AppendWriter_new)\<rparr> s; ar_packs s = []; ar_chunks s = []\<rbrakk>
    \<Longrightarrow> restore_contents env filenames file_lengths r w (close_writers (re_dest env) filenames (ar_writers s) w0)"
| rc_append_panic: "\<lbrakk>foldR (create_empty (re_dest env)) (zip filenames file_lengths) w = Inr w0; \<not> ws_can_random_write (re_dest env);
    append_steps env filenames w0 \<lparr>ar_packs = pack_infos r, ar_chunks = [], ar_writers = (\<lambda>_. AppendWriter_new)\<rparr> s;
    append_step env filenames w0 s (Inl e)\<rbrakk>
    \<Longrightarrow> restore_contents env filenames file_lengths r w (Inl e)"

end
