(* ===== verification/RestoreCollect.thy ===== *)
theory RestoreCollect
  imports Restore
begin

text \<open>
  Preparing a restore and the steps around the contents (crates/core/src/commands/restore.rs): the destination is
  compared with the nodes of the snapshot, both sorted by path; what is not in the snapshot is additional, what is in
  the snapshot is created or planned. Afterwards links and metadata are restored.
\<close>

section \<open>Comparing the destination with the snapshot\<close>

fun comp_rank :: "Component \<Rightarrow> nat" where
  "comp_rank RootDir = 0"
| "comp_rank CurDir = 1"
| "comp_rank ParentDir = 2"
| "comp_rank (Normal _) = 3"

definition comp_cmp :: "Component \<Rightarrow> Component \<Rightarrow> Ordering" where
  "comp_cmp a b = (case (a, b) of (Normal x, Normal y) \<Rightarrow> ord_cmp x y | _ \<Rightarrow> ord_cmp (comp_rank a) (comp_rank b))"

text \<open>\<^verbatim>\<open>Path::cmp\<close> and \<^verbatim>\<open>Path::starts_with\<close> go by components.\<close>

fun path_cmp :: "Path \<Rightarrow> Path \<Rightarrow> Ordering" where
  "path_cmp [] [] = Equal"
| "path_cmp [] (_ # _) = Less"
| "path_cmp (_ # _) [] = Greater"
| "path_cmp (a # p) (b # q) = (case comp_cmp a b of Equal \<Rightarrow> path_cmp p q | c \<Rightarrow> c)"

definition path_starts_with :: "Path \<Rightarrow> Path \<Rightarrow> bool" where
  "path_starts_with p base \<longleftrightarrow> take (length base) p = base"

definition comp_bytes :: "Component \<Rightarrow> bytes" where
  "comp_bytes c = (case c of RootDir \<Rightarrow> [] | CurDir \<Rightarrow> [0x2E] | ParentDir \<Rightarrow> [0x2E, 0x2E] | Normal s \<Rightarrow> s)"

definition path_bytes :: "Path \<Rightarrow> bytes" where
  "path_bytes p = (if p = [RootDir] then [0x2F] else join_char 0x2F (map comp_bytes p))"

definition trim_slashes :: "rstr \<Rightarrow> rstr" where
  "trim_slashes s = rev (dropWhile (\<lambda>c. c = 0x2F) (rev (dropWhile (\<lambda>c. c = 0x2F) s)))"

definition clean_path :: "Path \<Rightarrow> Path" where
  "clean_path p = components (str_bytes (trim_slashes (map (\<lambda>c. if c = 0x5C then 0x2F else c) (from_utf8_lossy (path_bytes p)))))"

text \<open>The entries the walker yields; \<open>None\<close> is an error, which is logged.\<close>

fun next_entry :: "Path list \<Rightarrow> SourceFile option list \<Rightarrow> SourceFile option \<times> SourceFile option list" where
  "next_entry skip_dirs [] = (None, [])"
| "next_entry skip_dirs (None # walker) = next_entry skip_dirs walker"
| "next_entry skip_dirs (Some ret # walker) =
    (if list_ex (\<lambda>d. path_starts_with (clean_path (f_path ret)) (clean_path d)) skip_dirs then next_entry skip_dirs walker
     else (Some ret, walker))"

record 'w Collect =
  cl_world :: 'w
  cl_plan :: RestorePlan
  cl_files :: FileDirStats
  cl_dirs :: FileDirStats
  cl_additional :: bool
  cl_skip_dirs :: "Path list"

definition process_existing :: "'w WriteSource \<Rightarrow> RestoreOptions \<Rightarrow> bool \<Rightarrow> SourceFile \<Rightarrow> 'w Collect \<Rightarrow> 'w Collect" where
  "process_existing dest opts dry_run entry s =
     (if clean_path (f_path entry) = clean_path [RootDir] then s
      else
        let is_dir = (f_type entry = Dir);
            s = (if is_dir then s\<lparr>cl_dirs := (cl_dirs s)\<lparr>fs_additional := fs_additional (cl_dirs s) + 1\<rparr>\<rparr>
                 else s\<lparr>cl_files := (cl_files s)\<lparr>fs_additional := fs_additional (cl_files s) + 1\<rparr>\<rparr>);
            s = (case (ro_delete opts, dry_run, is_dir) of
                   (True, True, _) \<Rightarrow> s
                 | (True, False, True) \<Rightarrow> s\<lparr>cl_world := snd (ws_remove_dir dest (f_path entry) (cl_world s))\<rparr>
                 | (True, False, False) \<Rightarrow> s\<lparr>cl_world := snd (ws_remove_file dest (f_path entry) (cl_world s))\<rparr>
                 | (False, _, _) \<Rightarrow> s\<lparr>cl_additional := True\<rparr>)
        in if is_dir then s\<lparr>cl_skip_dirs := f_path entry # cl_skip_dirs s\<rparr> else s)"

definition count_file :: "(FileDirStats \<Rightarrow> FileDirStats) \<Rightarrow> 'w Collect \<Rightarrow> 'w Collect" where
  "count_file f s = s\<lparr>cl_files := f (cl_files s)\<rparr>"

definition process_file_node ::
    "'w WriteSource \<Rightarrow> (bytes \<Rightarrow> Id) \<Rightarrow> (DataId \<Rightarrow> IndexEntry rustic_result) \<Rightarrow> RestoreOptions \<Rightarrow> Path \<Rightarrow> Node \<Rightarrow> bool \<Rightarrow> 'w Collect
     \<Rightarrow> 'w Collect rustic_result" where
  "process_file_node dest hash get_entry opts path node exists s =
     bindR (add_file dest hash get_entry (cl_world s) node path (ro_verify_existing opts) (ro_no_compare opts) (cl_plan s)) (\<lambda>(res, plan).
     Inr (count_file (\<lambda>fs. case res of
         Existing \<Rightarrow> fs\<lparr>fs_unchanged := fs_unchanged fs + 1\<rparr>
       | Verified \<Rightarrow> fs\<lparr>fs_verified := fs_verified fs + 1\<rparr>
       | Modify \<Rightarrow> if exists then fs\<lparr>fs_modify := fs_modify fs + 1\<rparr> else fs\<lparr>fs_restore := fs_restore fs + 1\<rparr>)
       (s\<lparr>cl_plan := plan\<rparr>)))"

definition process_node ::
    "'w WriteSource \<Rightarrow> (bytes \<Rightarrow> Id) \<Rightarrow> (DataId \<Rightarrow> IndexEntry rustic_result) \<Rightarrow> RestoreOptions \<Rightarrow> bool \<Rightarrow> Path \<Rightarrow> Node \<Rightarrow> bool \<Rightarrow> 'w Collect
     \<Rightarrow> 'w Collect rustic_result" where
  "process_node dest hash get_entry opts dry_run path node exists s =
     (case n_type node of
        Dir \<Rightarrow>
          if exists then Inr (s\<lparr>cl_dirs := (cl_dirs s)\<lparr>fs_modify := fs_modify (cl_dirs s) + 1\<rparr>\<rparr>)
          else
            let s = s\<lparr>cl_dirs := (cl_dirs s)\<lparr>fs_restore := fs_restore (cl_dirs s) + 1\<rparr>\<rparr> in
            if dry_run then Inr s
            else (case ws_create_dir_all dest path (cl_world s) of (created, w) \<Rightarrow>
              if created then Inr (s\<lparr>cl_world := w\<rparr>)
              else Inl (RusticError EInputOutput ''Failed to create the directory `{path}`. Please check the path and try again.''))
      | File \<Rightarrow>
          (case hardlink_key node of
             None \<Rightarrow> process_file_node dest hash get_entry opts path node exists s
           | Some key \<Rightarrow>
               if map_of (rpl_hardlinks (cl_plan s)) key = None
               then process_file_node dest hash get_entry opts path node exists
                 (s\<lparr>cl_plan := (cl_plan s)\<lparr>rpl_hardlinks := bt_insert key path (rpl_hardlinks (cl_plan s))\<rparr>\<rparr>)
               else Inr s)
      | _ \<Rightarrow> Inr s)"

text \<open>Types that do not fit: the existing entry is treated as additional.\<close>

definition types_differ :: "Node \<Rightarrow> SourceFile \<Rightarrow> bool" where
  "types_differ node destination \<longleftrightarrow>
     (is_dir node \<and> f_type destination \<noteq> Dir) \<or> (is_file node \<and> f_type destination \<noteq> File) \<or> is_special node"

fun next_node :: "(Path \<times> Node) rustic_result list \<Rightarrow> ((Path \<times> Node) option \<times> (Path \<times> Node) rustic_result list) rustic_result" where
  "next_node [] = Inr (None, [])"
| "next_node (Inl e # ns) = Inl e"
| "next_node (Inr x # ns) = Inr (Some x, ns)"

fun opt_len :: "'a option \<Rightarrow> nat" where
  "opt_len None = 0"
| "opt_len (Some _) = 1"

lemma next_entry_shorter: "next_entry skip walker = (d, walker') \<Longrightarrow> opt_len d + length walker' \<le> length walker"
  by (induction skip walker rule: next_entry.induct) (auto split: if_splits)

lemma next_node_shorter: "next_node ns = Inr (n, ns') \<Longrightarrow> opt_len n + length ns' \<le> length ns"
  by (cases ns rule: next_node.cases) auto

text \<open>The loop over both sorted listings.\<close>

function collect_loop ::
    "'w WriteSource \<Rightarrow> (bytes \<Rightarrow> Id) \<Rightarrow> (DataId \<Rightarrow> IndexEntry rustic_result) \<Rightarrow> RestoreOptions \<Rightarrow> bool \<Rightarrow> Path
     \<Rightarrow> SourceFile option \<Rightarrow> SourceFile option list \<Rightarrow> (Path \<times> Node) option \<Rightarrow> (Path \<times> Node) rustic_result list \<Rightarrow> 'w Collect
     \<Rightarrow> 'w Collect rustic_result" where
  "collect_loop dest hash get_entry opts dry_run dest_path next_dst walker next nodes s =
     (case (next_dst, next) of
        (None, None) \<Rightarrow> Inr s
      | (Some destination, None) \<Rightarrow>
          let s = process_existing dest opts dry_run destination s in
          case next_entry (cl_skip_dirs s) walker of (d, walker') \<Rightarrow>
            collect_loop dest hash get_entry opts dry_run dest_path d walker' next nodes s
      | (None, Some (path, node)) \<Rightarrow>
          bindR (process_node dest hash get_entry opts dry_run (join_force dest_path path) node False s) (\<lambda>s.
          case next_node nodes of
            Inl e \<Rightarrow> Inl e
          | Inr (n, nodes') \<Rightarrow> collect_loop dest hash get_entry opts dry_run dest_path next_dst walker n nodes' s)
      | (Some destination, Some (path, node)) \<Rightarrow>
          (case path_cmp (clean_path (f_path destination)) (clean_path (join_force dest_path path)) of
             Less \<Rightarrow>
               let s = process_existing dest opts dry_run destination s in
               case next_entry (cl_skip_dirs s) walker of (d, walker') \<Rightarrow>
                 collect_loop dest hash get_entry opts dry_run dest_path d walker' next nodes s
           | Equal \<Rightarrow>
               let s = (if types_differ node destination then process_existing dest opts dry_run destination s else s) in
               case next_entry (cl_skip_dirs s) walker of (d, walker') \<Rightarrow>
               bindR (process_node dest hash get_entry opts dry_run (join_force dest_path path) node True s) (\<lambda>s.
               case next_node nodes of
                 Inl e \<Rightarrow> Inl e
               | Inr (n, nodes') \<Rightarrow> collect_loop dest hash get_entry opts dry_run dest_path d walker' n nodes' s)
           | Greater \<Rightarrow>
               bindR (process_node dest hash get_entry opts dry_run (join_force dest_path path) node False s) (\<lambda>s.
               case next_node nodes of
                 Inl e \<Rightarrow> Inl e
               | Inr (n, nodes') \<Rightarrow> collect_loop dest hash get_entry opts dry_run dest_path next_dst walker n nodes' s)))"
  by pat_completeness auto
termination
  by (relation "measure (\<lambda>(_, _, _, _, _, _, d, walker, n, nodes, _). opt_len d + length walker + opt_len n + length nodes)")
    (auto dest!: next_entry_shorter [OF sym] next_node_shorter dest: next_entry_shorter)

declare collect_loop.simps [simp del]

text \<open>The walker over the destination: building it can fail, what it yields is the list.\<close>

definition collect_and_prepare ::
    "'w WriteSource \<Rightarrow> (bytes \<Rightarrow> Id) \<Rightarrow> (DataId \<Rightarrow> IndexEntry rustic_result) \<Rightarrow> RestoreOptions \<Rightarrow> (Path \<Rightarrow> 'w \<Rightarrow> SourceFile option list option)
     \<Rightarrow> (Path \<times> Node) rustic_result list \<Rightarrow> Path \<Rightarrow> bool \<Rightarrow> 'w \<Rightarrow> (RestorePlan \<times> 'w) rustic_result" where
  "collect_and_prepare dest hash get_entry opts build_walker nodes dest_path dry_run w =
     (let dest_path = clean_path dest_path in
      case ws_create_dir_all dest dest_path w of (created, w) \<Rightarrow>
      if \<not> created then Inl (backend_error ''Failed to initialize restore.'') else
      bindR (ok_or (RusticError EInputOutput ''Failed to create list adapter for destination.'') (build_walker dest_path w)) (\<lambda>walker.
      case next_entry [] walker of (next_dst, walker) \<Rightarrow>
      bindR (next_node nodes) (\<lambda>(next, nodes).
      bindR (collect_loop dest hash get_entry opts dry_run dest_path next_dst walker next nodes
        \<lparr>cl_world = w, cl_plan = RestorePlan_default, cl_files = FileDirStats_default, cl_dirs = FileDirStats_default,
         cl_additional = False, cl_skip_dirs = []\<rparr>) (\<lambda>s.
      Inr ((cl_plan s)\<lparr>rpl_stats := \<lparr>rs_files = cl_files s, rs_dirs = cl_dirs s\<rparr>, rpl_root := dest_path\<rparr>, cl_world s)))))"

section \<open>Metadata\<close>

definition set_metadata :: "'w WriteSource \<Rightarrow> RestoreOptions \<Rightarrow> Path \<times> Node \<Rightarrow> 'w \<Rightarrow> 'w rustic_result" where
  "set_metadata dest opts pn w = (case ws_set_restore_metadata dest (fst pn) (snd pn) opts w of
     (ok, w) \<Rightarrow> if ok then Inr w else Inl (RusticError EInputOutput ''Failed to set metadata for `{path}`''))"

text \<open>Directories that are left get their metadata; the top of the stack comes first in the list.\<close>

fun leave_dirs :: "'w WriteSource \<Rightarrow> RestoreOptions \<Rightarrow> Path \<Rightarrow> (Path \<times> Node) list \<Rightarrow> 'w \<Rightarrow> ((Path \<times> Node) list \<times> 'w) rustic_result" where
  "leave_dirs dest opts path [] w = Inr ([], w)"
| "leave_dirs dest opts path (d # dir_stack) w =
    (if path_starts_with path (fst d) then Inr (d # dir_stack, w)
     else bindR (set_metadata dest opts d w) (\<lambda>w. leave_dirs dest opts path dir_stack w))"

definition restore_link :: "'w WriteSource \<Rightarrow> (HardlinkKey \<times> Path) list \<Rightarrow> Path \<Rightarrow> Node \<Rightarrow> 'w \<Rightarrow> 'w rustic_result" where
  "restore_link dest hardlink_candidates path node w =
     (if \<not> ws_can_hard_link dest then Inr w
      else case hardlink_key node of
        None \<Rightarrow> Inr w
      | Some key \<Rightarrow> (case map_of hardlink_candidates key of
          None \<Rightarrow> Inr w
        | Some canonical \<Rightarrow>
            if canonical = path then Inr w
            else (case ws_hard_link dest canonical path w of
              (ok, w) \<Rightarrow> if ok then Inr w
                else Inl (RusticError EInputOutput ''Failed to recreate the hardlink `{path}` from `{canonical}`.''))))"

definition restore_node_metadata ::
    "'w WriteSource \<Rightarrow> RestoreOptions \<Rightarrow> (HardlinkKey \<times> Path) list \<Rightarrow> (Path \<times> Node) rustic_result \<Rightarrow> (Path \<times> Node) list \<times> 'w
     \<Rightarrow> ((Path \<times> Node) list \<times> 'w) rustic_result" where
  "restore_node_metadata dest opts hardlink_candidates item s =
     bindR item (\<lambda>(path, node). case s of (dir_stack, w) \<Rightarrow>
     bindR (restore_link dest hardlink_candidates path node w) (\<lambda>w.
     if n_type node = Dir then
       bindR (leave_dirs dest opts path dir_stack w) (\<lambda>(dir_stack, w). Inr ((path, node) # dir_stack, w))
     else bindR (set_metadata dest opts (path, node) w) (\<lambda>w. Inr (dir_stack, w))))"

definition restore_metadata ::
    "'w WriteSource \<Rightarrow> RestoreOptions \<Rightarrow> (HardlinkKey \<times> Path) list \<Rightarrow> (Path \<times> Node) rustic_result list \<Rightarrow> 'w \<Rightarrow> 'w rustic_result" where
  "restore_metadata dest opts hardlink_candidates nodes w =
     bindR (foldR (restore_node_metadata dest opts hardlink_candidates) nodes ([], w)) (\<lambda>(dir_stack, w).
     foldR (set_metadata dest opts) dir_stack w)"

section \<open>The restore\<close>

inductive restore_repository ::
    "'w RestoreEnv \<Rightarrow> (PackId list \<Rightarrow> unit rustic_result) \<Rightarrow> RestorePlan \<Rightarrow> RestoreOptions \<Rightarrow> (Path \<times> Node) rustic_result list \<Rightarrow> 'w
     \<Rightarrow> 'w rustic_result \<Rightarrow> bool" for env warm_up_wait file_infos opts nodes w where
  rr_warm_up: "warm_up_wait (to_packs file_infos) = Inl e \<Longrightarrow> restore_repository env warm_up_wait file_infos opts nodes w (Inl e)"
| rr_root: "\<lbrakk>warm_up_wait (to_packs file_infos) = Inr (); ws_create_dir_all (re_dest env) (rpl_root file_infos) w = (False, w1)\<rbrakk>
    \<Longrightarrow> restore_repository env warm_up_wait file_infos opts nodes w (Inl (backend_error ''Failed to initialize restore.''))"
| rr_contents: "\<lbrakk>warm_up_wait (to_packs file_infos) = Inr (); ws_create_dir_all (re_dest env) (rpl_root file_infos) w = (True, w1);
    restore_contents env (rpl_names file_infos) (rpl_file_lengths file_infos) (rpl_r file_infos) w1 res\<rbrakk>
    \<Longrightarrow> restore_repository env warm_up_wait file_infos opts nodes w
      (bindR res (\<lambda>w. restore_metadata (re_dest env) opts (rpl_hardlinks file_infos) nodes w))"

section \<open>What is not restored\<close>

text \<open>A second name of a file with hard links is not planned, and where the destination has no hard links it is not
  linked either.\<close>

lemma second_link_lost:
  assumes "n_type node = File" "hardlink_key node = Some key" "map_of (rpl_hardlinks (cl_plan s)) key \<noteq> None" "\<not> ws_can_hard_link dest"
  shows "process_node dest hash get_entry opts dry_run path node ex s = Inr s" "restore_link dest hl path node w = Inr w"
  using assms by (auto simp: process_node_def restore_link_def)

text \<open>A directory where something else is: that is removed or left, but the directory is not made.\<close>

lemma replaced_directory_not_made:
  assumes "n_type node = Dir" "process_node dest hash get_entry opts dry_run path node True s = Inr s'"
  shows "cl_world s' = cl_world s" "cl_plan s' = cl_plan s"
  using assms by (auto simp: process_node_def)

end
