(* ===== verification/RestoreProps.thy ===== *)
theory RestoreProps
  imports RestoreCollect
begin

text \<open>
  What a restore does to the contents of files (crates/core/src/commands/restore.rs). A destination promises the
  effect of its operations on contents; under this contract every interleaving of the worker threads that ends leaves
  each planned file with exactly its blobs.
\<close>

section \<open>The contract of destinations\<close>

definition resize :: "nat \<Rightarrow> bytes \<Rightarrow> bytes" where
  "resize n c = take n (c @ replicate n 0)"

definition overwrite :: "nat \<Rightarrow> bytes \<Rightarrow> bytes \<Rightarrow> bytes" where
  "overwrite off d c = take off c @ d @ drop (off + length d) c"

lemma length_resize [simp]: "length (resize n c) = n"
  by (simp add: resize_def)

lemma resize_same [simp]: "resize (length c) c = c"
  by (simp add: resize_def)

lemma length_overwrite [simp]: "off + length d \<le> length c \<Longrightarrow> length (overwrite off d c) = length c"
  by (simp add: overwrite_def)

lemma nth_overwrite:
  "off + length d \<le> length c \<Longrightarrow> i < length c \<Longrightarrow>
   overwrite off d c ! i = (if off \<le> i \<and> i < off + length d then d ! (i - off) else c ! i)"
  by (auto simp: overwrite_def nth_append min_def)

text \<open>The laws hold in plain states, in which different places are different files. A path names the place \<open>place p\<close>;
  \<open>content\<close> says what the files hold, \<open>other\<close> where something else is than a file; creating the directory \<open>p\<close> can only
  put directories at the places \<open>above p\<close>.\<close>

locale write_source =
  fixes ws :: "'w WriteSource" and content :: "'w \<Rightarrow> Path \<Rightarrow> bytes option" and other :: "'w \<Rightarrow> Path \<Rightarrow> bool"
    and plain :: "'w \<Rightarrow> bool" and place :: "Path \<Rightarrow> Path" and above :: "Path \<Rightarrow> Path set"
  assumes set_length: "ws_set_length ws p n w = (True, w') \<Longrightarrow> plain w \<Longrightarrow> plain w' \<and>
      content w' = (content w)(place p \<mapsto> resize (unat n) (case content w (place p) of None \<Rightarrow> [] | Some c \<Rightarrow> c))"
    and write_at: "ws_write_at ws p off d w = (True, w') \<Longrightarrow> plain w \<Longrightarrow> content w (place p) = Some c \<Longrightarrow>
      unat off + length d \<le> length c \<Longrightarrow> plain w' \<and> content w' = (content w)(place p \<mapsto> overwrite (unat off) d c)"
    and create_dir_all: "ws_create_dir_all ws p w = (ok, w') \<Longrightarrow> plain w \<Longrightarrow> plain w' \<and> content w' = content w \<and>
      (\<forall>q. other w' q \<longrightarrow> other w q \<or> q \<in> above p)"
    and open_read: "ws_open_read ws p w = Some r \<Longrightarrow> plain w \<Longrightarrow> content w (place p) = Some c \<Longrightarrow> reader_ok r \<and> reader_bytes r = c"
    and stat: "ws_stat ws p w = Some (Some m) \<Longrightarrow> plain w \<Longrightarrow>
      (case content w (place p) of None \<Rightarrow> other w (place p) \<and> m_size m = 0 | Some c \<Rightarrow> unat (m_size m) = length c)"
    and set_metadata: "ws_set_restore_metadata ws p node opts w = (ok, w') \<Longrightarrow> content w' = content w"

section \<open>Segments of a file\<close>

definition key_data :: "'w RestoreEnv \<Rightarrow> (PackId \<Rightarrow> bytes) \<Rightarrow> RestoreKey \<Rightarrow> bytes" where
  "key_data env packs k =
     (let s = unat (bl_offset (snd k)); n = unat (bl_length (snd k)) in
      case read_encrypted_from_partial (re_prims env) (re_be env) (subslice s (s + n) (packs (fst k))) (bl_uncompressed_length (snd k)) of
        Inr d \<Rightarrow> d | Inl _ \<Rightarrow> [])"

text \<open>The pack is there, the blob lies inside it and decodes to data of the length the index gives.\<close>

definition key_ok :: "'w RestoreEnv \<Rightarrow> (PackId \<Rightarrow> bytes) \<Rightarrow> RestoreKey \<Rightarrow> bool" where
  "key_ok env packs k \<longleftrightarrow>
     (let s = unat (bl_offset (snd k)); n = unat (bl_length (snd k)) in
      reads_file (re_read_partial env) (fst k) (packs (fst k)) \<and> s + n \<le> length (packs (fst k)) \<and> s + n + 262144 < 2 ^ 32 \<and>
      read_encrypted_from_partial (re_prims env) (re_be env) (subslice s (s + n) (packs (fst k))) (bl_uncompressed_length (snd k))
        = Inr (key_data env packs k) \<and>
      length (key_data env packs k) = unat (data_length (snd k)))"

fun segs :: "('k \<Rightarrow> bytes) \<Rightarrow> nat \<Rightarrow> 'k list \<Rightarrow> (nat \<times> 'k) list" where
  "segs D off [] = []"
| "segs D off (k # ks) = (off, k) # segs D (off + length (D k)) ks"

definition total :: "('k \<Rightarrow> bytes) \<Rightarrow> 'k list \<Rightarrow> nat" where
  "total D ks = length (concat (map D ks))"

lemma total_simps [simp]: "total D [] = 0" "total D (k # ks) = length (D k) + total D ks" "total D (xs @ ys) = total D xs + total D ys"
  by (simp_all add: total_def)

lemma segs_snoc: "segs D off (ks @ [k]) = segs D off ks @ [(off + total D ks, k)]"
  by (induction ks arbitrary: off) (simp_all add: add.assoc)

definition placed :: "('k \<Rightarrow> bytes) \<Rightarrow> bytes \<Rightarrow> nat \<Rightarrow> 'k \<Rightarrow> bool" where
  "placed D c st k \<longleftrightarrow> st + length (D k) \<le> length c \<and> (\<forall>i < length (D k). c ! (st + i) = D k ! i)"

lemma placed_take: "placed D c st k \<longleftrightarrow> st + length (D k) \<le> length c \<and> take (length (D k)) (drop st c) = D k"
  by (auto simp: placed_def list_eq_iff_nth_eq add.commute)

lemma segs_bound: "(st, k) \<in> set (segs D off ks) \<Longrightarrow> off \<le> st \<and> st + length (D k) \<le> off + total D ks"
  by (induction ks arbitrary: off) force+

lemma segs_disjoint:
  "(st, k) \<in> set (segs D off ks) \<Longrightarrow> (st', k') \<in> set (segs D off ks) \<Longrightarrow>
   (st, k) = (st', k') \<or> st + length (D k) \<le> st' \<or> st' + length (D k') \<le> st"
proof (induction ks arbitrary: off)
  case (Cons x ks)
  then show ?case using segs_bound [of st k D "off + length (D x)" ks] segs_bound [of st' k' D "off + length (D x)" ks] by auto
qed simp

lemma segs_placed_concat:
  "\<forall>(st, k) \<in> set (segs D off ks). placed D c st k \<Longrightarrow> length c = off + total D ks \<Longrightarrow> drop off c = concat (map D ks)"
proof (induction ks arbitrary: off)
  case (Cons k ks)
  then have "drop (off + length (D k)) c = concat (map D ks)" by (intro Cons.IH) simp_all
  moreover have "take (length (D k)) (drop off c) = D k" using Cons.prems(1) by (simp add: placed_take)
  ultimately show ?case by (metis (no_types) add.commute append_take_drop_id concat.simps(2) drop_drop list.simps(9))
qed simp

lemma placed_overwrite_same: "st + length (D k) \<le> length c \<Longrightarrow> placed D (overwrite st (D k) c) st k"
  by (auto simp: placed_def nth_overwrite)

lemma placed_overwrite:
  assumes "placed D c st k" "(st, k) \<in> set (segs D 0 ks)" "(st', k') \<in> set (segs D 0 ks)" "length c = total D ks"
  shows "placed D (overwrite st' (D k') c) st k"
proof -
  have b: "st' + length (D k') \<le> length c" using segs_bound [OF assms(3)] assms(4) by simp
  from segs_disjoint [OF assms(2,3)] consider "(st, k) = (st', k')" | "st + length (D k) \<le> st'" | "st' + length (D k') \<le> st" by blast
  then show ?thesis
  proof cases
    case 1
    then show ?thesis using placed_overwrite_same b by auto
  qed (use assms(1) b in \<open>auto simp: placed_def nth_overwrite\<close>)
qed

section \<open>Reading packs\<close>

type_synonym PlannedFile = "Path \<times> RestoreKey list"

definition seg_of :: "(RestoreKey \<Rightarrow> bytes) \<Rightarrow> PlannedFile list \<Rightarrow> nat \<Rightarrow> nat \<Rightarrow> RestoreKey \<Rightarrow> bool" where
  "seg_of D F i st k \<longleftrightarrow> i < length F \<and> (st, k) \<in> set (segs D 0 (snd (F ! i)))"

text \<open>What a task may hand on for a blob.\<close>

definition dests_ok :: "(RestoreKey \<Rightarrow> bytes) \<Rightarrow> PlannedFile list \<Rightarrow> RestoreKey \<Rightarrow> (nat \<times> u64) list \<Rightarrow> bool" where
  "dests_ok D F k dests \<longleftrightarrow> (\<forall>(i, st) \<in> set dests. seg_of D F i (unat st) k)"

definition pk_ok ::
    "'w RestoreEnv \<Rightarrow> (PackId \<Rightarrow> bytes) \<Rightarrow> PlannedFile list \<Rightarrow> (nat \<Rightarrow> nat \<Rightarrow> RestoreKey \<Rightarrow> bool) \<Rightarrow> PackInfo \<Rightarrow> bool" where
  "pk_ok env packs F matched pk \<longleftrightarrow>
     wf_bls (pi_locations pk) \<and> bls_end (pi_locations pk) \<le> length (packs (pi_pack_id pk)) \<and>
     reads_file (re_read_partial env) (pi_pack_id pk) (packs (pi_pack_id pk)) \<and>
     (\<forall>(bl, dests) \<in> set (bls_blobs (pi_locations pk)). key_ok env packs (pi_pack_id pk, bl) \<and>
        dests_ok (key_data env packs) F (pi_pack_id pk, bl) dests) \<and>
     (case pi_from_file pk of None \<Rightarrow> True
      | Some (i, st, len) \<Rightarrow> \<exists>bl dests. bls_blobs (pi_locations pk) = [(bl, dests)] \<and> len = data_length bl \<and>
          seg_of (key_data env packs) F i (unat st) (pi_pack_id pk, bl) \<and> matched i (unat st) (pi_pack_id pk, bl))"

text \<open>A blob of a coalesced read is the blob of the pack.\<close>

lemma blob_data_at_ok:
  assumes "wf_bls locs" "bls_end locs \<le> length (packs pid)" "(bl, dests) \<in> set (bls_blobs locs)" "key_ok env packs (pid, bl)"
  shows "blob_data_at env (bls_offset locs) (subslice (bls_start locs) (bls_end locs) (packs pid)) bl = Inr (key_data env packs (pid, bl))"
proof -
  let ?o = "unat (bl_offset bl)" and ?n = "unat (bl_length bl)"
  have r: "bls_start locs \<le> ?o" "?o + ?n \<le> bls_end locs" "bls_end locs < 2 ^ 32"
    using blobs_in_range_member assms(1,3) unfolding wf_bls_def by fastforce+
  have on: "unat (bl_offset bl + bl_length bl) = ?o + ?n" using r by (intro unat_u32_add) simp
  have s: "unat (bl_offset bl - bls_offset locs) = ?o - bls_start locs"
    using r(1) by (subst unat_sub) (simp_all add: word_le_nat_alt bls_start_def)
  have e: "unat (bl_offset bl + bl_length bl - bls_offset locs) = ?o + ?n - bls_start locs"
    using r(1) on by (subst unat_sub) (simp_all add: word_le_nat_alt bls_start_def)
  have "subslice (?o - bls_start locs) (?o + ?n - bls_start locs) (subslice (bls_start locs) (bls_end locs) (packs pid)) =
    subslice ?o (?o + ?n) (packs pid)"
    using r by (simp add: subslice_def take_drop min_def)
  moreover have "?o - bls_start locs \<le> ?o + ?n - bls_start locs" "?o + ?n - bls_start locs \<le> bls_end locs - bls_start locs"
    using r by (simp_all add: diff_le_mono)
  ultimately show ?thesis using assms(2,4) r
    by (simp add: blob_data_at_def Let_def s e key_ok_def unwrapR_def)
qed

lemma traverseR_map: "\<forall>x \<in> set xs. f x = Inr (g x) \<Longrightarrow> traverseR f xs = Inr (map g xs)"
  by (induction xs) simp_all

definition to_writes :: "(RestoreKey \<Rightarrow> bytes) \<Rightarrow> PackInfo \<Rightarrow> (nat \<times> u64 \<times> bytes) list" where
  "to_writes D pk = concat (map (\<lambda>(bl, dests). map (\<lambda>(i, st). (i, st, D (pi_pack_id pk, bl))) dests) (bls_blobs (pi_locations pk)))"

lemma pack_read_writes:
  assumes "pk_ok env packs F matched pk" "\<not> (ws_can_random_write (re_dest env) \<and> pi_from_file pk \<noteq> None)"
  shows "pack_writes env names pk w = Inr (to_writes (key_data env packs) pk)"
proof -
  let ?l = "pi_locations pk" and ?p = "pi_pack_id pk"
  have pk: "wf_bls ?l" "bls_end ?l \<le> length (packs ?p)" "reads_file (re_read_partial env) ?p (packs ?p)"
    "\<forall>(bl, dests) \<in> set (bls_blobs ?l). key_ok env packs (?p, bl)"
    using assms(1) by (auto simp: pk_ok_def)
  have rd: "re_read_partial env FPack ?p False (bls_offset ?l) (bls_length ?l) = Inr (subslice (bls_start ?l) (bls_end ?l) (packs ?p))"
    using pk(2,3) by (simp add: reads_file_def bls_start_def bls_end_def)
  have b: "blob_data_at env (bls_offset ?l) (subslice (bls_start ?l) (bls_end ?l) (packs ?p)) (fst x) = Inr (key_data env packs (?p, fst x))"
    if "x \<in> set (bls_blobs ?l)" for x
  proof -
    have "(fst x, snd x) \<in> set (bls_blobs ?l)" "key_ok env packs (?p, fst x)" using pk(4) that by auto
    then show ?thesis by (rule blob_data_at_ok [where pid = ?p and packs = packs, OF pk(1,2)])
  qed
  have n: "(if ws_can_random_write (re_dest env) then pi_from_file pk else None) = None"
    using assms(2) by (cases "pi_from_file pk") auto
  show ?thesis unfolding pack_writes_def Let_def n
    using b by (simp add: rd unwrapR_def to_writes_def case_prod_unfold
      traverseR_map [where g = "\<lambda>x. map (\<lambda>(i, st). (i, st, key_data env packs (?p, fst x))) (snd x)"])
qed

section \<open>The threads of a random-access destination\<close>

context write_source
begin

lemma read_file_at_ok:
  assumes "plain w" "content w (place p) = Some c" "off + len \<le> length c" "read_file_at ws p off len w = Some data"
  shows "data = take len (drop off c)"
proof -
  obtain r where r: "ws_open_read ws p w = Some r" using assms(4) by (auto simp: read_file_at_def split: option.splits)
  then have rc: "reader_ok r" "reader_bytes r = c" using open_read [OF r assms(1,2)] by simp_all
  obtain r1 where r1: "take_read_to_end off r = (Some (take off c), r1)" "reader_ok r1" "reader_bytes r1 = drop off c"
    using take_read_to_end_ok [OF rc(1), of off] rc(2) by auto
  obtain r2 where "take_read_to_end len r1 = (Some (take len (drop off c)), r2)"
    using take_read_to_end_ok [OF r1(2), of len] r1(3) by auto
  then show ?thesis using assms(4) r r1(1) by (simp add: read_file_at_def split: if_splits)
qed

definition placed_in :: "(RestoreKey \<Rightarrow> bytes) \<Rightarrow> PlannedFile list \<Rightarrow> 'w \<Rightarrow> nat \<Rightarrow> nat \<Rightarrow> RestoreKey \<Rightarrow> bool" where
  "placed_in D F w i st k \<longleftrightarrow> (\<exists>c. content w (place (fst (F ! i))) = Some c \<and> length c = total D (snd (F ! i)) \<and> placed D c st k)"

lemma pack_writes_ok:
  assumes "pk_ok env packs F matched pk" "re_dest env = ws" "\<forall>i st k. matched i st k \<longrightarrow> placed_in (key_data env packs) F w i st k"
    and "pack_writes env (map fst F) pk w = Inr res" "plain w"
  shows "res = to_writes (key_data env packs) pk"
proof (cases "ws_can_random_write (re_dest env) \<and> pi_from_file pk \<noteq> None")
  case False
  then show ?thesis using pack_read_writes [OF assms(1) False, of "map fst F" w] assms(4) by simp
next
  case True
  then obtain i st len where f: "pi_from_file pk = Some (i, st, len)" by auto
  obtain bl dests where pk: "bls_blobs (pi_locations pk) = [(bl, dests)]" "len = data_length bl"
    "seg_of (key_data env packs) F i (unat st) (pi_pack_id pk, bl)" "matched i (unat st) (pi_pack_id pk, bl)"
    "key_ok env packs (pi_pack_id pk, bl)"
    using assms(1) f by (auto simp: pk_ok_def)
  let ?k = "(pi_pack_id pk, bl)"
  obtain c where c: "content w (place (fst (F ! i))) = Some c" "placed (key_data env packs) c (unat st) ?k"
    using assms(3) pk(4) unfolding placed_in_def by blast
  have len: "length (key_data env packs ?k) = unat len" using pk(2,5) by (simp add: key_ok_def Let_def)
  have i: "map fst F ! i = fst (F ! i)" using pk(3) by (simp add: seg_of_def)
  obtain data where d: "read_file_at ws (fst (F ! i)) (unat st) (unat len) w = Some data"
    and res: "res = map (\<lambda>(i, st). (i, st, data)) dests"
    using assms(4) True f pk(1) i assms(2) by (auto simp: pack_writes_def Let_def split: option.splits)
  have "data = key_data env packs ?k"
    using read_file_at_ok [OF assms(5) c(1) _ d] c(2) len by (simp add: placed_take)
  then show ?thesis using res pk(1) by (simp add: to_writes_def)
qed

definition write_ok :: "(RestoreKey \<Rightarrow> bytes) \<Rightarrow> PlannedFile list \<Rightarrow> nat \<times> u64 \<times> bytes \<Rightarrow> bool" where
  "write_ok D F x \<longleftrightarrow> (case x of (i, st, d) \<Rightarrow> \<exists>k. seg_of D F i (unat st) k \<and> d = D k)"

lemma to_writes_ok: "pk_ok env packs F matched pk \<Longrightarrow> x \<in> set (to_writes (key_data env packs) pk) \<Longrightarrow> write_ok (key_data env packs) F x"
  by (force simp: to_writes_def write_ok_def pk_ok_def dests_ok_def)

text \<open>Every segment is still to be read, to be written, or in place.\<close>

definition handled :: "(RestoreKey \<Rightarrow> bytes) \<Rightarrow> PlannedFile list \<Rightarrow> 'w RestoreRun \<Rightarrow> nat \<Rightarrow> nat \<Rightarrow> RestoreKey \<Rightarrow> bool" where
  "handled D F s i st k \<longleftrightarrow>
     (\<exists>pk \<in> set (rr_packs s). (i, word_of_nat st, D k) \<in> set (to_writes D pk)) \<or>
     (i, word_of_nat st, D k) \<in> set (rr_writes s) \<union> set (rr_ready s) \<or> placed_in D F (rr_world s) i st k"

definition file_state :: "(RestoreKey \<Rightarrow> bytes) \<Rightarrow> PlannedFile list \<Rightarrow> 'w RestoreRun \<Rightarrow> nat \<Rightarrow> bool" where
  "file_state D F s i \<longleftrightarrow>
     rr_sizes s ! i = word_of_nat (total D (snd (F ! i))) \<and> rr_sizes s ! i \<noteq> 0 \<or>
     rr_sizes s ! i = 0 \<and> (\<exists>c. content (rr_world s) (place (fst (F ! i))) = Some c \<and> length c = total D (snd (F ! i)))"

definition run_inv ::
    "'w RestoreEnv \<Rightarrow> (PackId \<Rightarrow> bytes) \<Rightarrow> PlannedFile list \<Rightarrow> (nat \<Rightarrow> nat \<Rightarrow> RestoreKey \<Rightarrow> bool) \<Rightarrow> (Path \<Rightarrow> bytes option)
     \<Rightarrow> 'w RestoreRun \<Rightarrow> bool" where
  "run_inv env packs F matched content0 s \<longleftrightarrow>
     (let D = key_data env packs in
      plain (rr_world s) \<and> length (rr_sizes s) = length F \<and> (\<forall>pk \<in> set (rr_packs s). pk_ok env packs F matched pk) \<and>
      (\<forall>x \<in> set (rr_writes s). write_ok D F x) \<and> (\<forall>x \<in> set (rr_ready s). write_ok D F x \<and> rr_sizes s ! fst x = 0) \<and>
      (\<forall>i < length F. file_state D F s i) \<and> (\<forall>i st k. seg_of D F i st k \<longrightarrow> handled D F s i st k) \<and>
      (\<forall>i st k. matched i st k \<longrightarrow> placed_in D F (rr_world s) i st k) \<and>
      (\<forall>q. q \<notin> place ` fst ` set F \<longrightarrow> content (rr_world s) q = content0 q))"

lemma run_inv_handled: "run_inv env packs F matched content0 s \<Longrightarrow> seg_of (key_data env packs) F i st k \<Longrightarrow> handled (key_data env packs) F s i st k"
  unfolding run_inv_def Let_def by blast

lemma run_inv_matched: "run_inv env packs F matched content0 s \<Longrightarrow> matched i st k \<Longrightarrow> placed_in (key_data env packs) F (rr_world s) i st k"
  unfolding run_inv_def Let_def by blast

lemma run_inv_plain: "run_inv env packs F matched content0 s \<Longrightarrow> plain (rr_world s)"
  by (simp add: run_inv_def Let_def)

lemma run_invI:
  assumes "plain (rr_world s)" "length (rr_sizes s) = length F" "\<forall>pk \<in> set (rr_packs s). pk_ok env packs F matched pk"
    and "\<forall>x \<in> set (rr_writes s). write_ok (key_data env packs) F x"
    and "\<forall>x \<in> set (rr_ready s). write_ok (key_data env packs) F x \<and> rr_sizes s ! fst x = 0"
    and "\<forall>i < length F. file_state (key_data env packs) F s i"
    and "\<And>i st k. seg_of (key_data env packs) F i st k \<Longrightarrow> handled (key_data env packs) F s i st k"
    and "\<And>i st k. matched i st k \<Longrightarrow> placed_in (key_data env packs) F (rr_world s) i st k"
    and "\<forall>q. q \<notin> place ` fst ` set F \<longrightarrow> content (rr_world s) q = content0 q"
  shows "run_inv env packs F matched content0 s"
  unfolding run_inv_def Let_def using assms by blast

text \<open>What is assumed of the files: different paths, lengths below \<open>2 ^ 64\<close>, and matches only of their own segments.\<close>

definition files_ok :: "(RestoreKey \<Rightarrow> bytes) \<Rightarrow> PlannedFile list \<Rightarrow> (nat \<Rightarrow> nat \<Rightarrow> RestoreKey \<Rightarrow> bool) \<Rightarrow> bool" where
  "files_ok D F matched \<longleftrightarrow> distinct (map (place \<circ> fst) F) \<and> (\<forall>f \<in> set F. total D (snd f) < 2 ^ 64) \<and>
     (\<forall>i st k. matched i st k \<longrightarrow> seg_of D F i st k)"

lemma files_ok_matched: "files_ok D F matched \<Longrightarrow> matched i st k \<Longrightarrow> seg_of D F i st k"
  unfolding files_ok_def by blast

lemma files_ok_other: "files_ok D F matched \<Longrightarrow> i < length F \<Longrightarrow> j < length F \<Longrightarrow> place (fst (F ! i)) = place (fst (F ! j)) \<Longrightarrow> i = j"
  unfolding files_ok_def using nth_eq_iff_index_eq [of "map (place \<circ> fst) F" i j] by simp

lemma run_inv_read:
  assumes "run_inv env packs F matched content0 s" "re_dest env = ws" "pk \<in> set (rr_packs s)"
    and "pack_writes env (map fst F) pk (rr_world s) = Inr res"
  shows "run_inv env packs F matched content0 (s\<lparr>rr_packs := remove1 pk (rr_packs s), rr_writes := rr_writes s @ res\<rparr>)"
proof -
  let ?D = "key_data env packs" and ?s = "s\<lparr>rr_packs := remove1 pk (rr_packs s), rr_writes := rr_writes s @ res\<rparr>"
  have pk: "pk_ok env packs F matched pk" "\<forall>i st k. matched i st k \<longrightarrow> placed_in ?D F (rr_world s) i st k"
    using assms(1,3) run_inv_matched [OF assms(1)] by (simp add: run_inv_def Let_def, blast)
  have res: "res = to_writes ?D pk" using pack_writes_ok [OF pk(1) assms(2) pk(2) assms(4) run_inv_plain [OF assms(1)]] .
  have "handled ?D F ?s i st k" if "handled ?D F s i st k" for i st k
    using that unfolding handled_def res
    by (auto simp: in_set_remove1) (metis in_set_remove1)
  moreover have "\<forall>x \<in> set res. write_ok ?D F x" using to_writes_ok [OF pk(1)] res by simp
  moreover have "\<forall>x \<in> set (remove1 pk (rr_packs s)). x \<in> set (rr_packs s)" using set_remove1_subset by fastforce
  ultimately show ?thesis using run_inv_handled [OF assms(1)] pk(2)
    by (intro run_invI) (use assms(1) in \<open>auto simp: run_inv_def Let_def file_state_def\<close>)
qed

lemma allocate_spec:
  assumes "allocate ws names i sizes w = (True, sizes', w')" "plain w"
  shows "sizes ! i = 0 \<and> sizes' = sizes \<and> w' = w \<or>
    sizes ! i \<noteq> 0 \<and> sizes' = sizes[i := 0] \<and> plain w' \<and>
    content w' = (content w)(place (names ! i) \<mapsto> resize (unat (sizes ! i)) (case content w (place (names ! i)) of None \<Rightarrow> [] | Some c \<Rightarrow> c))"
proof (cases "sizes ! i = 0")
  case False
  then have pos: "0 < sizes ! i" by (simp add: word_gt_0)
  obtain w1 where w1: "ws_create_dir_all ws (path_parent (names ! i)) w = (True, w1)"
    "ws_set_length ws (names ! i) (sizes ! i) w1 = (True, w')" "sizes' = sizes[i := 0]"
    using assms pos by (auto simp: allocate_def split: prod.splits if_splits)
  have "plain w1" "content w1 = content w" using create_dir_all [OF w1(1) assms(2)] by simp_all
  then show ?thesis using set_length [OF w1(2)] w1(3) False by simp
qed (use assms in \<open>simp add: allocate_def\<close>)

lemma run_inv_alloc:
  assumes inv: "run_inv env packs F matched content0 s" and F: "files_ok (key_data env packs) F matched"
    and x: "(i, st, d) \<in> set (rr_writes s)" and al: "allocate ws (map fst F) i (rr_sizes s) (rr_world s) = (True, sizes, w)"
  shows "run_inv env packs F matched content0 (s\<lparr>rr_world := w, rr_sizes := sizes, rr_writes := remove1 (i, st, d) (rr_writes s),
    rr_ready := (i, st, d) # rr_ready s\<rparr>)"
proof -
  let ?D = "key_data env packs"
  let ?s = "s\<lparr>rr_world := w, rr_sizes := sizes, rr_writes := remove1 (i, st, d) (rr_writes s), rr_ready := (i, st, d) # rr_ready s\<rparr>"
  have xok: "write_ok ?D F (i, st, d)" using inv x by (simp add: run_inv_def Let_def)
  then have i: "i < length F" by (auto simp: write_ok_def seg_of_def)
  have len: "length (rr_sizes s) = length F" using inv by (simp add: run_inv_def Let_def)
  note sp = allocate_spec [OF al run_inv_plain [OF inv]]
  have plw: "plain w" using sp run_inv_plain [OF inv] by auto
  have tot: "total ?D (snd (F ! j)) < 2 ^ 64" if "j < length F" for j using F that by (simp add: files_ok_def)
  have fs: "file_state ?D F s i" using inv i by (simp add: run_inv_def Let_def)
  have z: "sizes ! i = 0" "\<And>j. j \<noteq> i \<Longrightarrow> sizes ! j = rr_sizes s ! j" "length sizes = length F" using sp i len by auto
  have other: "content w q = content (rr_world s) q" if "q \<noteq> place (fst (F ! i))" for q using sp that i by auto
  have this_: "content w (place (fst (F ! i))) = Some (resize (total ?D (snd (F ! i))) (case content (rr_world s) (place (fst (F ! i))) of None \<Rightarrow> [] | Some c \<Rightarrow> c))
      \<or> content w (place (fst (F ! i))) = content (rr_world s) (place (fst (F ! i))) \<and> rr_sizes s ! i = 0"
    using sp fs tot [OF i] i by (auto simp: file_state_def unat_u64_of_nat)
  have pl: "placed_in ?D F w j st' k" if p: "placed_in ?D F (rr_world s) j st' k" and sg: "seg_of ?D F j st' k" for j st' k
  proof (cases "j = i")
    case True
    obtain c where c: "content (rr_world s) (place (fst (F ! i))) = Some c" "length c = total ?D (snd (F ! i))" "placed ?D c st' k"
      using p True by (auto simp: placed_in_def)
    have "content w (place (fst (F ! i))) = Some c" using this_ c(1) by (auto simp flip: c(2))
    then show ?thesis using c True by (auto simp: placed_in_def)
  next
    case False
    then have "place (fst (F ! j)) \<noteq> place (fst (F ! i))" using files_ok_other [OF F _ i] sg by (auto simp: seg_of_def)
    then show ?thesis using p other by (simp add: placed_in_def)
  qed
  have st: "\<forall>j < length F. file_state ?D F ?s j"
  proof (intro allI impI)
    fix j assume j: "j < length F"
    show "file_state ?D F ?s j"
    proof (cases "j = i")
      case True
      have "\<exists>c. content w (place (fst (F ! i))) = Some c \<and> length c = total ?D (snd (F ! i))"
        using this_ fs by (auto simp: file_state_def)
      then show ?thesis using True z(1) by (simp add: file_state_def)
    next
      case False
      then have "place (fst (F ! j)) \<noteq> place (fst (F ! i))" using files_ok_other [OF F j i] by blast
      moreover have "file_state ?D F s j" using inv j by (simp add: run_inv_def Let_def)
      ultimately show ?thesis using z(2) [OF False] other by (simp add: file_state_def)
    qed
  qed
  have h: "handled ?D F ?s j st' k" if "seg_of ?D F j st' k" for j st' k
  proof -
    have "handled ?D F s j st' k" using run_inv_handled [OF inv that] .
    then show ?thesis using pl [OF _ that] unfolding handled_def by (auto simp: in_set_remove1)
  qed
  have rd: "\<forall>x \<in> set (rr_ready ?s). write_ok ?D F x \<and> rr_sizes ?s ! fst x = 0"
  proof -
    have "sizes ! j = 0" if "rr_sizes s ! j = 0" for j using z(1,2) that by (cases "j = i") simp_all
    moreover have "\<forall>x \<in> set (rr_ready s). write_ok ?D F x \<and> rr_sizes s ! fst x = 0" using inv by (simp add: run_inv_def Let_def)
    ultimately show ?thesis using xok z(1) by auto
  qed
  have wr: "\<forall>x \<in> set (remove1 (i, st, d) (rr_writes s)). write_ok ?D F x"
    using inv set_remove1_subset [of "(i, st, d)" "rr_writes s"] by (auto simp: run_inv_def Let_def)
  have m: "placed_in ?D F w j st' k" if "matched j st' k" for j st' k
    using pl [OF run_inv_matched [OF inv that] files_ok_matched [OF F that]] .
  have q: "\<forall>q. q \<notin> place ` fst ` set F \<longrightarrow> content w q = content0 q"
  proof (intro allI impI)
    fix q assume q: "q \<notin> place ` fst ` set F"
    then have "q \<noteq> place (fst (F ! i))" using i by auto
    then show "content w q = content0 q" using other inv q by (simp add: run_inv_def Let_def)
  qed
  show ?thesis by (rule run_invI) (use inv st h rd wr m q z(3) plw in \<open>simp_all add: run_inv_def Let_def\<close>)
qed

lemma run_inv_write:
  assumes inv: "run_inv env packs F matched content0 s" and F: "files_ok (key_data env packs) F matched"
    and x: "(i, st, d) \<in> set (rr_ready s)" and wr: "ws_write_at ws (map fst F ! i) st d (rr_world s) = (True, w)"
  shows "run_inv env packs F matched content0 (s\<lparr>rr_world := w, rr_ready := remove1 (i, st, d) (rr_ready s)\<rparr>)"
proof -
  let ?D = "key_data env packs" and ?s = "s\<lparr>rr_world := w, rr_ready := remove1 (i, st, d) (rr_ready s)\<rparr>"
  obtain k where k: "seg_of ?D F i (unat st) k" "d = ?D k" and z: "rr_sizes s ! i = 0"
    using inv x by (auto simp: run_inv_def Let_def write_ok_def)
  then have i: "i < length F" "(unat st, k) \<in> set (segs ?D 0 (snd (F ! i)))" by (simp_all add: seg_of_def)
  obtain c where c: "content (rr_world s) (place (fst (F ! i))) = Some c" "length c = total ?D (snd (F ! i))"
    using inv i(1) z by (auto simp: run_inv_def Let_def file_state_def)
  have b: "unat st + length (?D k) \<le> length c" using segs_bound [OF i(2)] c(2) by simp
  have w: "content w = (content (rr_world s))(place (fst (F ! i)) \<mapsto> overwrite (unat st) (?D k) c)" and plw: "plain w"
    using write_at [OF wr run_inv_plain [OF inv]] c(1) b i(1) k(2) by simp_all
  have pl: "placed_in ?D F w j st' k'" if p: "placed_in ?D F (rr_world s) j st' k'" and sg: "seg_of ?D F j st' k'" for j st' k'
  proof (cases "j = i")
    case True
    then have "placed ?D (overwrite (unat st) (?D k) c) st' k'"
      using p sg placed_overwrite [of ?D c st' k' "snd (F ! i)" "unat st" k] i(2) c by (simp add: placed_in_def seg_of_def)
    then show ?thesis using True w c(2) b by (simp add: placed_in_def)
  next
    case False
    then have "place (fst (F ! j)) \<noteq> place (fst (F ! i))" using files_ok_other [OF F _ i(1)] sg by (auto simp: seg_of_def)
    then show ?thesis using p w by (simp add: placed_in_def)
  qed
  have mine: "placed_in ?D F w i (unat st) k" using w c(2) b placed_overwrite_same [of "unat st" ?D k c] by (simp add: placed_in_def)
  have st64: "n = unat st" if "(word_of_nat n :: u64) = st" "seg_of ?D F i n k'" for n k'
  proof -
    have "n + length (?D k') \<le> total ?D (snd (F ! i))" using segs_bound [of n k'] that(2) by (force simp: seg_of_def)
    moreover have "total ?D (snd (F ! i)) < 2 ^ 64" using F i(1) by (simp add: files_ok_def)
    ultimately have "unat (word_of_nat n :: u64) = n" by (intro unat_u64_of_nat) simp
    then show ?thesis using that(1) by simp
  qed
  have h: "handled ?D F ?s j st' k'" if sg: "seg_of ?D F j st' k'" for j st' k'
  proof (cases "(j, word_of_nat st', ?D k') = (i, st, d)")
    case True
    then have "st' = unat st" using st64 sg by auto
    then have "placed_in ?D F w j st' k'" using mine True k(2) by (simp add: placed_in_def placed_def)
    then show ?thesis by (simp add: handled_def)
  next
    case False
    then show ?thesis using run_inv_handled [OF inv sg] pl [OF _ sg] unfolding handled_def by (auto simp: in_set_remove1)
  qed
  have fs: "\<forall>j < length F. file_state ?D F ?s j"
  proof (intro allI impI)
    fix j assume j: "j < length F"
    have "file_state ?D F s j" using inv j by (simp add: run_inv_def Let_def)
    then show "file_state ?D F ?s j" using w c b by (auto simp: file_state_def)
  qed
  have m: "placed_in ?D F w j st' k'" if "matched j st' k'" for j st' k'
    using pl [OF run_inv_matched [OF inv that] files_ok_matched [OF F that]] .
  have rd: "\<forall>x \<in> set (remove1 (i, st, d) (rr_ready s)). write_ok ?D F x \<and> rr_sizes s ! fst x = 0"
    using inv set_remove1_subset [of "(i, st, d)" "rr_ready s"] by (auto simp: run_inv_def Let_def)
  have q: "\<forall>q. q \<notin> place ` fst ` set F \<longrightarrow> content w q = content0 q"
    using inv w i(1) by (auto simp: run_inv_def Let_def)
  show ?thesis by (rule run_invI) (use inv fs h rd m q plw in \<open>simp_all add: run_inv_def Let_def\<close>)
qed

lemma run_inv_steps:
  assumes "restore_steps env (map fst F) s s'" "run_inv env packs F matched content0 s" "re_dest env = ws"
    and "files_ok (key_data env packs) F matched"
  shows "run_inv env packs F matched content0 s'"
  using assms(1,2)
proof induction
  case (rs_trans s s' s'')
  from rs_trans.hyps(2) show ?case
  proof cases
    case (rs_read pk res)
    then show ?thesis using run_inv_read [OF rs_trans.IH [OF rs_trans.prems] assms(3)] by simp
  next
    case (rs_alloc i st d sizes w)
    then show ?thesis using run_inv_alloc [OF rs_trans.IH [OF rs_trans.prems] assms(4)] assms(3) by simp
  next
    case (rs_write i st d w)
    then show ?thesis using run_inv_write [OF rs_trans.IH [OF rs_trans.prems] assms(4)] assms(3) by simp
  qed
qed

lemma run_inv_done:
  assumes "run_inv env packs F matched content0 s" "rr_done s" "files_ok (key_data env packs) F matched" "i < length F"
    and empty: "total (key_data env packs) (snd (F ! i)) = 0 \<Longrightarrow> rr_sizes s ! i = 0"
  shows "content (rr_world s) (place (fst (F ! i))) = Some (concat (map (key_data env packs) (snd (F ! i))))"
proof -
  let ?D = "key_data env packs"
  have pl: "placed_in ?D F (rr_world s) i st k" if "(st, k) \<in> set (segs ?D 0 (snd (F ! i)))" for st k
    using run_inv_handled [OF assms(1), of i st k] assms(2,4) that by (auto simp: seg_of_def handled_def rr_done_def)
  obtain c where c: "content (rr_world s) (place (fst (F ! i))) = Some c" "length c = total ?D (snd (F ! i))"
  proof (cases "snd (F ! i)")
    case Nil
    then have "file_state ?D F s i" "rr_sizes s ! i = 0" using assms(1,4) empty by (simp_all add: run_inv_def Let_def)
    then show ?thesis using that by (auto simp: file_state_def)
  next
    case (Cons k ks)
    then have "(0, k) \<in> set (segs ?D 0 (snd (F ! i)))" by simp
    from pl [OF this] show ?thesis using that by (auto simp: placed_in_def)
  qed
  have "\<forall>(st, k) \<in> set (segs ?D 0 (snd (F ! i))). placed ?D c st k" using pl c by (auto simp: placed_in_def)
  from segs_placed_concat [OF this] c show ?thesis by simp
qed

end

section \<open>What the plan says\<close>

definition locs :: "RestoreInfo \<Rightarrow> (RestoreKey \<times> FileLocation) set" where
  "locs r = {(k, fl). \<exists>fls. (k, fls) \<in> set r \<and> fl \<in> set fls}"

lemma locs_simps [simp]: "locs [] = {}" "locs ((k, fls) # r) = {k} \<times> set fls \<union> locs r"
  by (auto simp: locs_def)

text \<open>No two entries of the index lie at the same place with different lengths.\<close>

definition canon :: "RestoreKey set \<Rightarrow> bool" where
  "canon K \<longleftrightarrow> (\<forall>k \<in> K. \<forall>k' \<in> K. key_same k k' \<longrightarrow> k = k')"

lemma ri_push_keys: "fst ` set (ri_push key fl r) \<subseteq> insert key (fst ` set r)"
  by (induction key fl r rule: ri_push.induct) auto

lemma locs_push: "canon K \<Longrightarrow> insert key (fst ` set r) \<subseteq> K \<Longrightarrow> locs (ri_push key fl r) = insert (key, fl) (locs r)"
proof (induction key fl r rule: ri_push.induct)
  case (2 key fl k fls r)
  then show ?case by (auto simp: canon_def)
qed simp

definition locs_ok ::
    "'w RestoreEnv \<Rightarrow> (PackId \<Rightarrow> bytes) \<Rightarrow> RestoreKey set \<Rightarrow> RestoreInfo \<Rightarrow> (FileLocation \<Rightarrow> RestoreKey \<Rightarrow> bool) \<Rightarrow> bool" where
  "locs_ok env packs K r P \<longleftrightarrow> fst ` set r \<subseteq> K \<and> (\<forall>k \<in> K. key_ok env packs k) \<and> (\<forall>(k, fl) \<in> locs r. P fl k)"

context write_source
begin

definition loc_ok :: "(RestoreKey \<Rightarrow> bytes) \<Rightarrow> PlannedFile list \<Rightarrow> 'w \<Rightarrow> FileLocation \<Rightarrow> RestoreKey \<Rightarrow> bool" where
  "loc_ok D F w fl k \<longleftrightarrow> seg_of D F (fl_file_idx fl) (unat (fl_file_start fl)) k \<and>
     (fl_matches fl \<longrightarrow> placed_in D F w (fl_file_idx fl) (unat (fl_file_start fl)) k)"

text \<open>The plan for the files \<open>F\<close>, made when the destination was in state \<open>w\<close>.\<close>

definition plan_ok ::
    "'w RestoreEnv \<Rightarrow> (PackId \<Rightarrow> bytes) \<Rightarrow> RestoreKey set \<Rightarrow> PlannedFile list \<Rightarrow> 'w \<Rightarrow> Path list \<Rightarrow> u64 list \<Rightarrow> RestoreInfo \<Rightarrow> bool" where
  "plan_ok env packs K F w names file_lengths r \<longleftrightarrow>
     (let D = key_data env packs in
      names = map fst F \<and> file_lengths = map (\<lambda>f. word_of_nat (total D (snd f))) F \<and>
      locs_ok env packs K r (loc_ok D F w) \<and>
      (\<forall>i st k. seg_of D F i st k \<longrightarrow> placed_in D F w i st k \<or> (k, \<lparr>fl_file_idx = i, fl_file_start = word_of_nat st, fl_matches = False\<rparr>) \<in> locs r))"

text \<open>From the plan to the packs.\<close>

lemma coalesce_all_spec:
  assumes "\<And>x y z. f x y = Inr z \<Longrightarrow> P x \<Longrightarrow> P y \<Longrightarrow> P z \<and> g z = g x @ g y" "\<And>x y x' y'. f x y = Inl (x', y') \<Longrightarrow> x' = x \<and> y' = y"
  shows "\<forall>x \<in> set xs. P x \<Longrightarrow> (\<forall>x \<in> set (coalesce_all f xs). P x) \<and> concat (map g (coalesce_all f xs)) = concat (map g xs)"
proof (induction "length xs" arbitrary: xs)
  case (Suc n)
  show ?case
  proof (cases xs)
    case (Cons x xs')
    show ?thesis
    proof (cases xs')
      case Nil
      then show ?thesis using Suc.prems Cons by simp
    next
      case c2: (Cons y ys)
      show ?thesis
      proof (cases "f x y")
        case (Inr z)
        then have "P z \<and> g z = g x @ g y" using assms(1) [OF Inr] Suc.prems Cons c2 by simp
        then show ?thesis using Suc.hyps(1) [of "z # ys"] Suc.hyps(2) Suc.prems Cons c2 Inr by simp
      next
        case (Inl p)
        then have "f x y = Inl (x, y)" using assms(2) [of x y "fst p" "snd p"] by (cases p) simp
        then show ?thesis using Suc.hyps(1) [of "y # ys"] Suc.hyps(2) Suc.prems Cons c2 by simp
      qed
    qed
  qed (use Suc in simp)
qed simp

lemma PackInfo_coalesce_ok:
  assumes "PackInfo_coalesce x y = Inr z" "pk_ok env packs F matched x" "pk_ok env packs F matched y"
  shows "pk_ok env packs F matched z \<and> to_writes D z = to_writes D x @ to_writes D y"
proof -
  have z: "pi_pack_id x = pi_pack_id y" "pi_from_file x = None" "can_coalesce (pi_locations x) (pi_locations y)"
    "z = \<lparr>pi_pack_id = pi_pack_id y, pi_from_file = None, pi_locations = bls_append (pi_locations x) (pi_locations y)\<rparr>"
    using assms(1) by (auto simp: PackInfo_coalesce_def split: if_splits)
  note ap = bls_append_wf [OF _ _ z(3)]
  have b: "bls_blobs (bls_append (pi_locations x) (pi_locations y)) = bls_blobs (pi_locations x) @ bls_blobs (pi_locations y)"
    by (simp add: bls_append_def)
  show ?thesis using assms(2,3) ap z by (auto simp: pk_ok_def b to_writes_def)
qed

lemma pack_info_ok:
  assumes "locs_ok env packs K r (loc_ok (key_data env packs) F w)" "(k, fls) \<in> set r"
  shows "pk_ok env packs F (\<lambda>i st k. seg_of (key_data env packs) F i st k \<and> placed_in (key_data env packs) F w i st k) (pack_info (k, fls))"
proof -
  obtain pid bl where k: "k = (pid, bl)" by fastforce
  have ko: "key_ok env packs k" using assms by (auto simp: locs_ok_def)
  have fl: "loc_ok (key_data env packs) F w fl k" if "fl \<in> set fls" for fl
    using assms that unfolding locs_ok_def locs_def by blast
  have "wf_bls (from_blob_location bl x)" for x :: "(nat \<times> u64) list"
    using ko by (intro wf_from_blob_location) (simp add: key_ok_def Let_def k)
  moreover have "fl_matches fl \<and> fl \<in> set fls" if "find fl_matches fls = Some fl" for fl
    using that by (auto simp: find_Some_iff)
  ultimately show ?thesis using ko fl k
    by (auto simp: pk_ok_def pack_info_def bls_end_def from_blob_location_def key_ok_def Let_def dests_ok_def loc_ok_def split: option.splits)
qed

lemma pack_infos_ok:
  assumes "locs_ok env packs K r (loc_ok (key_data env packs) F w)"
  shows "(\<forall>pk \<in> set (pack_infos r). pk_ok env packs F (\<lambda>i st k. seg_of (key_data env packs) F i st k \<and> placed_in (key_data env packs) F w i st k) pk) \<and>
    concat (map (to_writes D) (pack_infos r)) = concat (map (to_writes D \<circ> pack_info) r)"
proof -
  let ?P = "pk_ok env packs F (\<lambda>i st k. seg_of (key_data env packs) F i st k \<and> placed_in (key_data env packs) F w i st k)"
  have "\<forall>x \<in> set (map pack_info r). ?P x" using pack_info_ok [OF assms] by auto
  moreover have "x' = x \<and> y' = y" if "PackInfo_coalesce x y = Inl (x', y')" for x y x' y'
    using that by (simp add: PackInfo_coalesce_def split: if_splits)
  moreover have "?P z \<and> to_writes D z = to_writes D x @ to_writes D y" if "PackInfo_coalesce x y = Inr z" "?P x" "?P y" for x y z
    using PackInfo_coalesce_ok [OF that] .
  ultimately show ?thesis unfolding pack_infos_def
    using coalesce_all_spec [of PackInfo_coalesce ?P "to_writes D" "map pack_info r"] by (simp only: map_map) blast
qed

lemma pack_infos_complete:
  assumes "locs_ok env packs K r (loc_ok (key_data env packs) F w)"
    and "(k, \<lparr>fl_file_idx = i, fl_file_start = st, fl_matches = False\<rparr>) \<in> locs r"
  shows "\<exists>pk \<in> set (pack_infos r). (i, st, D k) \<in> set (to_writes D pk)"
proof -
  obtain fls where fls: "(k, fls) \<in> set r" "\<lparr>fl_file_idx = i, fl_file_start = st, fl_matches = False\<rparr> \<in> set fls"
    using assms(2) by (auto simp: locs_def)
  then have "(i, st, D k) \<in> set (to_writes D (pack_info (k, fls)))"
    by (cases k) (force simp: to_writes_def pack_info_def from_blob_location_def)
  then have "(i, st, D k) \<in> set (concat (map (to_writes D \<circ> pack_info) r))" using fls(1) by force
  then have "(i, st, D k) \<in> set (concat (map (to_writes D) (pack_infos r)))" using pack_infos_ok [OF assms(1), of D] by (simp only:)
  then show ?thesis by auto
qed

text \<open>Creating the empty files.\<close>

lemma create_empty_spec:
  assumes "create_empty ws (p, sz) w = Inr w'" "plain w"
  shows "plain w' \<and> (sz = 0 \<and> content w' = (content w)(place p \<mapsto> []) \<or> sz \<noteq> 0 \<and> w' = w)"
proof (cases "sz = 0")
  case True
  then obtain w1 where w1: "ws_create_dir_all ws (path_parent p) w = (True, w1)" "ws_set_length ws p 0 w1 = (True, w')"
    using assms by (auto simp: create_empty_def Let_def split: prod.splits if_splits)
  have "plain w1" "content w1 = content w" using create_dir_all [OF w1(1) assms(2)] by simp_all
  then show ?thesis using set_length [OF w1(2)] True by (simp add: resize_def)
qed (use assms in \<open>simp add: create_empty_def\<close>)

lemma create_empty_all:
  "foldR (create_empty ws) fs w = Inr w' \<Longrightarrow> plain w \<Longrightarrow> plain w' \<and>
   (\<forall>q. q \<notin> place ` fst ` {f \<in> set fs. snd f = 0} \<longrightarrow> content w' q = content w q) \<and>
   (\<forall>q. q \<in> place ` fst ` {f \<in> set fs. snd f = 0} \<longrightarrow> content w' q = Some [])"
proof (induction fs arbitrary: w)
  case (Cons f fs)
  obtain w1 where w1: "create_empty ws f w = Inr w1" "foldR (create_empty ws) fs w1 = Inr w'"
    using Cons.prems by (auto simp: result_simps)
  have f: "plain w1" "snd f = 0 \<and> content w1 = (content w)(place (fst f) \<mapsto> []) \<or> snd f \<noteq> 0 \<and> w1 = w"
    using create_empty_spec [of "fst f" "snd f" w w1] w1(1) Cons.prems(2) by simp_all
  show ?case
  proof (cases "snd f = 0")
    case True
    then have "{x \<in> set (f # fs). snd x = 0} = insert f {x \<in> set fs. snd x = 0}" by auto
    then show ?thesis using f True Cons.IH [OF w1(2) f(1)] by (cases "place (fst f) \<in> place ` fst ` {x \<in> set fs. snd x = 0}") auto
  next
    case False
    then have "{x \<in> set (f # fs). snd x = 0} = {x \<in> set fs. snd x = 0}" by auto
    then show ?thesis using f False Cons.IH [OF w1(2) f(1)] by simp
  qed
qed simp

end

section \<open>A restore of contents\<close>

context write_source
begin

lemma placed_in_cong: "content w (place (fst (F ! i))) = content w' (place (fst (F ! i))) \<Longrightarrow> placed_in D F w i st k = placed_in D F w' i st k"
  by (simp add: placed_in_def)

lemma start_inv:
  assumes plan: "plan_ok env packs K F w names lens r" and F: "distinct (map (place \<circ> fst) F)" "\<forall>f \<in> set F. total (key_data env packs) (snd f) < 2 ^ 64"
    and w1: "plain w1" "content w1 = content w" and w0: "foldR (create_empty ws) (zip names lens) w1 = Inr w0"
  shows "run_inv env packs F (\<lambda>i st k. seg_of (key_data env packs) F i st k \<and> placed_in (key_data env packs) F w i st k) (content w1)
      \<lparr>rr_world = w0, rr_sizes = lens, rr_packs = pack_infos r, rr_writes = [], rr_ready = []\<rparr>"
proof -
  let ?D = "key_data env packs"
  have p: "names = map fst F" "lens = map (\<lambda>f. word_of_nat (total ?D (snd f))) F" "locs_ok env packs K r (loc_ok ?D F w)"
    using plan by (simp_all add: plan_ok_def Let_def)
  have zip: "zip names lens = map (\<lambda>f. (fst f, word_of_nat (total ?D (snd f)))) F" by (simp add: p zip_map_map zip_same_conv_map)
  have z: "(word_of_nat (total ?D (snd f)) :: u64) = 0 \<longleftrightarrow> total ?D (snd f) = 0" if "f \<in> set F" for f
    using F(2) that by (simp only: word_unat_eq_iff unat_u64_of_nat unat_0)
  have e: "fst ` {x \<in> set (zip names lens). snd x = 0} = fst ` {f \<in> set F. total ?D (snd f) = 0}"
    using z by (force simp: zip)
  note ce = create_empty_all [OF w0 w1(1), unfolded e]
  have inj: "f = f'" if "f \<in> set F" "f' \<in> set F" "place (fst f) = place (fst f')" for f f'
    using F(1) that inj_onD [of "place \<circ> fst" "set F" f f'] by (simp add: distinct_map)
  have c0: "content w0 (place (fst f)) = (if total ?D (snd f) = 0 then Some [] else content w1 (place (fst f)))" if "f \<in> set F" for f
  proof (cases "total ?D (snd f) = 0")
    case True
    then show ?thesis using ce that by simp
  next
    case False
    then have "place (fst f) \<notin> place ` fst ` {f \<in> set F. total ?D (snd f) = 0}" using inj [OF that] by force
    then show ?thesis using ce False by simp
  qed
  have pl: "placed_in ?D F w0 i st k" if "seg_of ?D F i st k" "placed_in ?D F w i st k" for i st k
  proof (cases "total ?D (snd (F ! i)) = 0")
    case True
    then have "content w0 (place (fst (F ! i))) = Some []" using c0 [of "F ! i"] that(1) by (simp add: seg_of_def)
    then show ?thesis using True that(2) by (auto simp: placed_in_def)
  next
    case False
    then have "content w0 (place (fst (F ! i))) = content w (place (fst (F ! i)))" using c0 [of "F ! i"] that(1) w1(2) by (simp add: seg_of_def)
    then show ?thesis using that(2) by (simp add: placed_in_def)
  qed
  have fs: "file_state ?D F \<lparr>rr_world = w0, rr_sizes = lens, rr_packs = pack_infos r, rr_writes = [], rr_ready = []\<rparr> i" if "i < length F" for i
    using c0 [of "F ! i"] z [of "F ! i"] that by (auto simp: file_state_def p(2))
  have h: "handled ?D F \<lparr>rr_world = w0, rr_sizes = lens, rr_packs = pack_infos r, rr_writes = [], rr_ready = []\<rparr> i st k"
    if "seg_of ?D F i st k" for i st k
  proof (cases "placed_in ?D F w i st k")
    case True
    then show ?thesis using pl [OF that] by (simp add: handled_def)
  next
    case False
    then have "(k, \<lparr>fl_file_idx = i, fl_file_start = word_of_nat st, fl_matches = False\<rparr>) \<in> locs r"
      using plan that unfolding plan_ok_def Let_def by blast
    then show ?thesis using pack_infos_complete [OF p(3)] by (auto simp: handled_def)
  qed
  have q: "content w0 q = content w1 q" if "q \<notin> place ` fst ` set F" for q
  proof -
    have "q \<notin> place ` fst ` {f \<in> set F. total ?D (snd f) = 0}" using that by blast
    then show ?thesis using ce by blast
  qed
  show ?thesis
    by (rule run_invI) (use ce fs h pl q pack_infos_ok [OF p(3), of ?D] p(2) in \<open>auto\<close>)
qed

lemma restore_contents_random:
  assumes plan: "plan_ok env packs K F w names lens r" and F: "distinct (map (place \<circ> fst) F)" "\<forall>f \<in> set F. total (key_data env packs) (snd f) < 2 ^ 64"
    and w1: "plain w1" "content w1 = content w" and ws: "re_dest env = ws" "ws_can_random_write ws"
    and run: "restore_contents env names lens r w1 (Inr w2)"
  shows "(\<forall>f \<in> set F. content w2 (place (fst f)) = Some (concat (map (key_data env packs) (snd f)))) \<and>
    (\<forall>q. q \<notin> place ` fst ` set F \<longrightarrow> content w2 q = content w1 q)"
  using run
proof cases
  case (rc_random w0 s)
  let ?D = "key_data env packs"
  let ?m = "\<lambda>i st k. seg_of ?D F i st k \<and> placed_in ?D F w i st k"
  have fo: "files_ok ?D F ?m" using F by (simp add: files_ok_def)
  have names: "names = map fst F" "lens = map (\<lambda>f. word_of_nat (total ?D (snd f))) F" using plan by (simp_all add: plan_ok_def Let_def)
  have w0: "foldR (create_empty ws) (zip names lens) w1 = Inr w0" using rc_random(2) ws(1) by simp
  note inv = run_inv_steps [OF rc_random(4) [unfolded names(1)] start_inv [OF plan F w1 w0, unfolded names(1)] ws(1) fo]
  have z: "rr_sizes s ! i = 0" if "i < length F" "total ?D (snd (F ! i)) = 0" for i
    using inv that by (auto simp: run_inv_def Let_def file_state_def)
  have "content (rr_world s) (place (fst (F ! i))) = Some (concat (map ?D (snd (F ! i))))" if "i < length F" for i
    using run_inv_done [OF inv rc_random(5) fo that] z [OF that] by simp
  then have "\<forall>f \<in> set F. content (rr_world s) (place (fst f)) = Some (concat (map ?D (snd f)))" by (metis in_set_conv_nth)
  then show ?thesis using inv rc_random(1) by (simp add: run_inv_def Let_def)
qed (use ws in simp_all)

end

end
