(* ===== verification/RestorePlans.thy ===== *)
theory RestorePlans
  imports RestoreProps
begin

text \<open>
  The plan a restore makes (crates/core/src/commands/restore.rs, \<^verbatim>\<open>add_file\<close> and \<^verbatim>\<open>collect_and_prepare\<close>): every
  file of the snapshot is either left alone or planned, and the plan accounts for each of its blobs.
\<close>

section \<open>Adding files to the plan\<close>

text \<open>The index leads to intact blobs.\<close>

definition index_ok ::
    "'w RestoreEnv \<Rightarrow> (PackId \<Rightarrow> bytes) \<Rightarrow> RestoreKey set \<Rightarrow> (bytes \<Rightarrow> Id) \<Rightarrow> (DataId \<Rightarrow> IndexEntry rustic_result) \<Rightarrow> bool" where
  "index_ok env packs K hash get_entry \<longleftrightarrow> canon K \<and> (\<forall>k \<in> K. key_ok env packs k) \<and>
     (\<forall>i ie. get_entry i = Inr ie \<longrightarrow> (ie_pack ie, ie_location ie) \<in> K \<and> hash (key_data env packs (ie_pack ie, ie_location ie)) = i)"

definition entry_key :: "IndexEntry \<Rightarrow> RestoreKey" where
  "entry_key ie = (ie_pack ie, ie_location ie)"

context write_source
begin

text \<open>No piece of a file in the destination has the hash of a blob without being the blob.\<close>

definition no_clash :: "(RestoreKey \<Rightarrow> bytes) \<Rightarrow> (bytes \<Rightarrow> Id) \<Rightarrow> RestoreKey set \<Rightarrow> 'w \<Rightarrow> bool" where
  "no_clash D hash K w \<longleftrightarrow> (\<forall>p c a n k. content w p = Some c \<longrightarrow> k \<in> K \<longrightarrow> hash (take n (drop a c)) = hash (D k) \<longrightarrow> take n (drop a c) = D k)"

definition cur_placed :: "(RestoreKey \<Rightarrow> bytes) \<Rightarrow> 'w \<Rightarrow> Path \<Rightarrow> nat \<Rightarrow> nat \<Rightarrow> RestoreKey \<Rightarrow> bool" where
  "cur_placed D w name sz st k \<longleftrightarrow> (\<exists>c. content w (place name) = Some c \<and> length c = sz \<and> placed D c st k)"

definition af_inv ::
    "(RestoreKey \<Rightarrow> bytes) \<Rightarrow> RestoreKey set \<Rightarrow> PlannedFile list \<Rightarrow> 'w \<Rightarrow> Path \<Rightarrow> nat \<Rightarrow> RestoreKey list \<Rightarrow> AddFile \<Rightarrow> bool" where
  "af_inv D K F w name sz ks s \<longleftrightarrow>
     fst ` set (af_r s) \<subseteq> K \<and>
     (\<forall>k fl. (k, fl) \<in> locs (af_r s) \<longrightarrow> (fl_file_idx fl < length F \<and> loc_ok D F w fl k) \<or>
        (fl_file_idx fl = length F \<and> (unat (fl_file_start fl), k) \<in> set (segs D 0 ks) \<and>
         (fl_matches fl \<longrightarrow> cur_placed D w name sz (unat (fl_file_start fl)) k))) \<and>
     (\<forall>i st k. seg_of D F i st k \<longrightarrow> placed_in D F w i st k \<or>
        (k, \<lparr>fl_file_idx = i, fl_file_start = word_of_nat st, fl_matches = False\<rparr>) \<in> locs (af_r s)) \<and>
     (\<forall>st k. (st, k) \<in> set (segs D 0 ks) \<longrightarrow> cur_placed D w name sz st k \<or>
        (k, \<lparr>fl_file_idx = length F, fl_file_start = word_of_nat st, fl_matches = False\<rparr>) \<in> locs (af_r s)) \<and>
     af_pos s = word_of_nat (total D ks) \<and>
     (\<forall>rd. af_open s = Some rd \<longrightarrow> reader_ok rd \<and>
        (\<exists>c. content w (place name) = Some c \<and> length c = sz \<and> reader_bytes rd = drop (total D ks) c))"

lemma af_inv_push:
  assumes inv: "af_inv D K F w name sz ks s" and K: "canon K" "k \<in> K" and small: "total D (ks @ [k]) < 2 ^ 64"
    and s': "af_r s' = ri_push k \<lparr>fl_file_idx = length F, fl_file_start = af_pos s, fl_matches = m\<rparr> (af_r s)"
      "af_pos s' = af_pos s + word_of_nat (length (D k))"
    and m: "m \<Longrightarrow> cur_placed D w name sz (total D ks) k"
    and rd: "\<And>rd. af_open s' = Some rd \<Longrightarrow> reader_ok rd \<and>
        (\<exists>c. content w (place name) = Some c \<and> length c = sz \<and> reader_bytes rd = drop (total D (ks @ [k])) c)"
  shows "af_inv D K F w name sz (ks @ [k]) s'"
proof -
  have keys: "insert k (fst ` set (af_r s)) \<subseteq> K" using inv K(2) by (simp add: af_inv_def)
  have pos: "af_pos s = word_of_nat (total D ks)" using inv by (simp add: af_inv_def)
  have u: "unat (word_of_nat (total D ks) :: u64) = total D ks" using small by (intro unat_u64_of_nat) simp
  have l: "locs (af_r s') = insert (k, \<lparr>fl_file_idx = length F, fl_file_start = word_of_nat (total D ks), fl_matches = m\<rparr>) (locs (af_r s))"
    using locs_push [OF K(1) keys] s'(1) pos by simp
  have sg: "set (segs D 0 (ks @ [k])) = insert (total D ks, k) (set (segs D 0 ks))" by (simp add: segs_snoc)
  have "fst ` set (af_r s') \<subseteq> K" using ri_push_keys [of k _ "af_r s"] keys s'(1) by fastforce
  note k' = this
  have old: "\<And>k fl. (k, fl) \<in> locs (af_r s) \<Longrightarrow> (fl_file_idx fl < length F \<and> loc_ok D F w fl k) \<or>
        (fl_file_idx fl = length F \<and> (unat (fl_file_start fl), k) \<in> set (segs D 0 ks) \<and>
         (fl_matches fl \<longrightarrow> cur_placed D w name sz (unat (fl_file_start fl)) k))"
    "\<And>i st k. seg_of D F i st k \<Longrightarrow> placed_in D F w i st k \<or>
        (k, \<lparr>fl_file_idx = i, fl_file_start = word_of_nat st, fl_matches = False\<rparr>) \<in> locs (af_r s)"
    "\<And>st k. (st, k) \<in> set (segs D 0 ks) \<Longrightarrow> cur_placed D w name sz st k \<or>
        (k, \<lparr>fl_file_idx = length F, fl_file_start = word_of_nat st, fl_matches = False\<rparr>) \<in> locs (af_r s)"
    using inv unfolding af_inv_def by blast+
  have "af_pos s' = word_of_nat (total D (ks @ [k]))" using s'(2) pos by simp
  moreover have "(fl_file_idx fl < length F \<and> loc_ok D F w fl k') \<or>
        (fl_file_idx fl = length F \<and> (unat (fl_file_start fl), k') \<in> set (segs D 0 (ks @ [k])) \<and>
         (fl_matches fl \<longrightarrow> cur_placed D w name sz (unat (fl_file_start fl)) k'))" if "(k', fl) \<in> locs (af_r s')" for k' fl
    using that old(1) [of k' fl] m u unfolding l sg by auto
  moreover have "placed_in D F w i st k' \<or> (k', \<lparr>fl_file_idx = i, fl_file_start = word_of_nat st, fl_matches = False\<rparr>) \<in> locs (af_r s')"
    if "seg_of D F i st k'" for i st k' using old(2) [OF that] unfolding l by blast
  moreover have "cur_placed D w name sz st k' \<or> (k', \<lparr>fl_file_idx = length F, fl_file_start = word_of_nat st, fl_matches = False\<rparr>) \<in> locs (af_r s')"
    if "(st, k') \<in> set (segs D 0 (ks @ [k]))" for st k'
    using that old(3) [of st k'] m unfolding l sg by (cases m) auto
  ultimately show ?thesis unfolding af_inv_def using k' rd by blast
qed

lemma add_blob_inv:
  assumes inv: "af_inv (key_data env packs) K F w name sz ks s" and ix: "index_ok env packs K hash get_entry"
    and nc: "no_clash (key_data env packs) hash K w" and ie: "get_entry i = Inr ie"
    and small: "total (key_data env packs) (ks @ [entry_key ie]) \<le> sz" "sz < 2 ^ 64"
    and run: "add_blob hash get_entry True (length F) i s = Inr s'"
  shows "af_inv (key_data env packs) K F w name sz (ks @ [entry_key ie]) s'"
proof -
  let ?D = "key_data env packs" and ?k = "entry_key ie" and ?len = "ucast (data_length (ie_location ie)) :: u64"
  have k: "?k \<in> K" "key_ok env packs ?k" "hash (?D ?k) = i" "canon K"
    using ix ie by (auto simp: index_ok_def entry_key_def)
  have len: "unat ?len = length (?D ?k)" using k(2) by (simp add: key_ok_def Let_def entry_key_def unat_ucast_u32_u64)
  obtain m open' where mo: "(case af_open s of None \<Rightarrow> (False, None)
      | Some r \<Rightarrow> (case blob_matches_reader hash i (unat ?len) r of (m, r) \<Rightarrow> (m, Some r))) = (m, open')"
    by fastforce
  have s': "af_r s' = ri_push ?k \<lparr>fl_file_idx = length F, fl_file_start = af_pos s, fl_matches = m\<rparr> (af_r s)"
    "af_pos s' = af_pos s + ?len" "af_open s' = open'"
    using run ie mo by (auto simp: add_blob_def Let_def entry_key_def split: if_splits)
  have rdr: "(m \<longrightarrow> cur_placed ?D w name sz (total ?D ks) ?k) \<and> (\<forall>rd. open' = Some rd \<longrightarrow> reader_ok rd \<and>
        (\<exists>c. content w (place name) = Some c \<and> length c = sz \<and> reader_bytes rd = drop (total ?D (ks @ [?k])) c))"
  proof (cases "af_open s")
    case None
    then show ?thesis using mo by simp
  next
    case (Some r)
    then obtain c where c: "reader_ok r" "content w (place name) = Some c" "length c = sz" "reader_bytes r = drop (total ?D ks) c"
      using inv by (auto simp: af_inv_def)
    obtain r' where r': "blob_matches_reader hash i (unat ?len) r = (hash (take (unat ?len) (reader_bytes r)) = i, r')" "reader_ok r'"
      "reader_bytes r' = drop (unat ?len) (reader_bytes r)" using blob_matches_reader_ok [OF c(1)] by blast
    have mm: "m = (hash (take (unat ?len) (drop (total ?D ks) c)) = i)" "open' = Some r'" using mo Some r'(1) c(4) by auto
    have "cur_placed ?D w name sz (total ?D ks) ?k" if m
    proof -
      have t: "take (unat ?len) (drop (total ?D ks) c) = ?D ?k"
        using nc c(2) k(1,3) that mm(1) unfolding no_clash_def by blast
      then have "length (?D ?k) \<le> length c - total ?D ks" by (metis length_drop length_take min.cobounded1)
      moreover have "total ?D ks \<le> length c \<or> ?D ?k = []" using t by (cases "total ?D ks \<le> length c") auto
      ultimately show ?thesis using t c len small(1) unfolding cur_placed_def placed_take by (cases "?D ?k = []") auto
    qed
    then show ?thesis using mm(2) r'(2,3) c by (auto simp: len add.commute)
  qed
  show ?thesis
    by (rule af_inv_push [OF inv k(4,1) le_less_trans [OF small] s'(1)]) (use s'(2,3) rdr in \<open>auto simp flip: len\<close>)
qed

end

text \<open>The places of the blobs of a file.\<close>

definition has_keys :: "(DataId \<Rightarrow> IndexEntry rustic_result) \<Rightarrow> DataId list \<Rightarrow> RestoreKey list \<Rightarrow> bool" where
  "has_keys get_entry ids ks \<longleftrightarrow> list_all2 (\<lambda>i k. \<exists>ie. get_entry i = Inr ie \<and> k = entry_key ie) ids ks"

definition content_of :: "Node \<Rightarrow> DataId list" where
  "content_of node = (case n_content node of None \<Rightarrow> [] | Some c \<Rightarrow> c)"

text \<open>The size of a node is the length of its contents.\<close>

definition size_ok :: "(RestoreKey \<Rightarrow> bytes) \<Rightarrow> (DataId \<Rightarrow> IndexEntry rustic_result) \<Rightarrow> Node \<Rightarrow> bool" where
  "size_ok D get_entry node \<longleftrightarrow> (\<forall>ks. has_keys get_entry (content_of node) ks \<longrightarrow> total D ks = unat (m_size (n_meta node)))"

lemma has_keys_Cons:
  "has_keys get_entry (i # ids) ks \<longleftrightarrow> (\<exists>ie ks'. ks = entry_key ie # ks' \<and> get_entry i = Inr ie \<and> has_keys get_entry ids ks')"
  unfolding has_keys_def list_all2_Cons1 by blast

lemma foldR_has_keys: "foldR (add_blob hash get_entry rw idx) ids s = Inr s' \<Longrightarrow> \<exists>ks. has_keys get_entry ids ks"
proof (induction ids arbitrary: s)
  case (Cons i ids)
  then obtain s1 where "add_blob hash get_entry rw idx i s = Inr s1" "foldR (add_blob hash get_entry rw idx) ids s1 = Inr s'"
    by (auto simp: result_simps)
  moreover from this(1) obtain ie where "get_entry i = Inr ie" by (cases "get_entry i") (auto simp: add_blob_def)
  ultimately show ?case using Cons.IH by (force simp: has_keys_Cons)
qed (simp add: has_keys_def exI [of _ "[]"])

lemma has_keys_unique: "has_keys get_entry ids ks \<Longrightarrow> has_keys get_entry ids ks' \<Longrightarrow> ks = ks'"
  by (induction ids arbitrary: ks ks') (auto simp: has_keys_Cons, simp add: has_keys_def)

lemma add_file_cases:
  assumes run: "add_file dest hash get_entry w node name ignore_mtime no_read p = Inr (res, p')"
  obtains (existing) m where "ws_stat dest name w = Some (Some m)" "m_size m = m_size (n_meta node)"
      "m_size m = 0 \<or> \<not> ignore_mtime \<and> m_mtime m = m_mtime (n_meta node)" "res = Existing"
      "p' = p \<or> p' = p\<lparr>rpl_matched_size := rpl_matched_size p + m_size (n_meta node)\<rparr>"
  | (planned) op s where "op = None \<or> (\<exists>m. ws_stat dest name w = Some (Some m) \<and> m_size m = m_size (n_meta node) \<and> m_size m \<noteq> 0 \<and>
        op \<noteq> None \<and> ws_open_read dest name w = op)"
      "foldR (add_blob hash get_entry (ws_can_random_write dest) (length (rpl_names p))) (content_of node)
         \<lparr>af_r = rpl_r p, af_open = op, af_pos = 0, af_unmatched = False, af_matched = 0, af_restore = 0, af_tentative = []\<rparr> = Inr s"
      "rpl_names p' = rpl_names p @ [name]" "rpl_r p' = af_r s" "rpl_file_lengths p' = rpl_file_lengths p @ [af_pos s]"
      "rpl_hardlinks p' = rpl_hardlinks p"
proof -
  let ?size = "m_size (n_meta node)"
  obtain st where st: "ws_stat dest name w = Some st" using run by (cases "ws_stat dest name w") (simp_all add: add_file_def result_simps)
  define ex where "ex = (case st of None \<Rightarrow> None | Some meta \<Rightarrow> if m_size meta = ?size then Some meta else None)"
  have ex: "ex = Some m \<Longrightarrow> st = Some m \<and> m_size m = ?size" for m by (auto simp: ex_def split: option.splits if_splits)
  define rest where "rest = (\<lambda>op. bindR (foldR (add_blob hash get_entry (ws_can_random_write dest) (length (rpl_names p))) (content_of node)
         \<lparr>af_r = rpl_r p, af_open = op, af_pos = 0, af_unmatched = False, af_matched = 0, af_restore = 0, af_tentative = []\<rparr>)
      (\<lambda>s. Inr (if \<not> af_unmatched s \<and> ex \<noteq> None then Verified else Modify,
               p\<lparr>rpl_names := rpl_names p @ [name], rpl_r := af_r s, rpl_restore_size := rpl_restore_size p + af_restore s,
                 rpl_matched_size := rpl_matched_size p + af_matched s, rpl_file_lengths := rpl_file_lengths p @ [af_pos s]\<rparr>)))"
  have "add_file dest hash get_entry w node name ignore_mtime no_read p = (if ?size = 0 \<and> ex \<noteq> None then Inr (Existing, p)
        else if \<not> ignore_mtime \<and> (case ex of None \<Rightarrow> False | Some meta \<Rightarrow> m_size meta = ?size \<and> m_mtime meta = m_mtime (n_meta node))
          then Inr (Existing, p\<lparr>rpl_matched_size := rpl_matched_size p + ?size\<rparr>)
        else bindR (if \<not> no_read \<and> ex \<noteq> None
                 then bindR (ok_or (backend_error ''Failed to open `{path}` for reading.'') (ws_open_read dest name w)) (\<lambda>r. Inr (Some r))
                 else Inr None) rest)"
    unfolding add_file_def st ok_or_simps bindR_simps Let_def ex_def [symmetric] content_of_def [symmetric] rest_def
    by (simp cong: if_cong)
  note run' = run [unfolded this]
  consider "?size = 0 \<and> ex \<noteq> None" | "\<not> (?size = 0 \<and> ex \<noteq> None)"
      "\<not> ignore_mtime \<and> (case ex of None \<Rightarrow> False | Some meta \<Rightarrow> m_size meta = ?size \<and> m_mtime meta = m_mtime (n_meta node))"
    | "\<not> (?size = 0 \<and> ex \<noteq> None)"
      "\<not> (\<not> ignore_mtime \<and> (case ex of None \<Rightarrow> False | Some meta \<Rightarrow> m_size meta = ?size \<and> m_mtime meta = m_mtime (n_meta node)))" by blast
  then show ?thesis
  proof cases
    case 1
    then obtain m where "ex = Some m" by auto
    then show ?thesis using existing [of m] ex [of m] run' 1 st by auto
  next
    case 2
    then obtain m where "ex = Some m" by (cases ex) auto
    then show ?thesis using existing [of m] ex [of m] run' 2 st by auto
  next
    case 3
    have "bindR (if \<not> no_read \<and> ex \<noteq> None
                 then bindR (ok_or (backend_error ''Failed to open `{path}` for reading.'') (ws_open_read dest name w)) (\<lambda>r. Inr (Some r))
                 else Inr None) rest = Inr (res, p')" using run' by (simp only: 3 if_False)
    then obtain op where op: "(if \<not> no_read \<and> ex \<noteq> None
                 then bindR (ok_or (backend_error ''Failed to open `{path}` for reading.'') (ws_open_read dest name w)) (\<lambda>r. Inr (Some r))
                 else Inr None) = Inr op" "rest op = Inr (res, p')"
      unfolding bindR_eq_Inr_iff by blast
    have "op = None \<or> (\<exists>m. ws_stat dest name w = Some (Some m) \<and> m_size m = ?size \<and> m_size m \<noteq> 0 \<and>
        op \<noteq> None \<and> ws_open_read dest name w = op)"
    proof (cases "\<not> no_read \<and> ex \<noteq> None")
      case True
      then obtain m where "ex = Some m" by auto
      then show ?thesis using op(1) True 3(1) ex [of m] st by (auto simp: result_simps)
    qed (use op(1) in \<open>auto split: if_splits\<close>)
    note o = this
    obtain s where s: "foldR (add_blob hash get_entry (ws_can_random_write dest) (length (rpl_names p))) (content_of node)
         \<lparr>af_r = rpl_r p, af_open = op, af_pos = 0, af_unmatched = False, af_matched = 0, af_restore = 0, af_tentative = []\<rparr> = Inr s"
      and p': "p' = p\<lparr>rpl_names := rpl_names p @ [name], rpl_r := af_r s, rpl_restore_size := rpl_restore_size p + af_restore s,
                 rpl_matched_size := rpl_matched_size p + af_matched s, rpl_file_lengths := rpl_file_lengths p @ [af_pos s]\<rparr>"
      using op(2) unfolding rest_def bindR_eq_Inr_iff by blast
    show ?thesis by (rule planned [OF o s]) (simp_all add: p')
  qed
qed

context write_source
begin

lemma add_blobs_inv:
  assumes "index_ok env packs K hash get_entry" "no_clash (key_data env packs) hash K w" "sz < 2 ^ 64"
  shows "foldR (add_blob hash get_entry True (length F)) ids s = Inr s' \<Longrightarrow> has_keys get_entry ids ks' \<Longrightarrow>
    total (key_data env packs) (ks @ ks') \<le> sz \<Longrightarrow> af_inv (key_data env packs) K F w name sz ks s \<Longrightarrow>
    af_inv (key_data env packs) K F w name sz (ks @ ks') s'"
proof (induction ids arbitrary: s ks ks')
  case (Cons i ids)
  obtain ie ks2 where k: "ks' = entry_key ie # ks2" "get_entry i = Inr ie" "has_keys get_entry ids ks2"
    using Cons.prems(2) by (auto simp: has_keys_Cons)
  obtain s1 where s1: "add_blob hash get_entry True (length F) i s = Inr s1"
    "foldR (add_blob hash get_entry True (length F)) ids s1 = Inr s'" using Cons.prems(1) by (auto simp: result_simps)
  have "af_inv (key_data env packs) K F w name sz (ks @ [entry_key ie]) s1"
    using add_blob_inv [OF Cons.prems(4) assms(1,2) k(2) _ assms(3) s1(1)] Cons.prems(3) k(1) by simp
  then have "af_inv (key_data env packs) K F w name sz ((ks @ [entry_key ie]) @ ks2) s'"
    by (rule Cons.IH [OF s1(2) k(3), rotated]) (use Cons.prems(3) k(1) in simp)
  then show ?case using k(1) by simp
qed (simp add: has_keys_def)

text \<open>From the plan to the start of the loop, and from its end to the plan.\<close>

lemma af_inv_start:
  assumes "plan_ok env packs K F w names lens r" "s = \<lparr>af_r = r, af_open = op, af_pos = 0, af_unmatched = um, af_matched = ma, af_restore = re, af_tentative = te\<rparr>"
    and "\<And>rd. op = Some rd \<Longrightarrow> reader_ok rd \<and> (\<exists>c. content w (place name) = Some c \<and> length c = sz \<and> reader_bytes rd = c)"
  shows "af_inv (key_data env packs) K F w name sz [] s"
proof -
  have r: "fst ` set r \<subseteq> K" "\<And>k fl. (k, fl) \<in> locs r \<Longrightarrow> loc_ok (key_data env packs) F w fl k"
    using assms(1) by (auto simp: plan_ok_def Let_def locs_ok_def)
  have seg: "fl_file_idx fl < length F" if "(k, fl) \<in> locs r" for k fl
    using r(2) [OF that] by (simp add: loc_ok_def seg_of_def)
  have h: "placed_in (key_data env packs) F w i st k \<or> (k, \<lparr>fl_file_idx = i, fl_file_start = word_of_nat st, fl_matches = False\<rparr>) \<in> locs r"
    if "seg_of (key_data env packs) F i st k" for i st k
    using assms(1) that unfolding plan_ok_def Let_def by blast
  show ?thesis unfolding af_inv_def using r seg h assms(2,3) by auto
qed

lemma seg_of_snoc:
  "seg_of D (F @ [(name, ks)]) i st k \<longleftrightarrow> seg_of D F i st k \<or> i = length F \<and> (st, k) \<in> set (segs D 0 ks)"
  by (auto simp: seg_of_def nth_append less_Suc_eq)

lemma placed_in_snoc:
  "i < length F \<Longrightarrow> placed_in D (F @ [f]) w i st k = placed_in D F w i st k"
  "placed_in D (F @ [(name, ks)]) w (length F) st k = cur_placed D w name (total D ks) st k"
  by (simp_all add: placed_in_def cur_placed_def nth_append)

lemma af_inv_end:
  assumes "af_inv (key_data env packs) K F w name (total (key_data env packs) ks) ks s" "plan_ok env packs K F w names lens r"
  shows "plan_ok env packs K (F @ [(name, ks)]) w (names @ [name]) (lens @ [af_pos s]) (af_r s)"
proof -
  let ?D = "key_data env packs" and ?F = "F @ [(name, ks)]"
  have p: "names = map fst F" "lens = map (\<lambda>f. word_of_nat (total ?D (snd f))) F" "\<forall>k \<in> K. key_ok env packs k"
    using assms(2) by (auto simp: plan_ok_def Let_def locs_ok_def)
  have a: "fst ` set (af_r s) \<subseteq> K" "af_pos s = word_of_nat (total ?D ks)"
    "\<And>k fl. (k, fl) \<in> locs (af_r s) \<Longrightarrow> (fl_file_idx fl < length F \<and> loc_ok ?D F w fl k) \<or>
        (fl_file_idx fl = length F \<and> (unat (fl_file_start fl), k) \<in> set (segs ?D 0 ks) \<and>
         (fl_matches fl \<longrightarrow> cur_placed ?D w name (total ?D ks) (unat (fl_file_start fl)) k))"
    "\<And>i st k. seg_of ?D F i st k \<Longrightarrow> placed_in ?D F w i st k \<or>
        (k, \<lparr>fl_file_idx = i, fl_file_start = word_of_nat st, fl_matches = False\<rparr>) \<in> locs (af_r s)"
    "\<And>st k. (st, k) \<in> set (segs ?D 0 ks) \<Longrightarrow> cur_placed ?D w name (total ?D ks) st k \<or>
        (k, \<lparr>fl_file_idx = length F, fl_file_start = word_of_nat st, fl_matches = False\<rparr>) \<in> locs (af_r s)"
    using assms(1) unfolding af_inv_def by blast+
  have l: "loc_ok ?D ?F w fl k" if "(k, fl) \<in> locs (af_r s)" for k fl
    using a(3) [OF that] by (auto simp: loc_ok_def seg_of_snoc placed_in_snoc)
  have h: "placed_in ?D ?F w i st k \<or> (k, \<lparr>fl_file_idx = i, fl_file_start = word_of_nat st, fl_matches = False\<rparr>) \<in> locs (af_r s)"
    if "seg_of ?D ?F i st k" for i st k
    using that a(4) [of i st k] a(5) [of st k] by (auto simp: seg_of_snoc placed_in_snoc(2)) (auto simp: seg_of_def placed_in_snoc(1))
  show ?thesis unfolding plan_ok_def Let_def locs_ok_def using l h a(1,2) p by auto
qed

lemma add_file_ok:
  assumes plan: "plan_ok env packs K F w (rpl_names p) (rpl_file_lengths p) (rpl_r p)" and ix: "index_ok env packs K hash get_entry"
    and nc: "no_clash (key_data env packs) hash K w" and w: "plain w" "ws_can_random_write ws"
    and sz: "size_ok (key_data env packs) get_entry node"
    and run: "add_file ws hash get_entry w node name ignore_mtime no_read p = Inr (res, p')"
  shows "(res = Existing \<and> rpl_names p' = rpl_names p \<and> rpl_file_lengths p' = rpl_file_lengths p \<and> rpl_r p' = rpl_r p \<and>
      (\<exists>m. ws_stat ws name w = Some (Some m) \<and> m_size m = m_size (n_meta node) \<and>
        (m_size m = 0 \<or> \<not> ignore_mtime \<and> m_mtime m = m_mtime (n_meta node)))) \<or>
    (\<exists>ks. has_keys get_entry (content_of node) ks \<and>
      plan_ok env packs K (F @ [(name, ks)]) w (rpl_names p') (rpl_file_lengths p') (rpl_r p'))"
proof -
  let ?D = "key_data env packs"
  have names: "length (rpl_names p) = length F" using plan by (simp add: plan_ok_def Let_def)
  from run show ?thesis
  proof (cases rule: add_file_cases)
    case (planned op s)
    obtain ks where ks: "has_keys get_entry (content_of node) ks" using foldR_has_keys [OF planned(2)] by blast
    have tot: "total ?D ks = unat (m_size (n_meta node))" using sz ks by (simp add: size_ok_def)
    have small: "total ?D ks < 2 ^ 64" using tot unsigned_less [of "m_size (n_meta node)"] by simp
    have rd: "reader_ok rd \<and> (\<exists>c. content w (place name) = Some c \<and> length c = total ?D ks \<and> reader_bytes rd = c)" if o: "op = Some rd" for rd
    proof -
      obtain m where m: "ws_stat ws name w = Some (Some m)" "m_size m = m_size (n_meta node)" "m_size m \<noteq> 0" "ws_open_read ws name w = Some rd"
        using planned(1) o by auto
      have "unat (m_size m) \<noteq> 0" using m(3) by (simp add: unat_eq_0)
      then obtain c where "content w (place name) = Some c" "length c = unat (m_size m)"
        using stat [OF m(1) w(1)] by (cases "content w (place name)") auto
      then show ?thesis using open_read [OF m(4) w(1)] m(2) tot by auto
    qed
    have fold: "foldR (add_blob hash get_entry True (length F)) (content_of node) \<lparr>af_r = rpl_r p, af_open = op, af_pos = 0,
        af_unmatched = False, af_matched = 0, af_restore = 0, af_tentative = []\<rparr> = Inr s"
      using planned(2) w(2) names by simp
    have st: "af_inv ?D K F w name (total ?D ks) [] \<lparr>af_r = rpl_r p, af_open = op, af_pos = 0, af_unmatched = False, af_matched = 0,
        af_restore = 0, af_tentative = []\<rparr>"
      using af_inv_start [OF plan refl rd] by simp
    have "af_inv ?D K F w name (total ?D ks) ([] @ ks) s"
      by (rule add_blobs_inv [OF ix nc small fold ks _ st]) simp
    then have "plan_ok env packs K (F @ [(name, ks)]) w (rpl_names p') (rpl_file_lengths p') (rpl_r p')"
      using af_inv_end [OF _ plan] planned by simp
    then show ?thesis using ks by blast
  qed auto
qed

end

section \<open>Going through the snapshot\<close>

text \<open>The nodes of a snapshot at their paths in the destination: different paths, files whose size is the length of their
  blobs, no recorded hard links, and nothing else than a file where a file goes, now or by creating the directories \<open>Dd\<close>.\<close>

context write_source
begin

definition snapshot_ok ::
    "(RestoreKey \<Rightarrow> bytes) \<Rightarrow> (DataId \<Rightarrow> IndexEntry rustic_result) \<Rightarrow> 'w \<Rightarrow> Path set \<Rightarrow> (Path \<times> Node) list \<Rightarrow> bool" where
  "snapshot_ok D get_entry w Dd L \<longleftrightarrow> distinct (map (place \<circ> fst) L) \<and>
     (\<forall>(q, n) \<in> set L. (n_type n = Dir \<longrightarrow> q \<in> Dd) \<and>
        (n_type n = File \<longrightarrow> hardlink_key n = None \<and> size_ok D get_entry n \<and> (m_size (n_meta n) = 0 \<longrightarrow> content_of n = []) \<and>
           \<not> other w (place q) \<and> (\<forall>p \<in> Dd. place q \<notin> above p)))"

text \<open>A file that is as the snapshot says, and one that is left because its time has not changed.\<close>

definition restored :: "(bytes \<Rightarrow> Id) \<Rightarrow> 'w \<Rightarrow> Path \<Rightarrow> Node \<Rightarrow> bool" where
  "restored hash w q node \<longleftrightarrow> (\<exists>ds. list_all2 (\<lambda>i d. hash d = i) (content_of node) ds \<and> content w (place q) = Some (concat ds))"

definition unchanged :: "RestoreOptions \<Rightarrow> 'w \<Rightarrow> Path \<Rightarrow> Node \<Rightarrow> bool" where
  "unchanged opts w q node \<longleftrightarrow> \<not> ro_verify_existing opts \<and>
     (\<exists>w' m. content w' = content w \<and> ws_stat ws q w' = Some (Some m) \<and> m_size m = m_size (n_meta node) \<and> m_mtime m = m_mtime (n_meta node))"

definition collect_inv ::
    "'w RestoreEnv \<Rightarrow> (PackId \<Rightarrow> bytes) \<Rightarrow> RestoreKey set \<Rightarrow> (bytes \<Rightarrow> Id) \<Rightarrow> (DataId \<Rightarrow> IndexEntry rustic_result) \<Rightarrow> RestoreOptions \<Rightarrow> 'w \<Rightarrow> Path set
     \<Rightarrow> (Path \<times> Node) list \<Rightarrow> PlannedFile list \<Rightarrow> 'w Collect \<Rightarrow> bool" where
  "collect_inv env packs K hash get_entry opts w Dd L F s \<longleftrightarrow>
     plain (cl_world s) \<and> content (cl_world s) = content w \<and>
     (\<forall>q. other (cl_world s) q \<longrightarrow> other w q \<or> (\<exists>p \<in> Dd. q \<in> above p)) \<and>
     plan_ok env packs K F w (rpl_names (cl_plan s)) (rpl_file_lengths (cl_plan s)) (rpl_r (cl_plan s)) \<and>
     distinct (map (place \<circ> fst) F) \<and> fst ` set F \<subseteq> fst ` {x \<in> set L. n_type (snd x) = File} \<and>
     (\<forall>f \<in> set F. total (key_data env packs) (snd f) < 2 ^ 64) \<and>
     (\<forall>(q, n) \<in> set L. n_type n = File \<longrightarrow> (\<exists>ks. has_keys get_entry (content_of n) ks \<and> (q, ks) \<in> set F) \<or>
        q \<notin> fst ` set F \<and> (restored hash w q n \<or> unchanged opts w q n))"

lemma plan_ok_cong:
  assumes "content w = content w'"
  shows "plan_ok env packs K F w names lens r = plan_ok env packs K F w' names lens r"
proof -
  have p: "placed_in D F w = placed_in D F w'" for D by (intro ext) (simp add: placed_in_def assms)
  have l: "loc_ok D F w = loc_ok D F w'" for D by (intro ext) (simp add: loc_ok_def p)
  show ?thesis by (simp only: plan_ok_def p l)
qed

lemma no_clash_cong: "content w = content w' \<Longrightarrow> no_clash D hash K w = no_clash D hash K w'"
  by (simp add: no_clash_def)

lemma process_existing_keeps:
  "\<not> ro_delete opts \<Longrightarrow> cl_world (process_existing ws opts dry_run e s) = cl_world s \<and> cl_plan (process_existing ws opts dry_run e s) = cl_plan s"
  by (simp add: process_existing_def Let_def)

lemma collect_inv_cong:
  "cl_world s' = cl_world s \<Longrightarrow> cl_plan s' = cl_plan s \<Longrightarrow>
   collect_inv env packs K hash get_entry opts w Dd L F s' = collect_inv env packs K hash get_entry opts w Dd L F s"
  by (simp add: collect_inv_def)

lemma collect_inv_other:
  assumes "collect_inv env packs K hash get_entry opts w Dd L F s" "n_type node \<noteq> File"
    and "plain (cl_world s')" "content (cl_world s') = content w" "cl_plan s' = cl_plan s"
    and "\<forall>q. other (cl_world s') q \<longrightarrow> other w q \<or> (\<exists>p \<in> Dd. q \<in> above p)"
  shows "collect_inv env packs K hash get_entry opts w Dd (L @ [(path, node)]) F s'"
proof -
  have e: "{x \<in> set (L @ [(path, node)]). n_type (snd x) = File} = {x \<in> set L. n_type (snd x) = File}" using assms(2) by auto
  show ?thesis using assms(1) unfolding collect_inv_def e using assms(2-) by auto
qed

lemma collect_inv_dir:
  assumes inv: "collect_inv env packs K hash get_entry opts w Dd L F s" and d: "p \<in> Dd"
    and run: "ws_create_dir_all ws p (cl_world s) = (ok, w')"
  shows "plain w' \<and> content w' = content w \<and> (\<forall>q. other w' q \<longrightarrow> other w q \<or> (\<exists>p \<in> Dd. q \<in> above p))"
  using inv d create_dir_all [OF run] unfolding collect_inv_def by metis

lemma has_keys_hashes:
  assumes "index_ok env packs K hash get_entry" "has_keys get_entry ids ks"
  shows "list_all2 (\<lambda>i d. hash d = i) ids (map (key_data env packs) ks)"
  using assms(2)
proof (induction ids arbitrary: ks)
  case (Cons i ids)
  then show ?case using assms(1) by (auto simp: has_keys_Cons index_ok_def entry_key_def)
qed (simp add: has_keys_def)

lemma process_file_node_ok:
  assumes inv: "collect_inv env packs K hash get_entry opts w Dd L F s" and ix: "index_ok env packs K hash get_entry"
    and nc: "no_clash (key_data env packs) hash K w" "ws_can_random_write ws"
    and sn: "snapshot_ok (key_data env packs) get_entry w Dd (L @ (path, node) # rest)" "n_type node = File"
    and run: "process_file_node ws hash get_entry opts path node ex s = Inr s'"
  shows "\<exists>F'. collect_inv env packs K hash get_entry opts w Dd (L @ [(path, node)]) F' s'"
proof -
  let ?D = "key_data env packs" and ?w = "cl_world s"
  have c: "plain ?w" "content ?w = content w" using inv by (simp_all add: collect_inv_def)
  have n: "size_ok ?D get_entry node" "m_size (n_meta node) = 0 \<Longrightarrow> content_of node = []" "\<not> other w (place path)"
    "\<And>p. p \<in> Dd \<Longrightarrow> place path \<notin> above p" "place path \<notin> place ` fst ` set L"
    using sn by (auto simp: snapshot_ok_def image_image)
  obtain res p' where af: "add_file ws hash get_entry ?w node path (ro_verify_existing opts) (ro_no_compare opts) (cl_plan s) = Inr (res, p')"
    and s': "cl_world s' = ?w" "cl_plan s' = p'"
    using run by (auto simp: process_file_node_def count_file_def result_simps)
  have plan: "plan_ok env packs K F ?w (rpl_names (cl_plan s)) (rpl_file_lengths (cl_plan s)) (rpl_r (cl_plan s))"
    using inv plan_ok_cong [OF c(2)] by (simp add: collect_inv_def)
  have fset: "{x \<in> set (L @ [(path, node)]). n_type (snd x) = File} = insert (path, node) {x \<in> set L. n_type (snd x) = File}"
    using sn(2) by auto
  have old: "\<And>q n. (q, n) \<in> set L \<Longrightarrow> n_type n = File \<Longrightarrow> (\<exists>ks. has_keys get_entry (content_of n) ks \<and> (q, ks) \<in> set F) \<or>
        q \<notin> fst ` set F \<and> (restored hash w q n \<or> unchanged opts w q n)"
    and F: "distinct (map (place \<circ> fst) F)" "fst ` set F \<subseteq> fst ` {x \<in> set L. n_type (snd x) = File}"
    "\<forall>f \<in> set F. total ?D (snd f) < 2 ^ 64"
    using inv unfolding collect_inv_def by blast+
  have fresh: "place path \<notin> place ` fst ` set F" "path \<notin> fst ` set F" using n(5) F(2) by (force, force)
  have ne: "q \<noteq> path" if "(q, m) \<in> set L" for q m using n(5) that by force
  from add_file_ok [OF plan ix _ c(1) nc(2) n(1) af] consider
    (existing) m where "rpl_names p' = rpl_names (cl_plan s)" "rpl_file_lengths p' = rpl_file_lengths (cl_plan s)" "rpl_r p' = rpl_r (cl_plan s)"
      "ws_stat ws path ?w = Some (Some m)" "m_size m = m_size (n_meta node)"
      "m_size m = 0 \<or> \<not> ro_verify_existing opts \<and> m_mtime m = m_mtime (n_meta node)"
    | (planned) ks where "has_keys get_entry (content_of node) ks"
      "plan_ok env packs K (F @ [(path, ks)]) ?w (rpl_names p') (rpl_file_lengths p') (rpl_r p')"
    using nc(1) no_clash_cong [OF c(2)] by auto
  then show ?thesis
  proof cases
    case existing
    have "restored hash w path node \<or> unchanged opts w path node"
    proof (cases "m_size m = 0")
      case True
      have "\<not> other ?w (place path)" using inv n(3,4) unfolding collect_inv_def by blast
      then have "content w (place path) = Some []" using stat [OF existing(4) c(1)] c(2) True by (auto split: option.splits)
      then show ?thesis using n(2) existing(5) True by (simp add: restored_def)
    next
      case False
      then show ?thesis using existing c(2) unfolding unchanged_def by blast
    qed
    then have "collect_inv env packs K hash get_entry opts w Dd (L @ [(path, node)]) F s'"
      using inv existing(1-3) s' fresh(2) unfolding collect_inv_def fset by auto
    then show ?thesis by blast
  next
    case (planned ks)
    have tot: "total ?D ks < 2 ^ 64" using n(1) planned(1) unsigned_less [of "m_size (n_meta node)"] by (simp add: size_ok_def)
    have k: "(\<exists>ks'. has_keys get_entry (content_of n) ks' \<and> (q, ks') \<in> set (F @ [(path, ks)])) \<or>
        q \<notin> fst ` set (F @ [(path, ks)]) \<and> (restored hash w q n \<or> unchanged opts w q n)"
      if "(q, n) \<in> set (L @ [(path, node)])" "n_type n = File" for q n
      using that old [of q n] ne [of q n] planned(1) by auto
    have "plan_ok env packs K (F @ [(path, ks)]) w (rpl_names p') (rpl_file_lengths p') (rpl_r p')"
      using planned(2) plan_ok_cong [OF c(2)] by simp
    then have "collect_inv env packs K hash get_entry opts w Dd (L @ [(path, node)]) (F @ [(path, ks)]) s'"
      using inv k s' F fresh tot planned(1) ne unfolding collect_inv_def fset by (auto simp: image_image)
    then show ?thesis by blast
  qed
qed

end

context write_source
begin

lemma process_node_ok:
  assumes inv: "collect_inv env packs K hash get_entry opts w Dd L F s" and ix: "index_ok env packs K hash get_entry"
    and nc: "no_clash (key_data env packs) hash K w" "ws_can_random_write ws"
    and sn: "snapshot_ok (key_data env packs) get_entry w Dd (L @ (path, node) # rest)"
    and run: "process_node ws hash get_entry opts dry_run path node ex s = Inr s'"
  shows "\<exists>F'. collect_inv env packs K hash get_entry opts w Dd (L @ [(path, node)]) F' s'"
proof -
  have dir: "n_type node = Dir \<Longrightarrow> path \<in> Dd" and hl: "n_type node = File \<Longrightarrow> hardlink_key node = None"
    using sn by (auto simp: snapshot_ok_def)
  show ?thesis
  proof (cases "n_type node = File")
    case True
    then have "process_file_node ws hash get_entry opts path node ex s = Inr s'" using run hl by (simp add: process_node_def)
    then show ?thesis by (rule process_file_node_ok [OF inv ix nc sn True])
  next
    case False
    have same: "plain (cl_world s)" "content (cl_world s) = content w"
      "\<forall>q. other (cl_world s) q \<longrightarrow> other w q \<or> (\<exists>p \<in> Dd. q \<in> above p)"
      using inv by (auto simp: collect_inv_def)
    consider "cl_world s' = cl_world s" "cl_plan s' = cl_plan s"
      | w' where "n_type node = Dir" "ws_create_dir_all ws path (cl_world s) = (True, w')" "cl_world s' = w'" "cl_plan s' = cl_plan s"
      using run False by (auto simp: process_node_def Let_def split: NodeType.splits if_splits prod.splits)
    then have "plain (cl_world s') \<and> content (cl_world s') = content w \<and>
      (\<forall>q. other (cl_world s') q \<longrightarrow> other w q \<or> (\<exists>p \<in> Dd. q \<in> above p)) \<and> cl_plan s' = cl_plan s"
    proof cases
      case 1
      then show ?thesis using same by simp
    next
      case 2
      then show ?thesis using collect_inv_dir [OF inv dir 2(2)] by simp
    qed
    then show ?thesis using collect_inv_other [OF inv False] by blast
  qed
qed

definition pending :: "Path \<Rightarrow> (Path \<times> Node) option \<Rightarrow> (Path \<times> Node) list \<Rightarrow> (Path \<times> Node) list" where
  "pending dest_path next ns = map (\<lambda>(p, n). (join_force dest_path p, n)) ((case next of None \<Rightarrow> [] | Some x \<Rightarrow> [x]) @ ns)"

lemma next_node_pending:
  assumes "next_node (map Inr ns) = Inr (n, nodes')"
  shows "\<exists>ns'. nodes' = map Inr ns' \<and> pending dest_path n ns' = pending dest_path None ns \<and> (n = None \<longrightarrow> ns' = [])"
  using assms by (cases ns) (auto simp: pending_def)

lemma collect_loop_ok:
  assumes ix: "index_ok env packs K hash get_entry" and nc: "no_clash (key_data env packs) hash K w" "ws_can_random_write ws"
    and opts: "\<not> ro_delete opts"
  shows "collect_loop ws hash get_entry opts dry_run dest_path next_dst walker next (map Inr ns) s = Inr s' \<Longrightarrow>
    (next = None \<longrightarrow> ns = []) \<Longrightarrow> collect_inv env packs K hash get_entry opts w Dd L F s \<Longrightarrow>
    snapshot_ok (key_data env packs) get_entry w Dd (L @ pending dest_path next ns) \<Longrightarrow>
    \<exists>F'. collect_inv env packs K hash get_entry opts w Dd (L @ pending dest_path next ns) F' s'"
proof (induction "opt_len next_dst + length walker + length (pending dest_path next ns)" arbitrary: next_dst walker "next" ns L F s rule: less_induct)
  case less
  let ?loop = "collect_loop ws hash get_entry opts dry_run dest_path" and ?inv = "collect_inv env packs K hash get_entry opts w Dd"
  note inv = less.prems(3) and pe = process_existing_keeps [OF opts]
  have skip: "\<exists>F'. ?inv (L @ pending dest_path next ns) F' s'"
    if "cl_world s1 = cl_world s" "cl_plan s1 = cl_plan s" "next_dst = Some e" "next_entry sk walker = (d, walker')"
      "?loop d walker' next (map Inr ns) s1 = Inr s'" for s1 e sk d walker'
  proof (rule less.hyps [OF _ that(5) less.prems(2) _ less.prems(4)])
    show "opt_len d + length walker' + length (pending dest_path next ns) < opt_len next_dst + length walker + length (pending dest_path next ns)"
      using next_entry_shorter [OF that(4)] that(3) by simp
    show "?inv L F s1" using inv collect_inv_cong [OF that(1,2)] by simp
  qed
  have node: "\<exists>F'. ?inv (L @ pending dest_path next ns) F' s'"
    if nx: "next = Some (path, nd)" and s1: "cl_world s1 = cl_world s" "cl_plan s1 = cl_plan s"
      and d: "opt_len d + length walker' \<le> opt_len next_dst + length walker"
      and pn: "process_node ws hash get_entry opts dry_run (join_force dest_path path) nd ex s1 = Inr s2"
      and nn: "next_node (map Inr ns) = Inr (n, nodes')" and lp: "?loop d walker' n nodes' s2 = Inr s'" for path nd s1 d walker' ex s2 n nodes'
  proof -
    let ?p = "join_force dest_path path"
    have L: "pending dest_path next ns = (?p, nd) # pending dest_path None ns" by (simp add: nx pending_def)
    obtain F2 where F2: "?inv (L @ [(?p, nd)]) F2 s2"
      using process_node_ok [OF _ ix nc _ pn] inv collect_inv_cong [OF s1] less.prems(4) L by metis
    obtain ns' where ns': "nodes' = map Inr ns'" "pending dest_path n ns' = pending dest_path None ns" "n = None \<longrightarrow> ns' = []"
      using next_node_pending [OF nn] by blast
    have "\<exists>F'. ?inv ((L @ [(?p, nd)]) @ pending dest_path n ns') F' s'"
    proof (rule less.hyps [OF _ lp [unfolded ns'(1)] ns'(3) F2])
      show "opt_len d + length walker' + length (pending dest_path n ns') < opt_len next_dst + length walker + length (pending dest_path next ns)"
        using d ns'(2) L by simp
      show "snapshot_ok (key_data env packs) get_entry w Dd ((L @ [(?p, nd)]) @ pending dest_path n ns')"
        using less.prems(4) ns'(2) L by simp
    qed
    then show ?thesis using ns'(2) L by simp
  qed
  note run = trans [OF collect_loop.simps [symmetric] less.prems(1)]
  show ?case
  proof (cases "next")
    case None
    then have p: "pending dest_path next ns = []" using less.prems(2) by (simp add: pending_def)
    show ?thesis
    proof (cases next_dst)
      case None
      then show ?thesis using run \<open>next = None\<close> p inv by auto
    next
      case (Some e)
      let ?s = "process_existing ws opts dry_run e s"
      obtain d walker' where ne: "next_entry (cl_skip_dirs ?s) walker = (d, walker')" by fastforce
      then have lp: "?loop d walker' next (map Inr ns) ?s = Inr s'" using run None Some by (simp add: Let_def)
      show ?thesis by (rule skip [OF conjunct1 [OF pe] conjunct2 [OF pe] Some ne lp])
    qed
  next
    case nx: (Some x)
    obtain path nd where x: "x = (path, nd)" by fastforce
    let ?p = "join_force dest_path path"
    have go: "\<exists>F'. ?inv (L @ pending dest_path next ns) F' s'"
      if s1: "cl_world s1 = cl_world s" "cl_plan s1 = cl_plan s" and dw: "opt_len d + length walker' \<le> opt_len next_dst + length walker"
        and bind: "bindR (process_node ws hash get_entry opts dry_run ?p nd ex s1) (\<lambda>s. case next_node (map Inr ns) of
             Inl e \<Rightarrow> Inl e | Inr (n, nodes') \<Rightarrow> ?loop d walker' n nodes' s) = Inr s'" for s1 d walker' ex
    proof -
      obtain s2 where s2: "process_node ws hash get_entry opts dry_run ?p nd ex s1 = Inr s2"
        "(case next_node (map Inr ns) of Inl e \<Rightarrow> Inl e | Inr (n, nodes') \<Rightarrow> ?loop d walker' n nodes' s2) = Inr s'"
        using bind unfolding bindR_eq_Inr_iff by blast
      then obtain n nodes' where "next_node (map Inr ns) = Inr (n, nodes')" "?loop d walker' n nodes' s2 = Inr s'"
        by (auto split: sum.splits)
      then show ?thesis by (rule node [OF nx [unfolded x] s1 dw s2(1)])
    qed
    show ?thesis
    proof (cases next_dst)
      case None
      show ?thesis by (rule go [of s next_dst walker False]) (use run None nx x in auto)
    next
      case (Some e)
      let ?s = "process_existing ws opts dry_run e s"
      show ?thesis
      proof (cases "path_cmp (clean_path (f_path e)) (clean_path ?p)")
        case Less
        obtain d walker' where ne: "next_entry (cl_skip_dirs ?s) walker = (d, walker')" by fastforce
        then have lp: "?loop d walker' next (map Inr ns) ?s = Inr s'" using run Less Some nx x by (simp add: Let_def)
        show ?thesis by (rule skip [OF conjunct1 [OF pe] conjunct2 [OF pe] Some ne lp])
      next
        case Greater
        show ?thesis by (rule go [of s next_dst walker False]) (use run Greater Some nx x in auto)
      next
        case Equal
        let ?s1 = "if types_differ nd e then ?s else s"
        obtain d walker' where ne: "next_entry (cl_skip_dirs ?s1) walker = (d, walker')" by fastforce
        show ?thesis
          by (rule go [of ?s1 d walker' True]) (use run Equal Some nx x ne pe [of dry_run e s] next_entry_shorter [OF ne] in \<open>auto simp: Let_def\<close>)
      qed
    qed
  qed
qed

end

section \<open>The whole restore\<close>

definition at_dest :: "Path \<Rightarrow> (Path \<times> Node) list \<Rightarrow> (Path \<times> Node) list" where
  "at_dest dest_path ns = map (\<lambda>(p, n). (join_force (clean_path dest_path) p, n)) ns"

context write_source
begin

lemma plan_ok_empty: "\<forall>k \<in> K. key_ok env packs k \<Longrightarrow> plan_ok env packs K [] w [] [] []"
  by (simp add: plan_ok_def locs_ok_def seg_of_def)

lemma collect_and_prepare_ok:
  assumes ix: "index_ok env packs K hash get_entry" and nc: "no_clash (key_data env packs) hash K w" "ws_can_random_write ws"
    and opts: "\<not> ro_delete opts" and w: "plain w" and d: "clean_path dest_path \<in> Dd"
    and sn: "snapshot_ok (key_data env packs) get_entry w Dd (at_dest dest_path ns)"
    and run: "collect_and_prepare ws hash get_entry opts build_walker (map Inr ns) dest_path dry_run w = Inr (plan, w1)"
  shows "\<exists>F s. collect_inv env packs K hash get_entry opts w Dd (at_dest dest_path ns) F s \<and> cl_world s = w1 \<and>
    rpl_names plan = rpl_names (cl_plan s) \<and> rpl_file_lengths plan = rpl_file_lengths (cl_plan s) \<and> rpl_r plan = rpl_r (cl_plan s)"
proof -
  let ?d = "clean_path dest_path"
  obtain w0 where w0: "ws_create_dir_all ws ?d w = (True, w0)"
    using run by (auto simp: collect_and_prepare_def Let_def split: prod.splits if_splits)
  let ?s = "\<lparr>cl_world = w0, cl_plan = RestorePlan_default, cl_files = FileDirStats_default, cl_dirs = FileDirStats_default,
         cl_additional = False, cl_skip_dirs = []\<rparr>"
  obtain walker where bw: "build_walker ?d w0 = Some walker" using run w0 by (auto simp: collect_and_prepare_def Let_def result_simps)
  obtain d' walker' where ne: "next_entry [] walker = (d', walker')" by fastforce
  obtain "next" nodes' s where nn: "next_node (map Inr ns) = Inr (next, nodes')"
    and lp: "collect_loop ws hash get_entry opts dry_run ?d d' walker' next nodes' ?s = Inr s"
    and pl: "plan = (cl_plan s)\<lparr>rpl_stats := \<lparr>rs_files = cl_files s, rs_dirs = cl_dirs s\<rparr>, rpl_root := ?d\<rparr>" "w1 = cl_world s"
    using run w0 bw ne by (auto simp: collect_and_prepare_def Let_def result_simps)
  obtain ns' where ns': "nodes' = map Inr ns'" "pending ?d next ns' = pending ?d None ns" "next = None \<longrightarrow> ns' = []"
    using next_node_pending [OF nn] by blast
  have L: "pending ?d next ns' = at_dest dest_path ns" unfolding ns'(2) by (simp add: pending_def at_dest_def)
  note cd = create_dir_all [OF w0 w]
  have "\<forall>k \<in> K. key_ok env packs k" using ix by (simp add: index_ok_def)
  then have "collect_inv env packs K hash get_entry opts w Dd [] [] ?s"
    using cd d plan_ok_empty [of K env packs w] by (auto simp: collect_inv_def RestorePlan_default_def)
  then obtain F where "collect_inv env packs K hash get_entry opts w Dd ([] @ pending ?d next ns') F s"
    using collect_loop_ok [OF ix nc opts lp [unfolded ns'(1)] ns'(3), of Dd "[]" "[]"] sn L by auto
  then show ?thesis using L pl by auto
qed

lemma foldR_keeps_content:
  assumes "\<And>x s s'. x \<in> set xs \<Longrightarrow> f x s = Inr s' \<Longrightarrow> content (g s') = content (g s)"
  shows "foldR f xs s = Inr s' \<Longrightarrow> content (g s') = content (g s)"
  using assms
proof (induction xs arbitrary: s)
  case (Cons x xs)
  then obtain s1 where s1: "f x s = Inr s1" "foldR f xs s1 = Inr s'" by (auto simp: result_simps)
  have "content (g s') = content (g s1)" using Cons.IH [OF s1(2)] Cons.prems(2) by (meson list.set_intros(2))
  then show ?case using Cons.prems(2) [OF _ s1(1)] by simp
qed simp

lemma set_metadata_keeps: "set_metadata ws opts pn w = Inr w' \<Longrightarrow> content w' = content w"
  using set_metadata by (auto simp: set_metadata_def split: prod.splits if_splits)

lemma leave_dirs_keeps: "leave_dirs ws opts path st w = Inr (st', w') \<Longrightarrow> content w' = content w"
  by (induction st arbitrary: w) (auto simp: result_simps set_metadata_keeps split: if_splits)

text \<open>Without recorded hard links the last phase leaves all contents alone.\<close>

lemma restore_metadata_keeps:
  assumes "restore_metadata ws opts hl (map Inr ns) w = Inr w'" "\<forall>(p, n) \<in> set ns. hardlink_key n = None"
  shows "content w' = content w"
proof -
  obtain st w1 where r: "foldR (restore_node_metadata ws opts hl) (map Inr ns) ([], w) = Inr (st, w1)"
    "foldR (set_metadata ws opts) st w1 = Inr w'"
    using assms(1) by (auto simp: restore_metadata_def result_simps)
  have "content (snd s') = content (snd s)" if mem: "x \<in> set (map Inr ns)" and step: "restore_node_metadata ws opts hl x s = Inr s'" for x s s'
  proof -
    obtain p n where x: "x = Inr (p, n)" "hardlink_key n = None" using mem assms(2) by auto
    then have "restore_link ws hl p n (snd s) = Inr (snd s)" by (simp add: restore_link_def)
    then show ?thesis using step x(1) leave_dirs_keeps set_metadata_keeps
      by (auto simp: restore_node_metadata_def result_simps split: prod.splits if_splits)
  qed
  from foldR_keeps_content [of "map Inr ns" _ snd, OF this r(1)] have "content w1 = content w" by simp
  moreover have "content w' = content w1" using foldR_keeps_content [of st _ id, OF _ r(2)] set_metadata_keeps by simp
  ultimately show ?thesis by simp
qed

lemma restore_ok:
  assumes ix: "index_ok env packs K hash get_entry" and nc: "no_clash (key_data env packs) hash K w"
    and ws: "re_dest env = ws" "ws_can_random_write ws"
    and opts: "\<not> ro_delete opts" and w: "plain w" and d: "clean_path dest_path \<in> Dd"
    and sn: "snapshot_ok (key_data env packs) get_entry w Dd (at_dest dest_path ns)"
    and collect: "collect_and_prepare ws hash get_entry opts build_walker (map Inr ns) dest_path dry_run w = Inr (plan, w1)"
    and run: "restore_repository env warm_up plan opts (map Inr ns) w1 (Inr w2)"
  shows "(\<forall>(q, n) \<in> set (at_dest dest_path ns). n_type n = File \<longrightarrow>
      restored hash w2 q n \<or> unchanged opts w q n \<and> content w2 (place q) = content w (place q)) \<and>
    (\<forall>q. q \<notin> place ` fst ` {x \<in> set (at_dest dest_path ns). n_type (snd x) = File} \<longrightarrow> content w2 q = content w q)"
proof -
  let ?L = "at_dest dest_path ns" and ?D = "key_data env packs"
  obtain F s where inv: "collect_inv env packs K hash get_entry opts w Dd ?L F s" "cl_world s = w1"
    and pl: "rpl_names plan = rpl_names (cl_plan s)" "rpl_file_lengths plan = rpl_file_lengths (cl_plan s)" "rpl_r plan = rpl_r (cl_plan s)"
    using collect_and_prepare_ok [OF ix nc ws(2) opts w d sn collect] by blast
  have i: "plain w1" "content w1 = content w" "plan_ok env packs K F w (rpl_names plan) (rpl_file_lengths plan) (rpl_r plan)"
    "distinct (map (place \<circ> fst) F)" "fst ` set F \<subseteq> fst ` {x \<in> set ?L. n_type (snd x) = File}"
    "\<forall>f \<in> set F. total ?D (snd f) < 2 ^ 64"
    using inv unfolding collect_inv_def pl by blast+
  have fl: "(\<exists>ks. has_keys get_entry (content_of n) ks \<and> (q, ks) \<in> set F) \<or>
        q \<notin> fst ` set F \<and> (restored hash w q n \<or> unchanged opts w q n)" if "(q, n) \<in> set ?L" "n_type n = File" for q n
    using inv(1) that unfolding collect_inv_def by blast
  from run obtain w0 w3 where w0: "ws_create_dir_all ws (rpl_root plan) w1 = (True, w0)"
    and rc: "restore_contents env (rpl_names plan) (rpl_file_lengths plan) (rpl_r plan) w0 (Inr w3)"
    and md: "restore_metadata ws opts (rpl_hardlinks plan) (map Inr ns) w3 = Inr w2"
    by cases (auto simp: ws result_simps dest!: sym [of "Inr w2"])
  have c0: "plain w0" "content w0 = content w" using create_dir_all [OF w0 i(1)] i(2) by simp_all
  note r = restore_contents_random [OF i(3,4,6) c0 ws rc]
  have hl: "\<forall>(p, n) \<in> set ns. hardlink_key n = None"
  proof -
    have "hardlink_key n = None" if "(p, n) \<in> set ns" for p n
    proof (cases "n_type n = File")
      case True
      have "(join_force (clean_path dest_path) p, n) \<in> set ?L" using that by (force simp: at_dest_def)
      then show ?thesis using sn True unfolding snapshot_ok_def by blast
    qed (simp add: hardlink_key_def)
    then show ?thesis by blast
  qed
  have c2: "content w2 = content w3" using restore_metadata_keeps [OF md hl] .
  have inj: "place q \<notin> place ` fst ` set F" if "(q, n) \<in> set ?L" "q \<notin> fst ` set F" for q n
  proof
    assume "place q \<in> place ` fst ` set F"
    then obtain f x where f: "f \<in> set F" "place q = place (fst f)" "x \<in> set ?L" "fst x = fst f" using i(5) by (auto 4 3)
    have "inj_on (place \<circ> fst) (set ?L)" using sn by (simp add: snapshot_ok_def distinct_map)
    then have "x = (q, n)" using f that(1) by (auto dest!: inj_onD [of _ _ x "(q, n)"])
    then show False using that(2) f(1,4) by force
  qed
  have "restored hash w2 q n \<or> unchanged opts w q n \<and> content w2 (place q) = content w (place q)"
    if q: "(q, n) \<in> set ?L" "n_type n = File" for q n
  proof (cases "q \<in> fst ` set F")
    case True
    then obtain ks where ks: "has_keys get_entry (content_of n) ks" "(q, ks) \<in> set F" using fl [OF q] by blast
    then have "content w2 (place q) = Some (concat (map ?D ks))" using r c2 by fastforce
    then show ?thesis using has_keys_hashes [OF ix ks(1)] by (auto simp: restored_def)
  next
    case False
    then have u: "restored hash w q n \<or> unchanged opts w q n" using fl [OF q] by force
    have "content w2 (place q) = content w (place q)" using r inj [OF q(1) False] c2 c0(2) by simp
    then show ?thesis using u by (auto simp: restored_def)
  qed
  moreover have "content w2 q = content w q" if "q \<notin> place ` fst ` {x \<in> set ?L. n_type (snd x) = File}" for q
  proof -
    have "q \<notin> place ` fst ` set F" using that i(5) by blast
    then show ?thesis using r c2 c0(2) by simp
  qed
  ultimately show ?thesis by blast
qed

end

end
