(* ===== verification/NixMode.thy ===== *)
theory NixMode
  imports Rust_Prelude
begin

text \<open>
  File modes (crates/backend/src/local/mapper/nix_mapper.rs): the mode of POSIX and the one of Go, in which snapshots
  store it. The way back from a stored mode gives the type, the permissions and the special bits, except for
  character devices.
\<close>

section \<open>The two encodings\<close>

definition MODE_PERM :: u32 where "MODE_PERM = 0x1FF"
definition GO_MODE_DIR :: u32 where "GO_MODE_DIR = 0x80000000"
definition GO_MODE_SYMLINK :: u32 where "GO_MODE_SYMLINK = 0x08000000"
definition GO_MODE_DEVICE :: u32 where "GO_MODE_DEVICE = 0x04000000"
definition GO_MODE_FIFO :: u32 where "GO_MODE_FIFO = 0x02000000"
definition GO_MODE_SOCKET :: u32 where "GO_MODE_SOCKET = 0x01000000"
definition GO_MODE_SETUID :: u32 where "GO_MODE_SETUID = 0x00800000"
definition GO_MODE_SETGID :: u32 where "GO_MODE_SETGID = 0x00400000"
definition GO_MODE_CHARDEV :: u32 where "GO_MODE_CHARDEV = 0x00200000"
definition GO_MODE_STICKY :: u32 where "GO_MODE_STICKY = 0x00100000"
definition GO_MODE_IRREG :: u32 where "GO_MODE_IRREG = 0x00080000"

definition S_IFFORMAT :: u32 where "S_IFFORMAT = 0xF000"
definition S_IFSOCK :: u32 where "S_IFSOCK = 0xC000"
definition S_IFLNK :: u32 where "S_IFLNK = 0xA000"
definition S_IFREG :: u32 where "S_IFREG = 0x8000"
definition S_IFBLK :: u32 where "S_IFBLK = 0x6000"
definition S_IFDIR :: u32 where "S_IFDIR = 0x4000"
definition S_IFCHR :: u32 where "S_IFCHR = 0x2000"
definition S_IFIFO :: u32 where "S_IFIFO = 0x1000"

definition S_ISUID :: u32 where "S_ISUID = 0x800"
definition S_ISGID :: u32 where "S_ISGID = 0x400"
definition S_ISVTX :: u32 where "S_ISVTX = 0x200"

lemmas mode_defs = MODE_PERM_def GO_MODE_DIR_def GO_MODE_SYMLINK_def GO_MODE_DEVICE_def GO_MODE_FIFO_def GO_MODE_SOCKET_def
  GO_MODE_SETUID_def GO_MODE_SETGID_def GO_MODE_CHARDEV_def GO_MODE_STICKY_def GO_MODE_IRREG_def S_IFFORMAT_def S_IFSOCK_def
  S_IFLNK_def S_IFREG_def S_IFBLK_def S_IFDIR_def S_IFCHR_def S_IFIFO_def S_ISUID_def S_ISGID_def S_ISVTX_def

definition go_format :: "u32 \<Rightarrow> u32" where
  "go_format format =
     (if format = S_IFSOCK then GO_MODE_SOCKET
      else if format = S_IFLNK then GO_MODE_SYMLINK
      else if format = S_IFBLK then GO_MODE_DEVICE
      else if format = S_IFDIR then GO_MODE_DIR
      else if format = S_IFCHR then GO_MODE_CHARDEV AND GO_MODE_DEVICE
      else if format = S_IFIFO then GO_MODE_FIFO
      else if format = S_IFREG then 0
      else GO_MODE_IRREG)"

definition map_mode_to_go :: "u32 \<Rightarrow> u32" where
  "map_mode_to_go mode =
     (let go_mode = mode AND MODE_PERM;
          go_mode = go_mode OR go_format (mode AND S_IFFORMAT);
          go_mode = (if mode AND S_ISUID > 0 then go_mode OR GO_MODE_SETUID else go_mode);
          go_mode = (if mode AND S_ISGID > 0 then go_mode OR GO_MODE_SETGID else go_mode);
          go_mode = (if mode AND S_ISVTX > 0 then go_mode OR GO_MODE_STICKY else go_mode)
      in go_mode)"

definition posix_format :: "u32 \<Rightarrow> u32" where
  "posix_format go_mode =
     (if go_mode AND GO_MODE_SOCKET > 0 then S_IFSOCK
      else if go_mode AND GO_MODE_SYMLINK > 0 then S_IFLNK
      else if go_mode AND GO_MODE_DEVICE > 0 \<and> go_mode AND GO_MODE_CHARDEV = 0 then S_IFBLK
      else if go_mode AND GO_MODE_DIR > 0 then S_IFDIR
      else if go_mode AND (GO_MODE_CHARDEV OR GO_MODE_DEVICE) > 0 then S_IFCHR
      else if go_mode AND GO_MODE_FIFO > 0 then S_IFIFO
      else if go_mode AND GO_MODE_IRREG > 0 then 0
      else S_IFREG)"

definition map_mode_from_go :: "u32 \<Rightarrow> u32" where
  "map_mode_from_go go_mode =
     (let mode = go_mode AND MODE_PERM;
          mode = mode OR posix_format go_mode;
          mode = (if go_mode AND GO_MODE_SETUID > 0 then mode OR S_ISUID else mode);
          mode = (if go_mode AND GO_MODE_SETGID > 0 then mode OR S_ISGID else mode);
          mode = (if go_mode AND GO_MODE_STICKY > 0 then mode OR S_ISVTX else mode)
      in mode)"

section \<open>The way back\<close>

text \<open>A single bit of a word is there or not.\<close>

lemma single_bit: "(m :: u32) AND 2 ^ n = (if bit m n then 2 ^ n else 0)"
  by (rule bit_word_eqI) (auto simp: bit_and_iff bit_exp_iff)

lemma flag_cases:
  "(m :: u32) AND S_ISUID = 0 \<or> m AND S_ISUID = S_ISUID" "m AND S_ISGID = 0 \<or> m AND S_ISGID = S_ISGID"
  "m AND S_ISVTX = 0 \<or> m AND S_ISVTX = S_ISVTX"
  using single_bit [of m 11] single_bit [of m 10] single_bit [of m 9] by (simp_all add: mode_defs split: if_splits)

lemma mode_parts:
  "(m :: u32) AND 0xFFFF = (m AND MODE_PERM) OR (m AND S_IFFORMAT) OR (m AND S_ISUID) OR (m AND S_ISGID) OR (m AND S_ISVTX)"
  by (simp add: mode_defs flip: bit.conj_disj_distrib)

lemma perm_and: "((m :: u32) AND MODE_PERM OR c) AND x = (m AND (MODE_PERM AND x)) OR (c AND x)"
  by (simp add: bit.conj_disj_distrib2 and.assoc)

text \<open>C40. A file mode survives the way to Go's encoding and back: for sockets, links, block devices, directories, fifos
  and regular files the type, the permissions and the set-user-id, set-group-id and sticky bits are as before.\<close>

theorem mode_roundtrip:
  assumes "m AND S_IFFORMAT \<in> {S_IFSOCK, S_IFLNK, S_IFBLK, S_IFDIR, S_IFIFO, S_IFREG}"
  shows "map_mode_from_go (map_mode_to_go m) = m AND 0xFFFF"
proof -
  obtain u g v where u: "m AND S_ISUID = u" "u = 0 \<or> u = S_ISUID" and g: "m AND S_ISGID = g" "g = 0 \<or> g = S_ISGID"
    and v: "m AND S_ISVTX = v" "v = 0 \<or> v = S_ISVTX" using flag_cases by blast
  obtain f where f: "m AND S_IFFORMAT = f" "f \<in> {S_IFSOCK, S_IFLNK, S_IFBLK, S_IFDIR, S_IFIFO, S_IFREG}" using assms by blast
  show ?thesis
    unfolding map_mode_to_go_def mode_parts u(1) g(1) v(1) f(1)
    using u(2) g(2) v(2) f(2)
    by (elim disjE insertE)
      (simp_all add: map_mode_from_go_def posix_format_def go_format_def Let_def mode_defs
        bit.conj_disj_distrib2 and.assoc or.assoc word_gt_0)
qed

theorem mode_roundtrip_witness:
  "map_mode_from_go (map_mode_to_go 0x89ED) = 0x89ED AND 0xFFFF"
  by (rule mode_roundtrip) (simp add: mode_defs)

text \<open>Of a character device the type is lost: the two bits Go sets are combined with \<^verbatim>\<open>&\<close>, which gives no bit.\<close>

lemma chardev_becomes_file:
  assumes "m AND S_IFFORMAT = S_IFCHR"
  shows "map_mode_from_go (map_mode_to_go m) AND S_IFFORMAT = S_IFREG"
proof -
  obtain u g v where u: "m AND S_ISUID = u" "u = 0 \<or> u = S_ISUID" and g: "m AND S_ISGID = g" "g = 0 \<or> g = S_ISGID"
    and v: "m AND S_ISVTX = v" "v = 0 \<or> v = S_ISVTX" using flag_cases by blast
  show ?thesis
    unfolding map_mode_to_go_def u(1) g(1) v(1) assms
    using u(2) g(2) v(2)
    by (elim disjE)
      (simp_all add: map_mode_from_go_def posix_format_def go_format_def Let_def mode_defs
        bit.conj_disj_distrib2 and.assoc or.assoc word_gt_0)
qed

end
