(* ===== verification/LocalSource.thy ===== *)
theory LocalSource
  imports RestorePlans NixMode "HOL-Library.AList"
begin

text \<open>
  The local file system as a destination (crates/backend/src/local/backend.rs and crates/backend/src/local/mapper.rs):
  a model of what the standard library does to the files of a Unix system, the operations of \<^verbatim>\<open>LocalSource\<close> on top of
  it, and the proof that they keep the contract of destinations.
\<close>

section \<open>The file system\<close>

text \<open>Files are inodes, so that hard links share their content. Every operation can be refused at a path; no file
  can be longer than the limit.\<close>

datatype entry = EFile nat | EDir | ELink bytes | ESpecial NodeType

record OsAttr =
  oa_perm :: u32
  oa_mtime :: "Timestamp option"
  oa_atime :: "Timestamp option"
  oa_created :: "Timestamp option"
  oa_uid :: u32
  oa_gid :: u32
  oa_ino :: u64
  oa_dev :: u64
  oa_xattrs :: "(rstr \<times> bytes) list"

record Disk =
  d_entries :: "(Path \<times> entry) list"
  d_files :: "nat \<Rightarrow> bytes"
  d_next :: nat
  d_attrs :: "Path \<Rightarrow> OsAttr"
  d_refused :: "Path \<Rightarrow> bool"
  d_limit :: nat
  d_user_name :: "u32 \<Rightarrow> rstr option"
  d_group_name :: "u32 \<Rightarrow> rstr option"
  d_user_id :: "rstr \<Rightarrow> u32 option"
  d_group_id :: "rstr \<Rightarrow> u32 option"

definition entry_at :: "Disk \<Rightarrow> Path \<Rightarrow> entry option" where
  "entry_at d q = map_of (d_entries d) q"

definition put_entry :: "Path \<Rightarrow> entry \<Rightarrow> Disk \<Rightarrow> Disk" where
  "put_entry q e d = d\<lparr>d_entries := AList.update q e (d_entries d)\<rparr>"

definition drop_entry :: "Path \<Rightarrow> Disk \<Rightarrow> Disk" where
  "drop_entry q d = d\<lparr>d_entries := AList.delete q (d_entries d)\<rparr>"

definition put_file :: "nat \<Rightarrow> bytes \<Rightarrow> Disk \<Rightarrow> Disk" where
  "put_file i c d = d\<lparr>d_files := (d_files d)(i := c)\<rparr>"

datatype os_error = OsNotFound | OsNotDir | OsLoop | OsExists | OsRefused

text \<open>Looking up a path from the directory \<open>cur\<close>. Links are followed, the last one only where the call does so.\<close>

function walk :: "nat \<Rightarrow> Disk \<Rightarrow> bool \<Rightarrow> Path \<Rightarrow> Path \<Rightarrow> os_error + Path" where
  "walk n d follow cur [] = Inr cur"
| "walk n d follow cur (RootDir # r) = walk n d follow [RootDir] r"
| "walk n d follow cur (CurDir # r) = walk n d follow cur r"
| "walk n d follow cur (ParentDir # r) = walk n d follow (if length cur \<le> 1 then cur else butlast cur) r"
| "walk n d follow cur (Normal s # r) =
    (let q = cur @ [Normal s] in
     case entry_at d q of
       Some (ELink t) \<Rightarrow>
         if r = [] \<and> \<not> follow then Inr q
         else (case n of 0 \<Rightarrow> Inl OsLoop | Suc m \<Rightarrow> walk m d follow cur (components t @ r))
     | Some EDir \<Rightarrow> walk n d follow q r
     | Some _ \<Rightarrow> if r = [] then Inr q else Inl OsNotDir
     | None \<Rightarrow> if r = [] then Inr q else Inl OsNotFound)"
  by pat_completeness auto
termination by (relation "measures [\<lambda>(n, d, follow, cur, r). n, \<lambda>(n, d, follow, cur, r). length r]") auto

definition os_lookup :: "bool \<Rightarrow> Path \<Rightarrow> Disk \<Rightarrow> os_error + Path" where
  "os_lookup follow path d = (case walk 40 d follow [RootDir] path of
     Inl e \<Rightarrow> Inl e | Inr q \<Rightarrow> if d_refused d q then Inl OsRefused else Inr q)"

definition os_open_write :: "bool \<Rightarrow> Path \<Rightarrow> Disk \<Rightarrow> (nat \<times> Disk) option" where
  "os_open_write trunc path d = (case os_lookup True path d of
     Inl _ \<Rightarrow> None
   | Inr q \<Rightarrow> (case entry_at d q of
       Some (EFile i) \<Rightarrow> Some (i, if trunc then put_file i [] d else d)
     | None \<Rightarrow> if entry_at d (butlast q) = Some EDir
         then Some (d_next d, put_entry q (EFile (d_next d)) (put_file (d_next d) [] d)\<lparr>d_next := Suc (d_next d)\<rparr>) else None
     | _ \<Rightarrow> None))"

definition os_set_len :: "nat \<Rightarrow> nat \<Rightarrow> Disk \<Rightarrow> bool \<times> Disk" where
  "os_set_len i n d = (if n > d_limit d then (False, d) else (True, put_file i (resize n (d_files d i)) d))"

definition os_write :: "nat \<Rightarrow> nat \<Rightarrow> bytes \<Rightarrow> Disk \<Rightarrow> bool \<times> Disk" where
  "os_write i off data d =
     (if off + length data > d_limit d then (False, d)
      else let c = d_files d i in (True, put_file i (overwrite off data (c @ replicate (off - length c) 0)) d))"

definition os_new_entry :: "Path \<Rightarrow> entry \<Rightarrow> Disk \<Rightarrow> os_error + Disk" where
  "os_new_entry path e d = (case os_lookup False path d of
     Inl er \<Rightarrow> Inl er
   | Inr q \<Rightarrow> if entry_at d q \<noteq> None then Inl OsExists
       else if entry_at d (butlast q) \<noteq> Some EDir then Inl OsNotFound
       else Inr (put_entry q e d))"

definition os_is_dir :: "Path \<Rightarrow> Disk \<Rightarrow> bool" where
  "os_is_dir path d = (case os_lookup True path d of Inl _ \<Rightarrow> False | Inr q \<Rightarrow> entry_at d q = Some EDir)"

text \<open>\<^verbatim>\<open>std::fs::create_dir_all\<close>.\<close>

function os_create_dir_all :: "Path \<Rightarrow> Disk \<Rightarrow> bool \<times> Disk" where
  "os_create_dir_all path d =
     (if path = [] then (True, d)
      else case os_new_entry path EDir d of
        Inr d \<Rightarrow> (True, d)
      | Inl e \<Rightarrow>
          if e \<noteq> OsNotFound then (os_is_dir path d, d)
          else if last path = RootDir then (False, d)
          else case os_create_dir_all (butlast path) d of (ok, d) \<Rightarrow>
            if \<not> ok then (False, d)
            else case os_new_entry path EDir d of Inr d \<Rightarrow> (True, d) | Inl _ \<Rightarrow> (os_is_dir path d, d))"
  by pat_completeness auto
termination by (relation "measure (\<lambda>(path, d). length path)") auto

declare os_create_dir_all.simps [simp del]

definition os_remove_file :: "Path \<Rightarrow> Disk \<Rightarrow> bool \<times> Disk" where
  "os_remove_file path d = (case os_lookup False path d of
     Inl _ \<Rightarrow> (False, d)
   | Inr q \<Rightarrow> if entry_at d q = None \<or> entry_at d q = Some EDir then (False, d) else (True, drop_entry q d))"

text \<open>Removing a directory fails as a whole where something below it is refused.\<close>

definition os_remove_dir_all :: "Path \<Rightarrow> Disk \<Rightarrow> bool \<times> Disk" where
  "os_remove_dir_all path d = (case os_lookup False path d of
     Inl _ \<Rightarrow> (False, d)
   | Inr q \<Rightarrow> (case entry_at d q of
       Some (ELink t) \<Rightarrow> (True, drop_entry q d)
     | Some EDir \<Rightarrow>
         if list_ex (\<lambda>(r, _). path_starts_with r q \<and> d_refused d r) (d_entries d) then (False, d)
         else (True, d\<lparr>d_entries := filter (\<lambda>(r, _). \<not> path_starts_with r q) (d_entries d)\<rparr>)
     | _ \<Rightarrow> (False, d)))"

definition os_hard_link :: "Path \<Rightarrow> Path \<Rightarrow> Disk \<Rightarrow> bool \<times> Disk" where
  "os_hard_link path item d = (case os_lookup False path d of
     Inl _ \<Rightarrow> (False, d)
   | Inr q \<Rightarrow> (case entry_at d q of
       None \<Rightarrow> (False, d)
     | Some e \<Rightarrow> if e = EDir then (False, d) else (case os_new_entry item e d of Inl _ \<Rightarrow> (False, d) | Inr d \<Rightarrow> (True, d))))"

definition os_rename :: "Path \<Rightarrow> Path \<Rightarrow> Disk \<Rightarrow> bool \<times> Disk" where
  "os_rename path to d = (case (os_lookup False path d, os_lookup False to d) of
     (Inr q, Inr r) \<Rightarrow> (case entry_at d q of
         None \<Rightarrow> (False, d)
       | Some e \<Rightarrow> if e = EDir \<or> entry_at d r = Some EDir \<or> entry_at d (butlast r) \<noteq> Some EDir then (False, d)
           else if q = r then (True, d) else (True, put_entry r e (drop_entry q d)))
   | _ \<Rightarrow> (False, d))"

definition os_attr :: "bool \<Rightarrow> (OsAttr \<Rightarrow> OsAttr) \<Rightarrow> Path \<Rightarrow> Disk \<Rightarrow> Disk" where
  "os_attr follow f path d = (case os_lookup follow path d of
     Inl _ \<Rightarrow> d
   | Inr q \<Rightarrow> if entry_at d q = None then d else d\<lparr>d_attrs := (d_attrs d)(q := f (d_attrs d q))\<rparr>)"

section \<open>Metadata\<close>

definition format_bits :: "entry \<Rightarrow> u32" where
  "format_bits e = (case e of
     EFile _ \<Rightarrow> S_IFREG | EDir \<Rightarrow> S_IFDIR | ELink _ \<Rightarrow> S_IFLNK
   | ESpecial t \<Rightarrow> (case t of Dev _ \<Rightarrow> S_IFBLK | Chardev _ \<Rightarrow> S_IFCHR | Fifo \<Rightarrow> S_IFIFO | _ \<Rightarrow> S_IFSOCK))"

definition os_len :: "Disk \<Rightarrow> entry \<Rightarrow> nat" where
  "os_len d e = (case e of EFile i \<Rightarrow> length (d_files d i) | ELink t \<Rightarrow> length t | _ \<Rightarrow> 0)"

definition nlink :: "Disk \<Rightarrow> entry \<Rightarrow> nat" where
  "nlink d e = (case e of EFile i \<Rightarrow> length (filter (\<lambda>(_, e'). e' = EFile i) (d_entries d)) | _ \<Rightarrow> 1)"

definition convert_meta :: "Disk \<Rightarrow> Path \<Rightarrow> entry \<Rightarrow> Metadata" where
  "convert_meta d q e = (let m = d_attrs d q in
     \<lparr>m_mode = Some (map_mode_to_go (oa_perm m OR format_bits e)),
      m_mtime = oa_mtime m, m_atime = oa_atime m, m_ctime = oa_created m,
      m_uid = Some (oa_uid m), m_gid = Some (oa_gid m), m_user = d_user_name d (oa_uid m), m_group = d_group_name d (oa_gid m),
      m_inode = (case e of EFile i \<Rightarrow> word_of_nat i | _ \<Rightarrow> oa_ino m), m_device_id = oa_dev m,
      m_size = (if e = EDir then 0 else word_of_nat (os_len d e)),
      m_links = (if e = EDir then 0 else word_of_nat (nlink d e)),
      m_extended_attributes = map (\<lambda>(n, v). \<lparr>ea_name = n, ea_value = Some v\<rparr>) (oa_xattrs m)\<rparr>)"

definition set_times :: "Metadata \<Rightarrow> OsAttr \<Rightarrow> OsAttr" where
  "set_times meta a = (case m_mtime meta of
     None \<Rightarrow> a
   | Some mtime \<Rightarrow> a\<lparr>oa_atime := Some (case m_atime meta of None \<Rightarrow> mtime | Some t \<Rightarrow> t), oa_mtime := Some mtime\<rparr>)"

definition set_uid_gid :: "Metadata \<Rightarrow> OsAttr \<Rightarrow> OsAttr" where
  "set_uid_gid meta a = a\<lparr>oa_uid := (case m_uid meta of None \<Rightarrow> oa_uid a | Some u \<Rightarrow> u), oa_gid := (case m_gid meta of None \<Rightarrow> oa_gid a | Some g \<Rightarrow> g)\<rparr>"

definition set_user_group :: "Disk \<Rightarrow> Metadata \<Rightarrow> OsAttr \<Rightarrow> OsAttr" where
  "set_user_group d meta a =
     (let user = Option.bind (m_user meta) (d_user_id d);
          uid = (case user of None \<Rightarrow> m_uid meta | Some u \<Rightarrow> Some u);
          group = Option.bind (m_group meta) (d_group_id d);
          gid = (case group of None \<Rightarrow> m_gid meta | Some g \<Rightarrow> Some g)
      in a\<lparr>oa_uid := (case uid of None \<Rightarrow> oa_uid a | Some u \<Rightarrow> u), oa_gid := (case gid of None \<Rightarrow> oa_gid a | Some g \<Rightarrow> g)\<rparr>)"

definition set_permission :: "Node \<Rightarrow> Path \<Rightarrow> Disk \<Rightarrow> Disk" where
  "set_permission node filename d =
     (if is_symlink node then d
      else case m_mode (n_meta node) of
        None \<Rightarrow> d
      | Some mode \<Rightarrow> os_attr True (\<lambda>a. a\<lparr>oa_perm := map_mode_from_go mode AND 0xFFF\<rparr>) filename d)"

text \<open>The attributes that are there are updated or removed, then the others are added.\<close>

definition set_extended_attributes :: "ExtendedAttribute list \<Rightarrow> (rstr \<times> bytes) list \<Rightarrow> (rstr \<times> bytes) list" where
  "set_extended_attributes eas old =
     (let value = (\<lambda>ea. unwrap_or [] (ea_value ea));
          kept = concat (map (\<lambda>(n, v). case find (\<lambda>ea. ea_name ea = n) eas of None \<Rightarrow> [] | Some ea \<Rightarrow> [(n, value ea)]) old);
          seen = (\<lambda>i. ea_name (eas ! i) \<in> set (map fst old) \<and> list_all (\<lambda>j. ea_name (eas ! j) \<noteq> ea_name (eas ! i)) [0..<i])
      in fold (\<lambda>i xs. if seen i then xs else AList.update (ea_name (eas ! i)) (value (eas ! i)) xs) [0..<length eas] kept)"

definition create_special :: "Node \<Rightarrow> Path \<Rightarrow> Disk \<Rightarrow> Disk" where
  "create_special node filename d =
     (case (case n_type node of
              Symlink _ _ \<Rightarrow> (case to_link (n_type node) of Inr t \<Rightarrow> Some (ELink t) | Inl _ \<Rightarrow> None)
            | File \<Rightarrow> None | Dir \<Rightarrow> None | t \<Rightarrow> Some (ESpecial t)) of
        None \<Rightarrow> d
      | Some e \<Rightarrow> (case os_new_entry filename e d of Inl _ \<Rightarrow> d | Inr d \<Rightarrow> d))"

section \<open>The operations of \<open>LocalSource\<close>\<close>

definition fix_path :: "Path \<Rightarrow> Path \<Rightarrow> Path" where
  "fix_path self path = join_force self path"

definition local_open_read :: "Path \<Rightarrow> Path \<Rightarrow> Disk \<Rightarrow> Reader option" where
  "local_open_read self path d = (case os_lookup True (fix_path self path) d of
     Inl _ \<Rightarrow> None
   | Inr q \<Rightarrow> (case entry_at d q of
       Some (EFile i) \<Rightarrow> Some (if d_files d i = [] then [] else [RData (d_files d i)])
     | Some EDir \<Rightarrow> Some [RError]
     | _ \<Rightarrow> None))"

definition local_stat :: "Path \<Rightarrow> Path \<Rightarrow> Disk \<Rightarrow> Metadata option option" where
  "local_stat self path d = (case os_lookup False (fix_path self path) d of
     Inl OsNotFound \<Rightarrow> Some None
   | Inl _ \<Rightarrow> None
   | Inr q \<Rightarrow> Some (map_option (convert_meta d q) (entry_at d q)))"

definition parse_file_type :: "entry \<Rightarrow> NodeType" where
  "parse_file_type e = (case e of ESpecial t \<Rightarrow> t | EDir \<Rightarrow> Dir | _ \<Rightarrow> File)"

text \<open>The nodes of a directory, in the order the system lists them.\<close>

definition local_readdir :: "Path \<Rightarrow> Path \<Rightarrow> Disk \<Rightarrow> Node rustic_result list option" where
  "local_readdir self path d = (case os_lookup True (fix_path self path) d of
     Inl _ \<Rightarrow> None
   | Inr r \<Rightarrow>
       if entry_at d r \<noteq> Some EDir then None
       else Some (map (\<lambda>(q, e). new_node (comp_bytes (last q)) (case e of ELink t \<Rightarrow> from_link t | _ \<Rightarrow> parse_file_type e) (convert_meta d q e))
         (filter (\<lambda>(q, _). q \<noteq> [] \<and> q \<noteq> [RootDir] \<and> butlast q = r) (d_entries d))))"

definition local_set_restore_metadata :: "Path \<Rightarrow> Path \<Rightarrow> Node \<Rightarrow> RestoreOptions \<Rightarrow> Disk \<Rightarrow> bool \<times> Disk" where
  "local_set_restore_metadata self path node opts d =
     (let path = fix_path self path;
          d = create_special node path d;
          d = (case (ro_no_ownership opts, ro_numeric_id opts) of
                 (True, _) \<Rightarrow> d
               | (False, True) \<Rightarrow> os_attr False (set_uid_gid (n_meta node)) path d
               | (False, False) \<Rightarrow> os_attr False (set_user_group d (n_meta node)) path d);
          d = set_permission node path d;
          d = os_attr False (\<lambda>a. a\<lparr>oa_xattrs := set_extended_attributes (m_extended_attributes (n_meta node)) (oa_xattrs a)\<rparr>) path d;
          d = os_attr False (set_times (n_meta node)) path d
      in (True, d))"

definition local_set_length :: "Path \<Rightarrow> Path \<Rightarrow> u64 \<Rightarrow> Disk \<Rightarrow> bool \<times> Disk" where
  "local_set_length self path sz d = (case os_open_write False (fix_path self path) d of
     None \<Rightarrow> (False, d) | Some (i, d) \<Rightarrow> os_set_len i (unat sz) d)"

definition local_write_at :: "Path \<Rightarrow> Path \<Rightarrow> u64 \<Rightarrow> bytes \<Rightarrow> Disk \<Rightarrow> bool \<times> Disk" where
  "local_write_at self path offset data d = (case os_open_write False (fix_path self path) d of
     None \<Rightarrow> (False, d) | Some (i, d) \<Rightarrow> os_write i (unat offset) data d)"

text \<open>The handle of \<^verbatim>\<open>open_replace\<close>, written to and closed; closing it does not fail.\<close>

definition local_replace :: "Path \<Rightarrow> Path \<Rightarrow> bytes list \<Rightarrow> Disk \<Rightarrow> replace_result \<times> Disk" where
  "local_replace self path chunks d = (case os_open_write True (fix_path self path) d of
     None \<Rightarrow> (WriteFailed, d)
   | Some (i, d) \<Rightarrow> (case os_write i 0 (concat chunks) d of (ok, d) \<Rightarrow> (if ok then Replaced else WriteFailed, d)))"

definition local_write_file :: "Path \<Rightarrow> bytes \<Rightarrow> Disk \<Rightarrow> bool \<times> Disk" where
  "local_write_file filename data d = (case os_open_write True filename d of
     None \<Rightarrow> (False, d)
   | Some (i, d) \<Rightarrow> (case os_set_len i (length data) d of (ok, d) \<Rightarrow> if ok then os_write i 0 data d else (False, d)))"

definition local_write_all :: "Path \<Rightarrow> Path \<Rightarrow> bytes \<Rightarrow> Disk \<Rightarrow> bool \<times> Disk" where
  "local_write_all self path data d =
     (let filename = fix_path self path in
      if filename = [] \<or> last filename = RootDir then (False, d)
      else case os_create_dir_all (butlast filename) d of (ok, d) \<Rightarrow>
      if \<not> ok then (False, d)
      else case path_file_name filename of
        None \<Rightarrow> (False, d)
      | Some name \<Rightarrow>
          let filename_tmp = path_push (butlast filename) (Normal (str_bytes (from_utf8_lossy name @ [0x2D, 0x74, 0x6D, 0x70, 0x2D]))) in
          (case local_write_file filename_tmp data d of (ok, d) \<Rightarrow>
           if ok then os_rename filename_tmp filename d
           else (False, snd (os_remove_file filename_tmp d))))"

definition local_hard_link :: "Path \<Rightarrow> Path \<Rightarrow> Path \<Rightarrow> Disk \<Rightarrow> bool \<times> Disk" where
  "local_hard_link self path item = os_hard_link (fix_path self path) (fix_path self item)"

definition local_source :: "Path \<Rightarrow> Disk WriteSource" where
  "local_source self = \<lparr>ws_open_read = local_open_read self, ws_stat = local_stat self,
     ws_create_dir_all = (\<lambda>p. os_create_dir_all (fix_path self p)),
     ws_remove_dir = (\<lambda>p. os_remove_dir_all (fix_path self p)), ws_remove_file = (\<lambda>p. os_remove_file (fix_path self p)),
     ws_set_restore_metadata = local_set_restore_metadata self, ws_set_length = local_set_length self,
     ws_write_at = local_write_at self, ws_replace = local_replace self,
     ws_hard_link = local_hard_link self,
     ws_can_random_write = True, ws_can_hard_link = True\<rparr>"


section \<open>The contract of destinations\<close>

text \<open>The place a path names where there are no links.\<close>

fun norm :: "Path \<Rightarrow> Path \<Rightarrow> Path" where
  "norm cur [] = cur"
| "norm cur (RootDir # r) = norm [RootDir] r"
| "norm cur (CurDir # r) = norm cur r"
| "norm cur (ParentDir # r) = norm (if length cur \<le> 1 then cur else butlast cur) r"
| "norm cur (Normal s # r) = norm (cur @ [Normal s]) r"

definition local_place :: "Path \<Rightarrow> Path \<Rightarrow> Path" where
  "local_place self p = norm [RootDir] (fix_path self p)"

definition local_above :: "Path \<Rightarrow> Path \<Rightarrow> Path set" where
  "local_above self p = set (map (\<lambda>n. norm [RootDir] (take n (fix_path self p))) [0..<Suc (length (fix_path self p))])"

definition disk_content :: "Disk \<Rightarrow> Path \<Rightarrow> bytes option" where
  "disk_content d q = (case entry_at d q of Some (EFile i) \<Rightarrow> Some (d_files d i) | _ \<Rightarrow> None)"

definition disk_other :: "Disk \<Rightarrow> Path \<Rightarrow> bool" where
  "disk_other d q = (case entry_at d q of None \<Rightarrow> False | Some (EFile i) \<Rightarrow> False | Some _ \<Rightarrow> True)"

text \<open>No links, neither symbolic nor hard.\<close>

definition disk_plain :: "Disk \<Rightarrow> bool" where
  "disk_plain d \<longleftrightarrow> (\<forall>q t. entry_at d q \<noteq> Some (ELink t)) \<and>
     (\<forall>q q' i. entry_at d q = Some (EFile i) \<longrightarrow> entry_at d q' = Some (EFile i) \<longrightarrow> q = q') \<and>
     (\<forall>q i. entry_at d q = Some (EFile i) \<longrightarrow> i < d_next d \<and> length (d_files d i) < 2 ^ 64)"

lemma entry_simps [simp]:
  "entry_at (put_entry q e d) r = (if r = q then Some e else entry_at d r)"
  "entry_at (put_file i c d) r = entry_at d r"
  "entry_at (drop_entry q d) r = (if r = q then None else entry_at d r)"
  "entry_at (d\<lparr>d_next := n\<rparr>) r = entry_at d r" "entry_at (d\<lparr>d_attrs := a\<rparr>) r = entry_at d r"
  "d_files (put_file i c d) = (d_files d)(i := c)" "d_files (put_entry q e d) = d_files d" "d_files (drop_entry q d) = d_files d"
  "d_next (put_file i c d) = d_next d" "d_next (put_entry q e d) = d_next d" "d_next (drop_entry q d) = d_next d"
  by (simp_all add: entry_at_def put_entry_def put_file_def drop_entry_def update_conv' delete_conv')

lemma walk_norm: "disk_plain d \<Longrightarrow> walk n d follow cur p = Inr q \<Longrightarrow> q = norm cur p"
proof (induction n d follow cur p rule: walk.induct)
  case (5 n d follow cur s r)
  then show ?case by (auto simp: Let_def disk_plain_def split: option.splits entry.splits if_splits)
qed simp_all

lemma os_lookup_norm: "disk_plain d \<Longrightarrow> os_lookup follow p d = Inr q \<Longrightarrow> q = norm [RootDir] p"
  using walk_norm by (auto simp: os_lookup_def split: sum.splits if_splits)

lemma put_file_plain:
  assumes "disk_plain d" "entry_at d q = Some (EFile i)" "length c < 2 ^ 64"
  shows "disk_plain (put_file i c d) \<and> disk_content (put_file i c d) = (disk_content d)(q \<mapsto> c)"
proof -
  have "j \<noteq> i" if "entry_at d r = Some (EFile j)" "r \<noteq> q" for r j
    using assms(1,2) that unfolding disk_plain_def by blast
  then have "disk_content (put_file i c d) = (disk_content d)(q \<mapsto> c)"
    using assms(2) by (auto simp: disk_content_def fun_eq_iff split: option.splits entry.splits)
  then show ?thesis using assms(1,3) by (auto simp: disk_plain_def)
qed

text \<open>Opening for writing finds or makes the file.\<close>

lemma os_open_write_plain:
  assumes "os_open_write False p d = Some (i, d')" "disk_plain d"
  shows "disk_plain d' \<and> entry_at d' (norm [RootDir] p) = Some (EFile i) \<and>
    disk_content d' = (disk_content d)(norm [RootDir] p \<mapsto> (case disk_content d (norm [RootDir] p) of None \<Rightarrow> [] | Some c \<Rightarrow> c))"
proof -
  obtain q where q: "os_lookup True p d = Inr q" using assms(1) by (auto simp: os_open_write_def split: sum.splits)
  have n: "norm [RootDir] p = q" using os_lookup_norm [OF assms(2) q] by simp
  consider "entry_at d q = Some (EFile i)" "d' = d"
    | "entry_at d q = None" "i = d_next d" "d' = put_entry q (EFile (d_next d)) (put_file (d_next d) [] d)\<lparr>d_next := Suc (d_next d)\<rparr>"
    using assms(1) q by (auto simp: os_open_write_def split: option.splits entry.splits if_splits)
  then show ?thesis
  proof cases
    case 1
    then show ?thesis using assms(2) by (auto simp: n disk_content_def fun_eq_iff)
  next
    case 2
    have fresh: "entry_at d r \<noteq> Some (EFile (d_next d))" for r using assms(2) unfolding disk_plain_def by blast
    have "disk_content d' = (disk_content d)(q \<mapsto> [])"
      using 2 fresh by (auto simp: disk_content_def fun_eq_iff split: option.splits entry.splits)
    moreover have "disk_plain d'" using assms(2) fresh unfolding disk_plain_def 2(3) by (auto simp: less_Suc_eq)
    ultimately show ?thesis using 2 by (simp add: n disk_content_def)
  qed
qed

lemma os_new_entry_dir:
  assumes "os_new_entry p EDir d = Inr d'" "disk_plain d"
  shows "disk_plain d' \<and> disk_content d' = disk_content d \<and> (\<forall>q. disk_other d' q \<longrightarrow> disk_other d q \<or> q = norm [RootDir] p)"
proof -
  obtain q where q: "os_lookup False p d = Inr q" "entry_at d q = None" "d' = put_entry q EDir d"
    using assms(1) by (auto simp: os_new_entry_def split: sum.splits if_splits)
  have n: "norm [RootDir] p = q" using os_lookup_norm [OF assms(2) q(1)] by simp
  show ?thesis using q(2) assms(2) by (auto simp: q(3) n disk_plain_def disk_content_def disk_other_def fun_eq_iff split: option.splits entry.splits)
qed

lemma os_create_dir_all_plain:
  "os_create_dir_all p d = (ok, d') \<Longrightarrow> disk_plain d \<Longrightarrow> disk_plain d' \<and> disk_content d' = disk_content d \<and>
   (\<forall>q. disk_other d' q \<longrightarrow> disk_other d q \<or> (\<exists>n \<le> length p. q = norm [RootDir] (take n p)))"
proof (induction p d arbitrary: ok d' rule: os_create_dir_all.induct)
  case (1 p d)
  show ?case
  proof (cases "p = []")
    case False
    show ?thesis
    proof (cases "os_new_entry p EDir d")
      case (Inr d1)
      then have "d' = d1" using 1(2) False by (subst (asm) os_create_dir_all.simps) simp
      then show ?thesis using os_new_entry_dir [OF Inr 1(3)] by (metis le_refl take_all)
    next
      case (Inl e)
      show ?thesis
      proof (cases "e \<noteq> OsNotFound \<or> last p = RootDir")
        case True
        then have "d' = d" using 1(2) False Inl by (subst (asm) os_create_dir_all.simps) (auto split: if_splits)
        then show ?thesis using 1(3) by simp
      next
        case nf: False
        obtain ok1 d1 where d1: "os_create_dir_all (butlast p) d = (ok1, d1)" by fastforce
        have IH: "disk_plain d1 \<and> disk_content d1 = disk_content d \<and>
          (\<forall>q. disk_other d1 q \<longrightarrow> disk_other d q \<or> (\<exists>n \<le> length (butlast p). q = norm [RootDir] (take n (butlast p))))"
          using 1(1) [OF False Inl _ _ d1 1(3)] nf by blast
        have pre: "\<exists>n \<le> length p. q = norm [RootDir] (take n p)" if ex: "\<exists>n \<le> length (butlast p). q = norm [RootDir] (take n (butlast p))" for q
        proof -
          obtain n where n: "n \<le> length (butlast p)" "q = norm [RootDir] (take n (butlast p))" using ex by blast
          have "take n (butlast p) = take n p" "n \<le> length p" using n(1) by (simp_all add: butlast_conv_take)
          then have "n \<le> length p \<and> q = norm [RootDir] (take n p)" using n(2) by simp
          then show ?thesis by blast
        qed
        show ?thesis
        proof (cases "ok1 \<and> (\<exists>d2. os_new_entry p EDir d1 = Inr d2)")
          case True
          then obtain d2 where d2: "os_new_entry p EDir d1 = Inr d2" by blast
          then have "d' = d2" using 1(2) False Inl nf d1 True by (subst (asm) os_create_dir_all.simps) simp
          moreover have "norm [RootDir] p = norm [RootDir] (take (length p) p)" by simp
          ultimately show ?thesis using os_new_entry_dir [OF d2] IH pre by (metis le_refl)
        next
          case no: False
          then have "d' = d1" using 1(2) False Inl nf d1 by (subst (asm) os_create_dir_all.simps) (auto split: sum.splits if_splits)
          then show ?thesis using IH pre by blast
        qed
      qed
    qed
  qed (use 1(2,3) in \<open>simp add: os_create_dir_all.simps\<close>)
qed

lemma disk_content_attrs [simp]:
  "disk_content (os_attr follow f p d) = disk_content d" "disk_content (set_permission node p d) = disk_content d"
  by (auto simp: os_attr_def set_permission_def disk_content_def fun_eq_iff split: sum.splits option.splits entry.splits)

lemma create_special_content: "disk_content (create_special node p d) = disk_content d"
proof -
  have "disk_content d' = disk_content d" if "os_new_entry p e d = Inr d'" "\<And>i. e \<noteq> EFile i" for e d'
    using that by (cases e) (auto simp: os_new_entry_def disk_content_def fun_eq_iff split: sum.splits if_splits option.splits entry.splits)
  then show ?thesis by (auto simp: create_special_def split: option.splits sum.splits NodeType.splits)
qed

lemma local_set_length_law:
  assumes "local_set_length self p n d = (True, d')" "disk_plain d"
  shows "disk_plain d' \<and> disk_content d' =
    (disk_content d)(local_place self p \<mapsto> resize (unat n) (case disk_content d (local_place self p) of None \<Rightarrow> [] | Some c \<Rightarrow> c))"
proof -
  obtain i d1 where o: "os_open_write False (fix_path self p) d = Some (i, d1)" "os_set_len i (unat n) d1 = (True, d')"
    using assms(1) by (auto simp: local_set_length_def split: option.splits)
  note op = os_open_write_plain [OF o(1) assms(2), folded local_place_def]
  have d': "d' = put_file i (resize (unat n) (d_files d1 i)) d1" using o(2) by (simp add: os_set_len_def split: if_splits)
  have f: "d_files d1 i = (case disk_content d (local_place self p) of None \<Rightarrow> [] | Some c \<Rightarrow> c)"
  proof -
    have "entry_at d1 (local_place self p) = Some (EFile i)" using op by blast
    then have "disk_content d1 (local_place self p) = Some (d_files d1 i)" by (simp add: disk_content_def)
    then show ?thesis using op by simp
  qed
  have "length (resize (unat n) (d_files d1 i)) < 2 ^ 64" using unsigned_less [of n] by simp
  from put_file_plain [OF conjunct1 [OF op] conjunct1 [OF conjunct2 [OF op]] this]
  show ?thesis using op unfolding d' by (simp add: f)
qed

lemma local_write_at_law:
  assumes "local_write_at self p off data d = (True, d')" "disk_plain d" "disk_content d (local_place self p) = Some c"
    and "unat off + length data \<le> length c"
  shows "disk_plain d' \<and> disk_content d' = (disk_content d)(local_place self p \<mapsto> overwrite (unat off) data c)"
proof -
  obtain i d1 where o: "os_open_write False (fix_path self p) d = Some (i, d1)" "os_write i (unat off) data d1 = (True, d')"
    using assms(1) by (auto simp: local_write_at_def split: option.splits)
  note op = os_open_write_plain [OF o(1) assms(2), folded local_place_def]
  have f: "d_files d1 i = c" 
  proof -
    have "entry_at d1 (local_place self p) = Some (EFile i)" using op by blast
    then have "disk_content d1 (local_place self p) = Some (d_files d1 i)" by (simp add: disk_content_def)
    then show ?thesis using op assms(3) by simp
  qed
  have d': "d' = put_file i (overwrite (unat off) data c) d1"
    using o(2) f assms(4) by (simp add: os_write_def Let_def split: if_splits)
  have "length c < 2 ^ 64" using op f unfolding disk_plain_def by blast
  then have "length (overwrite (unat off) data c) < 2 ^ 64" using assms(4) by simp
  from put_file_plain [OF conjunct1 [OF op] conjunct1 [OF conjunct2 [OF op]] this]
  show ?thesis using op assms(3) unfolding d' by simp
qed

interpretation local: write_source "local_source self" disk_content disk_other disk_plain "local_place self" "local_above self"
proof
  fix p n w w'
  assume "ws_set_length (local_source self) p n w = (True, w')" "disk_plain w"
  then show "disk_plain w' \<and> disk_content w' =
      (disk_content w)(local_place self p \<mapsto> resize (unat n) (case disk_content w (local_place self p) of None \<Rightarrow> [] | Some c \<Rightarrow> c))"
    by (intro local_set_length_law) (simp_all add: local_source_def)
next
  fix p off d w w' c
  assume "ws_write_at (local_source self) p off d w = (True, w')" "disk_plain w" "disk_content w (local_place self p) = Some c"
    "unat off + length d \<le> length c"
  then show "disk_plain w' \<and> disk_content w' = (disk_content w)(local_place self p \<mapsto> overwrite (unat off) d c)"
    by (intro local_write_at_law) (simp_all add: local_source_def)
next
  fix p w ok w'
  assume "ws_create_dir_all (local_source self) p w = (ok, w')" "disk_plain w"
  then have "os_create_dir_all (fix_path self p) w = (ok, w')" "disk_plain w" by (simp_all add: local_source_def)
  note c = os_create_dir_all_plain [OF this]
  have "\<exists>n \<le> length (fix_path self p). q = norm [RootDir] (take n (fix_path self p)) \<Longrightarrow> q \<in> local_above self p" for q
    by (auto simp: local_above_def simp del: upt_Suc)
  then show "disk_plain w' \<and> disk_content w' = disk_content w \<and> (\<forall>q. disk_other w' q \<longrightarrow> disk_other w q \<or> q \<in> local_above self p)"
    using c by blast
next
  fix p w r c
  assume r: "ws_open_read (local_source self) p w = Some r" and w: "disk_plain w" "disk_content w (local_place self p) = Some c"
  obtain q where q: "os_lookup True (fix_path self p) w = Inr q" using r by (auto simp: local_source_def local_open_read_def split: sum.splits)
  have "q = local_place self p" using os_lookup_norm [OF w(1) q] by (simp add: local_place_def)
  then show "reader_ok r \<and> reader_bytes r = c"
    using r q w(2) by (auto simp: local_source_def local_open_read_def disk_content_def reader_ok_def reader_bytes_def
      split: option.splits entry.splits if_splits)
next
  fix p w m
  assume m: "ws_stat (local_source self) p w = Some (Some m)" and w: "disk_plain w"
  obtain q e where q: "os_lookup False (fix_path self p) w = Inr q" "entry_at w q = Some e" "m = convert_meta w q e"
    using m by (auto simp: local_source_def local_stat_def split: sum.splits os_error.splits)
  have p: "q = local_place self p" using os_lookup_norm [OF w q(1)] by (simp add: local_place_def)
  have "length (d_files w i) < 2 ^ 64" if "e = EFile i" for i using w q(2) that unfolding disk_plain_def by blast
  moreover have "e \<noteq> ELink t" for t using w q(2) unfolding disk_plain_def by blast
  ultimately show "case disk_content w (local_place self p) of None \<Rightarrow> disk_other w (local_place self p) \<and> m_size m = 0
      | Some c \<Rightarrow> unat (m_size m) = length c"
    using q(2,3) by (cases e) (auto simp: disk_content_def disk_other_def p [symmetric] convert_meta_def Let_def os_len_def unat_u64_of_nat)
next
  fix p node opts w ok w'
  assume "ws_set_restore_metadata (local_source self) p node opts w = (ok, w')"
  then show "disk_content w' = disk_content w"
    by (auto simp: local_source_def local_set_restore_metadata_def Let_def create_special_content split: bool.splits)
qed

section \<open>Writing a file of the repository\<close>

text \<open>The temporary file of \<^verbatim>\<open>write_all\<close>.\<close>

definition tmp_path :: "Path \<Rightarrow> bytes \<Rightarrow> Path" where
  "tmp_path dir name = dir @ [Normal (str_bytes (from_utf8_lossy name @ [0x2D, 0x74, 0x6D, 0x70, 0x2D]))]"

lemma norm_snoc: "norm cur (dir @ [Normal s]) = norm cur dir @ [Normal s]"
  by (induction cur dir rule: norm.induct) simp_all

lemma os_open_write_truncates:
  assumes "os_open_write True p d = Some (i, d')" "disk_plain d"
  shows "disk_plain d' \<and> entry_at d' (norm [RootDir] p) = Some (EFile i) \<and> d_files d' i = [] \<and>
    disk_content d' = (disk_content d)(norm [RootDir] p \<mapsto> [])"
proof -
  obtain d1 where o: "os_open_write False p d = Some (i, d1)" "d' = d1 \<and> d_files d1 i = [] \<or> d' = put_file i [] d1"
    using assms(1) by (fastforce simp: os_open_write_def put_entry_def put_file_def split: sum.splits option.splits entry.splits if_splits)
  note op = os_open_write_plain [OF o(1) assms(2)]
  have e: "entry_at d1 (norm [RootDir] p) = Some (EFile i)" using op by blast
  then have c: "disk_content d1 (norm [RootDir] p) = Some (d_files d1 i)" by (simp add: disk_content_def)
  from o(2) show ?thesis
  proof
    assume "d' = put_file i [] d1"
    then show ?thesis using put_file_plain [OF conjunct1 [OF op] e, of "[]"] op by simp
  next
    assume d': "d' = d1 \<and> d_files d1 i = []"
    then have "disk_content d1 = (disk_content d1)(norm [RootDir] p \<mapsto> [])" using c by auto
    then show ?thesis using op d' by (metis fun_upd_upd)
  qed
qed

lemma local_write_file_plain:
  assumes "local_write_file p data d = (ok, d')" "disk_plain d" "length data < 2 ^ 64"
  shows "disk_plain d' \<and> (\<forall>q. q \<noteq> norm [RootDir] p \<longrightarrow> disk_content d' q = disk_content d q) \<and>
    (ok \<longrightarrow> disk_content d' (norm [RootDir] p) = Some data)"
proof (cases "os_open_write True p d")
  case (Some x)
  obtain i d1 where o: "os_open_write True p d = Some (i, d1)" using Some by (cases x) simp
  note op = os_open_write_truncates [OF o assms(2)]
  have e: "entry_at d1 (norm [RootDir] p) = Some (EFile i)" using op by blast
  let ?d2 = "put_file i (resize (length data) []) d1"
  have p2: "disk_plain ?d2 \<and> disk_content ?d2 = (disk_content d1)(norm [RootDir] p \<mapsto> resize (length data) [])"
    by (rule put_file_plain [OF conjunct1 [OF op] e]) (use assms(3) in simp)
  have w: "overwrite 0 data (resize (length data) []) = data" by (simp add: overwrite_def)
  have p3: "disk_plain (put_file i data ?d2) \<and> disk_content (put_file i data ?d2) = (disk_content ?d2)(norm [RootDir] p \<mapsto> data)"
    by (rule put_file_plain [OF conjunct1 [OF p2] _ assms(3)]) (use e in simp)
  have "d' = d1 \<and> \<not> ok \<or> d' = ?d2 \<and> \<not> ok \<or> d' = put_file i data ?d2 \<and> ok"
    using assms(1) o op by (auto simp: local_write_file_def os_set_len_def os_write_def Let_def w split: if_splits)
  then show ?thesis using op p2 p3 by auto
qed (use assms in \<open>simp add: local_write_file_def\<close>)

lemma os_rename_plain:
  assumes "os_rename p to d = (ok, d')" "disk_plain d" "norm [RootDir] p \<noteq> norm [RootDir] to"
  shows "disk_plain d' \<and> (if ok then disk_content d' = (disk_content d)(norm [RootDir] p := None, norm [RootDir] to := disk_content d (norm [RootDir] p))
    else d' = d)"
proof -
  consider "d' = d" "\<not> ok" | q r e where "os_lookup False p d = Inr q" "os_lookup False to d = Inr r" "entry_at d q = Some e" "e \<noteq> EDir"
      "q \<noteq> r \<longrightarrow> d' = put_entry r e (drop_entry q d)" "ok"
    using assms(1) by (auto simp: os_rename_def split: sum.splits option.splits if_splits)
  then show ?thesis
  proof cases
    case 2
    have n: "q = norm [RootDir] p" "r = norm [RootDir] to" using os_lookup_norm [OF assms(2)] 2(1,2) by blast+
    then have d': "d' = put_entry r e (drop_entry q d)" "q \<noteq> r" using 2(5) assms(3) by simp_all
    have "disk_plain d'" using assms(2) 2(3) d'(2) unfolding disk_plain_def d'(1) by (auto split: if_splits; metis)
    moreover have "disk_content d' = (disk_content d)(q := None, r := disk_content d q)"
      using 2(3) d'(2) by (auto simp: d'(1) disk_content_def fun_eq_iff split: option.splits entry.splits)
    ultimately show ?thesis using 2(6) n by simp
  qed (use assms(2) in simp)
qed

lemma os_remove_file_plain:
  assumes "disk_plain d"
  shows "disk_plain (snd (os_remove_file p d)) \<and> (\<forall>q. q \<noteq> norm [RootDir] p \<longrightarrow> disk_content (snd (os_remove_file p d)) q = disk_content d q)"
proof -
  have "snd (os_remove_file p d) = d \<or> (\<exists>q. os_lookup False p d = Inr q \<and> snd (os_remove_file p d) = drop_entry q d)"
    by (auto simp: os_remove_file_def split: sum.splits)
  then consider "snd (os_remove_file p d) = d" | q where "os_lookup False p d = Inr q" "snd (os_remove_file p d) = drop_entry q d" by blast
  then show ?thesis
  proof cases
    case 2
    then show ?thesis using assms os_lookup_norm [OF assms 2(1)]
      by (auto simp: 2(2) disk_plain_def disk_content_def split: option.splits entry.splits)
  qed (use assms in simp)
qed

text \<open>C12. A file of a local repository is written as a whole or not at all: when \<^verbatim>\<open>write_all\<close> succeeds the file has the
  new content and the temporary file is gone, when it fails every file but the temporary one is as before.\<close>

theorem write_all_atomic:
  assumes "disk_plain d" "fix_path self p = dir @ [Normal name]" "str_bytes (from_utf8_lossy name) = name" "length data < 2 ^ 64"
    and "local_write_all self p data d = (ok, d')"
  shows "if ok then disk_content d' = (disk_content d)(norm [RootDir] (tmp_path dir name) := None, local_place self p \<mapsto> data)
    else \<forall>q. q \<noteq> norm [RootDir] (tmp_path dir name) \<longrightarrow> disk_content d' q = disk_content d q"
proof -
  let ?tmp = "tmp_path dir name" and ?t = "norm [RootDir] (tmp_path dir name)"
  have pl: "local_place self p = norm [RootDir] (dir @ [Normal name])" by (simp add: local_place_def assms(2))
  have "str_bytes (from_utf8_lossy name @ [0x2D, 0x74, 0x6D, 0x70, 0x2D]) \<noteq> name"
    using assms(3) by (simp add: encode_utf8_def)
  then have ne: "?t \<noteq> local_place self p" by (simp add: pl norm_snoc tmp_path_def)
  have tmp: "path_push dir (Normal (str_bytes (from_utf8_lossy name @ [0x2D, 0x74, 0x6D, 0x70, 0x2D]))) = ?tmp"
    by (simp add: path_push_def tmp_path_def)
  obtain ok1 d1 where c: "os_create_dir_all dir d = (ok1, d1)" by fastforce
  have d1: "disk_plain d1" "disk_content d1 = disk_content d" using os_create_dir_all_plain [OF c assms(1)] by simp_all
  show ?thesis
  proof (cases ok1)
    case False
    then show ?thesis using assms(2,5) c d1 by (simp add: local_write_all_def Let_def)
  next
    case True
    obtain ok2 d2 where w: "local_write_file ?tmp data d1 = (ok2, d2)" by fastforce
    note d2 = local_write_file_plain [OF w d1(1) assms(4)]
    have run: "(if ok2 then os_rename ?tmp (dir @ [Normal name]) d2 else (False, snd (os_remove_file ?tmp d2))) = (ok, d')"
      using assms(2,5) c True w tmp by (simp add: local_write_all_def Let_def path_file_name_def del: str_bytes_simps)
    show ?thesis
    proof (cases ok2)
      case False
      then show ?thesis using run os_remove_file_plain [OF conjunct1 [OF d2], of ?tmp] d2 d1(2) by auto
    next
      case t: True
      have "os_rename ?tmp (dir @ [Normal name]) d2 = (ok, d')" using run t by simp
      note r = os_rename_plain [OF this conjunct1 [OF d2] ne [unfolded pl]]
      show ?thesis
      proof (cases ok)
        case True
        have "disk_content d2 q = disk_content d q" if "q \<noteq> ?t" for q using d2 d1(2) that by simp
        then show ?thesis using r True d2 t ne by (auto simp: pl fun_eq_iff)
      next
        case False
        then show ?thesis using r d2 d1(2) by simp
      qed
    qed
  qed
qed

end
