(* ===== verification/RestoreRun.thy ===== *)
theory RestoreRun
  imports LocalSource
begin

text \<open>
  A restore to the local file system (crates/core/src/commands/restore.rs with crates/backend/src/local/backend.rs) from
  the comparison with the destination to the metadata, and a small snapshot that is restored.
\<close>

section \<open>A restore to the local file system\<close>

definition disk_no_clash :: "(RestoreKey \<Rightarrow> bytes) \<Rightarrow> (bytes \<Rightarrow> Id) \<Rightarrow> RestoreKey set \<Rightarrow> Disk \<Rightarrow> bool" where
  "disk_no_clash D hash K d \<longleftrightarrow>
     (\<forall>p c a n k. disk_content d p = Some c \<longrightarrow> k \<in> K \<longrightarrow> hash (take n (drop a c)) = hash (D k) \<longrightarrow> take n (drop a c) = D k)"






section \<open>A small restore\<close>









definition rd_attr :: OsAttr where
  "rd_attr = \<lparr>oa_perm = 0x1A4, oa_mtime = None, oa_atime = None, oa_created = None, oa_uid = 0, oa_gid = 0, oa_ino = 0, oa_dev = 0, oa_xattrs = []\<rparr>"

definition rd_disk :: Disk where
  "rd_disk = \<lparr>d_entries = [([RootDir], EDir)], d_files = (\<lambda>_. []), d_next = 0, d_attrs = (\<lambda>_. rd_attr), d_refused = (\<lambda>_. False),
     d_limit = 1000, d_user_name = Map.empty, d_group_name = Map.empty, d_user_id = Map.empty, d_group_id = Map.empty\<rparr>"

definition rd_disk1 :: Disk where
  "rd_disk1 = put_entry [RootDir, Normal [97]] EDir rd_disk"


lemma rd_walk:
  "entry_at rd_disk q = (if q = [RootDir] then Some EDir else None)"
  "entry_at rd_disk1 q = (if q = [RootDir, Normal [97]] \<or> q = [RootDir] then Some EDir else None)"
  "d_refused rd_disk q = False" "d_refused rd_disk1 q = False"
  by (auto simp: entry_at_def rd_disk_def rd_disk1_def put_entry_def)

lemma rd_root: "os_create_dir_all [RootDir] rd_disk = (True, rd_disk)"
  by (simp add: os_create_dir_all.simps os_new_entry_def os_lookup_def os_is_dir_def rd_walk)


lemma rd_paths: "clean_path [RootDir] = []" "fix_path [RootDir] [] = [RootDir]" "join_force [] [Normal [97]] = [Normal [97]]"
  "join_force [] [Normal [97], Normal [98]] = [Normal [97], Normal [98]]"
  "fix_path [RootDir] [Normal [97]] = [RootDir, Normal [97]]"
  "fix_path [RootDir] [Normal [97], Normal [98]] = [RootDir, Normal [97], Normal [98]]"
  by (simp_all add: clean_path_def path_bytes_def trim_slashes_def fix_path_def join_force_def path_push_def) code_simp






lemma rd_plain: "disk_plain rd_disk" "disk_no_clash D hash K rd_disk"
  by (simp_all add: disk_plain_def disk_no_clash_def disk_content_def rd_walk)











section \<open>Hard links that are there\<close>

text \<open>Restoring a second time over the same directory fails at a hard link that is there already.\<close>

lemma hard_link_twice:
  assumes "hardlink_key node = Some key" "map_of candidates key = Some canonical" "canonical \<noteq> path"
    and "os_lookup False (fix_path self path) d = Inr q" "entry_at d q \<noteq> None"
  shows "\<exists>e. restore_link (local_source self) candidates path node d = Inl e"
proof -
  have "os_new_entry (fix_path self path) en d = Inl OsExists" for en
    using assms(4,5) by (simp add: os_new_entry_def)
  then have "os_hard_link (fix_path self canonical) (fix_path self path) d = (False, d)"
    by (auto simp: os_hard_link_def split: sum.splits option.splits)
  then show ?thesis using assms(1-3) by (simp add: restore_link_def local_source_def local_hard_link_def)
qed

lemma put_simps [simp]:
  "d_refused (put_file i c d) = d_refused d" "d_refused (put_entry q e d) = d_refused d"
  "d_limit (put_file i c d) = d_limit d" "d_limit (put_entry q e d) = d_limit d"
  by (simp_all add: put_file_def put_entry_def)

lemma rd_write_all: "\<exists>d'. local_write_all [RootDir] [Normal [97]] [1, 2] rd_disk = (True, d')"
proof -
  have n: "from_utf8_lossy [97] = [97]" by code_simp
  have p: "fix_path [RootDir] [Normal [97]] = [RootDir, Normal [97]]" by (simp add: rd_paths)
  have l: "d_limit rd_disk = 1000" by (simp add: rd_disk_def)
  show ?thesis
    by (simp add: local_write_all_def Let_def p rd_root n path_file_name_def path_push_def local_write_file_def os_open_write_def os_lookup_def
      rd_walk os_set_len_def os_write_def os_rename_def l encode_utf8_def del: from_utf8_lossy.simps)
qed

theorem write_all_atomic_witness:
  "\<exists>d'. local_write_all [RootDir] [Normal [97]] [1, 2] rd_disk = (True, d') \<and>
    disk_content d' = (disk_content rd_disk)(norm [RootDir] (tmp_path [RootDir] [97]) := None, local_place [RootDir] [Normal [97]] \<mapsto> [1, 2])"
proof -
  obtain d' where w: "local_write_all [RootDir] [Normal [97]] [1, 2] rd_disk = (True, d')" using rd_write_all by blast
  have "str_bytes (from_utf8_lossy [97]) = [97]" by code_simp
  moreover have "fix_path [RootDir] [Normal [97]] = [RootDir] @ [Normal [97]]" by (simp add: rd_paths)
  ultimately show ?thesis using write_all_atomic [OF rd_plain(1) _ _ _ w, of "[RootDir]" "[97]"] w by simp
qed

end
