(* ===== verification/RestoreAppend.thy ===== *)
theory RestoreAppend
  imports Restore
begin

text \<open>
  Destinations without random access (crates/core/src/commands/restore.rs, \<^verbatim>\<open>AppendState\<close>): the chunks of a file that
  arrive in any order are written in the right one; what goes wrong when one of them is never sent.
\<close>

section \<open>Chunks in any order\<close>

text \<open>The chunks of a file: each one starts where the one before it ends.\<close>

fun chunk_list :: "nat \<Rightarrow> bytes list \<Rightarrow> (u64 \<times> bytes) list" where
  "chunk_list off [] = []"
| "chunk_list off (d # ds) = (word_of_nat off, d) # chunk_list (off + length d) ds"

definition start_of :: "bytes list \<Rightarrow> nat \<Rightarrow> u64" where
  "start_of ds i = word_of_nat (length (concat (take i ds)))"

definition chunk_at :: "bytes list \<Rightarrow> nat \<Rightarrow> u64 \<times> bytes" where
  "chunk_at ds i = (start_of ds i, ds ! i)"

lemma chunk_list_nth: "chunk_list off ds = map (\<lambda>i. (word_of_nat (off + length (concat (take i ds))), ds ! i)) [0..<length ds]"
proof (induction ds arbitrary: off)
  case (Cons d ds)
  have "[0..<length (d # ds)] = 0 # map Suc [0..<length ds]" by (simp add: map_Suc_upt upt_conv_Cons del: upt_Suc)
  then show ?case using Cons by (simp add: comp_def add.assoc del: upt_Suc)
qed simp

lemma chunk_list_at: "chunk_list 0 ds = map (chunk_at ds) [0..<length ds]"
  by (simp add: chunk_list_nth chunk_at_def start_of_def)

lemma length_concat_take_less:
  assumes "[] \<notin> set ds" "i < j" "j \<le> length ds"
  shows "length (concat (take i ds)) < length (concat (take j ds))"
proof -
  have "i < length (take j ds)" using assms(2,3) by simp
  from id_take_nth_drop [OF this] obtain rest where "take j ds = take i ds @ ds ! i # rest"
    using assms(2) by (metis nth_take min.absorb1 less_imp_le_nat take_take)
  moreover have "ds ! i \<noteq> []" using assms by (metis less_le_trans nth_mem)
  ultimately show ?thesis by (simp add: length_concat)
qed

lemma start_of_inj:
  assumes "[] \<notin> set ds" "length (concat ds) < 2 ^ 64" "i \<le> length ds" "j \<le> length ds" "start_of ds i = start_of ds j"
  shows "i = j"
proof -
  have b: "length (concat (take k ds)) < 2 ^ 64" for k
    using assms(2) append_take_drop_id [of k ds] by (metis concat_append le_less_trans le_add1 length_append)
  have "length (concat (take i ds)) = length (concat (take j ds))"
    using assms(5) b [of i] b [of j] unfolding start_of_def by (metis unat_u64_of_nat)
  then show ?thesis using length_concat_take_less [OF assms(1)] assms(3,4) by (metis less_irrefl linorder_neqE_nat)
qed

text \<open>The first \<open>j\<close> chunks are written, those of \<open>P\<close> wait.\<close>

definition aw_ok :: "bytes list \<Rightarrow> nat \<Rightarrow> nat set \<Rightarrow> AppendWriter \<Rightarrow> bool" where
  "aw_ok ds j P a \<longleftrightarrow> j \<le> length ds \<and> P \<subseteq> {j..<length ds} \<and> aw_cursor a = start_of ds j \<and>
     aw_handle a = (if j = 0 then None else Some (take j ds)) \<and>
     (\<forall>w d. map_of (aw_pending a) w = Some d \<longleftrightarrow> (\<exists>i \<in> P. w = start_of ds i \<and> d = ds ! i))"

lemma aw_flush_ok:
  assumes "[] \<notin> set ds" "length (concat ds) < 2 ^ 64"
  shows "aw_ok ds j P a \<Longrightarrow> \<exists>j' P'. aw_ok ds j' P' (aw_flush a) \<and> j' \<notin> P' \<and> {0..<j'} \<union> P' = {0..<j} \<union> P"
proof (induction a arbitrary: j P rule: aw_flush.induct)
  case (1 a)
  note inj = start_of_inj [OF assms]
  have P: "P \<subseteq> {j..<length ds}" and cur: "aw_cursor a = start_of ds j"
    and pend: "\<And>w d. map_of (aw_pending a) w = Some d \<longleftrightarrow> (\<exists>i \<in> P. w = start_of ds i \<and> d = ds ! i)"
    and j0: "j \<le> length ds"
    using 1(2) by (auto simp: aw_ok_def)
  show ?case
  proof (cases "j \<in> P")
    case False
    then have "map_of (aw_pending a) (aw_cursor a) = None"
    proof -
      have "map_of (aw_pending a) (aw_cursor a) \<noteq> Some d" for d
      proof
        assume "map_of (aw_pending a) (aw_cursor a) = Some d"
        then obtain i where i: "i \<in> P" "start_of ds j = start_of ds i" using pend cur by auto
        then have "i \<le> length ds" using P by auto
        then show False using inj [OF j0 _ i(2)] i(1) False by simp
      qed
      then show ?thesis by auto
    qed
    then have "aw_flush a = a" by (subst aw_flush.simps) simp
    then show ?thesis using 1(2) False by auto
  next
    case True
    then have m: "map_of (aw_pending a) (aw_cursor a) = Some (ds ! j)" using pend cur by auto
    let ?a = "a\<lparr>aw_pending := bt_remove (aw_cursor a) (aw_pending a), aw_cursor := aw_cursor a + word_of_nat (length (ds ! j)),
         aw_handle := Some ((case aw_handle a of None \<Rightarrow> [] | Some h \<Rightarrow> h) @ [ds ! j])\<rparr>"
    have j: "j < length ds" using True P by auto
    have t: "take (Suc j) ds = take j ds @ [ds ! j]" by (simp add: take_Suc_conv_app_nth j)
    have "aw_ok ds (Suc j) (P - {j}) ?a"
      unfolding aw_ok_def
    proof (intro conjI allI)
      show "P - {j} \<subseteq> {Suc j..<length ds}" using P by (auto simp: Suc_le_eq order_le_neq_trans)
      show "aw_cursor ?a = start_of ds (Suc j)" using cur by (simp add: start_of_def t)
      show "aw_handle ?a = (if Suc j = 0 then None else Some (take (Suc j) ds))" using 1(2) by (simp add: aw_ok_def t)
      fix w d
      show "map_of (aw_pending ?a) w = Some d \<longleftrightarrow> (\<exists>i \<in> P - {j}. w = start_of ds i \<and> d = ds ! i)"
      proof (cases "w = start_of ds j")
        case True
        then show ?thesis using inj P j cur by fastforce
      next
        case False
        then show ?thesis using pend cur by auto
      qed
    qed (use j in simp)
    from "1.IH" [OF m this] obtain j' P' where
      "aw_ok ds j' P' (aw_flush ?a)" "j' \<notin> P'" "{0..<j'} \<union> P' = {0..<Suc j} \<union> (P - {j})" by blast
    moreover have "aw_flush a = aw_flush ?a" by (subst aw_flush.simps) (simp add: m)
    moreover have "{0..<Suc j} \<union> (P - {j}) = {0..<j} \<union> P" using True by (auto simp: less_Suc_eq)
    ultimately show ?thesis by metis
  qed
qed

lemma aw_receive_ok:
  assumes "[] \<notin> set ds" "length (concat ds) < 2 ^ 64" "aw_ok ds j P a" "i < length ds" "i \<notin> {0..<j} \<union> P"
  shows "\<exists>j' P'. aw_ok ds j' P' (aw_receive (chunk_at ds i) a) \<and> j' \<notin> P' \<and> {0..<j'} \<union> P' = insert i ({0..<j} \<union> P)"
proof -
  let ?a = "a\<lparr>aw_pending := bt_insert (start_of ds i) (ds ! i) (aw_pending a)\<rparr>"
  have P: "P \<subseteq> {j..<length ds}" and pend: "\<And>w d. map_of (aw_pending a) w = Some d \<longleftrightarrow> (\<exists>i \<in> P. w = start_of ds i \<and> d = ds ! i)"
    using assms(3) by (auto simp: aw_ok_def)
  have "map_of (aw_pending ?a) w = Some d \<longleftrightarrow> (\<exists>k \<in> insert i P. w = start_of ds k \<and> d = ds ! k)" for w d
  proof (cases "w = start_of ds i")
    case True
    have "k = i" if "k \<in> P" "start_of ds i = start_of ds k" for k
    proof -
      have "k \<le> length ds" using P that(1) by auto
      then show ?thesis using start_of_inj [OF assms(1,2) _ _ that(2)] assms(4) by simp
    qed
    then show ?thesis using True by auto
  next
    case False
    then show ?thesis using pend by simp
  qed
  then have "aw_ok ds j (insert i P) ?a" using assms(3-5) by (auto simp: aw_ok_def)
  from aw_flush_ok [OF assms(1,2) this] show ?thesis by (simp add: aw_receive_def chunk_at_def)
qed

lemma fold_receive_ok:
  assumes "[] \<notin> set ds" "length (concat ds) < 2 ^ 64"
  shows "distinct is \<Longrightarrow> set is \<subseteq> {0..<length ds} \<Longrightarrow>
    \<exists>j P. aw_ok ds j P (fold aw_receive (map (chunk_at ds) is) AppendWriter_new) \<and> j \<notin> P \<and> {0..<j} \<union> P = set is"
proof (induction "is" rule: rev_induct)
  case Nil
  have "aw_ok ds 0 {} AppendWriter_new" by (simp add: aw_ok_def AppendWriter_new_def start_of_def)
  then show ?case by auto
next
  case (snoc i "is")
  then obtain j P where a: "aw_ok ds j P (fold aw_receive (map (chunk_at ds) is) AppendWriter_new)" "{0..<j} \<union> P = set is" by auto
  show ?case using aw_receive_ok [OF assms a(1), of i] snoc.prems a(2) by simp
qed

text \<open>C11. The writer of an append-only destination writes the chunks of a file in their order, whatever order they
  arrive in, and keeps none back.\<close>

theorem append_any_order:
  assumes "[] \<notin> set ds" "length (concat ds) < 2 ^ 64" "mset xs = mset (chunk_list 0 ds)"
  shows "aw_handle (fold aw_receive xs AppendWriter_new) = (if ds = [] then None else Some ds) \<and>
    aw_pending (fold aw_receive xs AppendWriter_new) = []"
proof -
  have inj: "inj_on (chunk_at ds) {0..<length ds}"
    using start_of_inj [OF assms(1,2)] by (auto simp: inj_on_def chunk_at_def)
  obtain "is" where is_: "xs = map (chunk_at ds) is" "mset is = mset [0..<length ds]"
  proof -
    let ?g = "inv_into {0..<length ds} (chunk_at ds)"
    have m: "mset xs = image_mset (chunk_at ds) (mset [0..<length ds])" using assms(3) by (simp add: chunk_list_at)
    then have "set xs = chunk_at ds ` {0..<length ds}" by (metis list.set_map mset_map mset_eq_setD set_upt)
    then have "map (chunk_at ds) (map ?g xs) = xs" by (auto intro!: map_idI simp: f_inv_into_f)
    moreover have "mset (map ?g xs) = mset [0..<length ds]"
    proof -
      have "mset (map ?g xs) = image_mset ?g (image_mset (chunk_at ds) (mset [0..<length ds]))" by (simp only: mset_map m)
      also have "\<dots> = mset (map (\<lambda>i. ?g (chunk_at ds i)) [0..<length ds])" by (simp only: mset_map image_mset.compositionality comp_def)
      also have "map (\<lambda>i. ?g (chunk_at ds i)) [0..<length ds] = [0..<length ds]" by (rule map_idI) (use inj in simp)
      finally show ?thesis .
    qed
    ultimately show ?thesis using that by metis
  qed
  have d: "distinct is" "set is = {0..<length ds}" using is_(2) by (metis distinct_upt mset_eq_imp_distinct_iff, metis mset_eq_setD set_upt)
  obtain j P where a: "aw_ok ds j P (fold aw_receive xs AppendWriter_new)" "j \<notin> P" "{0..<j} \<union> P = {0..<length ds}"
    using fold_receive_ok [OF assms(1,2) d(1)] d(2) is_(1) by auto
  have "j = length ds" using a by (auto simp: aw_ok_def)
  moreover have "P = {}" using a calculation by (auto simp: aw_ok_def)
  moreover have "m = []" if "\<forall>w d. map_of m w = Some d \<longleftrightarrow> False" for m :: "(u64 \<times> bytes) list"
    using that by (cases m) (auto split: if_splits)
  ultimately show ?thesis using a(1) by (simp add: aw_ok_def)
qed

theorem append_any_order_witness:
  "aw_handle (fold aw_receive [(2, [7, 8]), (0, [5, 6])] AppendWriter_new) = Some [[5, 6], [7, 8]]"
  using append_any_order [of "[[5, 6], [7, 8]]" "[(2, [7, 8]), (0, [5, 6])]"] by simp

section \<open>A chunk that is never sent\<close>

text \<open>A blob that occurs twice among the pieces that matched: taking the matches back reaches only its last place.\<close>

lemma repeated_match_stays:
  assumes "af_r s = [(k, [a, b])]" "af_tentative s = [(k, n), (k, n)]"
  shows "af_r (flip_tentative s) = [(k, [a, b\<lparr>fl_matches := False\<rparr>])]"
  using assms by (simp add: flip_tentative_def ri_flip_def set_last_unmatched_def key_same_def case_prod_unfold)

text \<open>Without the first chunk nothing is written, and closing the writers reports no error.\<close>

lemma first_chunk_missing:
  assumes "\<forall>(start, data) \<in> set xs. start \<noteq> 0"
  shows "aw_handle (fold aw_receive xs AppendWriter_new) = None"
    "close_writer dest (path, fold aw_receive xs AppendWriter_new) w = Inr w"
proof -
  have "aw_handle (fold aw_receive xs AppendWriter_new) = None \<and> aw_cursor (fold aw_receive xs AppendWriter_new) = 0 \<and>
      map_of (aw_pending (fold aw_receive xs AppendWriter_new)) 0 = None"
    using assms
  proof (induction xs rule: rev_induct)
    case (snoc x xs)
    then show ?case by (auto simp: aw_receive_def aw_flush.simps)
  qed (simp add: AppendWriter_new_def)
  then show "aw_handle (fold aw_receive xs AppendWriter_new) = None"
    "close_writer dest (path, fold aw_receive xs AppendWriter_new) w = Inr w"
    by (simp_all add: close_writer_def)
qed

text \<open>A file of three blobs, the first two alike and there already: planned for an append-only destination, the
  first piece of the file counts as there and is not handed on, although the others are.\<close>

lemma append_plan_skips_first:
  assumes "data_length bl = 1" "data_length bl' = 1" "\<not> key_same (p, bl') (p, bl)"
    and "get_entry i = Inr \<lparr>ie_blob_type = t, ie_pack = p, ie_location = bl\<rparr>"
    and "get_entry i' = Inr \<lparr>ie_blob_type = t, ie_pack = p, ie_location = bl'\<rparr>"
    and "hash [1] = i" "hash [2] \<noteq> i'" "bl_offset bl < bl_offset bl'"
    and "foldR (add_blob hash get_entry False 0) [i, i, i']
       \<lparr>af_r = [], af_open = Some [RData [1, 1, 2]], af_pos = 0, af_unmatched = False, af_matched = 0, af_restore = 0, af_tentative = []\<rparr> = Inr s"
  shows "concat (map (\<lambda>e. concat (map snd (bls_blobs (pi_locations (pack_info e))))) (af_r s)) = [(0, 1), (0, 2)]"
  using assms less_not_sym [OF assms(8)]
  by (auto simp: add_blob_def Let_def blob_matches_reader_def hash_loop.simps flip_tentative_def ri_flip_def set_last_unmatched_def key_same_def
      key_less_def pack_info_def from_blob_location_def result_simps)

end
