(* ===== verification/Spec2Isabelle.thy ===== *)
theory Spec2Isabelle
  imports Indexer Chunker ExampleRun PruneProps SnapshotSelect Forget TreeStream TreeMerge ArchiveRun CheckRun RestoreRun RestoreAppend
begin

text \<open>
  A verification of rustic_core, the library behind the backup program rustic (repository format of restic).

  The program. A backup cuts files into chunks; chunks and directory trees are blobs, named by the hash of
  their content. The packer collects blobs into pack files, each of them encrypted and followed by an
  encrypted header; the indexer writes index files that say in which pack and where every blob lies. A
  snapshot file points to a tree. Everything is stored through the backend interface, below which lie the
  storage services and, stacked on top of each other, backends that split hot and cold data or only pretend to
  write. Reading goes through the index, which is loaded into sorted tables. Snapshots are selected, grouped
  and forgotten; pruning then repacks or removes packs whose blobs are no longer used.

  The theories, in the order they build on each other (sources are below crates/core/src):

  \<^item> Rust_Prelude: machine integers, \<open>RusticResult\<close> as a sum whose left part also records panics, the
    combinators for the question mark operator, little-endian numbers, slices, orderings (error.rs).
  \<^item> Ids, Blob, PackFile: ids and the search for unique prefixes (id.rs), blob types, locations and the
    coalescing of neighbouring reads (blob.rs), index files, file types and the binary pack header
    (repofile/indexfile.rs, repofile/packfile.rs, backend.rs).
  \<^item> Crypto: encryption of files and blobs, compression and the extra verification (crypto/aespoly1305.rs,
    backend/decrypt.rs). Cipher, zstd and SHA-256 are the fields of a record of parameters; what is assumed of
    them is that decryption inverts encryption, decompression inverts compression, and hashes have 32 bytes.
  \<^item> Config: the configuration file, its options and their validation (repofile/configfile.rs, commands/config.rs).
  \<^item> Backend: the backend traits as a record of operations on an explicit store, the in-memory backend of the
    tests, hot/cold and dry-run backends (backend.rs, backend/hotcold.rs, backend/dry_run.rs).
  \<^item> Indexer, Packer: the two writers as state records and operations on them (index/indexer.rs, blob/packer.rs).
    Their threads and channels appear as the sequence of blobs in the order they reach the raw packer.
  \<^item> BinarySorted: the collector, the sorted index and its lookups (index.rs, index/binarysorted.rs).
  \<^item> PackStore: packer, backend, indexer and index together: every stored pack can be read back.
  \<^item> Chunker: the two chunk iterators over a reader that may return short reads, interrupts and errors
    (chunker.rs, chunker/rabin.rs, chunker/fixed_size.rs).
  \<^item> Prune, PruneDecisions, PruneSafety, PruneRun, PruneCrash, PruneRepo, PruneProps: the prune plan with its
    options, statistics and decisions; the counters that decide which packs hold the last copy of a used blob;
    the run of the plan as an ordered list of repository operations and as a step relation that may be cut off
    anywhere; what holds at every cut (commands/prune.rs).
  \<^item> Snapshots, SnapshotSelect, Grouping: snapshot files, tags, delete marks, modification; requests by id,
    prefix or age; grouping (repofile/snapshotfile.rs and the files below repofile/snapshotfile).
  \<^item> Forget: the keep options and the loop that applies them (commands/forget.rs).
  \<^item> Utf8, Node: strict and lossy decoding of UTF-8 and hexadecimal digits as the standard library defines them;
    nodes of a tree with their metadata, the escaping of names and link targets, node modification
    (backend/node.rs, backend/node/modification.rs, backend/filters.rs).
  \<^item> Tree: trees, paths and their components, the search for nodes by path (blob/tree.rs).
  \<^item> TreeStream: the streamer that walks all trees below some roots once, as a step relation over the orders in
    which its threads may answer, and the search for used blobs built on it (blob/tree.rs, commands/prune.rs).
  \<^item> TreeMerge: merging trees with a heap of their first nodes (blob/tree.rs).
  \<^item> TreeIter, Parent, Archiver, ArchiveRun: a backup as a chain of stages over a sequence of events: the tree
    iterator opens and closes directories, the parents are walked along, files are cut into chunks, and closed
    directories become trees (archiver.rs and the files below archiver, the \<open>File\<close> of backend.rs).
  \<^item> IndexPacks: the iterator that turns an index back into packs (index/binarysorted.rs).
  \<^item> Check, CheckProps, CheckRun: the check of a repository as computations that collect findings; what it means that
    no error was found (commands/check.rs).
  \<^item> Restore, RestoreCollect: a restore; the destination as a record of operations, the plan that says which blob goes
    where, the packs to read, the worker threads as a step relation, the walk along destination and snapshot, links and
    metadata (commands/restore.rs, crypto/hasher.rs, the \<open>WriteSource\<close> of backend.rs).
  \<^item> RestoreProps, RestorePlans, RestoreAppend: what a destination promises, as a locale; under it a plan accounts for
    every blob of every file, and each interleaving of the threads that ends leaves the planned contents; the writers
    of destinations without random access.
  \<^item> NixMode, LocalSource, RestoreRun: the local file system as a destination, on a model of the calls of the standard
    library (crates/backend/src/local), its interpretation of the locale, and the restore to it.
  \<^item> ExampleRun: a concrete run on small blobs, for the instances of the theorems.
  \<^item> This theory: the properties that span the components.

  How state and operations correspond. A struct is a record with the names of its fields behind a short
  prefix, an enum a datatype; a method that changes \<open>self\<close> returns the new record; a fallible one returns
  \<open>rustic_result\<close>. Integers of fixed width are words and wrap as the release build does, except for counts and
  positions in memory (\<open>usize\<close>), which are natural numbers. What is drawn at random (nonces, keys) or read from
  the clock is an argument. Sorts whose result the code leaves open are parameters of which a theorem assumes
  that they sort.

  What the lemmas show. Each operation keeps the invariant of its component (\<open>rp_inv\<close> of the packer, the size
  and offset facts of packs, the validity of configurations); the packer and the index implement the abstract
  contract that what was added under an id is found under it; the chunkers compute content-defined chunks
  whatever the block sizes of the reader, for configurations whose chunk size is not 0 and whose minimal Rabin chunk is
  at least one read buffer; for these, a backup that counts no errors holds exactly its source, directories included; pruning loses no used blob at any point of its run; a restore brings back
  data with the hashes the snapshot asks for; forgetting follows the keep rule. Locales state the interfaces: what a backend promises (Backend, interpreted for the in-memory and the
  hot/cold backend), what an index promises, what grouping needs of the order of keys, and what a destination of a
  restore promises (RestoreProps, interpreted for the local file system).

  Bounds and fuel. Loops over lists are structural, the others have a termination proof; a chunk loop that the
  code itself does not bound is a partial function into option, and that it ends is a theorem. Merging trees
  follows the stored trees to an unknown depth and takes fuel; trees named by their hash cannot contain
  themselves, and then more fuel than the depth changes nothing (\<open>merge_trees_fuel\<close>). Theorems that need that a
  pack stays below 4 GiB or holds fewer than \<open>2^16\<close> blobs say so.

  Not modelled. Network, file system and external commands behind the backends (rest, rclone, opendal, warm-up),
  the cache directory, the repair commands, the virtual file system, copying and rewriting of snapshots, key derivation and JSON, progress bars, logging and the typestates of the
  repository facade, which only forward to the commands. The calendar of the crate jiff enters through
  parameters. Of a restore the cancellation is left out, and the theorem about it is for restores that do not delete, of
  snapshots without hard links, to a directory without links.
\<close>

section \<open>From a blob to a pack and back\<close>

text \<open>C3. A blob that is handed to the packer can be read back: after the packs of a run were
  written to a hot/cold backend and indexed, looking its id up in the index and reading the indexed
  range returns exactly its data. This holds for every blob the duplicate checks let through,
  whichever pack it ended in, with compression or without, as long as the ids determine the data and
  no two packs collide in their hash.\<close>

theorem store_run_blob_read_back:
  assumes "seal_ok p" "sort_entries_ok srt" "\<forall>it \<in> set items. item_ok p b it" "length nonce = 16"
    and "\<not> im_is_cold cold" "\<not> im_is_cold hot"
    and "no_collision p (run_loads p b isqrt t sizer nonce now items)" "same_id_same_data items"
    and "store_run p b isqrt srt (hot_cold_backend in_memory_backend in_memory_backend) t sizer nonce now items
           (cold, hot) = Inr (idx, s')"
    and "it \<in> set items" "\<not> pi_skipped it"
  shows "blob_from_backend p b
    (\<lambda>t i c off len. fst (be_read_partial (hot_cold_backend in_memory_backend in_memory_backend) t i c off len s'))
    (Index_get_id idx) t (pi_id it) = Inr (pi_data it)"
  using assms by (intro im_hc.hc.store_run_read_back [where s = "(cold, hot)"]) (simp_all add: im_inv_def)

theorem store_run_blob_read_back_witness:
  "\<exists>idx s'. store_run clear_prims demo_be (\<lambda>_. 0) (sort_key se_id) demo_hc Data (PackSizer_fixed 1000)
       (replicate 16 2) 0 [demo_item] (InMemory_new, InMemory_new) = Inr (idx, s') \<and>
     blob_from_backend clear_prims demo_be (\<lambda>t i c off len. fst (be_read_partial demo_hc t i c off len s'))
       (Index_get_id idx) Data (replicate 32 7) = Inr [1, 2, 7]"
proof -
  obtain idx s' where r: "store_run clear_prims demo_be (\<lambda>_. 0) (sort_key se_id) demo_hc Data (PackSizer_fixed 1000)
      (replicate 16 2) 0 [demo_item] (InMemory_new, InMemory_new) = Inr (idx, s')" using demo_run by blast
  have "same_id_same_data [demo_item]" by (simp add: same_id_same_data_def)
  from store_run_blob_read_back [OF clear_prims_ok(1) sort_key_entries_ok _ _ _ _ demo_no_collision this r,
      of demo_item] r
  show ?thesis using demo_item_ok by (auto simp: InMemory_new_def demo_item_def pi_skipped_def)
qed

text \<open>C5. Every run of the packer ends with well-formed packs that hold every blob it was given: the
  loads received by the file writer consist of the blobs, the encrypted header and its length, each
  entry of a pack points at bytes that decrypt to the data handed over under its id, and no blob that
  passed the duplicate checks is missing.\<close>

theorem pack_run_stores_all:
  assumes "seal_ok p" "\<forall>it \<in> set items. item_ok p b it" "length nonce = 16"
    and "pack_all p b isqrt items (RawPacker_new now (db_key b) t sizer) = Inr rp"
    and "rp_finalize p nonce now' rp = Inr (loads, stats, rp')"
  shows "stored_loads p b t (handed_over items) loads"
  using pack_all_store [OF rp_inv_new assms(1,2) store_inv_new assms(4)]
    rp_finalize_stored [OF _ assms(1,3) _ assms(5)] by simp

theorem pack_run_stores_all_witness:
  "\<exists>rp stats rp'. pack_all clear_prims demo_be (\<lambda>_. 0) [demo_item] demo_packer = Inr rp \<and>
     rp_finalize clear_prims (replicate 16 2) 0 rp = Inr ([(demo_file, demo_ip)], stats, rp') \<and>
     stored_loads clear_prims demo_be Data (handed_over [demo_item]) [(demo_file, demo_ip)]"
proof -
  obtain rp stats rp' where 1: "pack_all clear_prims demo_be (\<lambda>_. 0) [demo_item] demo_packer = Inr rp"
    and 2: "rp_finalize clear_prims (replicate 16 2) 0 rp = Inr ([(demo_file, demo_ip)], stats, rp')"
    using demo_finalize by blast
  have "stored_loads clear_prims demo_be Data (handed_over [demo_item]) [(demo_file, demo_ip)]"
    by (rule pack_run_stores_all [OF clear_prims_ok(1) _ _ _ 2])
      (use 1 demo_item_ok in \<open>simp_all add: demo_be_def\<close>)
  with 1 2 show ?thesis by blast
qed

text \<open>C9. The header of a pack can be rebuilt from the pack file alone: for every pack the packer sends,
  \<open>PackHeader::from_file\<close> on a backend that holds its bytes returns exactly the blobs of its index entry, without a
  size hint and with every hint that leaves room for the four bytes of the length in the file, be it smaller or
  larger than the header. (Larger hints: \<open>PackHeader_from_file_large_hint\<close>.)\<close>

theorem packed_header_from_file:
  assumes "good_pack p k load" and "reads_file rp pid (concat (fst load))"
    and "unat (case hint of None \<Rightarrow> 0 | Some n \<Rightarrow> n) + 4 \<le> length (concat (fst load))"
  shows "PackHeader_from_file eofp rp (Key_decrypt_data p k) pid hint (ip_pack_size (snd load))
    = Inr (ip_blobs (snd load))"
  by (rule good_pack_from_file [OF assms])

theorem packed_header_from_file_witness:
  "PackHeader_from_file (\<lambda>_. True)
     (\<lambda>_ _ _ off len. Inr (subslice (unat off) (unat off + unat len) (concat demo_file)))
     (Key_decrypt_data clear_prims []) [] (Some 40) (ip_pack_size demo_ip) = Inr (ip_blobs demo_ip)"
  using packed_header_from_file [OF demo_good_pack, of
      "\<lambda>_ _ _ off len. Inr (subslice (unat off) (unat off + unat len) (concat demo_file))" "[]" "Some 40" "\<lambda>_. True"]
  by (simp add: reads_file_def demo_file_def length_demo_hdr)

section \<open>From the snapshots to a pruned repository\<close>

text \<open>C7. Pruning keeps what the snapshots need. Let the used blobs be those that the search through the trees
  of the remaining snapshots found, however its threads interleaved, and let the plan made with them be run. Then
  wherever the run is cut off, every blob that one of these snapshots needs, its trees and the content of its
  files, is held by a pack file; when the run ends, it is found in a pack that is indexed and not marked.\<close>

theorem pruned_snapshots_intact:
  assumes "find_used_blobs list_ids get load ignore_snaps used_ids"
    and "prune_setting srt sb cr used_ids existing fs P"
    and "from_prune_options srt isqrt config opts now young_limit delete_limit used_ids total_size existing fs = Inr pl"
    and "prune_repository sb cr isqrt config opts pl = (ops, res)" "c_append_only config \<noteq> Some True"
    and "prune_run (known_packs existing fs) (fst ` set fs) (ops, start_world now' P fs) (ops', w)"
    and "list_ids = Inr ids" "i \<in> set ids" "i \<notin> set ignore_snaps" "get i = Inr sn" "b \<in> needed load {sn_tree sn}"
  shows "(\<exists>q bs. pw_packs w q = Some bs \<and> b \<in> bs) \<and> (ops' = [] \<longrightarrow> res = Inr () \<and> found False w b)"
proof -
  let ?c = "run_ctx existing fs opts pl"
  obtain ids' snaps where u: "list_ids = Inr ids'" "traverseR get (filter (\<lambda>i. i \<notin> set ignore_snaps) ids') = Inr snaps"
    "used_ids = map (\<lambda>i. (i, 0)) (sorted_list_of_set (needed load (set (map sn_tree snaps))))"
    "finite (needed load (set (map sn_tree snaps)))"
    using find_used_blobs_needed [OF assms(1)] .
  have "i \<in> set (filter (\<lambda>i. i \<notin> set ignore_snaps) ids')" using u(1) assms(7-9) by simp
  from list_all2_left [OF u(2) [unfolded traverseR_eq_Inr_iff] this] assms(10) have "sn_tree sn \<in> set (map sn_tree snaps)" by auto
  then have "b \<in> needed load (set (map sn_tree snaps))" using assms(11) needed_mono [of "{sn_tree sn}"] by blast
  then have b: "b \<in> fst ` set used_ids" using u(3,4) by (simp add: image_image)
  obtain A C where inv: "res = Inr ()" "run_inv ?c P (map_of fs) A C ops' w"
    and i: "cared_for ?c P (map_of fs) A C b" "found_start ?c P (map_of fs) b"
    using prune_run_inv [OF assms(2-6)] b by metis
  show ?thesis
  proof (cases "unfinished ops'")
    case True
    with unfinished_found [OF inv(2) i(2)] show ?thesis by auto
  next
    case False
    from finished_found [OF inv(2) i(1) False] have "found False w b" .
    moreover from this have "\<exists>q bs. pw_packs w q = Some bs \<and> b \<in> bs" unfolding found_def by blast
    ultimately show ?thesis using inv(1) by blast
  qed
qed

text \<open>The instance: one snapshot whose tree is empty and stored under the id of the used blob of the pruning
  example.\<close>

definition one_tree :: "TreeId \<Rightarrow> Tree rustic_result" where
  "one_tree i = Inr Tree_new"

lemma one_used: "find_used_blobs (Inr [[7]]) (\<lambda>_. Inr (demo_snap [1])) one_tree [] [([1], 0)]"
proof -
  let ?s = "\<lparr>ts_visited = {[1]}, ts_pending = [([], [1], 0)], ts_counter = [1], ts_finished_ids = 0\<rparr>"
  let ?s' = "\<lparr>ts_visited = {[1]}, ts_pending = [], ts_counter = [0], ts_finished_ids = 1\<rparr>"
  have "streamer_step one_tree ?s ([1], [], Tree_new) ?s'"
    using streamer_step.intros [of ?s "[]" "[1]" 0 one_tree Tree_new]
    by (simp add: streamer_done_def one_tree_def Tree_new_def finish_tree_def)
  from run_step [OF run_start this] have run: "streamer_run one_tree (streamer_new (map sn_tree [demo_snap [1]])) [([1], [], Tree_new)] ?s'"
    by (simp add: streamer_new_def add_root_def add_pending_def demo_snap_def)
  have "streamer_done ?s'" by (simp add: streamer_done_def)
  moreover have "traverseR (\<lambda>_. Inr (demo_snap [1])) (filter (\<lambda>i. i \<notin> set []) [[7]]) = Inr [demo_snap [1]]" by simp
  moreover have "used_in_trees (map sn_tree [demo_snap [1]]) [([1], [], Tree_new)] = Inr {[1]}"
    by (simp add: used_in_trees_def Tree_new_def demo_snap_def)
  ultimately have "find_used_blobs (Inr [[7]]) (\<lambda>_. Inr (demo_snap [1])) one_tree [] (map (\<lambda>i. (i, 0)) (sorted_list_of_set {[1]}))"
    using find_used_blobs.intros [OF refl _ run] by blast
  then show ?thesis by simp
qed

theorem pruned_snapshots_intact_witness:
  "\<exists>pl ops. ex_plan = Inr pl \<and> prune_repository (\<lambda>bs. bs) (\<lambda>ls. ls) (\<lambda>_. 0) ex_config ex_opts pl = (ops, Inr ()) \<and>
     prune_run ex_known (fst ` set ex_files) (ops, start_world 5 ex_packs ex_files) ([], ex_end) \<and>
     (\<forall>b \<in> needed one_tree {[1]}. found False ex_end b) \<and> [1] \<in> needed one_tree {[1]}"
proof -
  obtain pl where pl: "ex_plan = Inr pl" using ex_planned by blast
  obtain ops where ops: "prune_repository (\<lambda>bs. bs) (\<lambda>ls. ls) (\<lambda>_. 0) ex_config ex_opts pl = (ops, Inr ())"
    "prune_run ex_known (fst ` set ex_files) (ops, start_world 5 ex_packs ex_files) ([], ex_end)"
    using ex_program [OF pl] ex_run by metis
  have "found False ex_end b" if "b \<in> needed one_tree {[1]}" for b
    using pruned_snapshots_intact [OF one_used ex_setting pl ops(1) _ ops(2), of "[[7]]" "[7]" "demo_snap [1]" b] that
    by (simp add: ConfigFile_new_def ex_opts_def demo_snap_def)
  moreover have "[1] \<in> needed one_tree {[1]}" by (simp add: needed_def)
  ultimately show ?thesis using pl ops by blast
qed

end
